(* ===== verification/Prelude.thy ===== *)
theory Prelude
  imports Main "HOL-Library.AList" "HOL-Library.Sublist"
begin

text \<open>
  Shared vocabulary of the development: JavaScript values and nullish coalescing, the
  identifiers of \<^verbatim>\<open>packages/core/src/id.ts\<close>, the errors the framework throws, the
  state-and-exception actions every \<^verbatim>\<open>async\<close> method is translated to, insertion-ordered
  \<^verbatim>\<open>Map\<close>s as association lists, and the list operations \<^verbatim>\<open>slice\<close> and
  \<^verbatim>\<open>startsWith\<close>. The collection \<open>act\<close> holds the evaluation rules of actions,
  \<open>jmap\<close> the rules of maps.
\<close>

named_theorems act "evaluation of actions"
named_theorems jmap "insertion-ordered maps"

section \<open>JavaScript values\<close>

text \<open>
  A payload, an aggregate state, a saga state and a view are \<^verbatim>\<open>any\<close> in the source.
  Numbers are restricted to the integers (the versions, lengths and timestamps the framework
  computes with are safe integers).
\<close>

datatype jsval =
    JUndef
  | JNull
  | JBool bool
  | JNum int
  | JStr string
  | JArr "jsval list"
  | JObj "(string \<times> jsval) list"

definition nullish :: "jsval \<Rightarrow> bool" where
  "nullish v \<longleftrightarrow> v = JUndef \<or> v = JNull"

text \<open>The operator \<^verbatim>\<open>a ?? b\<close>, on values and on optional values.\<close>

definition coalesce :: "jsval \<Rightarrow> jsval \<Rightarrow> jsval" where
  "coalesce a b = (if nullish a then b else a)"

definition or_else :: "'a option \<Rightarrow> 'a \<Rightarrow> 'a" where
  "or_else a b = (case a of None \<Rightarrow> b | Some x \<Rightarrow> x)"

lemma or_else_simps [simp]: "or_else None b = b" "or_else (Some x) b = x"
  by (simp_all add: or_else_def)

section \<open>Decimal strings and identifiers\<close>

fun nat_string :: "nat \<Rightarrow> string" where
  "nat_string n = (if n < 10 then [char_of (48 + n)]
                   else nat_string (n div 10) @ [char_of (48 + n mod 10)])"

declare nat_string.simps [simp del]

definition int_string :: "int \<Rightarrow> string" where
  "int_string i = (if i < 0 then CHR ''-'' # nat_string (nat (- i)) else nat_string (nat i))"

text \<open>\<^verbatim>\<open>type ID = string | number | bigint\<close>.\<close>

datatype ID = IDStr string | IDNum int | IDBig int

text \<open>\<^verbatim>\<open>String(id)\<close>, also the value of \<^verbatim>\<open>${id}\<close> in a template string.\<close>

fun id_string :: "ID \<Rightarrow> string" where
  "id_string (IDStr s) = s"
| "id_string (IDNum n) = int_string n"
| "id_string (IDBig n) = int_string n"

text \<open>The composite key \<^verbatim>\<open>`${name}:${id}`\<close> under which every in-memory store files an
  instance.\<close>

definition instance_key :: "string \<Rightarrow> ID \<Rightarrow> string" where
  "instance_key name i = name @ '':'' @ id_string i"

lemma append_colon_eq:
  assumes "CHR '':'' \<notin> set a" and "CHR '':'' \<notin> set b"
  shows "a @ CHR '':'' # xs = b @ CHR '':'' # ys \<longleftrightarrow> a = b \<and> xs = ys"
  using assms
proof (induction a arbitrary: b)
  case Nil
  then show ?case by (cases b) auto
next
  case (Cons c a)
  then show ?case by (cases b) auto
qed

lemma instance_key_inject:
  assumes "CHR '':'' \<notin> set n" and "CHR '':'' \<notin> set n'"
  shows "instance_key n i = instance_key n' i' \<longleftrightarrow> n = n' \<and> id_string i = id_string i'"
  using append_colon_eq [OF assms] by (simp add: instance_key_def)

section \<open>Errors\<close>

text \<open>
  One constructor per error the framework throws; \<open>UserError\<close> is an error with that message thrown
  by user code or a library, \<open>DriverFailure\<close> an error object of a database driver with the
  properties the adapters inspect (a wrapping error keeps the driver's own in
  \<^verbatim>\<open>driverError\<close>), \<open>SyntaxError\<close> what \<^verbatim>\<open>JSON.parse\<close> throws,
  \<open>UndefinedReason\<close> a rejection with the reason \<^verbatim>\<open>undefined\<close>, \<open>ThrownValue\<close> any other
  thrown value that is no \<^verbatim>\<open>Error\<close> object (as \<^verbatim>\<open>String(value)\<close>),
  \<open>Retriable\<close> an error object on which \<^verbatim>\<open>retriable = true\<close> has been set, and
  \<open>NeverSettles\<close> is no error of the program but the outcome of awaiting a promise that is never
  settled.
\<close>

datatype driver_error = DriverError
  (de_code: "string option")
  (de_errno: "int option")
  (de_number: "int option")
  (de_message: "string option")
  (de_driverError: "driver_error option")

datatype error =
    ConcurrencyError string ID int int
  | LockTimeoutError string ID int
  | IdempotencyConflictError ID
  | UnitOfWorkCompleted
  | NestedUnitOfWork
  | NoCommandHandlerOnAggregate string string
  | NoPersistenceFor string
  | HandlerAlreadyRegistered string
  | NoHandlerRegistered string
  | AfterCursorUnsupported
  | NoDedupKey
  | TypeError
  | RangeError int
  | RetryLoopExhausted
  | DomainShutdownError
  | ProjectionNotFoundError string
  | StrongConsistencyRebuildError string
  | EventReaderUnavailableError
  | ViewStoreNotTruncatableError string
  | MissingViewStoreFactoryError string
  | ListenerRemovalUnsupported
  | CannotDeriveViewId string
  | ConfigError string string
  | NotConnected string
  | BusClosed string
  | ExchangeTypeMismatchError string string
  | UndefinedReason
  | ThrownValue string
  | SyntaxError
  | DriverFailure driver_error
  | NeverSettles
  | UserError string
  | Retriable error

definition is_concurrency_error :: "error \<Rightarrow> bool" where
  "is_concurrency_error e = (case e of ConcurrencyError _ _ _ _ \<Rightarrow> True | _ \<Rightarrow> False)"

lemma is_concurrency_error_simps [simp]:
  "is_concurrency_error (ConcurrencyError n i x a)"
  by (simp add: is_concurrency_error_def)

section \<open>Actions: state with exceptions\<close>

text \<open>
  An \<^verbatim>\<open>async\<close> method run to completion maps the state it finds to its outcome and the
  state it leaves. As in the source, a throw keeps the effects made before it.
\<close>

type_synonym ('s, 'a) action = "'s \<Rightarrow> (error + 'a) \<times> 's"

definition ret :: "'a \<Rightarrow> ('s, 'a) action" where
  "ret x s = (Inr x, s)"

definition throw :: "error \<Rightarrow> ('s, 'a) action" where
  "throw e s = (Inl e, s)"

definition bind_act :: "('s, 'a) action \<Rightarrow> ('a \<Rightarrow> ('s, 'b) action) \<Rightarrow> ('s, 'b) action" where
  "bind_act m f s = (case m s of (Inl e, s') \<Rightarrow> (Inl e, s') | (Inr x, s') \<Rightarrow> f x s')"

definition then_act :: "('s, unit) action \<Rightarrow> ('s, 'b) action \<Rightarrow> ('s, 'b) action" where
  "then_act m k = bind_act m (\<lambda>_. k)"

definition lift_result :: "error + 'a \<Rightarrow> ('s, 'a) action" where
  "lift_result r s = (r, s)"

text \<open>\<^verbatim>\<open>try { m } catch (e) { h(e) }\<close>, \<^verbatim>\<open>try { m } catch {}\<close> and
  \<^verbatim>\<open>try { m } finally { f }\<close>; a throw from the \<^verbatim>\<open>finally\<close> block wins.\<close>

definition catch_act :: "('s, 'a) action \<Rightarrow> (error \<Rightarrow> ('s, 'a) action) \<Rightarrow> ('s, 'a) action" where
  "catch_act m h s = (case m s of (Inl e, s') \<Rightarrow> h e s' | (Inr x, s') \<Rightarrow> (Inr x, s'))"

definition swallow :: "('s, unit) action \<Rightarrow> ('s, unit) action" where
  "swallow m s = (Inr (), snd (m s))"

definition finally_act :: "('s, 'a) action \<Rightarrow> ('s, unit) action \<Rightarrow> ('s, 'a) action" where
  "finally_act m f s = (case m s of (r, s') \<Rightarrow>
     (case f s' of (Inl e, s'') \<Rightarrow> (Inl e, s'') | (Inr _, s'') \<Rightarrow> (r, s'')))"

text \<open>An action on one component of a pair of states.\<close>

definition on_fst :: "('s, 'a) action \<Rightarrow> ('s \<times> 'u, 'a) action" where
  "on_fst m s = (case m (fst s) of (r, x) \<Rightarrow> (r, (x, snd s)))"

definition on_snd :: "('u, 'a) action \<Rightarrow> ('s \<times> 'u, 'a) action" where
  "on_snd m s = (case m (snd s) of (r, y) \<Rightarrow> (r, (fst s, y)))"

text \<open>\<^verbatim>\<open>for (const x of xs) { await f(x) }\<close>\<close>

fun for_each :: "('a \<Rightarrow> ('s, unit) action) \<Rightarrow> 'a list \<Rightarrow> ('s, unit) action" where
  "for_each f [] s = (Inr (), s)"
| "for_each f (x # xs) s =
     (case f x s of (Inl e, s') \<Rightarrow> (Inl e, s') | (Inr _, s') \<Rightarrow> for_each f xs s')"

lemma ret_eval [act]: "ret x s = (Inr x, s)"
  by (simp add: ret_def)

lemma throw_eval [act]: "throw e s = (Inl e, s)"
  by (simp add: throw_def)

lemma lift_result_eval [act]: "lift_result r s = (r, s)"
  by (simp add: lift_result_def)

lemma bind_act_Inl [act]: "m s = (Inl e, s') \<Longrightarrow> bind_act m f s = (Inl e, s')"
  by (simp add: bind_act_def)

lemma bind_act_Inr [act]: "m s = (Inr x, s') \<Longrightarrow> bind_act m f s = f x s'"
  by (simp add: bind_act_def)

lemma bind_ret [act]: "bind_act (ret x) f = f x"
  by (simp add: bind_act_def ret_def fun_eq_iff)

lemma bind_throw [act]: "bind_act (throw e) f = throw e"
  by (simp add: bind_act_def throw_def fun_eq_iff)

lemma bind_lift_Inr [act]: "bind_act (lift_result (Inr x)) f = f x"
  by (simp add: bind_act_def lift_result_def fun_eq_iff)

lemma bind_lift_Inl [act]: "bind_act (lift_result (Inl e)) f = throw e"
  by (simp add: bind_act_def lift_result_def throw_def fun_eq_iff)

lemma bind_ret_right: "bind_act m ret = m"
  by (auto simp: bind_act_def ret_def fun_eq_iff split: prod.splits sum.splits)

lemma bind_assoc: "bind_act (bind_act m f) g = bind_act m (\<lambda>x. bind_act (f x) g)"
  by (auto simp: bind_act_def fun_eq_iff split: prod.splits sum.splits)

lemma bind_act_split:
  "bind_act m f s = (r, s') \<longleftrightarrow>
     (\<exists>e. m s = (Inl e, s') \<and> r = Inl e) \<or> (\<exists>x s1. m s = (Inr x, s1) \<and> f x s1 = (r, s'))"
  by (cases "m s") (auto simp: bind_act_def split: sum.splits)

lemma then_act_Inl [act]: "m s = (Inl e, s') \<Longrightarrow> then_act m k s = (Inl e, s')"
  by (simp add: then_act_def act)

lemma then_act_Inr [act]: "m s = (Inr x, s') \<Longrightarrow> then_act m k s = k s'"
  by (simp add: then_act_def act)

lemma catch_act_Inl [act]: "m s = (Inl e, s') \<Longrightarrow> catch_act m h s = h e s'"
  by (simp add: catch_act_def)

lemma catch_act_Inr [act]: "m s = (Inr x, s') \<Longrightarrow> catch_act m h s = (Inr x, s')"
  by (simp add: catch_act_def)

lemma swallow_total [simp]: "fst (swallow m s) = Inr ()"
  by (simp add: swallow_def)

lemma swallow_eval [act]: "m s = (r, s') \<Longrightarrow> swallow m s = (Inr (), s')"
  by (simp add: swallow_def)

lemma finally_act_Inr [act]:
  "m s = (r, s') \<Longrightarrow> f s' = (Inr u, s'') \<Longrightarrow> finally_act m f s = (r, s'')"
  by (simp add: finally_act_def)

lemma for_each_append:
  "for_each f (xs @ ys) s =
     (case for_each f xs s of (Inl e, s') \<Rightarrow> (Inl e, s') | (Inr _, s') \<Rightarrow> for_each f ys s')"
  by (induction xs arbitrary: s) (auto split: prod.splits sum.splits)

lemma for_each_total:
  assumes "\<And>x s. x \<in> set xs \<Longrightarrow> fst (f x s) = Inr ()"
  shows "for_each f xs s = (Inr (), fold (\<lambda>x s. snd (f x s)) xs s)"
  using assms
proof (induction xs arbitrary: s)
  case Nil
  then show ?case by simp
next
  case (Cons x xs)
  from Cons.prems [of x s] obtain s1 where "f x s = (Inr (), s1)"
    by (cases "f x s") simp
  with Cons show ?case by simp
qed

text \<open>A throwing loop stops at the first failing element; everything before it has run.\<close>

lemma for_each_Inl:
  assumes "for_each f xs s = (Inl e, s')"
  shows "\<exists>ys x zs s1. xs = ys @ x # zs \<and> for_each f ys s = (Inr (), s1) \<and> f x s1 = (Inl e, s')"
  using assms
proof (induction xs arbitrary: s)
  case Nil
  then show ?case by simp
next
  case (Cons x xs)
  obtain r s1 where fx: "f x s = (r, s1)" by (cases "f x s")
  show ?case
  proof (cases r)
    case (Inl a)
    with Cons.prems fx show ?thesis
      by (intro exI [of _ "[]"] exI [of _ x] exI [of _ xs] exI [of _ s]) simp
  next
    case (Inr u)
    with Cons.prems fx have "for_each f xs s1 = (Inl e, s')" by simp
    then obtain ys y zs s2 where "xs = ys @ y # zs" "for_each f ys s1 = (Inr (), s2)"
        "f y s2 = (Inl e, s')"
      using Cons.IH by blast
    with fx Inr show ?thesis
      by (intro exI [of _ "x # ys"] exI [of _ y] exI [of _ zs] exI [of _ s2]) simp
  qed
qed

text \<open>\<open>keeps f m\<close>: the action leaves what \<open>f\<close> reads alone, whether it throws or not.\<close>

definition keeps :: "('s \<Rightarrow> 'x) \<Rightarrow> ('s, 'a) action \<Rightarrow> bool" where
  "keeps f m \<longleftrightarrow> (\<forall>s. f (snd (m s)) = f s)"

named_theorems keeps_intros "what actions leave alone"

lemma keepsD: "keeps f m \<Longrightarrow> m s = (r, s') \<Longrightarrow> f s' = f s"
  by (metis keeps_def snd_conv)

lemma keeps_ret [keeps_intros]: "keeps f (ret x)" and keeps_throw [keeps_intros]: "keeps f (throw e)"
  and keeps_lift [keeps_intros]: "keeps f (lift_result r)"
  by (simp_all add: keeps_def act)

lemma keeps_bind [keeps_intros]:
  assumes "keeps f m" and "\<And>x. keeps f (k x)"
  shows "keeps f (bind_act m k)"
  using assms by (auto simp: keeps_def bind_act_def split: prod.splits sum.splits) (metis snd_conv)+

lemma keeps_then [keeps_intros]: "keeps f m \<Longrightarrow> keeps f k \<Longrightarrow> keeps f (then_act m k)"
  by (simp add: then_act_def keeps_bind)

lemma keeps_catch [keeps_intros]:
  assumes "keeps f m" and "\<And>e. keeps f (h e)"
  shows "keeps f (catch_act m h)"
  using assms by (auto simp: keeps_def catch_act_def split: prod.splits sum.splits) (metis snd_conv)+

lemma keeps_swallow [keeps_intros]: "keeps f m \<Longrightarrow> keeps f (swallow m)"
  by (simp add: keeps_def swallow_def)

lemma keeps_for_each [keeps_intros]:
  assumes "\<And>x. keeps f (g x)"
  shows "keeps f (for_each g xs)"
proof -
  have "f (snd (for_each g xs s)) = f s" for s
  proof (induction xs arbitrary: s)
    case Nil
    then show ?case by simp
  next
    case (Cons x xs)
    obtain r s1 where g: "g x s = (r, s1)" by (cases "g x s")
    then have "f s1 = f s" using assms keepsD by metis
    with Cons.IH [of s1] g show ?case by (cases r) simp_all
  qed
  then show ?thesis by (simp add: keeps_def)
qed

lemma keeps_if [keeps_intros]: "keeps f m \<Longrightarrow> keeps f k \<Longrightarrow> keeps f (if b then m else k)"
  by simp

section \<open>Insertion-ordered maps\<close>

text \<open>
  A JavaScript \<^verbatim>\<open>Map\<close> iterates in insertion order and keeps a key's position when its
  value is overwritten, which is what \<^const>\<open>AList.update\<close> does on an association list.
\<close>

type_synonym ('k, 'v) jmap = "('k \<times> 'v) list"

definition jm_get :: "('k, 'v) jmap \<Rightarrow> 'k \<Rightarrow> 'v option" where
  "jm_get m k = map_of m k"

definition jm_has :: "('k, 'v) jmap \<Rightarrow> 'k \<Rightarrow> bool" where
  "jm_has m k \<longleftrightarrow> map_of m k \<noteq> None"

definition jm_set :: "'k \<Rightarrow> 'v \<Rightarrow> ('k, 'v) jmap \<Rightarrow> ('k, 'v) jmap" where
  "jm_set k v m = AList.update k v m"

definition jm_delete :: "'k \<Rightarrow> ('k, 'v) jmap \<Rightarrow> ('k, 'v) jmap" where
  "jm_delete k m = AList.delete k m"

definition jm_ok :: "('k, 'v) jmap \<Rightarrow> bool" where
  "jm_ok m \<longleftrightarrow> distinct (map fst m)"

lemma jm_get_Nil [simp]: "jm_get [] k = None"
  by (simp add: jm_get_def)

lemma jm_get_empty: "jm_get [] = Map.empty"
  by (simp add: fun_eq_iff)

lemma jm_get_set [simp, jmap]: "jm_get (jm_set k v m) k' = (if k' = k then Some v else jm_get m k')"
  by (simp add: jm_get_def jm_set_def update_conv')

lemma jm_get_delete [simp, jmap]: "jm_get (jm_delete k m) k' = (if k' = k then None else jm_get m k')"
  by (simp add: jm_get_def jm_delete_def delete_conv')

lemma jm_has_iff [jmap]: "jm_has m k \<longleftrightarrow> jm_get m k \<noteq> None"
  by (simp add: jm_has_def jm_get_def)

lemma jm_ok_Nil [simp]: "jm_ok []"
  by (simp add: jm_ok_def)

lemma jm_ok_set [simp, jmap]: "jm_ok m \<Longrightarrow> jm_ok (jm_set k v m)"
  by (simp add: jm_ok_def jm_set_def distinct_update)

lemma jm_ok_delete [simp, jmap]: "jm_ok m \<Longrightarrow> jm_ok (jm_delete k m)"
  by (simp add: jm_ok_def jm_delete_def distinct_delete)

lemma jm_ok_filter [jmap]: "jm_ok m \<Longrightarrow> jm_ok (filter P m)"
  by (simp add: jm_ok_def distinct_map_filter)

lemma jm_get_filter:
  assumes "jm_ok m"
  shows "jm_get (filter (\<lambda>(k, v). P k v) m) k =
    (case jm_get m k of None \<Rightarrow> None | Some v \<Rightarrow> if P k v then Some v else None)"
  using assms
proof (induction m)
  case Nil
  then show ?case by simp
next
  case (Cons kv m)
  then have "fst kv \<notin> set (map fst m)" and "jm_ok m" by (auto simp: jm_ok_def)
  then have none: "map_of m (fst kv) = None"
    by (metis map_of_eq_None_iff set_map)
  with Cons.IH [OF \<open>jm_ok m\<close>] show ?case
    by (cases kv) (auto simp: jm_get_def split: option.splits)
qed

lemma jm_get_in_set: "jm_ok m \<Longrightarrow> (k, v) \<in> set m \<longleftrightarrow> jm_get m k = Some v"
  by (auto simp: jm_ok_def jm_get_def dest: map_of_SomeD)

lemma jm_set_keys:
  "map fst (jm_set k v m) = (if k \<in> set (map fst m) then map fst m else map fst m @ [k])"
  by (simp add: jm_set_def update_keys)

lemma jm_set_new: "jm_get m k = None \<Longrightarrow> jm_set k v m = m @ [(k, v)]"
  by (induction m) (auto simp: jm_get_def jm_set_def split: if_splits)

section \<open>Array and string operations\<close>

text \<open>\<^verbatim>\<open>xs.slice(n)\<close>: a negative start counts from the end.\<close>

definition js_slice :: "'a list \<Rightarrow> int \<Rightarrow> 'a list" where
  "js_slice xs n = (if n < 0 then drop (nat (int (length xs) + n)) xs else drop (nat n) xs)"

text \<open>\<^verbatim>\<open>xs.slice(0, n)\<close>: a negative end drops that many elements from the end.\<close>

definition js_take :: "'a list \<Rightarrow> int \<Rightarrow> 'a list" where
  "js_take xs n = (if n < 0 then take (nat (int (length xs) + n)) xs else take (nat n) xs)"

lemma js_slice_nat [simp]: "js_slice xs (int n) = drop n xs"
  by (simp add: js_slice_def)

lemma js_slice_0 [simp]: "js_slice xs 0 = xs"
  by (simp add: js_slice_def)

text \<open>\<^verbatim>\<open>s.startsWith(p)\<close>\<close>

definition starts_with :: "string \<Rightarrow> string \<Rightarrow> bool" where
  "starts_with s p \<longleftrightarrow> prefix p s"

text \<open>\<^verbatim>\<open>s.includes(t)\<close>\<close>

fun str_includes :: "string \<Rightarrow> string \<Rightarrow> bool" where
  "str_includes [] t \<longleftrightarrow> t = []"
| "str_includes (c # s) t \<longleftrightarrow> prefix t (c # s) \<or> str_includes s t"

lemma str_includes_sublist: "str_includes s t \<longleftrightarrow> sublist t s"
  by (induction s) (auto simp: sublist_Cons_right)

lemma includes_suffix: "str_includes (s @ t @ u) t"
  by (simp add: str_includes_sublist sublist_appendI)

text \<open>\<^verbatim>\<open>toLowerCase\<close> and \<^verbatim>\<open>toUpperCase\<close> on ASCII letters.\<close>

definition lower_char :: "char \<Rightarrow> char" where
  "lower_char c = (let n = of_char c :: nat in if 65 \<le> n \<and> n \<le> 90 then char_of (n + 32) else c)"

definition upper_char :: "char \<Rightarrow> char" where
  "upper_char c = (let n = of_char c :: nat in if 97 \<le> n \<and> n \<le> 122 then char_of (n - 32) else c)"

section \<open>Lines of a text\<close>

text \<open>\<^verbatim>\<open>s.split(d)\<close> for a separator of one character (a class of characters), and
  \<^verbatim>\<open>xs.join(d)\<close>.\<close>

fun split_by :: "(char \<Rightarrow> bool) \<Rightarrow> string \<Rightarrow> string list" where
  "split_by P [] = [[]]"
| "split_by P (c # s) =
     (if P c then [] # split_by P s
      else (case split_by P s of [] \<Rightarrow> [[c]] | l # ls \<Rightarrow> (c # l) # ls))"

fun join_with :: "string \<Rightarrow> string list \<Rightarrow> string" where
  "join_with d [] = []"
| "join_with d [x] = x"
| "join_with d (x # y # r) = x @ d @ join_with d (y # r)"

lemma split_by_nonempty [simp]: "split_by P s \<noteq> []"
  by (cases s) (auto split: list.splits)

lemma split_by_pieces: "l \<in> set (split_by P s) \<Longrightarrow> c \<in> set l \<Longrightarrow> \<not> P c \<and> c \<in> set s"
proof (induction s arbitrary: l)
  case Nil
  then show ?case by simp
next
  case (Cons a s)
  obtain x xs where s: "split_by P s = x # xs" by (cases "split_by P s") auto
  show ?case using Cons.prems Cons.IH [of x] Cons.IH [of l] by (auto simp: s split: if_splits)
qed

lemma join_with_Cons: "ls \<noteq> [] \<Longrightarrow> join_with d (x # ls) = x @ d @ join_with d ls"
  by (cases ls) simp_all

lemma join_split: "join_with [d] (split_by (\<lambda>c. c = d) s) = s"
proof (induction s)
  case Nil
  then show ?case by simp
next
  case (Cons c s)
  then show ?case by (cases "split_by (\<lambda>c. c = d) s") (auto simp: join_with_Cons, cases "tl (split_by (\<lambda>c. c = d) s)", auto)
qed

lemma split_by_append_sep: "P d \<Longrightarrow> (\<forall>c \<in> set l. \<not> P c) \<Longrightarrow> split_by P (l @ d # s) = l # split_by P s"
  by (induction l) auto

lemma split_by_whole: "(\<forall>c \<in> set l. \<not> P c) \<Longrightarrow> split_by P l = [l]"
  by (induction l) auto

lemma split_join:
  assumes "P d" and "ls \<noteq> []" and "\<forall>l \<in> set ls. \<forall>c \<in> set l. \<not> P c"
  shows "split_by P (join_with [d] ls) = ls"
  using assms(2,3)
proof (induction ls)
  case Nil
  then show ?case by simp
next
  case (Cons l ls)
  then show ?case
    by (cases "ls = []") (simp_all add: split_by_whole join_with_Cons split_by_append_sep assms(1))
qed

end
