(* ===== verification/Messages.thy ===== *)
theory Messages
  imports Prelude
begin

text \<open>
  The messages of \<^verbatim>\<open>packages/core\<close>: events with their metadata envelope
  (\<^verbatim>\<open>edd/event.ts\<close>, \<^verbatim>\<open>edd/event-metadata.ts\<close>), commands
  (\<^verbatim>\<open>cqrs/command/command.ts\<close>), queries (\<^verbatim>\<open>cqrs/query/query.ts\<close>), snapshots
  (\<^verbatim>\<open>persistence/snapshot.ts\<close>) and the metadata context of the engine. An ISO 8601
  timestamp is the number of milliseconds it denotes. Optional properties are options.
\<close>

record event_metadata =
  md_eventId :: string
  md_timestamp :: int
  md_correlationId :: string
  md_causationId :: string
  md_userId :: "ID option"
  md_version :: "int option"
  md_aggregateName :: "string option"
  md_aggregateId :: "ID option"
  md_sequenceNumber :: "int option"
  md_traceparent :: "string option"
  md_tracestate :: "string option"

record event =
  ev_name :: string
  ev_payload :: jsval
  ev_metadata :: "event_metadata option"

text \<open>A command; \<open>cmd_targetAggregateId\<close> is \<open>None\<close> for a standalone command.\<close>

record command =
  cmd_name :: string
  cmd_payload :: jsval
  cmd_commandId :: "ID option"
  cmd_targetAggregateId :: "ID option"

text \<open>
  A property that is read although it is absent is \<^verbatim>\<open>undefined\<close>, and
  \<^verbatim>\<open>String(undefined)\<close> is \<^verbatim>\<open>"undefined"\<close>.
\<close>

definition target_of :: "command \<Rightarrow> ID" where
  "target_of c = or_else (cmd_targetAggregateId c) (IDStr ''undefined'')"

record query =
  q_name :: string
  q_payload :: jsval

record snapshot =
  sn_state :: jsval
  sn_version :: int
  sn_stateVersion :: "int option"

text \<open>
  A \<^verbatim>\<open>MetadataContext\<close> has optional properties and is merged by object spread, so a
  property that is present with the value \<^verbatim>\<open>undefined\<close> (\<open>Some None\<close>) differs from an
  absent one (\<open>None\<close>).
\<close>

record metadata_context =
  ctx_correlationId :: "string option option"
  ctx_causationId :: "string option option"
  ctx_userId :: "ID option option"

definition empty_context :: metadata_context where
  "empty_context = \<lparr>ctx_correlationId = None, ctx_causationId = None, ctx_userId = None\<rparr>"

text \<open>\<^verbatim>\<open>event.metadata?.f\<close> for the fields the engine reads.\<close>

definition meta_get :: "(event_metadata \<Rightarrow> 'a option) \<Rightarrow> event \<Rightarrow> 'a option" where
  "meta_get f e = (case ev_metadata e of None \<Rightarrow> None | Some m \<Rightarrow> f m)"

abbreviation event_version :: "event \<Rightarrow> int option" where
  "event_version \<equiv> meta_get md_version"

abbreviation event_id :: "event \<Rightarrow> string option" where
  "event_id \<equiv> meta_get (\<lambda>m. Some (md_eventId m))"

lemma meta_get_simps [simp]:
  "ev_metadata e = None \<Longrightarrow> meta_get f e = None"
  "ev_metadata e = Some m \<Longrightarrow> meta_get f e = f m"
  by (simp_all add: meta_get_def)

end
