(* ===== verification/Stores.thy ===== *)
theory Stores
  imports Messages
begin

text \<open>
  The in-memory stores of \<^verbatim>\<open>packages/engine/src/implementations\<close> that persist aggregates,
  sagas and snapshots, and the two contracts they implement, stated as locales: an event stream
  store (\<^verbatim>\<open>EventSourcedAggregatePersistence\<close>) and a versioned state store
  (\<^verbatim>\<open>StateStoredAggregatePersistence\<close>, \<^verbatim>\<open>SagaPersistence\<close>), both with
  optimistic concurrency control on \<^verbatim>\<open>expectedVersion\<close>.
\<close>

section \<open>The contract of an event stream store\<close>

text \<open>
  What a sequence of \<open>save\<close> requests on one stream of length \<open>n\<close> may do: a request is accepted
  exactly when its expected version is the length reached so far.
\<close>

fun accepted :: "nat \<Rightarrow> (event list \<times> int) list \<Rightarrow> event list list" where
  "accepted n [] = []"
| "accepted n ((evs, v) # rs) =
     (if v = int n then evs # accepted (n + length evs) rs else accepted n rs)"

text \<open>A writer that ignores the outcome: its effect on the store only.\<close>

definition effect :: "('s, 'a) action \<Rightarrow> 's \<Rightarrow> 's" where
  "effect m s = snd (m s)"

locale event_stream_store =
  fixes load :: "string \<Rightarrow> ID \<Rightarrow> ('w, event list) action"
    and save :: "string \<Rightarrow> ID \<Rightarrow> event list \<Rightarrow> int \<Rightarrow> ('w, unit) action"
    and stream :: "'w \<Rightarrow> string \<Rightarrow> event list"
  assumes load_stream: "load n i w = (Inr (stream w (instance_key n i)), w)"
    and save_nothing: "save n i [] v w = (Inr (), w)"
    and save_appends: "evs \<noteq> [] \<Longrightarrow> v = int (length (stream w (instance_key n i))) \<Longrightarrow>
      \<exists>w'. save n i evs v w = (Inr (), w') \<and>
        stream w' = (stream w)(instance_key n i := stream w (instance_key n i) @ evs)"
    and save_conflicts: "evs \<noteq> [] \<Longrightarrow> v \<noteq> int (length (stream w (instance_key n i))) \<Longrightarrow>
      save n i evs v w =
        (Inl (ConcurrencyError n i v (int (length (stream w (instance_key n i))))), w)"
begin

lemma save_stream:
  "stream (effect (save n i evs v) w) k =
     (if k = instance_key n i \<and> v = int (length (stream w k)) then stream w k @ evs
      else stream w k)"
proof (cases "evs = []")
  case True
  then show ?thesis by (simp add: effect_def save_nothing)
next
  case False
  show ?thesis
  proof (cases "v = int (length (stream w (instance_key n i)))")
    case True
    obtain w' where "save n i evs v w = (Inr (), w')"
      and "stream w' = (stream w)(instance_key n i := stream w (instance_key n i) @ evs)"
      using save_appends [OF False True] by blast
    then show ?thesis using True by (simp add: effect_def)
  next
    case no: False
    from save_conflicts [OF False no] no show ?thesis by (auto simp: effect_def)
  qed
qed

lemma save_succeeds_iff:
  "fst (save n i evs v w) = Inr () \<longleftrightarrow>
     evs = [] \<or> v = int (length (stream w (instance_key n i)))"
  using save_appends [of evs v w n i] save_conflicts [of evs v w n i] save_nothing [of n i v w]
  by (cases "evs = []"; cases "v = int (length (stream w (instance_key n i)))") auto

text \<open>Two writers that observed the same version: once the first has appended, the second is
  refused and changes nothing.\<close>

lemma stale_writer_refused:
  assumes "evs \<noteq> []" and "evs' \<noteq> []" and "v = int (length (stream w (instance_key n i)))"
    and "save n i evs v w = (Inr (), w')"
  shows "save n i evs' v w' = (Inl (ConcurrencyError n i v (v + int (length evs))), w')"
proof -
  from save_appends [OF assms(1,3)] assms(4)
  have "stream w' = (stream w)(instance_key n i := stream w (instance_key n i) @ evs)" by auto
  with assms(1,3) save_conflicts [OF assms(2), of v w' n i] show ?thesis by simp
qed

text \<open>Any run of requests on one instance leaves the accepted batches, in order, and touches no
  other stream.\<close>

lemma save_history:
  "stream (fold (\<lambda>(evs, v). effect (save n i evs v)) reqs w) k =
     (if k = instance_key n i then stream w k @ concat (accepted (length (stream w k)) reqs)
      else stream w k)"
proof (induction reqs arbitrary: w)
  case Nil
  then show ?case by simp
next
  case (Cons r reqs)
  obtain evs v where "r = (evs, v)" by (cases r)
  with Cons show ?case by (simp add: save_stream)
qed

end

section \<open>The contract of a versioned state store\<close>

locale versioned_state_store =
  fixes load :: "string \<Rightarrow> ID \<Rightarrow> ('w, (jsval \<times> int) option) action"
    and save :: "string \<Rightarrow> ID \<Rightarrow> jsval \<Rightarrow> int \<Rightarrow> ('w, unit) action"
    and cell :: "'w \<Rightarrow> string \<Rightarrow> (jsval \<times> int) option"
  assumes load_cell: "load n i w = (Inr (cell w (instance_key n i)), w)"
    and save_overwrites: "v = (case cell w (instance_key n i) of None \<Rightarrow> 0 | Some (_, k) \<Rightarrow> k) \<Longrightarrow>
      \<exists>w'. save n i st v w = (Inr (), w') \<and> cell w' = (cell w)(instance_key n i \<mapsto> (st, v + 1))"
    and save_conflicts: "a = (case cell w (instance_key n i) of None \<Rightarrow> 0 | Some (_, k) \<Rightarrow> k) \<Longrightarrow>
      v \<noteq> a \<Longrightarrow> save n i st v w = (Inl (ConcurrencyError n i v a), w)"
begin

lemma save_then_load:
  assumes "save n i st v w = (Inr (), w')"
  shows "load n i w' = (Inr (Some (st, v + 1)), w')"
proof -
  have "v = (case cell w (instance_key n i) of None \<Rightarrow> 0 | Some (_, k) \<Rightarrow> k)"
    using save_conflicts [OF refl, of v w n i st] assms by (metis Inl_Inr_False prod.inject)
  from save_overwrites [OF this, of st] assms show ?thesis by (auto simp: load_cell)
qed

lemma save_after_load:
  assumes "load n i w = (Inr c, w1)"
  shows "\<exists>w'. save n i st (case c of None \<Rightarrow> 0 | Some (_, k) \<Rightarrow> k) w = (Inr (), w')"
  using save_overwrites [OF refl, where w = w and st = st] assms by (auto simp: load_cell)

lemma stale_save_refused:
  assumes "save n i st v w = (Inr (), w')"
  shows "save n i st' v w' = (Inl (ConcurrencyError n i v (v + 1)), w')"
proof -
  have "v = (case cell w (instance_key n i) of None \<Rightarrow> 0 | Some (_, k) \<Rightarrow> k)"
    using save_conflicts [OF refl, of v w n i st] assms by (metis Inl_Inr_False prod.inject)
  from save_overwrites [OF this, of st] assms
  have "cell w' (instance_key n i) = Some (st, v + 1)" by auto
  then show ?thesis by (simp add: save_conflicts)
qed

end

text \<open>
  The weaker contract the database adapters share with the in-memory stores: the store may have an
  invariant \<open>ok\<close>, may be able to keep only some states, identifies an instance by any \<open>key\<close>, and
  need not know the actual version when it reports a conflict.
\<close>

definition current_version :: "(jsval \<times> int) option \<Rightarrow> int" where
  "current_version c = (case c of None \<Rightarrow> 0 | Some (_, k) \<Rightarrow> k)"

text \<open>What a run of saves \<open>(state, expected version)\<close> makes of a cell.\<close>

fun last_accepted :: "(jsval \<times> int) option \<Rightarrow> (jsval \<times> int) list \<Rightarrow> (jsval \<times> int) option" where
  "last_accepted c [] = c"
| "last_accepted c ((st, v) # rs) =
     last_accepted (if v = current_version c then Some (st, v + 1) else c) rs"

locale optimistic_state_store =
  fixes load :: "string \<Rightarrow> 'i \<Rightarrow> ('w, (jsval \<times> int) option) action"
    and save :: "string \<Rightarrow> 'i \<Rightarrow> jsval \<Rightarrow> int \<Rightarrow> ('w, unit) action"
    and cell :: "'w \<Rightarrow> 'k \<Rightarrow> (jsval \<times> int) option"
    and key :: "string \<Rightarrow> 'i \<Rightarrow> 'k" and ident :: "'i \<Rightarrow> ID"
    and ok :: "'w \<Rightarrow> bool" and storable :: "jsval \<Rightarrow> bool"
  assumes load_cell: "ok w \<Longrightarrow> load n i w = (Inr (cell w (key n i)), w)"
    and save_overwrites: "ok w \<Longrightarrow> storable st \<Longrightarrow> v = current_version (cell w (key n i)) \<Longrightarrow>
      \<exists>w'. save n i st v w = (Inr (), w') \<and> ok w' \<and> cell w' = (cell w)(key n i \<mapsto> (st, v + 1))"
    and save_conflicts: "ok w \<Longrightarrow> storable st \<Longrightarrow> v \<noteq> current_version (cell w (key n i)) \<Longrightarrow>
      \<exists>a w'. save n i st v w = (Inl (ConcurrencyError n (ident i) v a), w') \<and> ok w' \<and>
        cell w' = cell w"
begin

lemma save_outcome:
  assumes "ok w" and "storable st"
  obtains (accepted) w' where "v = current_version (cell w (key n i))"
      "save n i st v w = (Inr (), w')" "ok w'" "cell w' = (cell w)(key n i \<mapsto> (st, v + 1))"
    | (refused) a w' where "v \<noteq> current_version (cell w (key n i))"
      "save n i st v w = (Inl (ConcurrencyError n (ident i) v a), w')" "ok w'" "cell w' = cell w"
  using save_overwrites [OF assms, of v n i] save_conflicts [OF assms, of v n i] by metis

lemma saved_is_loaded:
  assumes "ok w" and "storable st" and "save n i st v w = (Inr (), w')"
  shows "load n i w' = (Inr (Some (st, v + 1)), w')"
  by (rule save_outcome [OF assms(1,2), of v n i]) (use assms(3) in \<open>auto simp: load_cell\<close>)

lemma loaded_version_accepted:
  assumes "ok w" and "storable st" and "load n i w = (Inr c, w1)"
  shows "\<exists>w'. save n i st (current_version c) w = (Inr (), w')"
  using save_overwrites [OF assms(1,2) refl] load_cell [OF assms(1)] assms(3) by fastforce

text \<open>Of two saves with the same expected version the second is refused and changes nothing.\<close>

lemma no_lost_update:
  assumes "ok w" and "storable st" and "storable st'" and "save n i st v w = (Inr (), w')"
  shows "\<exists>a w''. save n i st' v w' = (Inl (ConcurrencyError n (ident i) v a), w'') \<and>
    load n i w'' = (Inr (Some (st, v + 1)), w'')"
proof (rule save_outcome [OF assms(1,2), of v n i])
  fix w1
  assume "save n i st v w = (Inr (), w1)" and ok: "ok w1"
    and c: "cell w1 = (cell w)(key n i \<mapsto> (st, v + 1))"
  with assms(4) have w1: "w1 = w'" by simp
  from c have cw: "cell w1 (key n i) = Some (st, v + 1)" by simp
  then have "v \<noteq> current_version (cell w1 (key n i))" by (simp add: current_version_def)
  from save_conflicts [OF ok assms(3) this] cw w1 show ?thesis by (auto simp: load_cell)
qed (use assms(4) in simp)

lemma state_history:
  assumes "ok w" and "\<forall>(st, v) \<in> set reqs. storable st"
  shows "ok (fold (\<lambda>(st, v). effect (save n i st v)) reqs w) \<and>
    cell (fold (\<lambda>(st, v). effect (save n i st v)) reqs w) k =
      (if k = key n i then last_accepted (cell w k) reqs else cell w k)"
  using assms
proof (induction reqs arbitrary: w)
  case Nil
  then show ?case by simp
next
  case (Cons r reqs)
  obtain st v where r: "r = (st, v)" by (cases r)
  with Cons.prems have st: "storable st" and reqs: "\<forall>(st, v) \<in> set reqs. storable st" by auto
  show ?case
  proof (rule save_outcome [OF Cons.prems(1) st, of v n i])
    fix w' assume a: "v = current_version (cell w (key n i))" "save n i st v w = (Inr (), w')"
      "ok w'" "cell w' = (cell w)(key n i \<mapsto> (st, v + 1))"
    from Cons.IH [OF a(3) reqs] a(1,2,4) r show ?thesis by (simp add: effect_def)
  next
    fix a w' assume b: "v \<noteq> current_version (cell w (key n i))"
      "save n i st v w = (Inl (ConcurrencyError n (ident i) v a), w')" "ok w'" "cell w' = cell w"
    from Cons.IH [OF b(3) reqs] b(1,2,4) r show ?thesis by (simp add: effect_def)
  qed
qed

end

sublocale versioned_state_store \<subseteq> optimistic: optimistic_state_store load save cell instance_key
  id "\<lambda>_. True" "\<lambda>_. True"
proof
  fix w n i st v
  show "load n i w = (Inr (cell w (instance_key n i)), w)" by (rule load_cell)
  show "v = current_version (cell w (instance_key n i)) \<Longrightarrow>
      \<exists>w'. save n i st v w = (Inr (), w') \<and> True \<and> cell w' = (cell w)(instance_key n i \<mapsto> (st, v + 1))"
    using save_overwrites [of v w n i st] by (simp add: current_version_def)
  show "v \<noteq> current_version (cell w (instance_key n i)) \<Longrightarrow>
      \<exists>a w'. save n i st v w = (Inl (ConcurrencyError n (id i) v a), w') \<and> True \<and> cell w' = cell w"
    using save_conflicts [OF refl, of v w n i st] by (simp add: current_version_def)
qed

section \<open>InMemoryEventSourcedAggregatePersistence\<close>

type_synonym es_store = "(string, event list) jmap"

definition es_stream :: "es_store \<Rightarrow> string \<Rightarrow> event list" where
  "es_stream store key = or_else (jm_get store key) []"

definition es_load :: "string \<Rightarrow> ID \<Rightarrow> (es_store, event list) action" where
  "es_load aggregateName aggregateId store =
     (let key = instance_key aggregateName aggregateId
      in (Inr (or_else (jm_get store key) []), store))"

definition es_loadAfterVersion :: "string \<Rightarrow> ID \<Rightarrow> int \<Rightarrow> (es_store, event list) action" where
  "es_loadAfterVersion aggregateName aggregateId afterVersion store =
     (let key = instance_key aggregateName aggregateId;
          events = or_else (jm_get store key) []
      in (Inr (js_slice events afterVersion), store))"

definition es_save :: "string \<Rightarrow> ID \<Rightarrow> event list \<Rightarrow> int \<Rightarrow> (es_store, unit) action" where
  "es_save aggregateName aggregateId events expectedVersion store =
     (if length events = 0 then (Inr (), store)
      else
        let key = instance_key aggregateName aggregateId;
            existing = or_else (jm_get store key) []
        in if int (length existing) \<noteq> expectedVersion
           then (Inl (ConcurrencyError aggregateName aggregateId expectedVersion
                        (int (length existing))), store)
           else if jm_has store key then (Inr (), jm_set key (existing @ events) store)
           else (Inr (), jm_set key events store))"

record event_read_options =
  ro_aggregateName :: "string option"
  ro_after :: "(string \<times> ID \<times> int) option"

definition es_read :: "event_read_options option \<Rightarrow> es_store \<Rightarrow> error + event list" where
  "es_read options store =
     (if (case options of None \<Rightarrow> False | Some ro \<Rightarrow> ro_after ro \<noteq> None)
      then Inl AfterCursorUnsupported
      else
        let pre = (case options of None \<Rightarrow> None
                   | Some ro \<Rightarrow> map_option (\<lambda>n. n @ '':'') (ro_aggregateName ro))
        in Inr (concat (map snd (filter
             (\<lambda>(key, events). case pre of None \<Rightarrow> True | Some p \<Rightarrow> starts_with key p) store))))"

lemmas es_defs = es_load_def es_loadAfterVersion_def es_save_def es_stream_def Let_def

interpretation mem_es: event_stream_store es_load es_save es_stream
proof
  fix n i w v evs
  show "es_load n i w = (Inr (es_stream w (instance_key n i)), w)" by (simp add: es_defs)
  show "es_save n i [] v w = (Inr (), w)" by (simp add: es_defs)
  show "evs \<noteq> [] \<Longrightarrow> v = int (length (es_stream w (instance_key n i))) \<Longrightarrow>
      \<exists>w'. es_save n i evs v w = (Inr (), w') \<and>
        es_stream w' = (es_stream w)(instance_key n i := es_stream w (instance_key n i) @ evs)"
    by (auto simp: es_defs jm_has_iff fun_eq_iff)
  show "evs \<noteq> [] \<Longrightarrow> v \<noteq> int (length (es_stream w (instance_key n i))) \<Longrightarrow>
      es_save n i evs v w =
        (Inl (ConcurrencyError n i v (int (length (es_stream w (instance_key n i))))), w)"
    by (auto simp: es_defs)
qed

lemma es_save_jm_ok [jmap]: "jm_ok s \<Longrightarrow> jm_ok (snd (es_save n i evs v s))"
  by (auto simp: es_defs)

lemma es_loadAfterVersion_drop:
  "es_loadAfterVersion n i (int v) w = (Inr (drop v (es_stream w (instance_key n i))), w)"
  by (simp add: es_defs)

text \<open>Every stored stream is a block of the unfiltered log, in stored order: the log of a store is
  the concatenation of its streams.\<close>

lemma es_read_all: "es_read None store = Inr (concat (map snd store))"
  by (simp add: es_read_def filter_True)

section \<open>InMemoryStateStoredAggregatePersistence\<close>

record stored_state =
  st_state :: jsval
  st_version :: int
  st_stateVersion :: "int option"

type_synonym ss_store = "(string, stored_state) jmap"

definition ss_load :: "string \<Rightarrow> ID \<Rightarrow> (ss_store, stored_state option) action" where
  "ss_load aggregateName aggregateId store =
     (let key = instance_key aggregateName aggregateId in (Inr (jm_get store key), store))"

definition ss_save :: "string \<Rightarrow> ID \<Rightarrow> jsval \<Rightarrow> int \<Rightarrow> int option \<Rightarrow> (ss_store, unit) action" where
  "ss_save aggregateName aggregateId state expectedVersion stateVersion store =
     (let key = instance_key aggregateName aggregateId;
          existing = jm_get store key;
          actualVersion = (case existing of None \<Rightarrow> 0 | Some r \<Rightarrow> st_version r)
      in if actualVersion \<noteq> expectedVersion
         then (Inl (ConcurrencyError aggregateName aggregateId expectedVersion actualVersion), store)
         else (Inr (), jm_set key \<lparr>st_state = state, st_version = expectedVersion + 1,
                                   st_stateVersion = stateVersion\<rparr> store))"

definition ss_cell :: "ss_store \<Rightarrow> string \<Rightarrow> (jsval \<times> int) option" where
  "ss_cell store key = map_option (\<lambda>r. (st_state r, st_version r)) (jm_get store key)"

lemmas ss_defs = ss_load_def ss_save_def ss_cell_def Let_def

text \<open>The engine calls \<open>save\<close> without a state version and reads the state and the version.\<close>

interpretation mem_ss: versioned_state_store
  "\<lambda>n i. bind_act (ss_load n i) (\<lambda>r. ret (map_option (\<lambda>r. (st_state r, st_version r)) r))"
  "\<lambda>n i st v. ss_save n i st v None" ss_cell
proof
  fix n i w v st and a :: int
  show "bind_act (ss_load n i) (\<lambda>r. ret (map_option (\<lambda>r. (st_state r, st_version r)) r)) w =
      (Inr (ss_cell w (instance_key n i)), w)"
    by (simp add: ss_defs bind_act_def ret_def)
  show "v = (case ss_cell w (instance_key n i) of None \<Rightarrow> 0 | Some (_, k) \<Rightarrow> k) \<Longrightarrow>
      \<exists>w'. ss_save n i st v None w = (Inr (), w') \<and>
        ss_cell w' = (ss_cell w)(instance_key n i \<mapsto> (st, v + 1))"
    by (auto simp: ss_defs fun_eq_iff split: option.splits)
  show "a = (case ss_cell w (instance_key n i) of None \<Rightarrow> 0 | Some (_, k) \<Rightarrow> k) \<Longrightarrow>
      v \<noteq> a \<Longrightarrow> ss_save n i st v None w = (Inl (ConcurrencyError n i v a), w)"
    by (auto simp: ss_defs split: option.splits)
qed

section \<open>InMemorySagaPersistence\<close>

type_synonym saga_store = "(string, jsval \<times> int) jmap"

definition saga_load :: "string \<Rightarrow> ID \<Rightarrow> (saga_store, (jsval \<times> int) option) action" where
  "saga_load sagaName sagaId store =
     (let key = instance_key sagaName sagaId in (Inr (jm_get store key), store))"

definition saga_save :: "string \<Rightarrow> ID \<Rightarrow> jsval \<Rightarrow> int \<Rightarrow> (saga_store, unit) action" where
  "saga_save sagaName sagaId state expectedVersion store =
     (let key = instance_key sagaName sagaId;
          existing = jm_get store key;
          actualVersion = (case existing of None \<Rightarrow> 0 | Some (_, k) \<Rightarrow> k)
      in if actualVersion \<noteq> expectedVersion
         then (Inl (ConcurrencyError sagaName sagaId expectedVersion actualVersion), store)
         else (Inr (), jm_set key (state, expectedVersion + 1) store))"

lemmas saga_store_defs = saga_load_def saga_save_def Let_def

interpretation mem_saga: versioned_state_store saga_load saga_save jm_get
  by unfold_locales (auto simp: saga_store_defs fun_eq_iff split: option.splits)

section \<open>InMemorySnapshotStore and everyNEvents\<close>

type_synonym snapshot_store = "(string, snapshot) jmap"

definition snap_load :: "string \<Rightarrow> ID \<Rightarrow> (snapshot_store, snapshot option) action" where
  "snap_load aggregateName aggregateId store =
     (let key = instance_key aggregateName aggregateId in (Inr (jm_get store key), store))"

definition snap_save :: "string \<Rightarrow> ID \<Rightarrow> snapshot \<Rightarrow> (snapshot_store, unit) action" where
  "snap_save aggregateName aggregateId snap store =
     (let key = instance_key aggregateName aggregateId in (Inr (), jm_set key snap store))"

record snapshot_info =
  si_version :: int
  si_lastSnapshotVersion :: int
  si_eventsSinceSnapshot :: int

type_synonym snapshot_strategy = "snapshot_info \<Rightarrow> bool"

definition everyNEvents :: "int \<Rightarrow> snapshot_strategy" where
  "everyNEvents n info \<longleftrightarrow> si_eventsSinceSnapshot info \<ge> n"

section \<open>Properties\<close>

text \<open>C2: No lost updates in the event store. Whatever sequence of save requests (batch, expected
  version) is issued against one aggregate instance, in any interleaving and with any outcome, the
  stream that results is the old stream followed by the accepted batches in order, where a batch
  is accepted exactly when its expected version is the length of the stream it meets; every
  stream filed under another key is untouched.\<close>
theorem es_save_history:
  "es_stream (fold (\<lambda>(evs, v). effect (es_save n i evs v)) reqs store) k =
     (if k = instance_key n i
      then es_stream store k @ concat (accepted (length (es_stream store k)) reqs)
      else es_stream store k)"
  by (rule mem_es.save_history)

text \<open>The optimistic check of the event store refuses a stale writer. If two writers loaded
  the same instance and the first one's non-empty batch was appended at the version both observed,
  then the second one's save with that version throws a ConcurrencyError carrying the expected and
  the actual version, and leaves the store as it was.\<close>
lemma es_stale_writer_refused:
  assumes "evs \<noteq> []" and "evs' \<noteq> []"
    and "es_load n i store = (Inr seen, store)"
    and "es_save n i evs (int (length seen)) store = (Inr (), store')"
  shows "es_save n i evs' (int (length seen)) store' =
    (Inl (ConcurrencyError n i (int (length seen)) (int (length seen) + int (length evs))), store')"
proof -
  from assms(3) have "seen = es_stream store (instance_key n i)" by (simp add: es_defs)
  with mem_es.stale_writer_refused [OF assms(1,2) _ assms(4)] show ?thesis by simp
qed

definition plain_event :: "string \<Rightarrow> event" where
  "plain_event nm = \<lparr>ev_name = nm, ev_payload = JNull, ev_metadata = None\<rparr>"

lemma es_stale_writer_refused_sample:
  "es_save ''Acc'' (IDStr ''1'') [plain_event ''B''] 0
     (snd (es_save ''Acc'' (IDStr ''1'') [plain_event ''A''] 0 [])) =
   (Inl (ConcurrencyError ''Acc'' (IDStr ''1'') 0 1),
    snd (es_save ''Acc'' (IDStr ''1'') [plain_event ''A''] 0 []))"
  using es_stale_writer_refused [of "[plain_event ''A'']" "[plain_event ''B'']" "''Acc''"
      "IDStr ''1''" "[]" "[]" "snd (es_save ''Acc'' (IDStr ''1'') [plain_event ''A''] 0 [])"]
  by (simp add: es_defs jm_has_iff)

text \<open>Instances are isolated. When neither aggregate name contains a colon, a save on one
  instance changes what another instance loads only if the two have the same aggregate name and
  the same identifier text: the composite key of the in-memory stores is injective there.\<close>
lemma es_instances_isolated:
  assumes "CHR '':'' \<notin> set n" and "CHR '':'' \<notin> set n'"
    and "n \<noteq> n' \<or> id_string i \<noteq> id_string i'"
  shows "fst (es_load n' i' (snd (es_save n i evs v store))) = fst (es_load n' i' store)"
proof -
  have "instance_key n' i' \<noteq> instance_key n i"
    using instance_key_inject [OF assms(2,1)] assms(3) by auto
  then show ?thesis using mem_es.save_stream [of n i evs v store "instance_key n' i'"]
    by (simp add: mem_es.load_stream effect_def)
qed

lemma es_instances_isolated_sample:
  "fst (es_load ''Booking'' (IDStr ''7'')
     (snd (es_save ''Room'' (IDNum 7) [plain_event ''A''] 0 []))) = Inr []"
  using es_instances_isolated [of "''Room''" "''Booking''" "IDNum 7" "IDStr ''7''"
      "[plain_event ''A'']" 0 "[]"]
  by (simp add: es_load_def Let_def)

text \<open>Without that restriction isolation fails: the instance c of the aggregate A:B and the
  instance B:c of the aggregate A share one stream, so an event saved for the former is loaded for
  the latter, and the same holds for the number 7 and the string "7" as identifiers.\<close>
lemma es_key_collision:
  "fst (es_load ''A'' (IDStr ''B:c'')
      (snd (es_save ''A:B'' (IDStr ''c'') [plain_event ''E''] 0 []))) = Inr [plain_event ''E''] \<and>
   fst (es_load ''A'' (IDStr ''7'')
      (snd (es_save ''A'' (IDNum 7) [plain_event ''E''] 0 []))) = Inr [plain_event ''E'']"
  by code_simp

end
