(* ===== verification/Idempotency.thy ===== *)
theory Idempotency
  imports Messages
begin

text \<open>
  Deduplication: the command idempotency store (\<^verbatim>\<open>in-memory-idempotency-store.ts\<close>), the
  event-handler dedup store (\<^verbatim>\<open>in-memory-event-idempotency-store.ts\<close>) and the wrapper
  \<^verbatim>\<open>withIdempotency\<close> (\<^verbatim>\<open>core/src/edd/event-idempotency.ts\<close>). The value of
  \<^verbatim>\<open>Date.now()\<close> at the call is the argument \<open>now\<close>; \<open>ttlMs\<close> is the constructor's
  optional argument.
\<close>

section \<open>InMemoryIdempotencyStore\<close>

record idempotency_record =
  ir_commandId :: ID
  ir_aggregateName :: string
  ir_aggregateId :: ID
  ir_processedAt :: int

type_synonym idem_store = "(string, idempotency_record) jmap"

definition getLiveRecord ::
  "int option \<Rightarrow> int \<Rightarrow> ID \<Rightarrow> (idem_store, idempotency_record option) action" where
  "getLiveRecord ttlMs now commandId store =
     (let key = id_string commandId
      in case jm_get store key of
           None \<Rightarrow> (Inr None, store)
         | Some rec \<Rightarrow>
             (case ttlMs of
                None \<Rightarrow> (Inr (Some rec), store)
              | Some ttl \<Rightarrow>
                  if now - ir_processedAt rec > ttl then (Inr None, jm_delete key store)
                  else (Inr (Some rec), store)))"

definition idem_exists :: "int option \<Rightarrow> int \<Rightarrow> ID \<Rightarrow> (idem_store, bool) action" where
  "idem_exists ttlMs now commandId =
     bind_act (getLiveRecord ttlMs now commandId) (\<lambda>rec. ret (rec \<noteq> None))"

definition idem_save :: "int option \<Rightarrow> int \<Rightarrow> idempotency_record \<Rightarrow> (idem_store, unit) action" where
  "idem_save ttlMs now rec =
     bind_act (getLiveRecord ttlMs now (ir_commandId rec))
       (\<lambda>live. if live \<noteq> None then throw (IdempotencyConflictError (ir_commandId rec))
               else (\<lambda>store. (Inr (), jm_set (id_string (ir_commandId rec)) rec store)))"

definition idem_remove :: "ID \<Rightarrow> (idem_store, unit) action" where
  "idem_remove commandId store = (Inr (), jm_delete (id_string commandId) store)"

definition idem_removeExpired :: "int \<Rightarrow> int \<Rightarrow> (idem_store, unit) action" where
  "idem_removeExpired ttlMs now store =
     (let cutoff = now - ttlMs
      in (Inr (), filter (\<lambda>(key, rec). \<not> ir_processedAt rec \<le> cutoff) store))"

text \<open>The record \<open>r\<close> still counts at time \<open>now\<close>.\<close>

definition live :: "int option \<Rightarrow> int \<Rightarrow> idempotency_record \<Rightarrow> bool" where
  "live ttlMs now r = (case ttlMs of None \<Rightarrow> True | Some ttl \<Rightarrow> now - ir_processedAt r \<le> ttl)"

lemmas idem_defs = getLiveRecord_def idem_exists_def idem_save_def idem_remove_def
  idem_removeExpired_def bind_act_def ret_def throw_def live_def Let_def

lemma idem_exists_iff:
  "fst (idem_exists ttl now c s) =
     Inr (case jm_get s (id_string c) of None \<Rightarrow> False | Some r \<Rightarrow> live ttl now r)"
  by (auto simp: idem_defs split: option.splits)

lemma idem_save_ok_iff:
  "fst (idem_save ttl now r s) = Inr () \<longleftrightarrow>
     (case jm_get s (id_string (ir_commandId r)) of None \<Rightarrow> True | Some r' \<Rightarrow> \<not> live ttl now r')"
  by (auto simp: idem_defs split: option.splits)

lemma idem_save_stores:
  "idem_save ttl now r s = (Inr (), s') \<Longrightarrow> jm_get s' (id_string (ir_commandId r)) = Some r"
  by (auto simp: idem_defs split: option.splits if_splits)

lemma idem_save_refuses:
  assumes "jm_get s (id_string (ir_commandId r)) = Some r'" and "live ttl now r'"
  shows "idem_save ttl now r s = (Inl (IdempotencyConflictError (ir_commandId r)), s)"
  using assms by (auto simp: idem_defs split: option.splits)

lemma idem_jm_ok [jmap]:
  assumes "jm_ok s"
  shows "jm_ok (snd (idem_exists ttl now c s))" "jm_ok (snd (idem_save ttl now r s))"
    "jm_ok (snd (idem_remove c s))" "jm_ok (snd (idem_removeExpired t now s))"
  using assms by (auto simp: idem_defs jm_ok_filter split: option.splits)

text \<open>A claimed command id is claimed exactly once while it is live. After a successful save
  of a record, exists reports it, and a second save of any record with that command id throws an
  IdempotencyConflictError without changing the store, at every later time until the record is
  older than the time-to-live (forever when none is configured); after that exists reports false
  and the id can be claimed again.\<close>
lemma idem_claim_once:
  assumes "idem_save ttl now r s = (Inr (), s')" and "ir_commandId r' = ir_commandId r"
  shows "fst (idem_exists ttl t (ir_commandId r) s') = Inr (live ttl t r) \<and>
    (if live ttl t r
     then idem_save ttl t r' s' = (Inl (IdempotencyConflictError (ir_commandId r)), s')
     else fst (idem_save ttl t r' s') = Inr ())"
  using idem_save_stores [OF assms(1)] assms(2) idem_save_refuses [of s' r' r ttl t]
  by (auto simp: idem_exists_iff idem_save_ok_iff)

definition sample_record :: "int \<Rightarrow> idempotency_record" where
  "sample_record t = \<lparr>ir_commandId = IDNum 5, ir_aggregateName = ''Acc'', ir_aggregateId = IDStr ''a'',
     ir_processedAt = t\<rparr>"

lemma idem_claim_once_sample:
  "idem_save (Some 10) 5 (sample_record 5) (snd (idem_save (Some 10) 0 (sample_record 0) [])) =
     (Inl (IdempotencyConflictError (IDNum 5)), snd (idem_save (Some 10) 0 (sample_record 0) []))"
  using idem_claim_once [of "Some 10" 0 "sample_record 0" "[]"
      "snd (idem_save (Some 10) 0 (sample_record 0) [])" "sample_record 5" 5]
  by (simp add: idem_defs sample_record_def)

text \<open>Expiry cleanup never loses a younger record and leaves only live ones: after
  removeExpired with the store's own time-to-live, a record is still there exactly when its age is
  strictly below the time-to-live. A record whose age equals the time-to-live, which exists
  reports as processed, is removed as well.\<close>
lemma idem_removeExpired_exact:
  assumes "jm_ok s"
  shows "jm_get (snd (idem_removeExpired ttl now s)) k =
      (case jm_get s k of
         None \<Rightarrow> None
       | Some r \<Rightarrow> if now - ir_processedAt r < ttl then Some r else None) \<and>
    (\<exists>s c. fst (idem_exists (Some ttl) now c s) = Inr True \<and>
        fst (idem_exists (Some ttl) now c (snd (idem_removeExpired ttl now s))) = Inr False)"
proof -
  have "\<not> ir_processedAt r \<le> now - ttl \<longleftrightarrow> now - ir_processedAt r < ttl" for r by linarith
  then have first: "jm_get (snd (idem_removeExpired ttl now s)) k =
      (case jm_get s k of None \<Rightarrow> None
       | Some r \<Rightarrow> if now - ir_processedAt r < ttl then Some r else None)"
    using jm_get_filter [OF assms, of "\<lambda>_ rec. \<not> ir_processedAt rec \<le> now - ttl" k]
    by (simp add: idem_removeExpired_def Let_def split: option.splits)
  have "fst (idem_exists (Some ttl) now (IDNum 5) [(id_string (IDNum 5), sample_record (now - ttl))]) = Inr True \<and>
      fst (idem_exists (Some ttl) now (IDNum 5)
        (snd (idem_removeExpired ttl now [(id_string (IDNum 5), sample_record (now - ttl))]))) = Inr False"
    by (simp add: idem_exists_iff live_def idem_removeExpired_def sample_record_def jm_get_def)
  with first show ?thesis by blast
qed

lemma idem_removeExpired_exact_sample:
  "jm_get (snd (idem_removeExpired 10 12 [(''5'', sample_record 2), (''6'', sample_record 3)])) ''6'' =
     Some (sample_record 3)"
  using idem_removeExpired_exact [of "[(''5'', sample_record 2), (''6'', sample_record 3)]" 10 12 "''6''"]
  by (simp add: jm_ok_def jm_get_def sample_record_def)

section \<open>InMemoryEventIdempotencyStore\<close>

type_synonym dedup_store = "(string, int) jmap"

definition hasProcessed :: "int option \<Rightarrow> int \<Rightarrow> string \<Rightarrow> (dedup_store, bool) action" where
  "hasProcessed ttlMs now key store =
     (case jm_get store key of
        None \<Rightarrow> (Inr False, store)
      | Some recordedAt \<Rightarrow>
          if (case ttlMs of None \<Rightarrow> False | Some ttl \<Rightarrow> now - recordedAt > ttl)
          then (Inr False, jm_delete key store)
          else (Inr True, store))"

definition markProcessed :: "int \<Rightarrow> string \<Rightarrow> (dedup_store, unit) action" where
  "markProcessed now key store = (Inr (), jm_set key now store)"

definition dedup_removeExpired :: "int \<Rightarrow> int \<Rightarrow> (dedup_store, unit) action" where
  "dedup_removeExpired ttlMs now store =
     (let cutoff = now - ttlMs
      in (Inr (), filter (\<lambda>(key, recordedAt). \<not> recordedAt \<le> cutoff) store))"

section \<open>withIdempotency\<close>

text \<open>The wrapper over any store; \<open>opt_key\<close> is \<^verbatim>\<open>options?.key\<close>, whose result may be
  nullish.\<close>

definition withIdempotency ::
  "(event \<Rightarrow> ('w, unit) action) \<Rightarrow> (string \<Rightarrow> ('w, bool) action) \<Rightarrow> (string \<Rightarrow> ('w, unit) action) \<Rightarrow>
   (event \<Rightarrow> string option) option \<Rightarrow> event \<Rightarrow> ('w, unit) action" where
  "withIdempotency handler has mark opt_key ev =
     (case (case opt_key of Some f \<Rightarrow> f ev | None \<Rightarrow> event_id ev) of
        None \<Rightarrow> throw NoDedupKey
      | Some key \<Rightarrow>
          bind_act (has key)
            (\<lambda>seen. if seen then ret () else then_act (handler ev) (mark key)))"

text \<open>What the wrapper relies on from a dedup store whose records do not expire; \<open>inv\<close> is the
  invariant of the store, if it has one.\<close>

locale dedup_contract =
  fixes has :: "string \<Rightarrow> ('w, bool) action"
    and mark :: "string \<Rightarrow> ('w, unit) action"
    and processed :: "'w \<Rightarrow> string set" and inv :: "'w \<Rightarrow> bool"
  assumes has_processed: "inv w \<Longrightarrow> has k w = (Inr (k \<in> processed w), w)"
    and mark_processed: "inv w \<Longrightarrow>
      \<exists>w'. mark k w = (Inr (), w') \<and> inv w' \<and> processed w' = insert k (processed w)"
begin

abbreviation wrapped :: "(event \<Rightarrow> ('w, unit) action) \<Rightarrow> event \<Rightarrow> ('w, unit) action" where
  "wrapped handler \<equiv> withIdempotency handler has mark None"

lemma seen_skipped:
  assumes "inv w" and "event_id ev = Some k" and "k \<in> processed w"
  shows "wrapped handler ev w = (Inr (), w)"
  using assms by (simp add: withIdempotency_def bind_act_def has_processed ret_def)

lemma fresh_handled:
  assumes "inv w" and "inv w1" and "event_id ev = Some k" and "k \<notin> processed w"
    and "handler ev w = (Inr (), w1)"
  shows "\<exists>w'. wrapped handler ev w = (Inr (), w') \<and> mark k w1 = (Inr (), w') \<and> inv w' \<and>
    k \<in> processed w'"
  using assms mark_processed [of w1 k]
  by (auto simp: withIdempotency_def bind_act_def has_processed then_act_def)

lemma failed_not_marked:
  assumes "inv w" and "event_id ev = Some k" and "k \<notin> processed w" and "handler ev w = (Inl e, w1)"
  shows "wrapped handler ev w = (Inl e, w1)"
  using assms by (auto simp: withIdempotency_def bind_act_def has_processed then_act_def)

text \<open>Any number of further deliveries of an event that was handled once, to whatever handler, change
  nothing.\<close>

lemma redelivery_absorbed:
  assumes "inv w" and "inv w1" and "event_id ev = Some k" and "k \<notin> processed w"
    and "handler ev w = (Inr (), w1)"
  shows "\<exists>w'. wrapped handler ev w = (Inr (), w') \<and> k \<in> processed w' \<and>
    (\<forall>handler'. for_each (wrapped handler') (replicate n ev) w' = (Inr (), w'))"
proof -
  from fresh_handled [where handler = handler, OF assms] obtain w' where w': "wrapped handler ev w = (Inr (), w')" "inv w'" "k \<in> processed w'"
    by blast
  have "for_each (wrapped handler') (replicate n ev) w' = (Inr (), w')" for handler'
    by (induction n) (simp_all add: seen_skipped [where handler = handler', OF w'(2) assms(3) w'(3)])
  with w' show ?thesis by blast
qed

end

text \<open>The in-memory store beside the state the handler works on, read at a fixed time.\<close>

definition dedup_keys :: "dedup_store \<times> 'u \<Rightarrow> string set" where
  "dedup_keys w = {k. jm_get (fst w) k \<noteq> None}"

interpretation mem_dedup: dedup_contract
  "\<lambda>k. on_fst (hasProcessed None now k)" "\<lambda>k. on_fst (markProcessed now k)" dedup_keys "\<lambda>_. True"
  for now
  by unfold_locales
     (auto simp: on_fst_def hasProcessed_def markProcessed_def dedup_keys_def split: option.splits)

text \<open>Redelivery is absorbed. Wrapped with withIdempotency over the in-memory store without a
  time-to-live, a handler that succeeds on an event's first delivery is not run again by any
  number of redeliveries of that event, and the state it works on stays as the first run left it;
  a handler that throws is not recorded, so its error is propagated and the next delivery runs it
  again.\<close>
lemma withIdempotency_redelivery:
  fixes handler :: "event \<Rightarrow> ('u, unit) action"
  assumes "event_id ev = Some k" and "jm_get store k = None"
  shows "case handler ev u of
      (Inr _, u') \<Rightarrow> \<exists>store'.
        withIdempotency (\<lambda>e. on_snd (handler e)) (\<lambda>k. on_fst (hasProcessed None now k))
          (\<lambda>k. on_fst (markProcessed now k)) None ev (store, u) = (Inr (), (store', u')) \<and>
        for_each (withIdempotency (\<lambda>e. on_snd (handler e)) (\<lambda>k. on_fst (hasProcessed None now k))
          (\<lambda>k. on_fst (markProcessed now k)) None) (replicate n ev) (store', u') = (Inr (), (store', u'))
    | (Inl e, u') \<Rightarrow>
        withIdempotency (\<lambda>e. on_snd (handler e)) (\<lambda>k. on_fst (hasProcessed None now k))
          (\<lambda>k. on_fst (markProcessed now k)) None ev (store, u) = (Inl e, (store, u'))"
proof -
  have fresh: "k \<notin> dedup_keys (store, u)" using assms(2) by (simp add: dedup_keys_def)
  obtain r u' where run: "handler ev u = (r, u')" by (cases "handler ev u")
  show ?thesis
  proof (cases r)
    case (Inl e)
    with run have "on_snd (handler ev) (store, u) = (Inl e, (store, u'))" by (simp add: on_snd_def)
    from mem_dedup.failed_not_marked [where handler = "\<lambda>e. on_snd (handler e)", OF TrueI assms(1) fresh this]
    show ?thesis using run Inl by simp
  next
    case (Inr x)
    with run have h: "on_snd (handler ev) (store, u) = (Inr (), (store, u'))" by (simp add: on_snd_def)
    from mem_dedup.fresh_handled [where handler = "\<lambda>e. on_snd (handler e)" and now = now, OF TrueI TrueI assms(1) fresh h]
    have "mem_dedup.wrapped now (\<lambda>e. on_snd (handler e)) ev (store, u) = (Inr (), (jm_set k now store, u'))"
      by (auto simp: on_fst_def markProcessed_def)
    with mem_dedup.redelivery_absorbed [where handler = "\<lambda>e. on_snd (handler e)" and now = now and n = n,
        OF TrueI TrueI assms(1) fresh h]
    show ?thesis using run Inr by auto
  qed
qed

definition bump_on :: "event \<Rightarrow> (int, unit) action" where
  "bump_on e n = (Inr (), n + 1)"

definition identified_event :: "string \<Rightarrow> event" where
  "identified_event i = \<lparr>ev_name = ''E'', ev_payload = JNull,
     ev_metadata = Some \<lparr>md_eventId = i, md_timestamp = 0, md_correlationId = ''c'',
       md_causationId = ''x'', md_userId = None, md_version = None, md_aggregateName = None,
       md_aggregateId = None, md_sequenceNumber = None, md_traceparent = None, md_tracestate = None\<rparr>\<rparr>"

lemma withIdempotency_redelivery_sample:
  "\<exists>store'. withIdempotency (\<lambda>e. on_snd (bump_on e)) (\<lambda>k. on_fst (hasProcessed None 9 k))
      (\<lambda>k. on_fst (markProcessed 9 k)) None (identified_event ''i1'') ([], 0) = (Inr (), (store', 1)) \<and>
    for_each (withIdempotency (\<lambda>e. on_snd (bump_on e)) (\<lambda>k. on_fst (hasProcessed None 9 k))
      (\<lambda>k. on_fst (markProcessed 9 k)) None) (replicate 3 (identified_event ''i1'')) (store', 1) =
      (Inr (), (store', 1))"
  using withIdempotency_redelivery [where ev = "identified_event ''i1''" and k = "''i1''"
      and store = "[]" and handler = bump_on and u = 0 and now = 9 and n = 3]
  by (simp add: identified_event_def bump_on_def)

end
