(* ===== verification/Locker.thy ===== *)
theory Locker
  imports Messages
begin

text \<open>
  The in-memory aggregate locker (\<^verbatim>\<open>in-memory-aggregate-locker.ts\<close>). The body of
  \<^verbatim>\<open>acquire\<close> runs in one go up to the promise it returns, so it is a function on the lock
  table that either grants the lock or leaves a waiter in the queue; resolving and rejecting that
  promise later are the effects of \<^verbatim>\<open>release\<close> and of the timer. A waiter is named by the
  caller that awaits it. The interleavings of any number of callers are the step relation
  \<open>lock_step\<close>, with mutual exclusion, absence of lost wake-ups and first-come-first-served order
  as its invariants.
\<close>

record waiter =
  wt_caller :: nat
  wt_timer :: "int option"

record lock_entry =
  le_locked :: bool
  le_queue :: "waiter list"

type_synonym locks = "(string, lock_entry) jmap"

definition getEntry :: "string \<Rightarrow> locks \<Rightarrow> lock_entry \<times> locks" where
  "getEntry key locks =
     (case jm_get locks key of
        Some entry \<Rightarrow> (entry, locks)
      | None \<Rightarrow> let entry = \<lparr>le_locked = False, le_queue = []\<rparr> in (entry, jm_set key entry locks))"

datatype acquire_outcome = Acquired | Enqueued

text \<open>\<^verbatim>\<open>if (timeoutMs && timeoutMs > 0)\<close> a timer is armed.\<close>

definition armed_timer :: "int option \<Rightarrow> int option" where
  "armed_timer timeoutMs = (case timeoutMs of None \<Rightarrow> None | Some t \<Rightarrow> if t > 0 then Some t else None)"

definition locker_acquire ::
  "string \<Rightarrow> ID \<Rightarrow> int option \<Rightarrow> nat \<Rightarrow> locks \<Rightarrow> acquire_outcome \<times> locks" where
  "locker_acquire aggregateName aggregateId timeoutMs caller locks =
     (let key = instance_key aggregateName aggregateId;
          (entry, locks1) = getEntry key locks
      in if \<not> le_locked entry then (Acquired, jm_set key (entry\<lparr>le_locked := True\<rparr>) locks1)
         else (Enqueued, jm_set key (entry\<lparr>le_queue := le_queue entry @
                 [\<lparr>wt_caller = caller, wt_timer = armed_timer timeoutMs\<rparr>]\<rparr>) locks1))"

text \<open>The timer's callback: it rejects the waiter's promise if the waiter is still queued.\<close>

definition locker_timeout :: "string \<Rightarrow> ID \<Rightarrow> waiter \<Rightarrow> locks \<Rightarrow> error option \<times> locks" where
  "locker_timeout aggregateName aggregateId w locks =
     (let key = instance_key aggregateName aggregateId
      in case jm_get locks key of
           None \<Rightarrow> (None, locks)
         | Some entry \<Rightarrow>
             if w \<in> set (le_queue entry)
             then (Some (LockTimeoutError aggregateName aggregateId (or_else (wt_timer w) 0)),
                   jm_set key (entry\<lparr>le_queue := remove1 w (le_queue entry)\<rparr>) locks)
             else (None, locks))"

text \<open>\<^verbatim>\<open>release\<close> returns the waiter whose promise it resolved, if any.\<close>

definition locker_release :: "string \<Rightarrow> ID \<Rightarrow> locks \<Rightarrow> waiter option \<times> locks" where
  "locker_release aggregateName aggregateId locks =
     (let key = instance_key aggregateName aggregateId
      in case jm_get locks key of
           None \<Rightarrow> (None, locks)
         | Some entry \<Rightarrow>
             if \<not> le_locked entry then (None, locks)
             else (case le_queue entry of
                     n # rest \<Rightarrow> (Some n, jm_set key (entry\<lparr>le_queue := rest\<rparr>) locks)
                   | [] \<Rightarrow> (None, jm_set key (entry\<lparr>le_locked := False\<rparr>) locks)))"

lemmas locker_defs = locker_acquire_def locker_timeout_def locker_release_def getEntry_def Let_def

definition key_locked :: "locks \<Rightarrow> string \<Rightarrow> bool" where
  "key_locked locks key = (case jm_get locks key of None \<Rightarrow> False | Some e \<Rightarrow> le_locked e)"

definition key_queue :: "locks \<Rightarrow> string \<Rightarrow> waiter list" where
  "key_queue locks key = (case jm_get locks key of None \<Rightarrow> [] | Some e \<Rightarrow> le_queue e)"

text \<open>The three operations on the two observations.\<close>

lemma acquire_free:
  assumes "\<not> key_locked L (instance_key n i)"
  shows "\<exists>L'. locker_acquire n i t c L = (Acquired, L') \<and>
    key_locked L' = (key_locked L)(instance_key n i := True) \<and> key_queue L' = key_queue L"
  using assms
  by (cases "jm_get L (instance_key n i)")
     (auto simp: locker_defs key_locked_def key_queue_def fun_eq_iff)

lemma acquire_held:
  assumes "key_locked L (instance_key n i)"
  shows "\<exists>L'. locker_acquire n i t c L = (Enqueued, L') \<and> key_locked L' = key_locked L \<and>
    key_queue L' = (key_queue L)(instance_key n i := key_queue L (instance_key n i) @
      [\<lparr>wt_caller = c, wt_timer = armed_timer t\<rparr>])"
  using assms
  by (cases "jm_get L (instance_key n i)")
     (auto simp: locker_defs key_locked_def key_queue_def fun_eq_iff)

lemma release_unlocked: "\<not> key_locked L (instance_key n i) \<Longrightarrow> locker_release n i L = (None, L)"
  by (auto simp: locker_defs key_locked_def split: option.splits)

lemma release_hands_over:
  assumes "key_locked L (instance_key n i)" and "key_queue L (instance_key n i) = w # ws"
  shows "\<exists>L'. locker_release n i L = (Some w, L') \<and> key_locked L' = key_locked L \<and>
    key_queue L' = (key_queue L)(instance_key n i := ws)"
  using assms
  by (cases "jm_get L (instance_key n i)")
     (auto simp: locker_defs key_locked_def key_queue_def fun_eq_iff)

lemma release_frees:
  assumes "key_locked L (instance_key n i)" and "key_queue L (instance_key n i) = []"
  shows "\<exists>L'. locker_release n i L = (None, L') \<and>
    key_locked L' = (key_locked L)(instance_key n i := False) \<and> key_queue L' = key_queue L"
  using assms
  by (cases "jm_get L (instance_key n i)")
     (auto simp: locker_defs key_locked_def key_queue_def fun_eq_iff)

lemma timeout_effect:
  assumes "w \<in> set (key_queue L (instance_key n i))"
  shows "\<exists>L'. locker_timeout n i w L = (Some (LockTimeoutError n i (or_else (wt_timer w) 0)), L') \<and>
    key_locked L' = key_locked L \<and>
    key_queue L' = (key_queue L)(instance_key n i := remove1 w (key_queue L (instance_key n i)))"
  using assms
  by (cases "jm_get L (instance_key n i)")
     (auto simp: locker_defs key_locked_def key_queue_def fun_eq_iff)

section \<open>Interleavings of callers\<close>

text \<open>Where a caller is: outside, awaiting the promise of an \<open>acquire\<close>, or past it.\<close>

datatype caller_state = Outside | Waiting string ID "int option" | Holding string ID

record lock_run =
  lr_locks :: locks
  lr_callers :: "nat \<Rightarrow> caller_state"

definition lock_start :: lock_run where
  "lock_start = \<lparr>lr_locks = [], lr_callers = (\<lambda>_. Outside)\<rparr>"

text \<open>A caller acquires; a holder releases, which resumes the waiter whose promise it resolves; a
  queued waiter's timer fires and its promise is rejected.\<close>

definition do_acquire :: "nat \<Rightarrow> string \<Rightarrow> ID \<Rightarrow> int option \<Rightarrow> lock_run \<Rightarrow> lock_run" where
  "do_acquire c n i t s =
     (case locker_acquire n i t c (lr_locks s) of
        (Acquired, L) \<Rightarrow> \<lparr>lr_locks = L, lr_callers = (lr_callers s)(c := Holding n i)\<rparr>
      | (Enqueued, L) \<Rightarrow> \<lparr>lr_locks = L, lr_callers = (lr_callers s)(c := Waiting n i t)\<rparr>)"

fun resume :: "caller_state \<Rightarrow> caller_state" where
  "resume (Waiting n i t) = Holding n i"
| "resume s = s"

definition do_release :: "nat \<Rightarrow> string \<Rightarrow> ID \<Rightarrow> lock_run \<Rightarrow> lock_run" where
  "do_release c n i s =
     (case locker_release n i (lr_locks s) of
        (None, L) \<Rightarrow> \<lparr>lr_locks = L, lr_callers = (lr_callers s)(c := Outside)\<rparr>
      | (Some w, L) \<Rightarrow> \<lparr>lr_locks = L, lr_callers =
          ((lr_callers s)(c := Outside))(wt_caller w := resume (lr_callers s (wt_caller w)))\<rparr>)"

definition do_timeout :: "nat \<Rightarrow> string \<Rightarrow> ID \<Rightarrow> int \<Rightarrow> lock_run \<Rightarrow> lock_run" where
  "do_timeout c n i t s =
     (case locker_timeout n i \<lparr>wt_caller = c, wt_timer = Some t\<rparr> (lr_locks s) of
        (None, L) \<Rightarrow> s\<lparr>lr_locks := L\<rparr>
      | (Some _, L) \<Rightarrow> \<lparr>lr_locks = L, lr_callers = (lr_callers s)(c := Outside)\<rparr>)"

inductive lock_step :: "lock_run \<Rightarrow> lock_run \<Rightarrow> bool" where
  step_acquire: "lr_callers s c = Outside \<Longrightarrow> lock_step s (do_acquire c n i t s)"
| step_release: "lr_callers s c = Holding n i \<Longrightarrow> lock_step s (do_release c n i s)"
| step_timeout: "lr_callers s c = Waiting n i (Some t) \<Longrightarrow> t > 0 \<Longrightarrow> lock_step s (do_timeout c n i t s)"

inductive_cases lock_stepE: "lock_step s s'"

definition holds :: "lock_run \<Rightarrow> string \<Rightarrow> nat \<Rightarrow> bool" where
  "holds s k c \<longleftrightarrow> (\<exists>n i. lr_callers s c = Holding n i \<and> instance_key n i = k)"

definition waits :: "lock_run \<Rightarrow> string \<Rightarrow> waiter \<Rightarrow> bool" where
  "waits s k w \<longleftrightarrow> (\<exists>n i t. lr_callers s (wt_caller w) = Waiting n i t \<and> instance_key n i = k \<and>
     wt_timer w = armed_timer t)"

definition lock_inv :: "lock_run \<Rightarrow> bool" where
  "lock_inv s \<longleftrightarrow> (\<forall>k.
     (\<forall>c c'. holds s k c \<longrightarrow> holds s k c' \<longrightarrow> c = c') \<and>
     (key_locked (lr_locks s) k \<longleftrightarrow> (\<exists>c. holds s k c)) \<and>
     (key_queue (lr_locks s) k \<noteq> [] \<longrightarrow> key_locked (lr_locks s) k) \<and>
     distinct (map wt_caller (key_queue (lr_locks s) k)) \<and>
     (\<forall>w. w \<in> set (key_queue (lr_locks s) k) \<longleftrightarrow> waits s k w))"

lemma lock_invD:
  assumes "lock_inv s"
  shows "holds s k c \<Longrightarrow> holds s k c' \<Longrightarrow> c = c'"
    and "key_locked (lr_locks s) k \<longleftrightarrow> (\<exists>c. holds s k c)"
    and "key_queue (lr_locks s) k \<noteq> [] \<Longrightarrow> key_locked (lr_locks s) k"
    and "distinct (map wt_caller (key_queue (lr_locks s) k))"
    and "w \<in> set (key_queue (lr_locks s) k) \<longleftrightarrow> waits s k w"
  using assms unfolding lock_inv_def by blast+

lemma lock_inv_start: "lock_inv lock_start"
  by (simp add: lock_inv_def lock_start_def holds_def waits_def key_locked_def key_queue_def)

lemma queued_not_outside:
  assumes "lock_inv s" and "w \<in> set (key_queue (lr_locks s) k)"
  shows "lr_callers s (wt_caller w) \<noteq> Outside" "\<not> holds s k' (wt_caller w)"
  using lock_invD(5) [OF assms(1), of w k] assms(2) by (auto simp: waits_def holds_def)

lemma lock_inv_acquire:
  assumes inv: "lock_inv s" and out: "lr_callers s c = Outside"
  shows "lock_inv (do_acquire c n i t s)"
proof (cases "key_locked (lr_locks s) (instance_key n i)")
  case False
  from acquire_free [OF this, of t c] obtain L where L: "locker_acquire n i t c (lr_locks s) = (Acquired, L)"
    "key_locked L = (key_locked (lr_locks s))(instance_key n i := True)" "key_queue L = key_queue (lr_locks s)"
    by blast
  have s': "do_acquire c n i t s = \<lparr>lr_locks = L, lr_callers = (lr_callers s)(c := Holding n i)\<rparr>"
    using L(1) by (simp add: do_acquire_def)
  have h: "holds (do_acquire c n i t s) k c' \<longleftrightarrow> holds s k c' \<or> (c' = c \<and> k = instance_key n i)" for k c'
    using out by (auto simp: s' holds_def)
  have w: "waits (do_acquire c n i t s) k w \<longleftrightarrow> waits s k w" for k w
    using out by (auto simp: s' waits_def)
  have none: "\<not> holds s (instance_key n i) c'" for c'
    using lock_invD(2) [OF inv] False by blast
  have nc: "\<not> holds s k c" for k using out by (simp add: holds_def)
  show ?thesis
    unfolding lock_inv_def h w
    using lock_invD [OF inv] none nc False by (auto simp: s' L)
next
  case True
  from acquire_held [OF this, of t c] obtain L where L: "locker_acquire n i t c (lr_locks s) = (Enqueued, L)"
    "key_locked L = key_locked (lr_locks s)"
    "key_queue L = (key_queue (lr_locks s))(instance_key n i := key_queue (lr_locks s) (instance_key n i) @
        [\<lparr>wt_caller = c, wt_timer = armed_timer t\<rparr>])"
    by blast
  have s': "do_acquire c n i t s = \<lparr>lr_locks = L, lr_callers = (lr_callers s)(c := Waiting n i t)\<rparr>"
    using L(1) by (simp add: do_acquire_def)
  have h: "holds (do_acquire c n i t s) k c' \<longleftrightarrow> holds s k c'" for k c'
    using out by (auto simp: s' holds_def)
  have w: "waits (do_acquire c n i t s) k w \<longleftrightarrow>
      waits s k w \<or> (k = instance_key n i \<and> w = \<lparr>wt_caller = c, wt_timer = armed_timer t\<rparr>)" for k w
    using out by (cases w) (auto simp: s' waits_def)
  have fresh: "c \<notin> wt_caller ` set (key_queue (lr_locks s) k)" for k
    using queued_not_outside(1) [OF inv] out by force
  show ?thesis
    unfolding lock_inv_def h w
    using lock_invD [OF inv] fresh True by (auto simp: s' L)
qed

lemma lock_inv_release:
  assumes inv: "lock_inv s" and hold: "lr_callers s c = Holding n i"
  shows "lock_inv (do_release c n i s)"
proof -
  let ?k = "instance_key n i"
  have hc: "holds s ?k c" using hold by (auto simp: holds_def)
  then have lk: "key_locked (lr_locks s) ?k" using lock_invD(2) [OF inv] by blast
  have only: "holds s ?k c' \<Longrightarrow> c' = c" for c' using lock_invD(1) [OF inv hc] by blast
  have cw: "\<not> waits s k w" if "wt_caller w = c" for k w using hold that by (auto simp: waits_def)
  show ?thesis
  proof (cases "key_queue (lr_locks s) ?k")
    case Nil
    from release_frees [OF lk Nil] obtain L where L: "locker_release n i (lr_locks s) = (None, L)"
      "key_locked L = (key_locked (lr_locks s))(?k := False)" "key_queue L = key_queue (lr_locks s)" by blast
    have s': "do_release c n i s = \<lparr>lr_locks = L, lr_callers = (lr_callers s)(c := Outside)\<rparr>"
      using L(1) by (simp add: do_release_def)
    have h: "holds (do_release c n i s) k c' \<longleftrightarrow> holds s k c' \<and> c' \<noteq> c" for k c'
      by (auto simp: s' holds_def)
    have w: "waits (do_release c n i s) k w \<longleftrightarrow> waits s k w" for k w
      using cw [of w k] by (auto simp: s' waits_def)
    have other: "\<not> holds s k c" if "k \<noteq> ?k" for k using hold that by (auto simp: holds_def)
    show ?thesis
      unfolding lock_inv_def h w
      using lock_invD [OF inv] only other Nil by (auto simp: s' L)
  next
    case (Cons x ws)
    from release_hands_over [OF lk Cons] obtain L where L: "locker_release n i (lr_locks s) = (Some x, L)"
      "key_locked L = key_locked (lr_locks s)" "key_queue L = (key_queue (lr_locks s))(?k := ws)" by blast
    have xw: "waits s ?k x" using lock_invD(5) [OF inv, of x ?k] Cons by simp
    have xc: "wt_caller x \<noteq> c" using cw xw by blast
    have s': "do_release c n i s = \<lparr>lr_locks = L,
        lr_callers = ((lr_callers s)(c := Outside))(wt_caller x := resume (lr_callers s (wt_caller x)))\<rparr>"
      using L(1) by (simp add: do_release_def)
    have h: "holds (do_release c n i s) k c' \<longleftrightarrow>
        (holds s k c' \<and> c' \<noteq> c) \<or> (c' = wt_caller x \<and> k = ?k)" for k c'
      using xw by (auto simp: s' holds_def waits_def)
    have w: "waits (do_release c n i s) k w \<longleftrightarrow> waits s k w \<and> wt_caller w \<noteq> wt_caller x" for k w
      using cw [of w k] xc xw by (auto simp: s' waits_def)
    have xh: "\<not> holds s k (wt_caller x)" for k using xw by (auto simp: waits_def holds_def)
    have other: "\<not> holds s k c" if "k \<noteq> ?k" for k using hold that by (auto simp: holds_def)
    have same: "k = ?k" if "waits s k w" "wt_caller w = wt_caller x" for k w
      using that xw by (auto simp: waits_def)
    have dist: "distinct (map wt_caller (x # ws))" using lock_invD(4) [OF inv, of ?k] Cons by simp
    have q: "w \<in> set (if k = ?k then ws else key_queue (lr_locks s) k) \<longleftrightarrow>
        waits s k w \<and> wt_caller w \<noteq> wt_caller x" for k w
    proof (cases "k = ?k")
      case True
      have "w \<in> set (x # ws) \<longleftrightarrow> waits s k w" using lock_invD(5) [OF inv, of w ?k] Cons True by simp
      moreover have "wt_caller w \<noteq> wt_caller x" if "w \<in> set ws"
        using dist that by (metis distinct.simps(2) image_eqI list.simps(9) set_map)
      ultimately show ?thesis using True by auto
    next
      case False
      with lock_invD(5) [OF inv, of w k] same [of k w] show ?thesis by auto
    qed
    show ?thesis
      unfolding lock_inv_def h w
      using lock_invD(1-4) [OF inv] only other q dist lk by (auto simp: s' L)
  qed
qed

lemma lock_inv_timeout:
  assumes inv: "lock_inv s" and wait: "lr_callers s c = Waiting n i (Some t)" and "t > 0"
  shows "lock_inv (do_timeout c n i t s)"
proof -
  let ?k = "instance_key n i" and ?w = "\<lparr>wt_caller = c, wt_timer = Some t\<rparr>"
  have ws: "waits s ?k ?w" using wait \<open>t > 0\<close> by (auto simp: waits_def armed_timer_def)
  then have "?w \<in> set (key_queue (lr_locks s) ?k)" using lock_invD(5) [OF inv] by blast
  from timeout_effect [OF this] obtain L e where L: "locker_timeout n i ?w (lr_locks s) = (Some e, L)"
    "key_locked L = key_locked (lr_locks s)"
    "key_queue L = (key_queue (lr_locks s))(?k := remove1 ?w (key_queue (lr_locks s) ?k))" by blast
  have s': "do_timeout c n i t s = \<lparr>lr_locks = L, lr_callers = (lr_callers s)(c := Outside)\<rparr>"
    using L(1) by (simp add: do_timeout_def)
  have h: "holds (do_timeout c n i t s) k c' \<longleftrightarrow> holds s k c'" for k c'
    using wait by (auto simp: s' holds_def)
  have w: "waits (do_timeout c n i t s) k w \<longleftrightarrow> waits s k w \<and> wt_caller w \<noteq> c" for k w
    by (auto simp: s' waits_def)
  have uniq: "waits s k w \<and> wt_caller w = c \<longleftrightarrow> k = ?k \<and> w = ?w" for k w
    using wait \<open>t > 0\<close> by (cases w) (auto simp: waits_def armed_timer_def)
  have q: "w \<in> set (remove1 ?w (key_queue (lr_locks s) ?k)) \<longleftrightarrow> waits s ?k w \<and> wt_caller w \<noteq> c" for w
    using lock_invD(4,5) [OF inv] uniq [of ?k w] by (auto simp: distinct_map)
  have d: "distinct (map wt_caller (remove1 ?w (key_queue (lr_locks s) ?k)))"
    using lock_invD(4) [OF inv, of ?k] by (meson distinct_map distinct_remove1 inj_on_subset set_remove1_subset)
  have ne: "remove1 ?w (key_queue (lr_locks s) ?k) \<noteq> [] \<Longrightarrow> key_queue (lr_locks s) ?k \<noteq> []" by auto
  have other: "wt_caller w \<noteq> c" if "waits s k w" "k \<noteq> ?k" for k w using uniq [of k w] that by blast
  show ?thesis
    unfolding lock_inv_def h w
    using lock_invD [OF inv] q d ne by (auto simp: s' L dest: other)
qed

lemma lock_inv_step: "lock_step s s' \<Longrightarrow> lock_inv s \<Longrightarrow> lock_inv s'"
  by (elim lock_stepE) (simp_all add: lock_inv_acquire lock_inv_release lock_inv_timeout)

lemma lock_inv_reachable: "lock_step\<^sup>*\<^sup>* lock_start s \<Longrightarrow> lock_inv s"
  by (induction rule: rtranclp_induct) (auto simp: lock_inv_start lock_inv_step)

section \<open>Properties\<close>

text \<open>C10: Mutual exclusion without lost wake-ups. In every state that any interleaving of acquires,
  releases and timeouts by any number of callers can reach, at most one caller holds the lock of a
  key, the lock table says locked exactly when some caller holds it, the queue of a key contains
  exactly the callers that are waiting for it, and a caller waits only while somebody else holds
  the lock (so the release that will resume it is still to come).\<close>
theorem locker_mutual_exclusion:
  assumes "lock_step\<^sup>*\<^sup>* lock_start s"
  shows "(holds s k c \<longrightarrow> holds s k c' \<longrightarrow> c = c') \<and>
    (key_locked (lr_locks s) k \<longleftrightarrow> (\<exists>c. holds s k c)) \<and>
    (w \<in> set (key_queue (lr_locks s) k) \<longleftrightarrow> waits s k w) \<and>
    (waits s k w \<longrightarrow> (\<exists>c. c \<noteq> wt_caller w \<and> holds s k c))"
proof -
  note inv = lock_inv_reachable [OF assms]
  have "\<exists>c. c \<noteq> wt_caller w \<and> holds s k c" if "waits s k w"
  proof -
    have q: "w \<in> set (key_queue (lr_locks s) k)" using lock_invD(5) [OF inv] that by blast
    then have "key_queue (lr_locks s) k \<noteq> []" by auto
    then obtain c where "holds s k c" using lock_invD(2,3) [OF inv, of k] by blast
    moreover have "\<not> holds s k (wt_caller w)" by (rule queued_not_outside(2) [OF inv q])
    ultimately show ?thesis by metis
  qed
  with lock_invD [OF inv] show ?thesis by blast
qed

theorem locker_mutual_exclusion_witness:
  "\<exists>c. c \<noteq> 2 \<and> holds (do_acquire 2 ''Acc'' (IDStr ''1'') (Some 50)
      (do_acquire 1 ''Acc'' (IDStr ''1'') None lock_start)) ''Acc:1'' c"
proof -
  let ?s1 = "do_acquire 1 ''Acc'' (IDStr ''1'') None lock_start"
  let ?s = "do_acquire 2 ''Acc'' (IDStr ''1'') (Some 50) ?s1"
  have "lr_callers ?s1 2 = Outside" "lr_callers lock_start 1 = Outside"
    by (simp_all add: do_acquire_def lock_start_def locker_defs)
  then have reach: "lock_step\<^sup>*\<^sup>* lock_start ?s"
    by (meson lock_step.step_acquire r_into_rtranclp rtranclp_trans)
  have "waits ?s ''Acc:1'' \<lparr>wt_caller = 2, wt_timer = Some 50\<rparr>"
    by (simp add: do_acquire_def lock_start_def locker_defs waits_def instance_key_def armed_timer_def)
  then show ?thesis using locker_mutual_exclusion [OF reach] by fastforce
qed

text \<open>The current holder releases what it holds.\<close>

definition release_own :: "nat \<Rightarrow> lock_run \<Rightarrow> lock_run" where
  "release_own c s = (case lr_callers s c of Holding n i \<Rightarrow> do_release c n i s | _ \<Rightarrow> s)"

lemma release_own_next:
  assumes inv: "lock_inv s" and c: "holds s k c" and q: "key_queue (lr_locks s) k = w # ws"
  shows "lock_inv (release_own c s) \<and> holds (release_own c s) k (wt_caller w) \<and>
    key_queue (lr_locks (release_own c s)) k = ws"
proof -
  obtain n i where n: "lr_callers s c = Holding n i" "instance_key n i = k"
    using c by (auto simp: holds_def)
  then have own: "release_own c s = do_release c n i s" by (simp add: release_own_def)
  have lk: "key_locked (lr_locks s) (instance_key n i)" using lock_invD(2) [OF inv] c n by auto
  from release_hands_over [OF lk, of w ws] q n obtain L where
    L: "locker_release n i (lr_locks s) = (Some w, L)" "key_queue L = (key_queue (lr_locks s))(k := ws)" by auto
  have "waits s k w" using lock_invD(5) [OF inv, of w k] q by simp
  with L n lock_inv_release [OF inv n(1)] show ?thesis
    unfolding own by (auto simp: do_release_def holds_def waits_def)
qed

text \<open>The lock is granted first come, first served. From any reachable state, when the holder
  of a key releases, then the caller that receives the lock releases, and so on, the lock passes
  through the queued callers in the order in which they called acquire: after m hand-overs (m at
  most the number of waiters) the holder is the m-th waiter.\<close>
lemma locker_fifo:
  assumes "lock_step\<^sup>*\<^sup>* lock_start s" and "holds s k c"
    and "callers = map wt_caller (key_queue (lr_locks s) k)" and "m \<le> length callers"
  shows "holds (fold release_own (take m (c # callers)) s) k ((c # callers) ! m)"
  using lock_inv_reachable [OF assms(1)] assms(2-)
proof (induction m arbitrary: s c callers)
  case 0
  then show ?case by simp
next
  case (Suc m)
  from Suc.prems obtain w ws where q: "key_queue (lr_locks s) k = w # ws" by (cases "key_queue (lr_locks s) k") auto
  note nxt = release_own_next [OF Suc.prems(1,2) q]
  have "holds (fold release_own (take m (wt_caller w # map wt_caller ws)) (release_own c s)) k
      ((wt_caller w # map wt_caller ws) ! m)"
    using nxt Suc.prems(3,4) q by (intro Suc.IH) auto
  then show ?case using Suc.prems(3) q by simp
qed

lemma locker_fifo_sample:
  "holds (fold release_own [1, 2] (do_acquire 3 ''Acc'' (IDStr ''1'') None
     (do_acquire 2 ''Acc'' (IDStr ''1'') None (do_acquire 1 ''Acc'' (IDStr ''1'') None lock_start))))
     ''Acc:1'' 3"
proof -
  let ?s1 = "do_acquire 1 ''Acc'' (IDStr ''1'') None lock_start"
  let ?s2 = "do_acquire 2 ''Acc'' (IDStr ''1'') None ?s1"
  let ?s = "do_acquire 3 ''Acc'' (IDStr ''1'') None ?s2"
  have "lr_callers ?s2 3 = Outside" "lr_callers ?s1 2 = Outside" "lr_callers lock_start 1 = Outside"
    by (simp_all add: do_acquire_def lock_start_def locker_defs)
  then have reach: "lock_step\<^sup>*\<^sup>* lock_start ?s"
    by (meson lock_step.step_acquire r_into_rtranclp rtranclp_trans)
  have h: "holds ?s ''Acc:1'' 1"
    by (simp add: do_acquire_def lock_start_def locker_defs holds_def instance_key_def)
  have q: "[2, 3] = map wt_caller (key_queue (lr_locks ?s) ''Acc:1'')"
    by (simp add: do_acquire_def lock_start_def locker_defs key_queue_def instance_key_def)
  show ?thesis using locker_fifo [OF reach h q, of 2] by (simp add: numeral_eq_Suc)
qed

end
