(* ===== verification/Unit_Of_Work.thy ===== *)
theory Unit_Of_Work
  imports Messages
begin

text \<open>
  Units of work: the interface of \<^verbatim>\<open>core/src/persistence/unit-of-work.ts\<close>, the in-memory
  implementation (\<^verbatim>\<open>in-memory-unit-of-work.ts\<close>), the database-backed commit shared by the
  TypeORM and Prisma adapters and by the callback path of the Drizzle one, and the completion
  hooks of \<^verbatim>\<open>uow-completion-hooks.ts\<close>. The \<^verbatim>\<open>WeakMap\<close> registry keyed by the
  identity of the unit of work is a hidden field of the unit of work itself. Operations and hooks
  are thunks over the world \<open>'w\<close> of the stores.
\<close>

record 'w completion_hooks =
  h_onCommitted :: "('w, unit) action list"
  h_onSettled :: "('w, unit) action list"

record 'w uow =
  u_operations :: "('w, unit) action list"
  u_pendingEvents :: "event list"
  u_completed :: bool
  u_hooks :: "'w completion_hooks option"

definition createInMemoryUnitOfWork :: "'w uow" where
  "createInMemoryUnitOfWork =
     \<lparr>u_operations = [], u_pendingEvents = [], u_completed = False, u_hooks = None\<rparr>"

lemma new_uow_simps [simp]:
  "u_operations createInMemoryUnitOfWork = []" "u_pendingEvents createInMemoryUnitOfWork = []"
  "\<not> u_completed createInMemoryUnitOfWork" "u_hooks createInMemoryUnitOfWork = None"
  by (simp_all add: createInMemoryUnitOfWork_def)

section \<open>Operations\<close>

definition assertNotCompleted :: "('w uow, unit) action" where
  "assertNotCompleted u = (if u_completed u then (Inl UnitOfWorkCompleted, u) else (Inr (), u))"

definition enlist :: "('w, unit) action \<Rightarrow> ('w uow, unit) action" where
  "enlist operation =
     then_act assertNotCompleted
       (\<lambda>u. (Inr (), u\<lparr>u_operations := u_operations u @ [operation]\<rparr>))"

definition deferPublish :: "event list \<Rightarrow> ('w uow, unit) action" where
  "deferPublish events =
     then_act assertNotCompleted
       (\<lambda>u. (Inr (), u\<lparr>u_pendingEvents := u_pendingEvents u @ events\<rparr>))"

definition rollback :: "('w uow, unit) action" where
  "rollback =
     then_act assertNotCompleted
       (\<lambda>u. (Inr (), u\<lparr>u_completed := True, u_operations := [], u_pendingEvents := []\<rparr>))"

text \<open>\<^verbatim>\<open>for (const operation of this.operations) await operation()\<close>\<close>

definition run_operations :: "('w, unit) action list \<Rightarrow> ('w, unit) action" where
  "run_operations ops = for_each (\<lambda>operation. operation) ops"

definition commit :: "('w uow \<times> 'w, event list) action" where
  "commit =
     then_act (on_fst assertNotCompleted)
       (\<lambda>(u, w). case run_operations (u_operations u) w of
          (Inl e, w') \<Rightarrow> (Inl e, (u\<lparr>u_completed := True\<rparr>, w'))
        | (Inr _, w') \<Rightarrow> (Inr (u_pendingEvents u), (u\<lparr>u_completed := True\<rparr>, w')))"

text \<open>
  The commit of the database adapters: the same loop inside \<open>transaction\<close>, the third-party
  \<^verbatim>\<open>db.transaction(...)\<close>, \<^verbatim>\<open>prisma.$transaction(...)\<close> or
  \<^verbatim>\<open>dataSource.manager.transaction(...)\<close>.
\<close>

definition tx_commit ::
  "(('w, unit) action \<Rightarrow> ('w, unit) action) \<Rightarrow> ('w uow \<times> 'w, event list) action" where
  "tx_commit transaction =
     then_act (on_fst assertNotCompleted)
       (\<lambda>(u, w). case transaction (run_operations (u_operations u)) w of
          (Inl e, w') \<Rightarrow> (Inl e, (u\<lparr>u_completed := True\<rparr>, w'))
        | (Inr _, w') \<Rightarrow> (Inr (u_pendingEvents u), (u\<lparr>u_completed := True\<rparr>, w')))"

section \<open>Completion hooks\<close>

definition getOrCreate :: "'w uow \<Rightarrow> 'w completion_hooks" where
  "getOrCreate u = or_else (u_hooks u) \<lparr>h_onCommitted = [], h_onSettled = []\<rparr>"

definition onUowCommitted :: "('w, unit) action \<Rightarrow> 'w uow \<Rightarrow> 'w uow" where
  "onUowCommitted hook u =
     u\<lparr>u_hooks := Some ((getOrCreate u)\<lparr>h_onCommitted := h_onCommitted (getOrCreate u) @ [hook]\<rparr>)\<rparr>"

definition onUowSettled :: "('w, unit) action \<Rightarrow> 'w uow \<Rightarrow> 'w uow" where
  "onUowSettled hook u =
     u\<lparr>u_hooks := Some ((getOrCreate u)\<lparr>h_onSettled := h_onSettled (getOrCreate u) @ [hook]\<rparr>)\<rparr>"

definition runUowCompletionHooks :: "bool \<Rightarrow> ('w uow \<times> 'w, unit) action" where
  "runUowCompletionHooks committed s =
     (case u_hooks (fst s) of
        None \<Rightarrow> (Inr (), s)
      | Some hooks \<Rightarrow>
          on_snd
            (then_act (if committed then run_operations (h_onCommitted hooks) else ret ())
              (run_operations (h_onSettled hooks)))
            ((fst s)\<lparr>u_hooks := None\<rparr>, snd s))"

lemmas uow_defs = assertNotCompleted_def enlist_def deferPublish_def rollback_def on_fst_def
  on_snd_def then_act_def bind_act_def

section \<open>The contract of a unit of work\<close>

locale unit_of_work =
  fixes cmt :: "('w uow \<times> 'w, event list) action"
  assumes cmt_sealed: "u_completed u \<Longrightarrow> cmt (u, w) = (Inl UnitOfWorkCompleted, (u, w))"
    and cmt_seals: "cmt (u, w) = (r, (u', w')) \<Longrightarrow> u_completed u'"
    and cmt_ok: "\<not> u_completed u \<Longrightarrow> run_operations (u_operations u) w = (Inr (), w') \<Longrightarrow>
      cmt (u, w) = (Inr (u_pendingEvents u), (u\<lparr>u_completed := True\<rparr>, w'))"
    and cmt_fail: "\<not> u_completed u \<Longrightarrow> run_operations (u_operations u) w = (Inl e, w') \<Longrightarrow>
      fst (cmt (u, w)) = Inl e"
begin

lemma commit_once: "cmt (u, w) = (r, (u', w')) \<Longrightarrow> cmt (u', w'') = (Inl UnitOfWorkCompleted, (u', w''))"
  by (simp add: cmt_seals cmt_sealed)

lemma commit_succeeds_iff:
  "fst (cmt (u, w)) = Inr evs \<longleftrightarrow>
     \<not> u_completed u \<and> fst (run_operations (u_operations u) w) = Inr () \<and> evs = u_pendingEvents u"
proof (cases "u_completed u")
  case True
  then show ?thesis by (simp add: cmt_sealed)
next
  case False
  obtain r w' where run: "run_operations (u_operations u) w = (r, w')"
    by (cases "run_operations (u_operations u) w")
  show ?thesis
    using False cmt_ok [OF False, of w w'] cmt_fail [OF False, of w _ w'] run by (cases r) auto
qed

end

locale atomic_unit_of_work = unit_of_work +
  assumes cmt_atomic: "cmt (u, w) = (Inl e, (u', w')) \<Longrightarrow> w' = w"

text \<open>What the adapters rely on from the database client: a transaction whose body throws is
  rolled back and rethrows, one whose body succeeds keeps its effects.\<close>

locale db_transaction =
  fixes transaction :: "('w, unit) action \<Rightarrow> ('w, unit) action"
  assumes tx_ok: "body w = (Inr (), w') \<Longrightarrow> transaction body w = (Inr (), w')"
    and tx_rollback: "body w = (Inl e, w') \<Longrightarrow> transaction body w = (Inl e, w)"
begin

lemma tx_commit_atomic_uow: "atomic_unit_of_work (tx_commit transaction)"
proof
  fix u :: "'w uow" and w w' u' e r
  show "u_completed u \<Longrightarrow> tx_commit transaction (u, w) = (Inl UnitOfWorkCompleted, (u, w))"
    by (simp add: tx_commit_def uow_defs)
  show "tx_commit transaction (u, w) = (r, (u', w')) \<Longrightarrow> u_completed u'"
    by (auto simp: tx_commit_def uow_defs split: prod.splits sum.splits if_splits)
  show "\<not> u_completed u \<Longrightarrow> run_operations (u_operations u) w = (Inr (), w') \<Longrightarrow>
      tx_commit transaction (u, w) = (Inr (u_pendingEvents u), (u\<lparr>u_completed := True\<rparr>, w'))"
    by (simp add: tx_commit_def uow_defs tx_ok)
  show "\<not> u_completed u \<Longrightarrow> run_operations (u_operations u) w = (Inl e, w') \<Longrightarrow>
      fst (tx_commit transaction (u, w)) = Inl e"
    by (simp add: tx_commit_def uow_defs tx_rollback)
  assume *: "tx_commit transaction (u, w) = (Inl e, (u', w'))"
  obtain r1 w1 where run: "run_operations (u_operations u) w = (r1, w1)"
    by (cases "run_operations (u_operations u) w")
  show "w' = w"
    using * tx_ok [of "run_operations (u_operations u)" w w1]
      tx_rollback [of "run_operations (u_operations u)" w _ w1] run
    by (cases r1) (auto simp: tx_commit_def uow_defs split: if_splits)
qed

end

sublocale db_transaction \<subseteq> tx: atomic_unit_of_work "tx_commit transaction"
  by (rule tx_commit_atomic_uow)

interpretation mem_uow: unit_of_work commit
  by unfold_locales (auto simp: commit_def uow_defs split: prod.splits sum.splits if_splits)

text \<open>A database transaction: the writes of the body become visible when it succeeds.\<close>

definition snapshot_transaction :: "('w, unit) action \<Rightarrow> ('w, unit) action" where
  "snapshot_transaction body w =
     (case body w of (Inl e, _) \<Rightarrow> (Inl e, w) | (Inr _, w') \<Rightarrow> (Inr (), w'))"

interpretation db_tx: db_transaction snapshot_transaction
  by unfold_locales (simp_all add: snapshot_transaction_def)

section \<open>Properties\<close>

lemma uow_sealed_ops:
  assumes "u_completed u"
  shows "enlist op u = (Inl UnitOfWorkCompleted, u)" "deferPublish evs u = (Inl UnitOfWorkCompleted, u)"
    "rollback u = (Inl UnitOfWorkCompleted, u)"
  using assms by (simp_all add: uow_defs)

lemma uow_open_ops [simp]:
  assumes "\<not> u_completed u"
  shows "enlist op u = (Inr (), u\<lparr>u_operations := u_operations u @ [op]\<rparr>)"
    "deferPublish evs u = (Inr (), u\<lparr>u_pendingEvents := u_pendingEvents u @ evs\<rparr>)"
    "rollback u = (Inr (), u\<lparr>u_completed := True, u_operations := [], u_pendingEvents := []\<rparr>)"
  using assms by (simp_all add: uow_defs)

text \<open>The in-memory commit runs the enlisted operations in enlistment order and seals the unit
  of work. On success every operation has run on the state its predecessors left and the deferred
  events are returned in the order they were deferred. On failure the operations before the first
  throwing one have taken effect, that one's error is thrown, none after it has run, and no event
  is returned.\<close>
lemma commit_in_order:
  assumes "\<not> u_completed u"
  shows "case commit (u, w) of
      (Inr evs, (u', w')) \<Rightarrow> evs = u_pendingEvents u \<and> u_completed u' \<and>
        run_operations (u_operations u) w = (Inr (), w')
    | (Inl e, (u', w')) \<Rightarrow> u_completed u' \<and>
        (\<exists>done op rest w1. u_operations u = done @ op # rest \<and>
           run_operations done w = (Inr (), w1) \<and> op w1 = (Inl e, w'))"
proof -
  obtain r w' where run: "run_operations (u_operations u) w = (r, w')"
    by (cases "run_operations (u_operations u) w")
  show ?thesis
  proof (cases r)
    case (Inr x)
    with assms run show ?thesis by (simp add: mem_uow.cmt_ok)
  next
    case (Inl e)
    with run have "for_each (\<lambda>op. op) (u_operations u) w = (Inl e, w')"
      by (simp add: run_operations_def)
    from for_each_Inl [OF this] assms Inl run show ?thesis
      by (simp add: commit_def uow_defs run_operations_def)
  qed
qed

definition put :: "'a \<Rightarrow> ('a list, unit) action" where
  "put x s = (Inr (), s @ [x])"

definition failing :: "string \<Rightarrow> ('s, unit) action" where
  "failing m s = (Inl (UserError m), s)"

lemma commit_in_order_sample:
  "commit (createInMemoryUnitOfWork\<lparr>u_operations := [put (1::int), failing ''db'', put 2]\<rparr>, []) =
     (Inl (UserError ''db''),
      createInMemoryUnitOfWork\<lparr>u_operations := [put 1, failing ''db'', put 2], u_completed := True\<rparr>, [1]) \<and>
   u_completed (fst (snd (commit
     (createInMemoryUnitOfWork\<lparr>u_operations := [put (1::int), failing ''db'', put 2]\<rparr>, []))))"
  using commit_in_order [of "createInMemoryUnitOfWork\<lparr>u_operations := [put (1::int), failing ''db'', put 2]\<rparr>" "[]"]
  by (simp add: commit_def uow_defs run_operations_def put_def failing_def createInMemoryUnitOfWork_def)

text \<open>The commit of the database adapters is atomic. Given a transaction function that keeps
  the body's effects when it succeeds and undoes them when it throws, a failing commit leaves the
  world exactly as it was and throws the failing operation's error, a successful one has run every
  operation in order and returns the deferred events, and the unit of work is sealed either way.\<close>
lemma tx_commit_atomic:
  assumes "db_transaction transaction" and "\<not> u_completed u"
  shows "case tx_commit transaction (u, w) of
      (Inr evs, (u', w')) \<Rightarrow> evs = u_pendingEvents u \<and> u_completed u' \<and>
        run_operations (u_operations u) w = (Inr (), w')
    | (Inl e, (u', w')) \<Rightarrow> w' = w \<and> u_completed u' \<and>
        fst (run_operations (u_operations u) w) = Inl e"
proof -
  obtain r w' where run: "run_operations (u_operations u) w = (r, w')"
    by (cases "run_operations (u_operations u) w")
  show ?thesis
    using assms(2) run db_transaction.tx_ok [OF assms(1), of "run_operations (u_operations u)" w w']
      db_transaction.tx_rollback [OF assms(1), of "run_operations (u_operations u)" w _ w']
    by (cases r) (simp_all add: tx_commit_def uow_defs)
qed

lemma tx_commit_atomic_sample:
  "snd (snd (tx_commit snapshot_transaction
     (createInMemoryUnitOfWork\<lparr>u_operations := [put (1::int), failing ''db'']\<rparr>, [7]))) = [7]"
  using tx_commit_atomic [OF db_tx.db_transaction_axioms,
      of "createInMemoryUnitOfWork\<lparr>u_operations := [put (1::int), failing ''db'']\<rparr>" "[7]"]
  by (simp add: tx_commit_def uow_defs run_operations_def put_def failing_def
      createInMemoryUnitOfWork_def snapshot_transaction_def)

text \<open>A unit of work is single-use. After a commit, successful or not, and after a rollback,
  every further enlist, deferPublish, commit and rollback throws and changes neither the unit of
  work nor the world; and a rolled-back unit of work has dropped all its operations and events.\<close>
lemma uow_single_use:
  assumes "(\<exists>w r w1. commit (u, w) = (r, (u', w1))) \<or> (\<exists>r. rollback u = (r, u'))"
  shows "enlist op u' = (Inl UnitOfWorkCompleted, u') \<and>
    deferPublish evs u' = (Inl UnitOfWorkCompleted, u') \<and>
    rollback u' = (Inl UnitOfWorkCompleted, u') \<and>
    commit (u', w) = (Inl UnitOfWorkCompleted, (u', w))"
proof -
  have "u_completed u'"
  proof (cases "\<exists>r. rollback u = (r, u')")
    case True
    then show ?thesis by (cases "u_completed u") (auto simp: uow_sealed_ops)
  next
    case False
    with assms show ?thesis by (auto dest: mem_uow.cmt_seals)
  qed
  then show ?thesis by (simp add: uow_sealed_ops mem_uow.cmt_sealed)
qed

lemma uow_single_use_sample:
  "commit (snd (rollback (createInMemoryUnitOfWork :: nat uow)), 3) =
     (Inl UnitOfWorkCompleted, (snd (rollback createInMemoryUnitOfWork), 3))"
  using uow_single_use [of createInMemoryUnitOfWork "snd (rollback (createInMemoryUnitOfWork :: nat uow))"]
  by (simp add: createInMemoryUnitOfWork_def)

end
