(* ===== verification/Concurrency.thy ===== *)
theory Concurrency
  imports Locker Unit_Of_Work
begin

text \<open>
  The concurrency strategies of \<^verbatim>\<open>concurrency-strategy.ts\<close>: optimistic retry, pessimistic
  locking and the per-aggregate composite, with the locker as the interface
  \<^verbatim>\<open>AggregateLocker\<close>. An attempt is an action on any world; the class hierarchy is a datatype
  whose constructors carry the constructor arguments.
\<close>

text \<open>\<^verbatim>\<open>interface AggregateLocker\<close>\<close>

datatype 'w locker = Locker
  (lk_acquire: "string \<Rightarrow> ID \<Rightarrow> int option \<Rightarrow> ('w, unit) action")
  (lk_release: "string \<Rightarrow> ID \<Rightarrow> ('w, unit) action")

datatype 'w strategy =
    Optimistic int
  | Pessimistic "'w locker" "int option"
  | PerAggregate "(string \<times> 'w strategy) list" "'w strategy"

section \<open>execute\<close>

text \<open>The loop \<^verbatim>\<open>for (let i = 0; i <= maxRetries; i++)\<close> from index \<open>i\<close>.\<close>

function optimistic_from :: "int \<Rightarrow> int \<Rightarrow> ('w, 'a) action \<Rightarrow> ('w, 'a) action" where
  "optimistic_from i maxRetries attempt w =
     (if i \<le> maxRetries
      then (case attempt w of
              (Inr x, w') \<Rightarrow> (Inr x, w')
            | (Inl e, w') \<Rightarrow>
                if is_concurrency_error e \<and> i < maxRetries
                then optimistic_from (i + 1) maxRetries attempt w'
                else (Inl e, w'))
      else (Inl RetryLoopExhausted, w))"
  by pat_completeness auto
termination
  by (relation "measure (\<lambda>(i, m, _, _). nat (m + 1 - i))") auto

declare optimistic_from.simps [simp del]

definition optimistic_execute :: "int \<Rightarrow> ('w, 'a) action \<Rightarrow> ('w, 'a) action" where
  "optimistic_execute maxRetries attempt = optimistic_from 0 maxRetries attempt"

definition pessimistic_execute ::
  "'w locker \<Rightarrow> int option \<Rightarrow> string \<Rightarrow> ID \<Rightarrow> ('w, 'a) action \<Rightarrow> ('w, 'a) action" where
  "pessimistic_execute locker timeoutMs aggregateName aggregateId attempt =
     then_act (lk_acquire locker aggregateName aggregateId timeoutMs)
       (finally_act attempt (lk_release locker aggregateName aggregateId))"

lemma strategy_size: "map_of ss n = Some s \<Longrightarrow> size s < Suc (size_list (size_prod (\<lambda>_. 0) size) ss + k)"
  by (induction ss) (auto split: if_splits)

function strategy_execute :: "'w strategy \<Rightarrow> string \<Rightarrow> ID \<Rightarrow> ('w, 'a) action \<Rightarrow> ('w, 'a) action" where
  "strategy_execute (Optimistic maxRetries) aggregateName aggregateId attempt =
     optimistic_execute maxRetries attempt"
| "strategy_execute (Pessimistic locker timeoutMs) aggregateName aggregateId attempt =
     pessimistic_execute locker timeoutMs aggregateName aggregateId attempt"
| "strategy_execute (PerAggregate strategies defaultStrategy) aggregateName aggregateId attempt =
     strategy_execute
       (case jm_get strategies aggregateName of None \<Rightarrow> defaultStrategy | Some s \<Rightarrow> s)
       aggregateName aggregateId attempt"
  by pat_completeness auto
termination
  by (relation "measure (\<lambda>(s, _, _, _). size s)") (auto simp: jm_get_def split: option.splits dest: strategy_size)

section \<open>acquireForUow\<close>

text \<open>Whether the strategy object has the optional method.\<close>

fun has_acquireForUow :: "'w strategy \<Rightarrow> bool" where
  "has_acquireForUow (Optimistic _) = False"
| "has_acquireForUow (Pessimistic _ _) = True"
| "has_acquireForUow (PerAggregate _ _) = True"

function acquireForUow :: "'w strategy \<Rightarrow> string \<Rightarrow> ID \<Rightarrow> ('w uow \<times> 'w, unit) action" where
  "acquireForUow (Optimistic _) aggregateName aggregateId = ret ()"
| "acquireForUow (Pessimistic locker timeoutMs) aggregateName aggregateId =
     then_act (on_snd (lk_acquire locker aggregateName aggregateId timeoutMs))
       (\<lambda>(u, w). (Inr (), (onUowSettled (lk_release locker aggregateName aggregateId) u, w)))"
| "acquireForUow (PerAggregate strategies defaultStrategy) aggregateName aggregateId =
     (let strategy = (case jm_get strategies aggregateName of None \<Rightarrow> defaultStrategy | Some s \<Rightarrow> s)
      in if has_acquireForUow strategy then acquireForUow strategy aggregateName aggregateId else ret ())"
  by pat_completeness auto
termination
  by (relation "measure (\<lambda>(s, _, _). size s)") (auto simp: jm_get_def split: option.splits dest: strategy_size)

section \<open>What a strategy relies on from a locker\<close>

locale exclusive_locker =
  fixes acquire :: "string \<Rightarrow> ID \<Rightarrow> int option \<Rightarrow> ('w, unit) action"
    and release :: "string \<Rightarrow> ID \<Rightarrow> ('w, unit) action"
    and held :: "'w \<Rightarrow> string \<Rightarrow> bool"
    and inv :: "'w \<Rightarrow> bool"
  assumes acquire_sound: "inv w \<Longrightarrow> acquire n i t w = (Inr (), w') \<Longrightarrow>
      \<not> held w (instance_key n i) \<and> held w' = (held w)(instance_key n i := True) \<and> inv w'"
    and acquire_refused: "inv w \<Longrightarrow> acquire n i t w = (Inl e, w') \<Longrightarrow> held w (instance_key n i) \<and> held w' = held w"
    and release_frees: "inv w \<Longrightarrow>
      \<exists>w'. release n i w = (Inr (), w') \<and> held w' = (held w)(instance_key n i := False) \<and> inv w'"
begin

abbreviation lk :: "'w locker" where
  "lk \<equiv> Locker acquire release"

text \<open>The pessimistic execution runs the attempt inside the lock, at most once, and the lock is free
  afterwards whatever the attempt did.\<close>

lemma pessimistic_exec_cases:
  assumes "inv w" and keeps: "\<And>w r w'. inv w \<Longrightarrow> attempt w = (r, w') \<Longrightarrow> inv w' \<and> held w' = held w"
  shows "(\<exists>e w1. acquire n i t w = (Inl e, w1) \<and> held w1 = held w \<and>
      pessimistic_execute lk t n i attempt w = (Inl e, w1)) \<or>
   (\<exists>w1 r w2 w3. \<not> held w (instance_key n i) \<and> acquire n i t w = (Inr (), w1) \<and>
      held w1 (instance_key n i) \<and> attempt w1 = (r, w2) \<and>
      release n i w2 = (Inr (), w3) \<and> pessimistic_execute lk t n i attempt w = (r, w3) \<and>
      held w3 = held w)"
proof -
  obtain a w1 where a: "acquire n i t w = (a, w1)" by (cases "acquire n i t w")
  show ?thesis
  proof (cases a)
    case (Inl e)
    with a acquire_refused [OF assms(1)] show ?thesis by (simp add: pessimistic_execute_def act)
  next
    case (Inr x)
    with a have a': "acquire n i t w = (Inr (), w1)" by simp
    note s = acquire_sound [OF assms(1) a']
    obtain r w2 where r: "attempt w1 = (r, w2)" by (cases "attempt w1")
    have w2: "inv w2" "held w2 = held w1" using keeps [OF _ r] s by auto
    obtain w3 where "release n i w2 = (Inr (), w3)" "held w3 = (held w2)(instance_key n i := False)"
      using release_frees [OF w2(1)] by blast
    with a' r w2 s show ?thesis
      by (auto simp: pessimistic_execute_def then_act_def bind_act_def finally_act_def fun_eq_iff)
  qed
qed

lemma acquireForUow_pessimistic:
  assumes "inv w" and "acquireForUow (Pessimistic lk t) n i (u, w) = (Inr (), (u', w'))"
  shows "held w' = (held w)(instance_key n i := True) \<and> inv w' \<and> u' = onUowSettled (release n i) u"
proof -
  obtain r w0 where a: "acquire n i t w = (r, w0)" by (cases "acquire n i t w")
  with assms(2) have "acquire n i t w = (Inr (), w')" "u' = onUowSettled (release n i) u"
    by (cases r; auto simp: then_act_def bind_act_def on_snd_def)+
  with acquire_sound [OF assms(1)] show ?thesis by blast
qed

lemma released_on_settle:
  assumes "inv w1"
  shows "\<exists>w2. runUowCompletionHooks committed (onUowSettled (release n i) (u\<lparr>u_hooks := None\<rparr>), w1) =
      (Inr (), (u\<lparr>u_hooks := None\<rparr>, w2)) \<and> held w2 = (held w1)(instance_key n i := False)"
  using release_frees [OF assms, of n i]
  by (auto simp: runUowCompletionHooks_def onUowSettled_def getOrCreate_def on_snd_def then_act_def
      bind_act_def run_operations_def ret_def)

end

text \<open>
  The in-memory locker as one flow of calls sees it when no other caller intervenes: an acquire
  that is queued is rejected by its timer if it has one; without a timer its promise never
  settles, which \<open>NeverSettles\<close> marks.
\<close>

definition mem_acquire :: "string \<Rightarrow> ID \<Rightarrow> int option \<Rightarrow> (locks, unit) action" where
  "mem_acquire n i t L =
     (case locker_acquire n i t 0 L of
        (Acquired, L') \<Rightarrow> (Inr (), L')
      | (Enqueued, L') \<Rightarrow>
          (case armed_timer t of
             None \<Rightarrow> (Inl NeverSettles, L')
           | Some ms \<Rightarrow> (case locker_timeout n i \<lparr>wt_caller = 0, wt_timer = Some ms\<rparr> L' of
                           (None, L'') \<Rightarrow> (Inl NeverSettles, L'')
                         | (Some e, L'') \<Rightarrow> (Inl e, L''))))"

definition mem_release :: "string \<Rightarrow> ID \<Rightarrow> (locks, unit) action" where
  "mem_release n i L = (Inr (), snd (locker_release n i L))"

definition solo :: "locks \<Rightarrow> bool" where
  "solo L \<longleftrightarrow> (\<forall>k. key_queue L k = [])"

lemma empty_locks [simp]: "solo []" "\<not> key_locked [] k"
  by (simp_all add: solo_def key_queue_def key_locked_def)

lemma mem_acquire_free:
  assumes "\<not> key_locked L (instance_key n i)"
  shows "\<exists>L'. mem_acquire n i t L = (Inr (), L') \<and>
    key_locked L' = (key_locked L)(instance_key n i := True) \<and> key_queue L' = key_queue L"
  using acquire_free [OF assms, of t 0] by (auto simp: mem_acquire_def)

lemma mem_acquire_held:
  assumes "key_locked L (instance_key n i)" and "solo L"
  shows "\<exists>L'. mem_acquire n i t L =
      (Inl (case armed_timer t of None \<Rightarrow> NeverSettles | Some ms \<Rightarrow> LockTimeoutError n i ms), L') \<and>
    key_locked L' = key_locked L"
proof -
  obtain L1 where L1: "locker_acquire n i t 0 L = (Enqueued, L1)" "key_locked L1 = key_locked L"
    "key_queue L1 = (key_queue L)(instance_key n i := [\<lparr>wt_caller = 0, wt_timer = armed_timer t\<rparr>])"
    using acquire_held [OF assms(1), of t 0] assms(2) by (auto simp: solo_def)
  show ?thesis
  proof (cases "armed_timer t")
    case None
    with L1 show ?thesis by (simp add: mem_acquire_def)
  next
    case (Some ms)
    have "\<lparr>wt_caller = 0, wt_timer = Some ms\<rparr> \<in> set (key_queue L1 (instance_key n i))"
      using L1(3) Some by simp
    from timeout_effect [OF this] L1 Some show ?thesis by (auto simp: mem_acquire_def)
  qed
qed

lemma mem_release_solo:
  assumes "solo L"
  shows "key_locked (snd (mem_release n i L)) = (key_locked L)(instance_key n i := False) \<and>
    solo (snd (mem_release n i L))"
proof (cases "key_locked L (instance_key n i)")
  case True
  from release_frees [OF True] assms show ?thesis by (auto simp: mem_release_def solo_def)
next
  case False
  with assms show ?thesis by (auto simp: mem_release_def release_unlocked fun_eq_iff)
qed

text \<open>The lock table beside the rest of the world.\<close>

interpretation mem_locker: exclusive_locker
  "\<lambda>n i t. on_fst (mem_acquire n i t)" "\<lambda>n i. on_fst (mem_release n i)"
  "\<lambda>w. key_locked (fst w)" "\<lambda>w. solo (fst w)"
proof
  fix w w' :: "locks \<times> 'u" and n i t e
  assume s: "solo (fst w)"
  let ?k = "instance_key n i"
  show "\<not> key_locked (fst w) ?k \<and> key_locked (fst w') = (key_locked (fst w))(?k := True) \<and> solo (fst w')"
    if "on_fst (mem_acquire n i t) w = (Inr (), w')"
    using that s mem_acquire_free [of "fst w" n i t] mem_acquire_held [of "fst w" n i t]
    by (cases "key_locked (fst w) ?k") (auto simp: on_fst_def solo_def)
  show "key_locked (fst w) ?k \<and> key_locked (fst w') = key_locked (fst w)"
    if "on_fst (mem_acquire n i t) w = (Inl e, w')"
    using that s mem_acquire_free [of "fst w" n i t] mem_acquire_held [of "fst w" n i t]
    by (cases "key_locked (fst w) ?k") (auto simp: on_fst_def)
  show "\<exists>w'. on_fst (mem_release n i) w = (Inr (), w') \<and>
      key_locked (fst w') = (key_locked (fst w))(?k := False) \<and> solo (fst w')"
    using mem_release_solo [OF s, of n i] by (simp add: on_fst_def mem_release_def)
qed

definition mem_locker_of :: "(locks \<times> 'u) locker" where
  "mem_locker_of = Locker (\<lambda>n i t. on_fst (mem_acquire n i t)) (\<lambda>n i. on_fst (mem_release n i))"

section \<open>Properties\<close>

lemma optimistic_from_unfold:
  assumes "i \<le> m"
  shows "\<exists>k \<le> nat (m - i). (\<forall>j < k. \<exists>e. fst (attempt (((snd \<circ> attempt) ^^ j) w)) = Inl e \<and> is_concurrency_error e) \<and>
    optimistic_from i m attempt w = attempt (((snd \<circ> attempt) ^^ k) w) \<and>
    (k < nat (m - i) \<longrightarrow> (\<forall>e. fst (optimistic_from i m attempt w) = Inl e \<longrightarrow> \<not> is_concurrency_error e))"
  using assms
proof (induction "nat (m - i)" arbitrary: i w)
  case 0
  then have "i = m" by simp
  then show ?case by (subst (1 2) optimistic_from.simps) (auto split: prod.splits sum.splits)
next
  case (Suc d)
  obtain r w' where a: "attempt w = (r, w')" by (cases "attempt w")
  show ?case
  proof (cases "\<exists>e. r = Inl e \<and> is_concurrency_error e")
    case False
    then have "optimistic_from i m attempt w = attempt w"
      using Suc.prems a by (subst optimistic_from.simps) (auto split: sum.splits)
    with False a show ?thesis by (intro exI [of _ 0]) auto
  next
    case True
    with Suc.hyps(2) a have step: "optimistic_from i m attempt w = optimistic_from (i + 1) m attempt w'"
      by (subst optimistic_from.simps) auto
    have d: "d = nat (m - (i + 1))" "i + 1 \<le> m" using Suc.hyps(2) by auto
    from Suc.hyps(1) [OF d, of w'] obtain k where
      k: "k \<le> nat (m - (i + 1))"
        "\<forall>j < k. \<exists>e. fst (attempt (((snd \<circ> attempt) ^^ j) w')) = Inl e \<and> is_concurrency_error e"
        "optimistic_from (i + 1) m attempt w' = attempt (((snd \<circ> attempt) ^^ k) w')"
        "k < nat (m - (i + 1)) \<longrightarrow> (\<forall>e. fst (optimistic_from (i + 1) m attempt w') = Inl e \<longrightarrow> \<not> is_concurrency_error e)"
      by blast
    have shift: "((snd \<circ> attempt) ^^ Suc j) w = ((snd \<circ> attempt) ^^ j) w'" for j
      using a by (simp add: funpow_swap1)
    have "\<exists>e. fst (attempt (((snd \<circ> attempt) ^^ j) w)) = Inl e \<and> is_concurrency_error e" if "j < Suc k" for j
      using that k(2) True a shift by (cases j) auto
    with k step shift Suc.hyps(2) show ?thesis by (intro exI [of _ "Suc k"]) auto
  qed
qed

text \<open>Optimistic concurrency control retries on version conflicts only, and a bounded number of
  times. With maxRetries \<ge> 0 the result of execute is the outcome of the k-th further attempt for
  some k \<le> maxRetries, each attempt running on the state its predecessor left, where every earlier
  attempt failed with a ConcurrencyError; and unless the retries are used up the outcome is not a
  ConcurrencyError. So any other error is propagated at once, and the throw after the loop is
  unreachable.\<close>
lemma optimistic_retries:
  assumes "0 \<le> maxRetries"
  shows "\<exists>k \<le> nat maxRetries.
    (\<forall>j < k. \<exists>e. fst (attempt (((snd \<circ> attempt) ^^ j) w)) = Inl e \<and> is_concurrency_error e) \<and>
    strategy_execute (Optimistic maxRetries) n i attempt w = attempt (((snd \<circ> attempt) ^^ k) w) \<and>
    (k < nat maxRetries \<longrightarrow>
      (\<forall>e. fst (strategy_execute (Optimistic maxRetries) n i attempt w) = Inl e \<longrightarrow> \<not> is_concurrency_error e))"
  using optimistic_from_unfold [OF assms, of attempt w] by (simp add: optimistic_execute_def)

definition contended :: "(int, string) action" where
  "contended k = (if k < 2 then (Inl (ConcurrencyError ''A'' (IDNum 1) 0 1), k + 1) else (Inr ''ok'', k))"

lemma optimistic_retries_sample:
  "strategy_execute (Optimistic 5) ''A'' (IDNum 1) contended 0 = (Inr ''ok'', 2) \<and>
   (\<exists>k \<le> nat 5. strategy_execute (Optimistic 5) ''A'' (IDNum 1) contended 0 =
      contended (((snd \<circ> contended) ^^ k) 0))"
proof
  show "strategy_execute (Optimistic 5) ''A'' (IDNum 1) contended 0 = (Inr ''ok'', 2)"
    by (simp add: optimistic_execute_def optimistic_from.simps contended_def)
  show "\<exists>k \<le> nat 5. strategy_execute (Optimistic 5) ''A'' (IDNum 1) contended 0 =
      contended (((snd \<circ> contended) ^^ k) 0)"
    using optimistic_retries [of 5 contended 0 "''A''" "IDNum 1"] by fastforce
qed

text \<open>Pessimistic execution holds the lock for exactly the duration of the attempt. With the
  in-memory locker, if the instance is unlocked the attempt runs once, its outcome (value or
  error) is the outcome, and afterwards every lock is as it was before; if the instance is locked
  and a timeout is configured, the call fails with a LockTimeoutError and the attempt has not run.\<close>
lemma pessimistic_releases:
  fixes attempt :: "('u, 'a) action"
  assumes "solo L"
  shows "\<exists>r L' u'. strategy_execute (Pessimistic mem_locker_of t) n i (on_snd attempt) (L, u) = (r, (L', u')) \<and>
    key_locked L' = key_locked L \<and>
    (\<not> key_locked L (instance_key n i) \<longrightarrow> attempt u = (r, u')) \<and>
    (key_locked L (instance_key n i) \<longrightarrow> u' = u \<and>
      r = Inl (case armed_timer t of None \<Rightarrow> NeverSettles | Some ms \<Rightarrow> LockTimeoutError n i ms))"
proof (cases "key_locked L (instance_key n i)")
  case True
  from mem_acquire_held [OF True assms, of t] obtain L' where
    "mem_acquire n i t L = (Inl (case armed_timer t of None \<Rightarrow> NeverSettles | Some ms \<Rightarrow> LockTimeoutError n i ms), L')"
    "key_locked L' = key_locked L" by blast
  with True show ?thesis
    by (simp add: mem_locker_of_def pessimistic_execute_def then_act_def bind_act_def on_fst_def)
next
  case False
  obtain L1 where L1: "mem_acquire n i t L = (Inr (), L1)"
    "key_locked L1 = (key_locked L)(instance_key n i := True)" "key_queue L1 = key_queue L"
    using mem_acquire_free [OF False] by blast
  obtain r u' where a: "attempt u = (r, u')" by (cases "attempt u")
  have "key_locked (snd (mem_release n i L1)) = key_locked L"
    using mem_release_solo [of L1 n i] L1 assms False by (simp add: solo_def fun_eq_iff)
  with L1(1) a False show ?thesis
    by (simp add: mem_locker_of_def pessimistic_execute_def then_act_def bind_act_def finally_act_def
        on_fst_def on_snd_def mem_release_def)
qed

lemma pessimistic_releases_sample:
  "\<exists>r L' u'. strategy_execute (Pessimistic mem_locker_of None) ''A'' (IDNum 1)
      (on_snd (\<lambda>u. (Inl (UserError ''boom'') :: error + unit, u + (1::int)))) ([], 4) = (r, (L', u')) \<and>
    r = Inl (UserError ''boom'') \<and> u' = 5 \<and> \<not> key_locked L' ''A:1''"
  using pessimistic_releases [of "[]" None "''A''" "IDNum 1"
      "\<lambda>u. (Inl (UserError ''boom'') :: error + unit, u + (1::int))" 4]
  by auto

text \<open>A command inside an explicit unit of work takes the pessimistic lock until that unit of
  work settles, and the lock is not re-entrant. After acquireForUow the instance stays locked; the
  completion hooks release it whether the unit of work committed or not; but a second acquireForUow
  for the same instance in the same unit of work is refused with a LockTimeoutError when a timeout
  is configured, and otherwise waits for a release that only the waiting flow itself would cause.\<close>
lemma acquireForUow_until_settled:
  assumes "solo L" and "u_hooks u = None"
    and "acquireForUow (Pessimistic mem_locker_of t) n i (u, (L, x)) = (Inr (), (u', (L', x')))"
  shows "key_locked L' (instance_key n i) \<and>
    (\<exists>L2. runUowCompletionHooks committed (u', (L', x')) = (Inr (), (u, (L2, x'))) \<and>
       key_locked L2 = (key_locked L)(instance_key n i := False)) \<and>
    fst (acquireForUow (Pessimistic mem_locker_of t) n i (u', (L', x'))) =
      Inl (case armed_timer t of None \<Rightarrow> NeverSettles | Some ms \<Rightarrow> LockTimeoutError n i ms)"
proof -
  have u: "u\<lparr>u_hooks := None\<rparr> = u" using assms(2) by simp
  from mem_locker.acquireForUow_pessimistic [where w = "(L, x)" and u = u and u' = u' and w' = "(L', x')" and n = n and i = i and t = t] assms(1,3)
  have L': "key_locked L' = (key_locked L)(instance_key n i := True)" "solo L'"
    "u' = onUowSettled (on_fst (mem_release n i)) u"
    by (auto simp: mem_locker_of_def)
  from mem_locker.released_on_settle [where u = u and n = n and i = i and committed = committed and ?w1.0 = "(L', x')"] L'
  have "\<exists>w2. runUowCompletionHooks committed (u', (L', x')) = (Inr (), (u, w2)) \<and>
      key_locked (fst w2) = (key_locked L)(instance_key n i := False)"
    by (auto simp: u fun_upd_def)
  moreover have "snd (snd (snd (runUowCompletionHooks committed (u', (L', x'))))) = x'"
    unfolding L'(3) using assms(2)
    by (simp add: runUowCompletionHooks_def onUowSettled_def getOrCreate_def on_snd_def then_act_def
        bind_act_def run_operations_def ret_def on_fst_def mem_release_def)
  ultimately have "\<exists>L2. runUowCompletionHooks committed (u', (L', x')) = (Inr (), (u, (L2, x'))) \<and>
       key_locked L2 = (key_locked L)(instance_key n i := False)" by auto
  moreover have lk: "key_locked L' (instance_key n i)" using L'(1) by simp
  ultimately show ?thesis
    using mem_acquire_held [OF lk L'(2), of t]
    by (auto simp: mem_locker_of_def then_act_def bind_act_def on_fst_def on_snd_def)
qed

lemma acquireForUow_until_settled_sample:
  "fst (acquireForUow (Pessimistic mem_locker_of (Some 30)) ''A'' (IDNum 1)
     (snd (acquireForUow (Pessimistic mem_locker_of (Some 30)) ''A'' (IDNum 1)
        (createInMemoryUnitOfWork, ([], ()))))) = Inl (LockTimeoutError ''A'' (IDNum 1) 30)"
proof -
  let ?s = "snd (acquireForUow (Pessimistic mem_locker_of (Some 30)) ''A'' (IDNum 1)
        (createInMemoryUnitOfWork, ([], ())))"
  obtain u' L' where s: "?s = (u', (L', ()))" 
    by (cases ?s) (auto simp del: acquireForUow.simps split: prod.split)
  have "fst (acquireForUow (Pessimistic mem_locker_of (Some 30)) ''A'' (IDNum 1)
        (createInMemoryUnitOfWork, ([], ()))) = Inr ()"
    by (simp add: mem_locker_of_def mem_acquire_def locker_defs then_act_def bind_act_def on_fst_def on_snd_def)
  with s have "acquireForUow (Pessimistic mem_locker_of (Some 30)) ''A'' (IDNum 1)
        (createInMemoryUnitOfWork, ([], ())) = (Inr (), (u', (L', ())))"
    by (metis prod.collapse)
  from acquireForUow_until_settled [OF _ _ this] s show ?thesis
    by (simp add: solo_def key_queue_def createInMemoryUnitOfWork_def armed_timer_def)
qed

end
