(* ===== verification/Upcasting.thy ===== *)
theory Upcasting
  imports Messages
begin

text \<open>
  Schema evolution of stored events (\<^verbatim>\<open>packages/core/src/edd/upcaster.ts\<close>): a chain of
  payload transforms per event name, the single-event and batch upcasts, and the version an
  event name is currently at. A chain step is user code and may throw.
\<close>

type_synonym upcast_step = "jsval \<Rightarrow> error + jsval"
type_synonym upcaster_map = "(string, upcast_step list) jmap"

definition defineEventUpcasterChain :: "upcast_step list \<Rightarrow> upcast_step list" where
  "defineEventUpcasterChain steps = steps"

definition defineUpcasters :: "upcaster_map \<Rightarrow> upcaster_map" where
  "defineUpcasters u = u"

text \<open>
  The loop \<^verbatim>\<open>for (let i = storedVersion - 1; i < chain.length; i++)\<close>. A negative index
  reads \<^verbatim>\<open>undefined\<close>, and calling it throws a \<^verbatim>\<open>TypeError\<close>.
\<close>

fun run_steps :: "upcast_step list \<Rightarrow> jsval \<Rightarrow> error + jsval" where
  "run_steps [] p = Inr p"
| "run_steps (f # fs) p = (case f p of Inl e \<Rightarrow> Inl e | Inr p' \<Rightarrow> run_steps fs p')"

definition run_chain_from :: "upcast_step list \<Rightarrow> int \<Rightarrow> jsval \<Rightarrow> error + jsval" where
  "run_chain_from chain i p = (if i < 0 then Inl TypeError else run_steps (drop (nat i) chain) p)"

definition upcastEvent :: "event \<Rightarrow> upcaster_map \<Rightarrow> error + event" where
  "upcastEvent ev upcasters =
     (case jm_get upcasters (ev_name ev) of
        None \<Rightarrow> Inr ev
      | Some chain \<Rightarrow>
          if length chain = 0 then Inr ev
          else
            let storedVersion = or_else (event_version ev) 1;
                currentVersion = int (length chain) + 1
            in if storedVersion \<ge> currentVersion then Inr ev
               else (case run_chain_from chain (storedVersion - 1) (ev_payload ev) of
                       Inl e \<Rightarrow> Inl e
                     | Inr p \<Rightarrow> Inr (ev\<lparr>ev_payload := p\<rparr>)))"

fun upcastEvents :: "event list \<Rightarrow> upcaster_map \<Rightarrow> error + event list" where
  "upcastEvents [] u = Inr []"
| "upcastEvents (ev # evs) u =
     (case upcastEvent ev u of
        Inl e \<Rightarrow> Inl e
      | Inr ev' \<Rightarrow> (case upcastEvents evs u of Inl e \<Rightarrow> Inl e | Inr evs' \<Rightarrow> Inr (ev' # evs')))"

definition currentEventVersion :: "string \<Rightarrow> upcaster_map \<Rightarrow> int" where
  "currentEventVersion name upcasters =
     (case jm_get upcasters name of None \<Rightarrow> 1 | Some chain \<Rightarrow> int (length chain) + 1)"

section \<open>Properties\<close>

lemma run_steps_append:
  "run_steps (xs @ ys) p = (case run_steps xs p of Inl e \<Rightarrow> Inl e | Inr q \<Rightarrow> run_steps ys q)"
  by (induction xs arbitrary: p) (auto split: sum.splits)

lemma currentEventVersion_ge1: "1 \<le> currentEventVersion n u"
  by (simp add: currentEventVersion_def split: option.splits)

lemma upcastEvent_current:
  assumes "currentEventVersion (ev_name ev) u \<le> or_else (event_version ev) 1"
  shows "upcastEvent ev u = Inr ev"
  using assms
  by (auto simp: upcastEvent_def currentEventVersion_def Let_def split: option.splits)

lemma upcastEvent_frame:
  assumes "upcastEvent ev u = Inr ev'"
  shows "ev_name ev' = ev_name ev" and "ev_metadata ev' = ev_metadata ev"
  using assms by (auto simp: upcastEvent_def Let_def split: option.splits sum.splits if_splits)

lemma upcastEvents_length: "upcastEvents evs u = Inr evs' \<Longrightarrow> length evs' = length evs"
  by (induction evs arbitrary: evs') (auto split: sum.splits)

lemma upcastEvents_append:
  "upcastEvents (xs @ ys) u =
     (case upcastEvents xs u of
        Inl e \<Rightarrow> Inl e
      | Inr xs' \<Rightarrow> (case upcastEvents ys u of Inl e \<Rightarrow> Inl e | Inr ys' \<Rightarrow> Inr (xs' @ ys')))"
  by (induction xs) (auto split: sum.splits)

lemma upcastEvents_current:
  assumes "\<And>ev. ev \<in> set evs \<Longrightarrow> currentEventVersion (ev_name ev) u \<le> or_else (event_version ev) 1"
  shows "upcastEvents evs u = Inr evs"
  using assms by (induction evs) (simp_all add: upcastEvent_current)

text \<open>
  The step from version \<open>v\<close> to \<open>v + 1\<close>, then the rest: upcasting a stored event is the
  composition of exactly the missing steps, whatever version it was stored at.
\<close>

lemma run_chain_from_step:
  assumes "1 \<le> v" and "v \<le> int (length chain)"
  shows "run_chain_from chain (v - 1) p =
    (case (chain ! nat (v - 1)) p of Inl e \<Rightarrow> Inl e | Inr q \<Rightarrow> run_chain_from chain v q)"
proof -
  from assms have "drop (nat (v - 1)) chain = chain ! nat (v - 1) # drop (nat v) chain"
    by (simp add: Cons_nth_drop_Suc [symmetric] nat_diff_distrib Suc_diff_Suc)
  with assms show ?thesis by (simp add: run_chain_from_def split: sum.splits)
qed

text \<open>Upcasting is compositional over schema versions. For an event with a chain of n steps
  stored at version v (1 \<le> v \<le> n), upcasting it equals running the v-th step on its payload and
  upcasting the same event as if it had been stored at version v + 1 with the new payload; a
  throwing step is propagated. Together with the fixed point at the current version this
  determines the upcast for every stored version.\<close>
lemma upcastEvent_compositional:
  assumes chain: "jm_get u (ev_name ev) = Some chain"
    and md: "ev_metadata ev = Some m" and v: "md_version m = Some v"
    and range: "1 \<le> v" "v \<le> int (length chain)"
  shows "upcastEvent ev u =
    (case (chain ! nat (v - 1)) (ev_payload ev) of
       Inl e \<Rightarrow> Inl e
     | Inr q \<Rightarrow>
         (case upcastEvent (ev\<lparr>ev_payload := q, ev_metadata := Some (m\<lparr>md_version := Some (v + 1)\<rparr>)\<rparr>) u of
            Inl e \<Rightarrow> Inl e
          | Inr ev' \<Rightarrow> Inr (ev\<lparr>ev_payload := ev_payload ev'\<rparr>)))"
proof -
  from range have ne: "length chain \<noteq> 0" by auto
  from range ne have eq: "upcastEvent ev u =
      (case run_chain_from chain (v - 1) (ev_payload ev) of
         Inl e \<Rightarrow> Inl e | Inr p \<Rightarrow> Inr (ev\<lparr>ev_payload := p\<rparr>))"
    by (simp add: upcastEvent_def chain md v Let_def)
  have last: "run_chain_from chain (int (length chain)) q = Inr q" for q
    by (simp add: run_chain_from_def)
  have rest: "upcastEvent (ev\<lparr>ev_payload := q, ev_metadata := Some (m\<lparr>md_version := Some (v + 1)\<rparr>)\<rparr>) u =
      (case run_chain_from chain v q of
         Inl e \<Rightarrow> Inl e
       | Inr p \<Rightarrow> Inr (ev\<lparr>ev_payload := p, ev_metadata := Some (m\<lparr>md_version := Some (v + 1)\<rparr>)\<rparr>))" for q
    using range ne
    by (cases "v = int (length chain)") (auto simp: upcastEvent_def chain Let_def last split: sum.splits)
  show ?thesis
    unfolding eq run_chain_from_step [OF range] rest by (simp split: sum.splits)
qed

definition sample_upcasters :: upcaster_map where
  "sample_upcasters =
     [(''Opened'', [\<lambda>p. Inr (JArr [p, JStr ''active'']), \<lambda>p. Inr (JArr [p, JNum 0])])]"

definition sample_event :: "int \<Rightarrow> event" where
  "sample_event v =
     \<lparr>ev_name = ''Opened'', ev_payload = JStr ''a'',
      ev_metadata = Some \<lparr>md_eventId = ''e1'', md_timestamp = 0, md_correlationId = ''c'',
        md_causationId = ''x'', md_userId = None, md_version = Some v, md_aggregateName = None,
        md_aggregateId = None, md_sequenceNumber = Some 1, md_traceparent = None,
        md_tracestate = None\<rparr>\<rparr>"

lemma upcastEvent_compositional_sample:
  "upcastEvent (sample_event 1) sample_upcasters =
     Inr ((sample_event 1)\<lparr>ev_payload := JArr [JArr [JStr ''a'', JStr ''active''], JNum 0]\<rparr>)"
  by (subst upcastEvent_compositional
        [where chain = "snd (hd sample_upcasters)" and m = "the (ev_metadata (sample_event 1))"
           and v = 1])
     (simp_all add: sample_upcasters_def sample_event_def upcastEvent_def run_chain_from_def
        jm_get_def Let_def)

end
