(* ===== verification/Enricher.thy ===== *)
theory Enricher
  imports Upcasting
begin

text \<open>
  The metadata enricher (\<^verbatim>\<open>executors/metadata-enricher.ts\<close>). The values the environment
  supplies are fields of \<open>enrich_env\<close>: the metadata provider's result, the override of
  \<^verbatim>\<open>withMetadataContext\<close>, the successive values of \<^verbatim>\<open>uuidv7()\<close> and of the clock, and
  the trace context of the active span.
\<close>

record enrich_env =
  en_provider :: "metadata_context option"
  en_override :: "metadata_context option"
  en_uuid :: "nat \<Rightarrow> string"
  en_now :: "nat \<Rightarrow> int"
  en_traceparent :: "string option"
  en_tracestate :: "string option"

text \<open>\<^verbatim>\<open>{ ...providerCtx, ...overrideCtx }\<close>: a property present in the second object wins, also
  when its value is \<^verbatim>\<open>undefined\<close>.\<close>

definition spread :: "'a option option \<Rightarrow> 'a option option \<Rightarrow> 'a option option" where
  "spread a b = (case b of None \<Rightarrow> a | Some v \<Rightarrow> Some v)"

definition merge_context :: "metadata_context \<Rightarrow> metadata_context \<Rightarrow> metadata_context" where
  "merge_context a b =
     \<lparr>ctx_correlationId = spread (ctx_correlationId a) (ctx_correlationId b),
      ctx_causationId = spread (ctx_causationId a) (ctx_causationId b),
      ctx_userId = spread (ctx_userId a) (ctx_userId b)\<rparr>"

text \<open>Reading a property: absent and \<^verbatim>\<open>undefined\<close> are the same.\<close>

definition read_prop :: "'a option option \<Rightarrow> 'a option" where
  "read_prop p = (case p of None \<Rightarrow> None | Some v \<Rightarrow> v)"

text \<open>The object literal built for the event at \<open>index\<close>. A generated correlation id takes the first
  value of the generator, before the event ids.\<close>

definition build_metadata ::
  "enrich_env \<Rightarrow> metadata_context \<Rightarrow> string \<Rightarrow> ID \<Rightarrow> int \<Rightarrow> string \<Rightarrow> (string \<Rightarrow> int) option \<Rightarrow>
     nat \<Rightarrow> event \<Rightarrow> event_metadata" where
  "build_metadata env mergedCtx aggregateName aggregateId version causationFallback eventVersionResolver index ev =
     (let given = read_prop (ctx_correlationId mergedCtx);
          first = (if given = None then 1 else 0)
      in \<lparr>md_eventId = en_uuid env (first + index),
          md_timestamp = en_now env index,
          md_correlationId = or_else given (en_uuid env 0),
          md_causationId = or_else (read_prop (ctx_causationId mergedCtx)) causationFallback,
          md_userId = read_prop (ctx_userId mergedCtx),
          md_version = map_option (\<lambda>f. f (ev_name ev)) eventVersionResolver,
          md_aggregateName = Some aggregateName,
          md_aggregateId = Some aggregateId,
          md_sequenceNumber = Some (version + int index + 1),
          md_traceparent = en_traceparent env,
          md_tracestate = en_tracestate env\<rparr>)"

definition enrich ::
  "enrich_env \<Rightarrow> event list \<Rightarrow> string \<Rightarrow> ID \<Rightarrow> int \<Rightarrow> string \<Rightarrow> (string \<Rightarrow> int) option \<Rightarrow> event list" where
  "enrich env events aggregateName aggregateId version causationFallback eventVersionResolver =
     (let providerCtx = or_else (en_provider env) empty_context;
          overrideCtx = or_else (en_override env) empty_context;
          mergedCtx = merge_context providerCtx overrideCtx
      in map (\<lambda>(index, ev). ev\<lparr>ev_metadata := Some (build_metadata env mergedCtx aggregateName aggregateId
           version causationFallback eventVersionResolver index ev)\<rparr>) (enumerate 0 events))"

lemma enrich_length [simp]: "length (enrich env evs n i v c r) = length evs"
  by (simp add: enrich_def Let_def)

lemma enrich_nil [simp]: "enrich env [] n i v c r = []"
  by (simp add: enrich_def Let_def)

lemma enrich_nth:
  assumes "k < length evs"
  shows "\<exists>m. enrich env evs n i v c r ! k = (evs ! k)\<lparr>ev_metadata := Some m\<rparr> \<and>
    md_sequenceNumber m = Some (v + int k + 1) \<and> md_version m = map_option (\<lambda>f. f (ev_name (evs ! k))) r \<and>
    md_aggregateName m = Some n \<and> md_aggregateId m = Some i"
  using assms
  by (intro exI [of _ "build_metadata env (merge_context (or_else (en_provider env) empty_context)
        (or_else (en_override env) empty_context)) n i v c r k (evs ! k)"])
     (simp add: enrich_def Let_def nth_enumerate_eq build_metadata_def)

text \<open>Names and payloads, which are what handlers see, are untouched.\<close>

lemma enrich_names_payloads:
  "map (\<lambda>ev. (ev_name ev, ev_payload ev)) (enrich env evs n i v c r) =
   map (\<lambda>ev. (ev_name ev, ev_payload ev)) evs"
  by (rule nth_equalityI) (auto dest!: enrich_nth [of _ evs env n i v c r])

text \<open>Events enriched with the current schema version need no upcasting.\<close>

lemma enrich_upcast:
  "upcastEvents (enrich env evs n i v c (Some (\<lambda>m. currentEventVersion m u))) u =
   Inr (enrich env evs n i v c (Some (\<lambda>m. currentEventVersion m u)))"
proof (rule upcastEvents_current)
  fix ev
  assume "ev \<in> set (enrich env evs n i v c (Some (\<lambda>m. currentEventVersion m u)))"
  then obtain k where k: "k < length evs" "ev = enrich env evs n i v c (Some (\<lambda>m. currentEventVersion m u)) ! k"
    by (auto simp: in_set_conv_nth)
  from enrich_nth [OF k(1), of env n i v c "Some (\<lambda>m. currentEventVersion m u)"] k(2) obtain m where
    "ev = (evs ! k)\<lparr>ev_metadata := Some m\<rparr>" "md_version m = Some (currentEventVersion (ev_name (evs ! k)) u)"
    by auto
  then show "currentEventVersion (ev_name ev) u \<le> or_else (event_version ev) 1" by simp
qed

section \<open>Properties\<close>

text \<open>Every event of a batch is enriched consistently. The k-th enriched event keeps the name and
  payload of the k-th raw event and carries sequence number version + k + 1 and the aggregate's name
  and id; all events of the batch share one correlation id, causation id and user id; the override
  context wins over the provider, which wins over the generated default; and when the generator
  does not repeat itself, the event ids of the batch are distinct and differ from a generated
  correlation id.\<close>
lemma enrich_consistent:
  assumes "k < length evs" and "j < length evs"
    and "enrich env evs n i v c r ! k = e" and "enrich env evs n i v c r ! j = e'"
  shows "\<exists>m m'. ev_metadata e = Some m \<and> ev_metadata e' = Some m' \<and>
    ev_name e = ev_name (evs ! k) \<and> ev_payload e = ev_payload (evs ! k) \<and>
    md_sequenceNumber m = Some (v + int k + 1) \<and>
    md_aggregateName m = Some n \<and> md_aggregateId m = Some i \<and>
    md_correlationId m = md_correlationId m' \<and> md_causationId m = md_causationId m' \<and> md_userId m = md_userId m' \<and>
    md_correlationId m =
      (case read_prop (spread (ctx_correlationId (or_else (en_provider env) empty_context))
                              (ctx_correlationId (or_else (en_override env) empty_context))) of
         None \<Rightarrow> en_uuid env 0 | Some x \<Rightarrow> x) \<and>
    md_causationId m =
      (case read_prop (spread (ctx_causationId (or_else (en_provider env) empty_context))
                              (ctx_causationId (or_else (en_override env) empty_context))) of
         None \<Rightarrow> c | Some x \<Rightarrow> x) \<and>
    (inj (en_uuid env) \<longrightarrow> k \<noteq> j \<longrightarrow> md_eventId m \<noteq> md_eventId m')"
proof -
  let ?ctx = "merge_context (or_else (en_provider env) empty_context) (or_else (en_override env) empty_context)"
  let ?m = "\<lambda>k. build_metadata env ?ctx n i v c r k (evs ! k)"
  have e: "e = (evs ! k)\<lparr>ev_metadata := Some (?m k)\<rparr>" "e' = (evs ! j)\<lparr>ev_metadata := Some (?m j)\<rparr>"
    using assms by (auto simp: enrich_def Let_def nth_enumerate_eq)
  have "md_correlationId (?m k) = or_else (read_prop (ctx_correlationId ?ctx)) (en_uuid env 0)"
    "md_causationId (?m k) = or_else (read_prop (ctx_causationId ?ctx)) c"
    by (simp_all add: build_metadata_def Let_def)
  moreover have "inj (en_uuid env) \<Longrightarrow> k \<noteq> j \<Longrightarrow> md_eventId (?m k) \<noteq> md_eventId (?m j)"
    by (simp add: build_metadata_def Let_def inj_eq)
  moreover have "md_sequenceNumber (?m k) = Some (v + int k + 1)" "md_aggregateName (?m k) = Some n"
    "md_aggregateId (?m k) = Some i" "md_correlationId (?m k) = md_correlationId (?m j)"
    "md_causationId (?m k) = md_causationId (?m j)" "md_userId (?m k) = md_userId (?m j)"
    by (simp_all add: build_metadata_def Let_def)
  ultimately show ?thesis
    unfolding e by (simp add: merge_context_def or_else_def)
qed

definition sample_env :: enrich_env where
  "sample_env = \<lparr>en_provider = Some (empty_context\<lparr>ctx_correlationId := Some (Some ''req-1'')\<rparr>),
     en_override = None, en_uuid = (\<lambda>k. replicate k CHR ''u''), en_now = (\<lambda>k. int k),
     en_traceparent = None, en_tracestate = None\<rparr>"

lemma enrich_consistent_sample:
  "\<exists>m. ev_metadata (enrich sample_env [\<lparr>ev_name = ''A'', ev_payload = JNull, ev_metadata = None\<rparr>,
        \<lparr>ev_name = ''B'', ev_payload = JNull, ev_metadata = None\<rparr>] ''Acc'' (IDNum 3) 5 ''Open'' None ! 1) = Some m \<and>
     md_sequenceNumber m = Some 7 \<and> md_correlationId m = ''req-1'' \<and> md_causationId m = ''Open''"
  using enrich_consistent [of 1 "[\<lparr>ev_name = ''A'', ev_payload = JNull, ev_metadata = None\<rparr>,
        \<lparr>ev_name = ''B'', ev_payload = JNull, ev_metadata = None\<rparr>]" 0 sample_env "''Acc''" "IDNum 3" 5 "''Open''" None]
  by (auto simp: sample_env_def empty_context_def spread_def read_prop_def)

end
