(* ===== verification/Command_Executor.thy ===== *)
theory Command_Executor
  imports Stores Idempotency Concurrency Enricher
begin

text \<open>
  The command lifecycle (\<^verbatim>\<open>executors/command-lifecycle-executor.ts\<close>) and the persistence
  resolvers (\<^verbatim>\<open>aggregate-persistence-resolver.ts\<close>): load (snapshot-aware), decide, evolve,
  enrich, enlist, defer, evaluate the snapshot strategy; then, when the executor owns the unit of
  work, commit under the concurrency strategy, save the snapshot, publish. The collaborators are the
  fields of a record over the world \<open>'w\<close>. Logging and tracing spans only observe and are left out.
  A decide handler is user code that may act on the world and throw; an evolve handler is a function
  that may throw.
\<close>

section \<open>Aggregates and persistence\<close>

datatype decide_result = One event | Many "event list"

record 'w aggregate =
  ag_initialState :: jsval
  ag_decide :: "(string, command \<Rightarrow> jsval \<Rightarrow> ('w, decide_result) action) jmap"
  ag_evolve :: "(string, jsval \<Rightarrow> jsval \<Rightarrow> error + jsval) jmap"
  ag_upcasters :: "upcaster_map option"

definition defineAggregate :: "'w aggregate \<Rightarrow> 'w aggregate" where
  "defineAggregate config = config"

text \<open>\<^verbatim>\<open>load\<close> of an event-sourced persistence returns an array, of a state-stored one an object
  or null; \<^verbatim>\<open>save\<close> receives what the caller enlisted.\<close>

datatype loaded = LoadedEvents "event list" | LoadedState "(jsval \<times> int) option"

datatype saved = SaveEvents "event list" | SaveState jsval

record 'w persistence =
  pc_load :: "string \<Rightarrow> ID \<Rightarrow> ('w, loaded) action"
  pc_save :: "string \<Rightarrow> ID \<Rightarrow> saved \<Rightarrow> int \<Rightarrow> ('w, unit) action"
  pc_loadAfterVersion :: "(string \<Rightarrow> ID \<Rightarrow> int \<Rightarrow> ('w, event list) action) option"
  pc_read :: "('w \<Rightarrow> event list \<times> error option) option"

datatype 'w resolver =
    GlobalResolver "'w persistence"
  | PerAggregateResolver "(string, 'w persistence) jmap"

fun resolve :: "'w resolver \<Rightarrow> string \<Rightarrow> error + 'w persistence" where
  "resolve (GlobalResolver p) aggregateName = Inr p"
| "resolve (PerAggregateResolver m) aggregateName =
     (case jm_get m aggregateName of None \<Rightarrow> Inl (NoPersistenceFor aggregateName) | Some p \<Rightarrow> Inr p)"

record 'w snapshot_config =
  sc_load :: "string \<Rightarrow> ID \<Rightarrow> ('w, snapshot option) action"
  sc_save :: "string \<Rightarrow> ID \<Rightarrow> snapshot \<Rightarrow> ('w, unit) action"
  sc_strategy :: snapshot_strategy

record 'w idempotency_ops =
  io_exists :: "ID \<Rightarrow> ('w, bool) action"
  io_save :: "idempotency_record \<Rightarrow> ('w, unit) action"

text \<open>The constructor arguments of \<^verbatim>\<open>CommandLifecycleExecutor\<close>. \<open>ex_env\<close> supplies the
  enricher's environment and \<open>ex_now\<close> the clock; the factory's units of work start as \<open>ex_newUow\<close>
  and are committed by \<open>ex_commit\<close>.\<close>

record 'w executor =
  ex_resolver :: "'w resolver"
  ex_newUow :: "'w uow"
  ex_commit :: "('w uow \<times> 'w, event list) action"
  ex_strategy :: "'w strategy"
  ex_env :: "'w \<Rightarrow> enrich_env"
  ex_now :: "'w \<Rightarrow> int"
  ex_snapshot :: "string \<Rightarrow> 'w snapshot_config option"
  ex_idempotency :: "'w idempotency_ops option"
  ex_onEventsProduced :: "(event list \<Rightarrow> ('w uow \<times> 'w, unit) action) option"
  ex_onEventsDispatched :: "(event list \<Rightarrow> ('w, unit) action) option"
  ex_dispatch :: "event \<Rightarrow> ('w, unit) action"

section \<open>Loading\<close>

text \<open>\<^verbatim>\<open>events.reduce((state, event) => evolve[event.name]?.(event.payload, state) ?? state)\<close>,
  and the same loop over new events: an event without a handler leaves the state.\<close>

fun apply_events ::
  "(string, jsval \<Rightarrow> jsval \<Rightarrow> error + jsval) jmap \<Rightarrow> event list \<Rightarrow> jsval \<Rightarrow> error + jsval" where
  "apply_events evolve [] state = Inr state"
| "apply_events evolve (ev # evs) state =
     (case jm_get evolve (ev_name ev) of
        None \<Rightarrow> apply_events evolve evs state
      | Some f \<Rightarrow> (case f (ev_payload ev) state of
                     Inl e \<Rightarrow> Inl e
                   | Inr state' \<Rightarrow> apply_events evolve evs state'))"

definition rehydrate :: "'w aggregate \<Rightarrow> event list \<Rightarrow> jsval \<Rightarrow> error + jsval" where
  "rehydrate aggregate events state =
     (case (case ag_upcasters aggregate of None \<Rightarrow> Inr events | Some u \<Rightarrow> upcastEvents events u) of
        Inl e \<Rightarrow> Inl e
      | Inr upcasted \<Rightarrow> apply_events (ag_evolve aggregate) upcasted state)"

record loaded_aggregate =
  la_state :: jsval
  la_version :: int
  la_isEventSourced :: bool
  la_snapshot :: "snapshot option"

definition load_tail :: "'w persistence \<Rightarrow> string \<Rightarrow> ID \<Rightarrow> int \<Rightarrow> ('w, event list) action" where
  "load_tail persistence aggregateName aggregateId version =
     (case pc_loadAfterVersion persistence of
        Some f \<Rightarrow> f aggregateName aggregateId version
      | None \<Rightarrow>
          bind_act (pc_load persistence aggregateName aggregateId)
            (\<lambda>l. case l of
               LoadedEvents allEvents \<Rightarrow> ret (js_slice allEvents version)
             | LoadedState _ \<Rightarrow> throw TypeError))"

text \<open>Step 1 of \<^verbatim>\<open>executeLifecycle\<close>.\<close>

definition load_aggregate ::
  "'w snapshot_config option \<Rightarrow> 'w persistence \<Rightarrow> 'w aggregate \<Rightarrow> string \<Rightarrow> ID \<Rightarrow>
     ('w, loaded_aggregate) action" where
  "load_aggregate snapshotConfig persistence aggregate aggregateName aggregateId =
     bind_act (case snapshotConfig of None \<Rightarrow> ret None | Some sc \<Rightarrow> sc_load sc aggregateName aggregateId)
       (\<lambda>snap. case snap of
          Some s \<Rightarrow>
            bind_act (load_tail persistence aggregateName aggregateId (sn_version s))
              (\<lambda>events. bind_act (lift_result (rehydrate aggregate events (sn_state s)))
                (\<lambda>state. ret \<lparr>la_state = state, la_version = sn_version s + int (length events),
                   la_isEventSourced = True, la_snapshot = Some s\<rparr>))
        | None \<Rightarrow>
            bind_act (pc_load persistence aggregateName aggregateId)
              (\<lambda>l. case l of
                 LoadedEvents events \<Rightarrow>
                   bind_act (lift_result (rehydrate aggregate events (ag_initialState aggregate)))
                     (\<lambda>state. ret \<lparr>la_state = state, la_version = int (length events),
                        la_isEventSourced = True, la_snapshot = None\<rparr>)
               | LoadedState stateResult \<Rightarrow>
                   ret \<lparr>la_state = (case stateResult of
                            None \<Rightarrow> ag_initialState aggregate
                          | Some (st, _) \<Rightarrow> coalesce st (ag_initialState aggregate)),
                        la_version = (case stateResult of None \<Rightarrow> 0 | Some (_, v) \<Rightarrow> v),
                        la_isEventSourced = False, la_snapshot = None\<rparr>))"

section \<open>executeLifecycle\<close>

text \<open>Steps 2 to 4: the decision and the new state.\<close>

definition decide_events ::
  "'w aggregate \<Rightarrow> string \<Rightarrow> command \<Rightarrow> jsval \<Rightarrow> ('w, event list \<times> jsval) action" where
  "decide_events aggregate aggregateName cmd currentState =
     (case jm_get (ag_decide aggregate) (cmd_name cmd) of
        None \<Rightarrow> throw (NoCommandHandlerOnAggregate (cmd_name cmd) aggregateName)
      | Some h \<Rightarrow>
          bind_act (h cmd currentState)
            (\<lambda>result. let newEvents = (case result of One e \<Rightarrow> [e] | Many es \<Rightarrow> es)
               in bind_act (lift_result (apply_events (ag_evolve aggregate) newEvents currentState))
                    (\<lambda>newState. ret (newEvents, newState))))"

text \<open>Step 4.5.\<close>

definition enriched_events ::
  "enrich_env \<Rightarrow> 'w aggregate \<Rightarrow> string \<Rightarrow> command \<Rightarrow> int \<Rightarrow> event list \<Rightarrow> event list" where
  "enriched_events env aggregate aggregateName cmd version newEvents =
     enrich env newEvents aggregateName (target_of cmd) version (cmd_name cmd)
       (map_option (\<lambda>u name. currentEventVersion name u) (ag_upcasters aggregate))"

text \<open>Steps 5 to 6.5, on the unit of work.\<close>

definition enlist_command ::
  "'w executor \<Rightarrow> 'w persistence \<Rightarrow> string \<Rightarrow> command \<Rightarrow> loaded_aggregate \<Rightarrow> event list \<Rightarrow> jsval \<Rightarrow>
     ('w uow \<times> 'w, unit) action" where
  "enlist_command ex persistence aggregateName cmd la enrichedEvents newState =
     then_act
       (on_fst (enlist (pc_save persistence aggregateName (target_of cmd)
          (if la_isEventSourced la then SaveEvents enrichedEvents else SaveState newState) (la_version la))))
     (then_act
       (case (cmd_commandId cmd, ex_idempotency ex) of
          (Some commandId, Some ops) \<Rightarrow>
            on_fst (enlist (\<lambda>w. io_save ops
              \<lparr>ir_commandId = commandId, ir_aggregateName = aggregateName,
               ir_aggregateId = target_of cmd, ir_processedAt = ex_now ex w\<rparr> w))
        | _ \<Rightarrow> ret ())
     (then_act
       (on_fst (deferPublish enrichedEvents))
       (case ex_onEventsProduced ex of None \<Rightarrow> ret () | Some f \<Rightarrow> f enrichedEvents)))"

text \<open>Step 7.\<close>

definition pending_snapshot ::
  "'w snapshot_config option \<Rightarrow> loaded_aggregate \<Rightarrow> event list \<Rightarrow> jsval \<Rightarrow> snapshot option" where
  "pending_snapshot snapshotConfig la newEvents newState =
     (case snapshotConfig of
        Some sc \<Rightarrow>
          if la_isEventSourced la then
            let newVersion = la_version la + int (length newEvents);
                lastSnapshotVersion = (case la_snapshot la of None \<Rightarrow> 0 | Some s \<Rightarrow> sn_version s)
            in if sc_strategy sc \<lparr>si_version = newVersion, si_lastSnapshotVersion = lastSnapshotVersion,
                    si_eventsSinceSnapshot = newVersion - lastSnapshotVersion\<rparr>
               then Some \<lparr>sn_state = newState, sn_version = newVersion, sn_stateVersion = None\<rparr>
               else None
          else None
      | None \<Rightarrow> None)"

definition executeLifecycle ::
  "'w executor \<Rightarrow> metadata_context option \<Rightarrow> string \<Rightarrow> 'w aggregate \<Rightarrow> command \<Rightarrow> 'w persistence \<Rightarrow>
     ('w uow \<times> 'w, snapshot option) action" where
  "executeLifecycle ex ctx aggregateName aggregate cmd persistence =
     bind_act (on_snd (load_aggregate (ex_snapshot ex aggregateName) persistence aggregate aggregateName
                (target_of cmd)))
       (\<lambda>la. bind_act (on_snd (decide_events aggregate aggregateName cmd (la_state la)))
         (\<lambda>(newEvents, newState) s.
            let enrichedEvents = enriched_events ((ex_env ex (snd s))\<lparr>en_override := ctx\<rparr>) aggregate
                  aggregateName cmd (la_version la) newEvents
            in bind_act (enlist_command ex persistence aggregateName cmd la enrichedEvents newState)
                 (\<lambda>_. ret (pending_snapshot (ex_snapshot ex aggregateName) la newEvents newState)) s))"

section \<open>execute\<close>

text \<open>One attempt of the implicit path: a fresh unit of work, the lifecycle, the commit; on failure
  the unit of work is rolled back (a failure of that is ignored) and the error rethrown.\<close>

definition attempt_command ::
  "'w executor \<Rightarrow> metadata_context option \<Rightarrow> string \<Rightarrow> 'w aggregate \<Rightarrow> command \<Rightarrow> 'w persistence \<Rightarrow>
     ('w, event list \<times> snapshot option) action" where
  "attempt_command ex ctx aggregateName aggregate cmd persistence w =
     (case bind_act (executeLifecycle ex ctx aggregateName aggregate cmd persistence)
             (\<lambda>snap. bind_act (ex_commit ex) (\<lambda>events. ret (events, snap))) (ex_newUow ex, w) of
        (Inr x, (u, w')) \<Rightarrow> (Inr x, w')
      | (Inl e, (u, w')) \<Rightarrow> (Inl e, snd (snd (on_fst (swallow rollback) (u, w')))))"

text \<open>Publishing after a commit, shared with sagas: dispatch in order, then the best-effort callback.\<close>

definition publish ::
  "(event \<Rightarrow> ('w, unit) action) \<Rightarrow> (event list \<Rightarrow> ('w, unit) action) option \<Rightarrow> event list \<Rightarrow> ('w, unit) action" where
  "publish dispatch onEventsDispatched events =
     then_act (for_each dispatch events)
       (case onEventsDispatched of
          None \<Rightarrow> ret ()
        | Some f \<Rightarrow> if length events > 0 then swallow (f events) else ret ())"

definition save_snapshot ::
  "'w executor \<Rightarrow> string \<Rightarrow> ID \<Rightarrow> snapshot option \<Rightarrow> ('w, unit) action" where
  "save_snapshot ex aggregateName aggregateId snap =
     (case (snap, ex_snapshot ex aggregateName) of
        (Some s, Some sc) \<Rightarrow> swallow (sc_save sc aggregateName aggregateId s)
      | _ \<Rightarrow> ret ())"

definition execute_implicit ::
  "'w executor \<Rightarrow> metadata_context option \<Rightarrow> string \<Rightarrow> 'w aggregate \<Rightarrow> command \<Rightarrow> 'w persistence \<Rightarrow>
     ('w, unit) action" where
  "execute_implicit ex ctx aggregateName aggregate cmd persistence =
     bind_act (strategy_execute (ex_strategy ex) aggregateName (target_of cmd)
                (attempt_command ex ctx aggregateName aggregate cmd persistence))
       (\<lambda>(events, snap).
          then_act (save_snapshot ex aggregateName (target_of cmd) snap)
            (publish (ex_dispatch ex) (ex_onEventsDispatched ex) events))"

text \<open>The explicit path runs on the owning unit of work. Only the optimistic strategy has no
  \<^verbatim>\<open>acquireForUow\<close>.\<close>

definition execute_explicit ::
  "'w executor \<Rightarrow> metadata_context option \<Rightarrow> string \<Rightarrow> 'w aggregate \<Rightarrow> command \<Rightarrow> 'w persistence \<Rightarrow>
     ('w uow \<times> 'w, unit) action" where
  "execute_explicit ex ctx aggregateName aggregate cmd persistence =
     bind_act
       (case ex_strategy ex of
          Optimistic maxRetries \<Rightarrow>
            optimistic_execute maxRetries (executeLifecycle ex ctx aggregateName aggregate cmd persistence)
        | strategy \<Rightarrow>
            then_act (acquireForUow strategy aggregateName (target_of cmd))
              (executeLifecycle ex ctx aggregateName aggregate cmd persistence))
       (\<lambda>snap. case (snap, ex_snapshot ex aggregateName) of
          (Some s, Some sc) \<Rightarrow> (\<lambda>(u, w). (Inr (),
             (onUowCommitted (swallow (sc_save sc aggregateName (target_of cmd) s)) u, w)))
        | _ \<Rightarrow> ret ())"

text \<open>The unit of work of the enclosing \<^verbatim>\<open>uowStorage.run\<close> scope, if any, is the first component
  of the state.\<close>

definition execute ::
  "'w executor \<Rightarrow> metadata_context option \<Rightarrow> string \<Rightarrow> 'w aggregate \<Rightarrow> command \<Rightarrow>
     ('w uow option \<times> 'w, unit) action" where
  "execute ex ctx aggregateName aggregate cmd =
     bind_act
       (case (cmd_commandId cmd, ex_idempotency ex) of
          (Some commandId, Some ops) \<Rightarrow> on_snd (io_exists ops commandId)
        | _ \<Rightarrow> ret False)
       (\<lambda>alreadyProcessed.
          if alreadyProcessed then ret ()
          else bind_act (lift_result (resolve (ex_resolver ex) aggregateName))
            (\<lambda>persistence s. case s of
               (None, w) \<Rightarrow>
                 (case execute_implicit ex ctx aggregateName aggregate cmd persistence w of
                    (r, w') \<Rightarrow> (r, (None, w')))
             | (Some u, w) \<Rightarrow>
                 (case execute_explicit ex ctx aggregateName aggregate cmd persistence (u, w) of
                    (r, (u', w')) \<Rightarrow> (r, (Some u', w')))))"

section \<open>Rehydration\<close>

lemma apply_events_append:
  "apply_events evolve (xs @ ys) s =
     (case apply_events evolve xs s of Inl e \<Rightarrow> Inl e | Inr s' \<Rightarrow> apply_events evolve ys s')"
  by (induction xs arbitrary: s) (auto split: option.splits sum.splits)

lemma apply_events_cong:
  assumes "map (\<lambda>ev. (ev_name ev, ev_payload ev)) xs = map (\<lambda>ev. (ev_name ev, ev_payload ev)) ys"
  shows "apply_events evolve xs s = apply_events evolve ys s"
  using assms
proof (induction xs arbitrary: ys s)
  case Nil
  then show ?case by simp
next
  case (Cons x xs)
  then obtain y ys' where "ys = y # ys'" by (cases ys) auto
  with Cons show ?case by (auto split: option.splits sum.splits)
qed

lemma rehydrate_append:
  "rehydrate ag (xs @ ys) s =
     (case (case ag_upcasters ag of None \<Rightarrow> Inr ys | Some u \<Rightarrow> upcastEvents ys u) of
        Inr ys' \<Rightarrow> (case rehydrate ag xs s of Inl e \<Rightarrow> Inl e | Inr s' \<Rightarrow> apply_events (ag_evolve ag) ys' s')
      | Inl e \<Rightarrow> (case (case ag_upcasters ag of None \<Rightarrow> Inr xs | Some u \<Rightarrow> upcastEvents xs u) of
                   Inl e' \<Rightarrow> Inl e' | Inr _ \<Rightarrow> Inl e))"
  by (auto simp: rehydrate_def upcastEvents_append apply_events_append split: option.splits sum.splits)

text \<open>Replaying from a prefix's state is replaying from the start.\<close>

lemma rehydrate_split:
  assumes "rehydrate ag xs s = Inr s'"
  shows "rehydrate ag (xs @ ys) s = rehydrate ag ys s'"
  using assms unfolding rehydrate_append
  by (auto simp: rehydrate_def split: option.splits sum.splits)

text \<open>Freshly enriched events replay to the state the decision computed.\<close>

lemma rehydrate_enriched:
  "rehydrate ag (enriched_events env ag n cmd v evs) s = apply_events (ag_evolve ag) evs s"
proof -
  have "(case ag_upcasters ag of None \<Rightarrow> Inr (enriched_events env ag n cmd v evs)
      | Some u \<Rightarrow> upcastEvents (enriched_events env ag n cmd v evs) u) =
      (Inr (enriched_events env ag n cmd v evs) :: error + event list)"
    by (auto simp: enriched_events_def enrich_upcast split: option.splits)
  moreover have "apply_events (ag_evolve ag) (enriched_events env ag n cmd v evs) s =
      apply_events (ag_evolve ag) evs s"
    unfolding enriched_events_def by (rule apply_events_cong [OF enrich_names_payloads])
  ultimately show ?thesis by (simp add: rehydrate_def)
qed

section \<open>The lifecycle on a unit of work\<close>

definition idempotency_op ::
  "'w executor \<Rightarrow> string \<Rightarrow> command \<Rightarrow> ('w, unit) action list" where
  "idempotency_op ex n cmd =
     (case (cmd_commandId cmd, ex_idempotency ex) of
        (Some c, Some ops) \<Rightarrow> [\<lambda>w. io_save ops \<lparr>ir_commandId = c, ir_aggregateName = n,
            ir_aggregateId = target_of cmd, ir_processedAt = ex_now ex w\<rparr> w]
      | _ \<Rightarrow> [])"

text \<open>What a successful lifecycle enlists and defers.\<close>

lemma executeLifecycle_enlists:
  assumes "load_aggregate (ex_snapshot ex n) p ag n (target_of cmd) w = (Inr la, w1)"
    and "decide_events ag n cmd (la_state la) w1 = (Inr (evs, st), w2)"
    and "\<not> u_completed u" and "ex_onEventsProduced ex = None"
    and "enriched = enriched_events ((ex_env ex w2)\<lparr>en_override := ctx\<rparr>) ag n cmd (la_version la) evs"
  shows "executeLifecycle ex ctx n ag cmd p (u, w) =
    (Inr (pending_snapshot (ex_snapshot ex n) la evs st),
     (u\<lparr>u_operations := u_operations u @
          pc_save p n (target_of cmd) (if la_isEventSourced la then SaveEvents enriched else SaveState st)
            (la_version la) # idempotency_op ex n cmd,
        u_pendingEvents := u_pendingEvents u @ enriched\<rparr>, w2))"
  using assms
  by (auto simp: executeLifecycle_def bind_act_def on_snd_def on_fst_def then_act_def ret_def Let_def
      enlist_command_def idempotency_op_def split: option.splits)

text \<open>A lifecycle that fails while loading or deciding leaves the unit of work alone.\<close>

lemma executeLifecycle_decide_fails:
  assumes "load_aggregate (ex_snapshot ex n) p ag n (target_of cmd) w = (Inr la, w1)"
    and "decide_events ag n cmd (la_state la) w1 = (Inl e, w2)"
  shows "executeLifecycle ex ctx n ag cmd p (u, w) = (Inl e, (u, w2))"
  using assms by (simp add: executeLifecycle_def bind_act_def on_snd_def)

section \<open>The in-memory configuration\<close>

record mem_world =
  mw_es :: es_store
  mw_snap :: snapshot_store
  mw_idem :: idem_store
  mw_published :: "event list"
  mw_clock :: int

definition on_es :: "(es_store, 'a) action \<Rightarrow> (mem_world, 'a) action" where
  "on_es m w = (case m (mw_es w) of (r, s) \<Rightarrow> (r, w\<lparr>mw_es := s\<rparr>))"

definition on_snap :: "(snapshot_store, 'a) action \<Rightarrow> (mem_world, 'a) action" where
  "on_snap m w = (case m (mw_snap w) of (r, s) \<Rightarrow> (r, w\<lparr>mw_snap := s\<rparr>))"

definition on_idem :: "(int \<Rightarrow> (idem_store, 'a) action) \<Rightarrow> (mem_world, 'a) action" where
  "on_idem m w = (case m (mw_clock w) (mw_idem w) of (r, s) \<Rightarrow> (r, w\<lparr>mw_idem := s\<rparr>))"

text \<open>The event store as a persistence, with or without the optional partial load.\<close>

definition mem_es_persistence :: "bool \<Rightarrow> mem_world persistence" where
  "mem_es_persistence partial =
     \<lparr>pc_load = (\<lambda>n i. on_es (bind_act (es_load n i) (\<lambda>evs. ret (LoadedEvents evs)))),
      pc_save = (\<lambda>n i d v. case d of SaveEvents evs \<Rightarrow> on_es (es_save n i evs v) | SaveState _ \<Rightarrow> throw TypeError),
      pc_loadAfterVersion = (if partial then Some (\<lambda>n i v. on_es (es_loadAfterVersion n i v)) else None),
      pc_read = Some (\<lambda>w. case es_read None (mw_es w) of Inl e \<Rightarrow> ([], Some e) | Inr evs \<Rightarrow> (evs, None))\<rparr>"

definition mem_snapshots :: "snapshot_strategy \<Rightarrow> mem_world snapshot_config" where
  "mem_snapshots strategy =
     \<lparr>sc_load = (\<lambda>n i. on_snap (snap_load n i)), sc_save = (\<lambda>n i s. on_snap (snap_save n i s)),
      sc_strategy = strategy\<rparr>"

definition mem_idempotency :: "int option \<Rightarrow> mem_world idempotency_ops" where
  "mem_idempotency ttl =
     \<lparr>io_exists = (\<lambda>c. on_idem (\<lambda>now. idem_exists ttl now c)),
      io_save = (\<lambda>rec. on_idem (\<lambda>now. idem_save ttl now rec))\<rparr>"

definition record_published :: "event \<Rightarrow> (mem_world, unit) action" where
  "record_published ev w = (Inr (), w\<lparr>mw_published := mw_published w @ [ev]\<rparr>)"

definition mem_executor ::
  "bool \<Rightarrow> mem_world strategy \<Rightarrow> snapshot_strategy option \<Rightarrow> int option option \<Rightarrow> (mem_world \<Rightarrow> enrich_env) \<Rightarrow>
     mem_world executor" where
  "mem_executor partial strategy snapStrategy idem env =
     \<lparr>ex_resolver = GlobalResolver (mem_es_persistence partial),
      ex_newUow = createInMemoryUnitOfWork, ex_commit = commit, ex_strategy = strategy,
      ex_env = env, ex_now = mw_clock,
      ex_snapshot = (\<lambda>_. map_option mem_snapshots snapStrategy),
      ex_idempotency = map_option mem_idempotency idem,
      ex_onEventsProduced = None, ex_onEventsDispatched = None, ex_dispatch = record_published\<rparr>"

abbreviation stream_of :: "mem_world \<Rightarrow> string \<Rightarrow> ID \<Rightarrow> event list" where
  "stream_of w n i \<equiv> es_stream (mw_es w) (instance_key n i)"

text \<open>A stored snapshot is the state of a prefix of the stream.\<close>

definition snapshot_valid :: "mem_world aggregate \<Rightarrow> string \<Rightarrow> ID \<Rightarrow> mem_world \<Rightarrow> bool" where
  "snapshot_valid ag n i w \<longleftrightarrow>
     (case jm_get (mw_snap w) (instance_key n i) of
        None \<Rightarrow> True
      | Some s \<Rightarrow> 0 \<le> sn_version s \<and> nat (sn_version s) \<le> length (stream_of w n i) \<and>
          rehydrate ag (take (nat (sn_version s)) (stream_of w n i)) (ag_initialState ag) = Inr (sn_state s))"

lemma mem_tail:
  assumes "0 \<le> v"
  shows "load_tail (mem_es_persistence partial) n i v w = (Inr (drop (nat v) (stream_of w n i)), w)"
  using assms
  by (auto simp: load_tail_def mem_es_persistence_def on_es_def es_defs bind_act_def ret_def js_slice_def)

lemma mem_load_no_snapshot:
  "load_aggregate None (mem_es_persistence partial) ag n i w =
     (case rehydrate ag (stream_of w n i) (ag_initialState ag) of
        Inl e \<Rightarrow> (Inl e, w)
      | Inr st \<Rightarrow> (Inr \<lparr>la_state = st, la_version = int (length (stream_of w n i)),
          la_isEventSourced = True, la_snapshot = None\<rparr>, w))"
  by (auto simp: load_aggregate_def mem_es_persistence_def on_es_def es_defs bind_act_def ret_def
      lift_result_def split: sum.splits)

lemma mem_load_snapshot:
  assumes "jm_get (mw_snap w) (instance_key n i) = Some s" and "snapshot_valid ag n i w"
  shows "load_aggregate (Some (mem_snapshots strat)) (mem_es_persistence partial) ag n i w =
     (case rehydrate ag (stream_of w n i) (ag_initialState ag) of
        Inl e \<Rightarrow> (Inl e, w)
      | Inr st \<Rightarrow> (Inr \<lparr>la_state = st, la_version = int (length (stream_of w n i)),
          la_isEventSourced = True, la_snapshot = Some s\<rparr>, w))"
proof -
  let ?str = "stream_of w n i" and ?k = "nat (sn_version s)"
  from assms have v: "0 \<le> sn_version s" "?k \<le> length ?str"
    and h: "rehydrate ag (take ?k ?str) (ag_initialState ag) = Inr (sn_state s)"
    by (auto simp: snapshot_valid_def)
  have "rehydrate ag ?str (ag_initialState ag) = rehydrate ag (drop ?k ?str) (sn_state s)"
    using rehydrate_split [OF h, of "drop ?k ?str"] by simp
  with v assms(1) show ?thesis
    by (auto simp: load_aggregate_def mem_snapshots_def on_snap_def snap_load_def bind_act_def mem_tail
        lift_result_def ret_def split: sum.splits)
qed

lemma mem_load:
  assumes "snapshot_valid ag n i w"
  shows "\<exists>so. load_aggregate (map_option mem_snapshots snapStrategy) (mem_es_persistence partial) ag n i w =
     (case rehydrate ag (stream_of w n i) (ag_initialState ag) of
        Inl e \<Rightarrow> (Inl e, w)
      | Inr st \<Rightarrow> (Inr \<lparr>la_state = st, la_version = int (length (stream_of w n i)),
          la_isEventSourced = True, la_snapshot = so\<rparr>, w))"
proof (cases snapStrategy)
  case None
  then show ?thesis by (auto simp: mem_load_no_snapshot)
next
  case (Some strat)
  show ?thesis
  proof (cases "jm_get (mw_snap w) (instance_key n i)")
    case None
    have "load_aggregate (Some (mem_snapshots strat)) (mem_es_persistence partial) ag n i w =
        load_aggregate None (mem_es_persistence partial) ag n i w"
      using None by (simp add: load_aggregate_def mem_snapshots_def on_snap_def snap_load_def bind_act_def ret_def)
    with Some show ?thesis by (auto simp: mem_load_no_snapshot)
  next
    case s: (Some s)
    with mem_load_snapshot [OF s assms] Some show ?thesis by auto
  qed
qed

section \<open>Attempts in the in-memory configuration\<close>

lemma mem_executor_simps [simp]:
  "ex_resolver (mem_executor pt st ss idem env) = GlobalResolver (mem_es_persistence pt)"
  "ex_newUow (mem_executor pt st ss idem env) = createInMemoryUnitOfWork"
  "ex_commit (mem_executor pt st ss idem env) = commit"
  "ex_strategy (mem_executor pt st ss idem env) = st"
  "ex_env (mem_executor pt st ss idem env) = env"
  "ex_now (mem_executor pt st ss idem env) = mw_clock"
  "ex_snapshot (mem_executor pt st ss idem env) n = map_option mem_snapshots ss"
  "ex_idempotency (mem_executor pt st ss idem env) = map_option mem_idempotency idem"
  "ex_onEventsProduced (mem_executor pt st ss idem env) = None"
  "ex_onEventsDispatched (mem_executor pt st ss idem env) = None"
  "ex_dispatch (mem_executor pt st ss idem env) = record_published"
  by (simp_all add: mem_executor_def)

lemma mem_save_events:
  assumes "v = int (length (stream_of w n i))"
  shows "\<exists>es'. pc_save (mem_es_persistence pt) n i (SaveEvents evs) v w = (Inr (), w\<lparr>mw_es := es'\<rparr>) \<and>
    es_stream es' = (es_stream (mw_es w))(instance_key n i := stream_of w n i @ evs)"
proof (cases "evs = []")
  case True
  then show ?thesis
    by (intro exI [of _ "mw_es w"]) (simp add: mem_es_persistence_def on_es_def es_save_def)
next
  case False
  from mem_es.save_appends [OF False assms] show ?thesis
    by (auto simp: mem_es_persistence_def on_es_def)
qed

lemma mem_save_conflict:
  assumes "evs \<noteq> []" and "v \<noteq> int (length (stream_of w n i))"
  shows "pc_save (mem_es_persistence pt) n i (SaveEvents evs) v w =
    (Inl (ConcurrencyError n i v (int (length (stream_of w n i)))), w)"
  using mem_es.save_conflicts [OF assms] by (simp add: mem_es_persistence_def on_es_def)

definition unclaimed :: "command \<Rightarrow> mem_world \<Rightarrow> bool" where
  "unclaimed cmd w \<longleftrightarrow> (case cmd_commandId cmd of None \<Rightarrow> True | Some c \<Rightarrow> jm_get (mw_idem w) (id_string c) = None)"

definition claimed_at :: "command \<Rightarrow> int \<Rightarrow> mem_world \<Rightarrow> bool" where
  "claimed_at cmd t w \<longleftrightarrow> (\<forall>c. cmd_commandId cmd = Some c \<longrightarrow>
     (\<exists>r. jm_get (mw_idem w) (id_string c) = Some r \<and> ir_processedAt r = t))"

lemma mem_idempotency_op:
  assumes "unclaimed cmd w"
  shows "\<exists>idem'. run_operations (idempotency_op (mem_executor pt st ss idem env) n cmd) w =
      (Inr (), w\<lparr>mw_idem := idem'\<rparr>) \<and> (idem \<noteq> None \<longrightarrow> claimed_at cmd (mw_clock w) (w\<lparr>mw_idem := idem'\<rparr>))"
proof (cases "\<exists>c ttl. cmd_commandId cmd = Some c \<and> idem = Some ttl")
  case True
  then obtain c ttl where c: "cmd_commandId cmd = Some c" "idem = Some ttl" by blast
  let ?r = "\<lparr>ir_commandId = c, ir_aggregateName = n, ir_aggregateId = target_of cmd, ir_processedAt = mw_clock w\<rparr>"
  from c assms show ?thesis
    by (intro exI [of _ "jm_set (id_string c) ?r (mw_idem w)"]) (simp add: idempotency_op_def run_operations_def mem_idempotency_def on_idem_def idem_defs
        unclaimed_def claimed_at_def)
next
  case False
  then show ?thesis
    by (intro exI [of _ "mw_idem w"])
       (auto simp: idempotency_op_def run_operations_def claimed_at_def split: option.splits)
qed

lemma run_operations_Cons:
  "run_operations (op # ops) w =
     (case op w of (Inl e, w') \<Rightarrow> (Inl e, w') | (Inr _, w') \<Rightarrow> run_operations ops w')"
  by (simp add: run_operations_def split: prod.split sum.split)

lemma mem_attempt:
  assumes "snapshot_valid ag n (target_of cmd) w"
    and "rehydrate ag (stream_of w n (target_of cmd)) (ag_initialState ag) = Inr st0"
    and "decide_events ag n cmd st0 w = (Inr (evs, st), w)"
    and "unclaimed cmd w"
    and en: "enriched = enriched_events ((env w)\<lparr>en_override := ctx\<rparr>) ag n cmd
      (int (length (stream_of w n (target_of cmd)))) evs"
  shows "\<exists>es' idem' so snap. attempt_command (mem_executor pt strat ss idem env) ctx n ag cmd (mem_es_persistence pt) w =
      (Inr (enriched, snap), w\<lparr>mw_es := es', mw_idem := idem'\<rparr>) \<and>
    es_stream es' = (es_stream (mw_es w))(instance_key n (target_of cmd) :=
      stream_of w n (target_of cmd) @ enriched) \<and>
    (idem \<noteq> None \<longrightarrow> claimed_at cmd (mw_clock w) (w\<lparr>mw_idem := idem'\<rparr>)) \<and>
    snap = pending_snapshot (map_option mem_snapshots ss)
      \<lparr>la_state = st0, la_version = int (length (stream_of w n (target_of cmd))),
       la_isEventSourced = True, la_snapshot = so\<rparr> evs st"
proof -
  let ?ex = "mem_executor pt strat ss idem env" and ?i = "target_of cmd"
  obtain so where so: "load_aggregate (map_option mem_snapshots ss) (mem_es_persistence pt) ag n ?i w =
      (Inr \<lparr>la_state = st0, la_version = int (length (stream_of w n ?i)), la_isEventSourced = True,
        la_snapshot = so\<rparr>, w)" (is "_ = (Inr ?la, w)")
    using mem_load [OF assms(1), of ss pt] assms(2) by auto
  let ?save = "pc_save (mem_es_persistence pt) n ?i (SaveEvents enriched) (la_version ?la)"
  have life: "executeLifecycle ?ex ctx n ag cmd (mem_es_persistence pt) (createInMemoryUnitOfWork, w) =
      (Inr (pending_snapshot (map_option mem_snapshots ss) ?la evs st),
       (createInMemoryUnitOfWork\<lparr>u_operations := ?save # idempotency_op ?ex n cmd,
          u_pendingEvents := enriched\<rparr>, w))"
    using executeLifecycle_enlists [where ex = ?ex and p = "mem_es_persistence pt" and la = ?la and u = createInMemoryUnitOfWork
        and enriched = enriched and ctx = ctx and w = w and ?w1.0 = w and ?w2.0 = w and evs = evs and st = st and n = n and ag = ag and cmd = cmd]
      so assms(3) en
    by simp
  obtain es' where es': "?save w = (Inr (), w\<lparr>mw_es := es'\<rparr>)"
    "es_stream es' = (es_stream (mw_es w))(instance_key n ?i := stream_of w n ?i @ enriched)"
    using mem_save_events [of "int (length (stream_of w n ?i))" w n ?i pt enriched] by auto
  have "unclaimed cmd (w\<lparr>mw_es := es'\<rparr>)" using assms(4) by (simp add: unclaimed_def split: option.splits)
  from mem_idempotency_op [OF this, of pt strat ss idem env n] obtain idem' where
    idem': "run_operations (idempotency_op ?ex n cmd) (w\<lparr>mw_es := es'\<rparr>) = (Inr (), w\<lparr>mw_es := es', mw_idem := idem'\<rparr>)"
      "idem \<noteq> None \<longrightarrow> claimed_at cmd (mw_clock w) (w\<lparr>mw_idem := idem'\<rparr>)"
    by (auto simp: claimed_at_def)
  have "run_operations (?save # idempotency_op ?ex n cmd) w = (Inr (), w\<lparr>mw_es := es', mw_idem := idem'\<rparr>)"
    using es'(1) idem'(1) by (simp add: run_operations_Cons)
  then have "commit (createInMemoryUnitOfWork\<lparr>u_operations := ?save # idempotency_op ?ex n cmd,
          u_pendingEvents := enriched\<rparr>, w) = (Inr enriched, (createInMemoryUnitOfWork\<lparr>u_operations :=
          ?save # idempotency_op ?ex n cmd, u_pendingEvents := enriched, u_completed := True\<rparr>,
          w\<lparr>mw_es := es', mw_idem := idem'\<rparr>))"
    by (subst mem_uow.cmt_ok) auto
  then have "attempt_command ?ex ctx n ag cmd (mem_es_persistence pt) w =
      (Inr (enriched, pending_snapshot (map_option mem_snapshots ss) ?la evs st), w\<lparr>mw_es := es', mw_idem := idem'\<rparr>)"
    unfolding attempt_command_def bind_act_def mem_executor_simps life by (simp add: ret_def)
  with es'(2) idem'(2) show ?thesis by blast
qed

lemma publish_recorded:
  "publish record_published None evs w = (Inr (), w\<lparr>mw_published := mw_published w @ evs\<rparr>)"
proof -
  have "for_each record_published evs w = (Inr (), w\<lparr>mw_published := mw_published w @ evs\<rparr>)"
    by (induction evs arbitrary: w) (simp_all add: record_published_def)
  then show ?thesis by (simp add: publish_def then_act_def bind_act_def ret_def)
qed

lemma mem_save_snapshot:
  "\<exists>sn'. save_snapshot (mem_executor pt strat ss idem env) n i snap w = (Inr (), w\<lparr>mw_snap := sn'\<rparr>) \<and>
     (jm_get sn' (instance_key n i) = jm_get (mw_snap w) (instance_key n i) \<or>
      snap \<noteq> None \<and> jm_get sn' (instance_key n i) = snap)"
proof (cases "snap = None \<or> ss = None")
  case True
  then show ?thesis
    by (intro exI [of _ "mw_snap w"]) (auto simp: save_snapshot_def ret_def split: option.splits)
next
  case False
  then show ?thesis
    by (auto simp: save_snapshot_def swallow_def mem_snapshots_def on_snap_def snap_save_def)
qed

section \<open>Properties\<close>

text \<open>C11: Loading through a snapshot is transparent. Over the in-memory stores, when the stored
  snapshot of an instance is the state of a prefix of its stream, loading the aggregate with the
  snapshot gives the same state and version (or the same error) as replaying the whole stream,
  whether the persistence offers the partial load or the executor slices the full load itself.\<close>
theorem snapshot_load_transparent:
  assumes "snapshot_valid ag n i w"
  shows "(case load_aggregate (Some (mem_snapshots strat)) (mem_es_persistence partial) ag n i w of
      (Inl e, w') \<Rightarrow> load_aggregate None (mem_es_persistence partial) ag n i w = (Inl e, w) \<and> w' = w
    | (Inr la, w') \<Rightarrow> w' = w \<and>
        load_aggregate None (mem_es_persistence partial) ag n i w = (Inr (la\<lparr>la_snapshot := None\<rparr>), w))"
  using mem_load [OF assms, of "Some strat" partial]
  by (auto simp: mem_load_no_snapshot split: sum.splits)

definition counter_aggregate :: "'w aggregate" where
  "counter_aggregate =
     \<lparr>ag_initialState = JNum 0,
      ag_decide = [(''Add'', \<lambda>c st w. (Inr (Many [\<lparr>ev_name = ''Added'', ev_payload = cmd_payload c, ev_metadata = None\<rparr>]), w)),
                   (''Fail'', \<lambda>c st w. (Inl (UserError ''no''), w))],
      ag_evolve = [(''Added'', \<lambda>p st. case (p, st) of (JNum a, JNum b) \<Rightarrow> Inr (JNum (a + b)) | _ \<Rightarrow> Inl TypeError)],
      ag_upcasters = None\<rparr>"

definition added :: "int \<Rightarrow> event" where
  "added k = \<lparr>ev_name = ''Added'', ev_payload = JNum k, ev_metadata = None\<rparr>"

definition sample_world :: mem_world where
  "sample_world = \<lparr>mw_es = [(''Cnt:1'', [added 2, added 3, added 4])],
     mw_snap = [(''Cnt:1'', \<lparr>sn_state = JNum 5, sn_version = 2, sn_stateVersion = None\<rparr>)],
     mw_idem = [], mw_published = [], mw_clock = 0\<rparr>"

lemma sample_world_valid: "snapshot_valid counter_aggregate ''Cnt'' (IDNum 1) sample_world"
  by code_simp

theorem snapshot_load_transparent_witness:
  "load_aggregate None (mem_es_persistence False) counter_aggregate ''Cnt'' (IDNum 1) sample_world =
     (Inr \<lparr>la_state = JNum 9, la_version = 3, la_isEventSourced = True, la_snapshot = None\<rparr>, sample_world)"
proof -
  have "load_aggregate (Some (mem_snapshots (everyNEvents 2))) (mem_es_persistence False) counter_aggregate
      ''Cnt'' (IDNum 1) sample_world =
      (Inr \<lparr>la_state = JNum 9, la_version = 3, la_isEventSourced = True,
         la_snapshot = Some \<lparr>sn_state = JNum 5, sn_version = 2, sn_stateVersion = None\<rparr>\<rparr>, sample_world)"
    by code_simp
  with snapshot_load_transparent [OF sample_world_valid, where strat = "everyNEvents 2" and partial = False] show ?thesis by simp
qed

lemma mem_implicit:
  assumes "0 \<le> m" and "snapshot_valid ag n (target_of cmd) w"
    and st0: "rehydrate ag (stream_of w n (target_of cmd)) (ag_initialState ag) = Inr st0"
    and dec: "decide_events ag n cmd st0 w = (Inr (evs, st), w)" and app: "apply_events (ag_evolve ag) evs st0 = Inr st"
    and "unclaimed cmd w"
    and en: "enriched = enriched_events ((env w)\<lparr>en_override := ctx\<rparr>) ag n cmd
      (int (length (stream_of w n (target_of cmd)))) evs"
  shows "\<exists>w'. execute_implicit (mem_executor pt (Optimistic m) ss idem env) ctx n ag cmd (mem_es_persistence pt) w =
      (Inr (), w') \<and>
    es_stream (mw_es w') = (es_stream (mw_es w))(instance_key n (target_of cmd) := stream_of w n (target_of cmd) @ enriched) \<and>
    mw_published w' = mw_published w @ enriched \<and> mw_clock w' = mw_clock w \<and>
    (idem \<noteq> None \<longrightarrow> claimed_at cmd (mw_clock w) w') \<and> snapshot_valid ag n (target_of cmd) w'"
proof -
  let ?ex = "mem_executor pt (Optimistic m) ss idem env" and ?i = "target_of cmd" and ?str = "stream_of w n (target_of cmd)"
  from mem_attempt [where env = env and ctx = ctx and pt = pt and strat = "Optimistic m" and ss = ss and idem = idem,
      OF assms(2) st0 dec assms(6) en] obtain es' idem' so snap where
    at: "attempt_command ?ex ctx n ag cmd (mem_es_persistence pt) w = (Inr (enriched, snap), w\<lparr>mw_es := es', mw_idem := idem'\<rparr>)"
    and es': "es_stream es' = (es_stream (mw_es w))(instance_key n ?i := ?str @ enriched)"
    and cl: "idem \<noteq> None \<longrightarrow> claimed_at cmd (mw_clock w) (w\<lparr>mw_idem := idem'\<rparr>)"
    and snap: "snap = pending_snapshot (map_option mem_snapshots ss)
      \<lparr>la_state = st0, la_version = int (length ?str), la_isEventSourced = True, la_snapshot = so\<rparr> evs st"
    by blast
  from mem_save_snapshot [of pt "Optimistic m" ss idem env n ?i snap "w\<lparr>mw_es := es', mw_idem := idem'\<rparr>"] obtain sn' where
    sn': "save_snapshot ?ex n ?i snap (w\<lparr>mw_es := es', mw_idem := idem'\<rparr>) =
        (Inr (), w\<lparr>mw_es := es', mw_idem := idem', mw_snap := sn'\<rparr>)"
      "jm_get sn' (instance_key n ?i) = jm_get (mw_snap w) (instance_key n ?i) \<or> snap \<noteq> None \<and> jm_get sn' (instance_key n ?i) = snap"
    by auto
  let ?w' = "w\<lparr>mw_es := es', mw_idem := idem', mw_snap := sn', mw_published := mw_published w @ enriched\<rparr>"
  have run: "execute_implicit ?ex ctx n ag cmd (mem_es_persistence pt) w = (Inr (), ?w')"
    using at sn'(1) assms(1)
    by (simp add: execute_implicit_def bind_act_def optimistic_execute_def optimistic_from.simps then_act_def
        publish_recorded)
  have new: "rehydrate ag (?str @ enriched) (ag_initialState ag) = Inr st"
    using rehydrate_split [OF st0, of enriched] rehydrate_enriched [of ag "(env w)\<lparr>en_override := ctx\<rparr>" n cmd] app en
    by simp
  have len: "length enriched = length evs" using en by (simp add: enriched_events_def)
  have "snapshot_valid ag n ?i ?w'"
  proof (cases "jm_get sn' (instance_key n ?i) = jm_get (mw_snap w) (instance_key n ?i)")
    case True
    with assms(2) show ?thesis by (auto simp: snapshot_valid_def es' split: option.splits)
  next
    case False
    with sn'(2) obtain s where s: "snap = Some s" "jm_get sn' (instance_key n ?i) = Some s" by auto
    with snap have "s = \<lparr>sn_state = st, sn_version = int (length ?str) + int (length evs), sn_stateVersion = None\<rparr>"
      by (auto simp: pending_snapshot_def Let_def split: option.splits if_splits)
    with s(2) new len show ?thesis by (simp add: snapshot_valid_def es' nat_add_distrib)
  qed
  moreover have "idem \<noteq> None \<longrightarrow> claimed_at cmd (mw_clock w) ?w'" using cl by (simp add: claimed_at_def)
  ultimately show ?thesis using run es' by (intro exI [of _ ?w']) auto
qed

lemma decide_events_apply:
  "decide_events ag n cmd st0 w = (Inr (evs, st), w') \<Longrightarrow> apply_events (ag_evolve ag) evs st0 = Inr st"
  by (auto simp: decide_events_def bind_act_def throw_def lift_result_def ret_def Let_def
      split: option.splits prod.splits sum.splits)

lemma unclaimed_exists:
  assumes "unclaimed cmd w"
  shows "(case (cmd_commandId cmd, ex_idempotency (mem_executor pt st ss idem env)) of
      (Some c, Some ops) \<Rightarrow> on_snd (io_exists ops c) | _ \<Rightarrow> ret False) (u, w) = (Inr False, (u, w))"
  using assms
  by (auto simp: unclaimed_def ret_def mem_idempotency_def on_snd_def on_idem_def idem_defs split: option.splits)

text \<open>C1: A command's effect can be read back. In the in-memory configuration with optimistic
  concurrency, snapshots and idempotency in any setting, executing a command whose id was not yet
  claimed and whose decision on the current state yields the events evs with resulting state st
  succeeds; it appends exactly the enriched events to that instance's stream and to no other,
  publishes exactly those events in order, keeps stored snapshots valid, and loading the instance
  again, through a snapshot or not, gives exactly st at the old version plus the number of events.\<close>
theorem command_read_your_writes:
  assumes "0 \<le> m" and "snapshot_valid ag n (target_of cmd) w" and "unclaimed cmd w"
    and "rehydrate ag (stream_of w n (target_of cmd)) (ag_initialState ag) = Inr st0"
    and "decide_events ag n cmd st0 w = (Inr (evs, st), w)"
    and "enriched = enriched_events ((env w)\<lparr>en_override := ctx\<rparr>) ag n cmd
      (int (length (stream_of w n (target_of cmd)))) evs"
  shows "\<exists>w' so. execute (mem_executor partial (Optimistic m) ss idem env) ctx n ag cmd (None, w) = (Inr (), (None, w')) \<and>
    es_stream (mw_es w') = (es_stream (mw_es w))(instance_key n (target_of cmd) := stream_of w n (target_of cmd) @ enriched) \<and>
    mw_published w' = mw_published w @ enriched \<and>
    snapshot_valid ag n (target_of cmd) w' \<and>
    load_aggregate (map_option mem_snapshots ss) (mem_es_persistence partial) ag n (target_of cmd) w' =
      (Inr \<lparr>la_state = st, la_version = int (length (stream_of w n (target_of cmd))) + int (length evs),
        la_isEventSourced = True, la_snapshot = so\<rparr>, w')"
proof -
  note app = decide_events_apply [OF assms(5)]
  from mem_implicit [where env = env and ctx = ctx and pt = partial and ss = ss and idem = idem,
      OF assms(1,2,4,5) app assms(3,6)] obtain w' where
    w': "execute_implicit (mem_executor partial (Optimistic m) ss idem env) ctx n ag cmd (mem_es_persistence partial) w = (Inr (), w')"
      "es_stream (mw_es w') = (es_stream (mw_es w))(instance_key n (target_of cmd) := stream_of w n (target_of cmd) @ enriched)"
      "mw_published w' = mw_published w @ enriched" "snapshot_valid ag n (target_of cmd) w'"
    by blast
  have ex: "execute (mem_executor partial (Optimistic m) ss idem env) ctx n ag cmd (None, w) = (Inr (), (None, w'))"
    unfolding execute_def bind_act_def unclaimed_exists [OF assms(3)] using w'(1) by (simp add: lift_result_def)
  have "rehydrate ag (stream_of w' n (target_of cmd)) (ag_initialState ag) = Inr st"
    using rehydrate_split [OF assms(4), of enriched] rehydrate_enriched [of ag _ n cmd] app assms(6) w'(2) by simp
  with mem_load [OF w'(4), of ss partial] w'(2) assms(6) obtain so where
    "load_aggregate (map_option mem_snapshots ss) (mem_es_persistence partial) ag n (target_of cmd) w' =
      (Inr \<lparr>la_state = st, la_version = int (length (stream_of w n (target_of cmd))) + int (length evs),
        la_isEventSourced = True, la_snapshot = so\<rparr>, w')"
    by (auto simp: enriched_events_def)
  with ex w' show ?thesis by blast
qed

definition add_command :: "int \<Rightarrow> ID option \<Rightarrow> command" where
  "add_command k c = \<lparr>cmd_name = ''Add'', cmd_payload = JNum k, cmd_commandId = c, cmd_targetAggregateId = Some (IDNum 1)\<rparr>"

lemma sample_decides:
  "decide_events counter_aggregate ''Cnt'' (add_command 6 c) (JNum 9) w = (Inr ([added 6], JNum 15), w)"
  "rehydrate counter_aggregate (stream_of sample_world ''Cnt'' (target_of (add_command 6 c)))
     (ag_initialState counter_aggregate) = Inr (JNum 9)"
  "target_of (add_command 6 c) = IDNum 1" "unclaimed (add_command 6 c) sample_world"
proof -
  show "decide_events counter_aggregate ''Cnt'' (add_command 6 c) (JNum 9) w = (Inr ([added 6], JNum 15), w)"
    by (simp add: decide_events_def counter_aggregate_def add_command_def added_def jm_get_def bind_act_def ret_def
        lift_result_def)
  show t: "target_of (add_command 6 c) = IDNum 1" by (simp add: target_of_def add_command_def)
  show "unclaimed (add_command 6 c) sample_world"
    by (simp add: unclaimed_def sample_world_def split: option.splits)
  show "rehydrate counter_aggregate (stream_of sample_world ''Cnt'' (target_of (add_command 6 c)))
      (ag_initialState counter_aggregate) = Inr (JNum 9)"
    unfolding t by code_simp
qed

theorem command_read_your_writes_witness:
  "\<exists>w' so. execute (mem_executor True (Optimistic 0) (Some (everyNEvents 2)) None (\<lambda>_. sample_env)) None ''Cnt''
      counter_aggregate (add_command 6 None) (None, sample_world) = (Inr (), (None, w')) \<and>
    load_aggregate (Some (mem_snapshots (everyNEvents 2))) (mem_es_persistence True) counter_aggregate ''Cnt'' (IDNum 1) w' =
      (Inr \<lparr>la_state = JNum 15, la_version = 4, la_isEventSourced = True, la_snapshot = so\<rparr>, w')"
proof -
  have l: "int (length (stream_of sample_world ''Cnt'' (IDNum 1))) = 3" by code_simp
  have v: "snapshot_valid counter_aggregate ''Cnt'' (target_of (add_command 6 None)) sample_world"
    by (simp add: sample_decides sample_world_valid)
  from command_read_your_writes [where m = 0 and ss = "Some (everyNEvents 2)"
      and partial = True and idem = None and ctx = None and env = "\<lambda>_. sample_env",
      OF _ v sample_decides(4,2,1) refl]
  show ?thesis by (auto simp: sample_decides(3) l)
qed

text \<open>C9: A command id takes effect once. On the in-memory event-sourced executor with optimistic
  concurrency and an idempotency store, take a command with a command id that is not claimed, on an
  instance with a valid snapshot and a decision that leaves the world alone, executed successfully
  outside any enclosing unit of work (so that its record is committed with it). Then executing any
  command with the same id (on any aggregate, in any scope, with or without an enclosing unit of
  work) while the record is live succeeds without any effect: nothing is loaded, decided, stored or
  published. A second command with that id inside the enclosing unit of work of the first, before
  its commit, is not covered: the record is only enlisted then.\<close>
theorem duplicate_command_ignored:
  assumes "0 \<le> m" and "snapshot_valid ag n (target_of cmd) w" and "unclaimed cmd w"
    and "rehydrate ag (stream_of w n (target_of cmd)) (ag_initialState ag) = Inr st0"
    and "decide_events ag n cmd st0 w = (Inr (evs, st), w)"
    and "cmd_commandId cmd = Some c" and "cmd_commandId cmd' = Some c"
    and "execute (mem_executor partial (Optimistic m) ss (Some ttl) env) ctx n ag cmd (None, w) = (Inr (), (None, w'))"
    and "case ttl of None \<Rightarrow> True | Some ms \<Rightarrow> t - mw_clock w \<le> ms"
  shows "execute (mem_executor partial (Optimistic m) ss (Some ttl) env) ctx' n' ag' cmd' (u, w'\<lparr>mw_clock := t\<rparr>) =
    (Inr (), (u, w'\<lparr>mw_clock := t\<rparr>))"
proof -
  let ?ex = "mem_executor partial (Optimistic m) ss (Some ttl) env"
  from mem_implicit [where env = env and ctx = ctx and pt = partial and ss = ss and idem = "Some ttl",
      OF assms(1,2,4,5) decide_events_apply [OF assms(5)] assms(3) refl]
  obtain w1 where w1: "execute_implicit ?ex ctx n ag cmd (mem_es_persistence partial) w = (Inr (), w1)"
    "claimed_at cmd (mw_clock w) w1" by auto
  have "execute ?ex ctx n ag cmd (None, w) = (Inr (), (None, w1))"
    unfolding execute_def bind_act_def unclaimed_exists [OF assms(3)] using w1(1) by (simp add: lift_result_def)
  with assms(8) have "w' = w1" by simp
  with w1(2) assms(6) obtain r where r: "jm_get (mw_idem w') (id_string c) = Some r" "ir_processedAt r = mw_clock w"
    by (auto simp: claimed_at_def)
  have "on_snd (io_exists (mem_idempotency ttl) c) (u, w'\<lparr>mw_clock := t\<rparr>) = (Inr True, (u, w'\<lparr>mw_clock := t\<rparr>))"
    using r assms(9)
    by (auto simp: on_snd_def mem_idempotency_def on_idem_def idem_defs split: option.splits)
  then show ?thesis unfolding execute_def bind_act_def using assms(7) by (simp add: ret_def)
qed

theorem duplicate_command_ignored_witness:
  "\<exists>w'. execute (mem_executor True (Optimistic 0) None (Some (Some 60)) (\<lambda>_. sample_env)) None ''Cnt''
      counter_aggregate (add_command 6 (Some (IDStr ''c-1''))) (None, sample_world) = (Inr (), (None, w')) \<and>
    execute (mem_executor True (Optimistic 0) None (Some (Some 60)) (\<lambda>_. sample_env)) None ''Cnt''
      counter_aggregate (add_command 100 (Some (IDStr ''c-1''))) (None, w'\<lparr>mw_clock := 45\<rparr>) =
      (Inr (), (None, w'\<lparr>mw_clock := 45\<rparr>))"
proof -
  let ?ex = "mem_executor True (Optimistic 0) None (Some (Some 60)) (\<lambda>_. sample_env)"
  let ?c = "add_command 6 (Some (IDStr ''c-1''))"
  have v: "snapshot_valid counter_aggregate ''Cnt'' (target_of ?c) sample_world"
    by (simp add: sample_decides sample_world_valid)
  obtain w' where w': "execute ?ex None ''Cnt'' counter_aggregate ?c (None, sample_world) = (Inr (), (None, w'))"
    using command_read_your_writes [where m = 0 and ss = None and partial = True and idem = "Some (Some 60)"
        and ctx = None and env = "\<lambda>_. sample_env", OF _ v sample_decides(4,2,1) refl] by auto
  have "execute ?ex None ''Cnt'' counter_aggregate (add_command 100 (Some (IDStr ''c-1''))) (None, w'\<lparr>mw_clock := 45\<rparr>) =
      (Inr (), (None, w'\<lparr>mw_clock := 45\<rparr>))"
    using duplicate_command_ignored [where t = 45, OF _ v sample_decides(4,2,1) _ _ w',
        of "IDStr ''c-1''" "add_command 100 (Some (IDStr ''c-1''))"]
    by (simp add: add_command_def sample_world_def)
  with w' show ?thesis by blast
qed

lemma optimistic_from_stuck:
  assumes "attempt w = (Inl e, w)" and "i \<le> m"
  shows "optimistic_from i m attempt w = (Inl e, w)"
  using assms(2)
proof (induction "nat (m - i)" arbitrary: i)
  case 0
  with assms(1) show ?case by (subst optimistic_from.simps) simp
next
  case (Suc d)
  then have "optimistic_from (i + 1) m attempt w = (Inl e, w)" by simp
  with assms(1) Suc.prems show ?case by (subst optimistic_from.simps) simp
qed

text \<open>C31: A rejected command leaves no trace. Take the in-memory event-sourced executor with
  optimistic concurrency, outside any enclosing unit of work, a command whose id, if it has one, is
  not claimed (a claimed one is skipped, and looking up an expired record removes it), and an
  instance with a valid snapshot. When the decision on the current state throws, and the handler
  itself changed nothing, executing the command throws that error, and the event streams,
  snapshots, idempotency records and published events are exactly as before, however many retries
  are configured.\<close>
theorem rejected_command_no_effect:
  assumes "0 \<le> m" and "snapshot_valid ag n (target_of cmd) w" and "unclaimed cmd w"
    and "rehydrate ag (stream_of w n (target_of cmd)) (ag_initialState ag) = Inr st0"
    and "decide_events ag n cmd st0 w = (Inl e, w)"
  shows "execute (mem_executor partial (Optimistic m) ss idem env) ctx n ag cmd (None, w) = (Inl e, (None, w))"
proof -
  let ?ex = "mem_executor partial (Optimistic m) ss idem env"
  obtain so where "load_aggregate (ex_snapshot ?ex n) (mem_es_persistence partial) ag n (target_of cmd) w =
      (Inr \<lparr>la_state = st0, la_version = int (length (stream_of w n (target_of cmd))), la_isEventSourced = True,
        la_snapshot = so\<rparr>, w)"
    using mem_load [OF assms(2), of ss partial] assms(4) by auto
  from executeLifecycle_decide_fails [OF this] assms(5)
  have "attempt_command ?ex ctx n ag cmd (mem_es_persistence partial) w = (Inl e, w)"
    by (simp add: attempt_command_def bind_act_def on_fst_def swallow_def)
  from optimistic_from_stuck [where attempt = "attempt_command ?ex ctx n ag cmd (mem_es_persistence partial)",
      OF this assms(1)]
  have "execute_implicit ?ex ctx n ag cmd (mem_es_persistence partial) w = (Inl e, w)"
    by (simp add: execute_implicit_def bind_act_def optimistic_execute_def)
  then show ?thesis
    unfolding execute_def bind_act_def unclaimed_exists [OF assms(3)] by (simp add: lift_result_def)
qed

theorem rejected_command_no_effect_witness:
  "execute (mem_executor False (Optimistic 3) (Some (everyNEvents 1)) (Some None) (\<lambda>_. sample_env)) None ''Cnt''
     counter_aggregate ((add_command 6 None)\<lparr>cmd_name := ''Fail''\<rparr>) (None, sample_world) =
   (Inl (UserError ''no''), (None, sample_world))"
proof -
  let ?c = "(add_command 6 None)\<lparr>cmd_name := ''Fail''\<rparr>"
  have t: "target_of ?c = IDNum 1" by (simp add: target_of_def add_command_def)
  have v: "snapshot_valid counter_aggregate ''Cnt'' (target_of ?c) sample_world" by (simp add: t sample_world_valid)
  have u: "unclaimed ?c sample_world" by (simp add: unclaimed_def add_command_def)
  have s: "rehydrate counter_aggregate (stream_of sample_world ''Cnt'' (target_of ?c))
      (ag_initialState counter_aggregate) = Inr (JNum 9)"
    using sample_decides(2,3) [of None] by (simp add: t)
  have d: "decide_events counter_aggregate ''Cnt'' ?c (JNum 9) sample_world = (Inl (UserError ''no''), sample_world)"
    by (simp add: decide_events_def counter_aggregate_def add_command_def jm_get_def bind_act_def)
  show ?thesis by (rule rejected_command_no_effect [OF _ v u s d]) simp
qed

text \<open>C4: Interleaved commands cannot both win. When two commands on one instance both run their
  lifecycle on the same state of the store before either commits, and both produce events, then
  after the first unit of work has committed, the commit of the second throws a ConcurrencyError,
  appends nothing and returns no event to publish.\<close>
theorem interleaved_commands_conflict:
  assumes "ex = mem_executor partial strat ss None env"
    and "load_aggregate (ex_snapshot ex n) (mem_es_persistence partial) ag n i w = (Inr la, w)"
    and "la_isEventSourced la" and "la_version la = int (length (stream_of w n i))"
    and "target_of cmd1 = i" and "target_of cmd2 = i"
    and "decide_events ag n cmd1 (la_state la) w = (Inr (evs1, st1), w)" and "evs1 \<noteq> []"
    and "decide_events ag n cmd2 (la_state la) w = (Inr (evs2, st2), w)" and "evs2 \<noteq> []"
    and "executeLifecycle ex ctx n ag cmd1 (mem_es_persistence partial) (createInMemoryUnitOfWork, w) = (Inr s1, (u1, w))"
    and "executeLifecycle ex ctx n ag cmd2 (mem_es_persistence partial) (createInMemoryUnitOfWork, w) = (Inr s2, (u2, w))"
    and "commit (u1, w) = (r1, (u1', w1))"
  shows "(\<exists>enriched. r1 = Inr enriched \<and> stream_of w1 n i = stream_of w n i @ enriched \<and> length enriched = length evs1) \<and>
    commit (u2, w1) = (Inl (ConcurrencyError n i (la_version la) (la_version la + int (length evs1))),
      (u2\<lparr>u_completed := True\<rparr>, w1))"
proof -
  let ?enr = "\<lambda>cmd evs. enriched_events ((ex_env ex w)\<lparr>en_override := ctx\<rparr>) ag n cmd (la_version la) evs"
  have noop: "idempotency_op ex n c = []" for c
    by (simp add: idempotency_op_def assms(1) split: option.splits)
  have produced: "ex_onEventsProduced ex = None" by (simp add: assms(1))
  have op: "u = createInMemoryUnitOfWork\<lparr>u_operations := [pc_save (mem_es_persistence partial) n i
        (SaveEvents (?enr cmd evs)) (la_version la)], u_pendingEvents := ?enr cmd evs\<rparr>"
    if "target_of cmd = i" "decide_events ag n cmd (la_state la) w = (Inr (evs, st), w)"
      "executeLifecycle ex ctx n ag cmd (mem_es_persistence partial) (createInMemoryUnitOfWork, w) = (Inr s, (u, w))"
    for cmd evs st s u
    using executeLifecycle_enlists [where u = createInMemoryUnitOfWork and cmd = cmd and ctx = ctx,
        OF _ that(2) _ produced refl, of "mem_es_persistence partial" w] assms(2,3) that(1,3) noop
    by simp
  have len: "length (?enr c evs) = length evs" for c evs by (simp add: enriched_events_def)
  obtain es' where es': "pc_save (mem_es_persistence partial) n i (SaveEvents (?enr cmd1 evs1)) (la_version la) w =
      (Inr (), w\<lparr>mw_es := es'\<rparr>)"
    "es_stream es' = (es_stream (mw_es w))(instance_key n i := stream_of w n i @ ?enr cmd1 evs1)"
    using mem_save_events [OF assms(4), of partial "?enr cmd1 evs1"] by blast
  have c1: "r1 = Inr (?enr cmd1 evs1)" "w1 = w\<lparr>mw_es := es'\<rparr>"
    using assms(13) es'(1) unfolding op [OF assms(5,7,11)]
    by (auto simp: commit_def uow_defs run_operations_def)
  have str: "stream_of w1 n i = stream_of w n i @ ?enr cmd1 evs1" using c1(2) es'(2) by simp
  have "?enr cmd2 evs2 \<noteq> []" using len [of cmd2 evs2] assms(10) by auto
  moreover have "la_version la \<noteq> int (length (stream_of w1 n i))" using str assms(4,8) len [of cmd1 evs1] by simp
  ultimately have "pc_save (mem_es_persistence partial) n i (SaveEvents (?enr cmd2 evs2)) (la_version la) w1 =
      (Inl (ConcurrencyError n i (la_version la) (int (length (stream_of w1 n i)))), w1)"
    by (rule mem_save_conflict)
  then have "commit (u2, w1) = (Inl (ConcurrencyError n i (la_version la) (int (length (stream_of w1 n i)))),
      (u2\<lparr>u_completed := True\<rparr>, w1))"
    unfolding op [OF assms(6,9,12)] by (simp add: commit_def uow_defs run_operations_def)
  with c1 str len [of cmd1 evs1] assms(4) show ?thesis by simp
qed

theorem interleaved_commands_conflict_witness:
  "\<exists>u1 u2 u1' w1. executeLifecycle (mem_executor True (Optimistic 0) None None (\<lambda>_. sample_env)) None ''Cnt''
      counter_aggregate (add_command 6 None) (mem_es_persistence True) (createInMemoryUnitOfWork, sample_world) =
        (Inr None, (u1, sample_world)) \<and>
    executeLifecycle (mem_executor True (Optimistic 0) None None (\<lambda>_. sample_env)) None ''Cnt''
      counter_aggregate (add_command 6 None) (mem_es_persistence True) (createInMemoryUnitOfWork, sample_world) =
        (Inr None, (u2, sample_world)) \<and>
    snd (commit (u1, sample_world)) = (u1', w1) \<and>
    fst (commit (u2, w1)) = Inl (ConcurrencyError ''Cnt'' (IDNum 1) 3 4)"
proof -
  let ?ex = "mem_executor True (Optimistic 0) None None (\<lambda>_. sample_env)" and ?p = "mem_es_persistence True :: mem_world persistence"
  let ?la = "\<lparr>la_state = JNum 9, la_version = 3, la_isEventSourced = True, la_snapshot = None\<rparr>"
  have t: "target_of (add_command 6 None) = IDNum 1" by (rule sample_decides(3))
  have ld: "load_aggregate (ex_snapshot ?ex ''Cnt'') ?p counter_aggregate ''Cnt'' (IDNum 1) sample_world =
      (Inr ?la, sample_world)" unfolding mem_executor_simps by code_simp
  have v: "la_version ?la = int (length (stream_of sample_world ''Cnt'' (IDNum 1)))" by code_simp
  have de: "decide_events counter_aggregate ''Cnt'' (add_command 6 None) (la_state ?la) sample_world =
      (Inr ([added 6], JNum 15), sample_world)" by (simp add: sample_decides(1))
  obtain u where u: "executeLifecycle ?ex None ''Cnt'' counter_aggregate (add_command 6 None) ?p
      (createInMemoryUnitOfWork, sample_world) = (Inr None, (u, sample_world))"
    using executeLifecycle_enlists [where u = createInMemoryUnitOfWork and ex = ?ex and n = "''Cnt''" and p = ?p
        and cmd = "add_command 6 None" and ctx = None, OF _ de _ _ refl, of sample_world] ld
    by (simp add: t pending_snapshot_def)
  obtain r1 u1' w1 where c: "commit (u, sample_world) = (r1, (u1', w1))" by (metis prod_cases3)
  from interleaved_commands_conflict [OF refl ld _ v t t de _ de _ u u c] u c show ?thesis
    by (intro exI [of _ u] exI [of _ u1'] exI [of _ w1]) simp
qed

end
