(* ===== verification/Buses.thy ===== *)
theory Buses
  imports Messages
begin

text \<open>
  The in-process buses: \<^verbatim>\<open>EventEmitterEventBus\<close> (\<^verbatim>\<open>ee-event-bus.ts\<close>),
  \<^verbatim>\<open>InMemoryCommandBus\<close> and \<^verbatim>\<open>InMemoryQueryBus\<close>, and the level filter of
  \<^verbatim>\<open>NodddeLogger\<close> (\<^verbatim>\<open>logger.ts\<close>). A handler is a function object with an identity
  (what \<^verbatim>\<open>indexOf\<close> compares) and a name; it acts on the world \<open>'w\<close>, of which the bus itself
  is not part, so handlers that subscribe or unsubscribe while being called are outside the model.
\<close>

section \<open>Logger\<close>

datatype log_level = Debug | Info | Warn | Error | Silent

fun severity :: "log_level \<Rightarrow> int" where
  "severity Debug = 0"
| "severity Info = 1"
| "severity Warn = 2"
| "severity Error = 3"
| "severity Silent = 4"

instantiation log_level :: linorder
begin

definition less_eq_log_level :: "log_level \<Rightarrow> log_level \<Rightarrow> bool" where
  "less_eq_log_level a b \<longleftrightarrow> severity a \<le> severity b"

definition less_log_level :: "log_level \<Rightarrow> log_level \<Rightarrow> bool" where
  "less_log_level a b \<longleftrightarrow> severity a < severity b"

instance
proof
  fix a b c :: log_level
  show "a < b \<longleftrightarrow> a \<le> b \<and> \<not> b \<le> a" by (auto simp: less_eq_log_level_def less_log_level_def)
  show "a \<le> a" by (simp add: less_eq_log_level_def)
  show "a \<le> b \<Longrightarrow> b \<le> c \<Longrightarrow> a \<le> c" by (simp add: less_eq_log_level_def)
  show "a \<le> b \<Longrightarrow> b \<le> a \<Longrightarrow> a = b" by (cases a; cases b) (simp_all add: less_eq_log_level_def)
  show "a \<le> b \<or> b \<le> a" by (auto simp: less_eq_log_level_def)
qed

end

record noddde_logger =
  nl_level :: log_level
  nl_namespace :: string
  nl_pretty :: bool

record log_line =
  ll_level :: log_level
  ll_namespace :: string
  ll_message :: string
  ll_stderr :: bool

text \<open>The four level methods of the logger, as one function of the level, and the stream the line
  goes to; the text of the line is not modelled.\<close>

definition log_emit :: "noddde_logger \<Rightarrow> log_level \<Rightarrow> string \<Rightarrow> log_line" where
  "log_emit l lv message =
     \<lparr>ll_level = lv, ll_namespace = nl_namespace l, ll_message = message,
      ll_stderr = (lv = Warn \<or> lv = Error)\<rparr>"

definition logger_log :: "noddde_logger \<Rightarrow> log_level \<Rightarrow> string \<Rightarrow> log_line list" where
  "logger_log l lv message =
     (if severity (nl_level l) \<le> severity lv then [log_emit l lv message] else [])"

definition logger_child :: "noddde_logger \<Rightarrow> string \<Rightarrow> noddde_logger" where
  "logger_child l namespace = l\<lparr>nl_namespace := nl_namespace l @ '':'' @ namespace\<rparr>"

section \<open>EventEmitterEventBus\<close>

record 'w handler =
  hd_id :: nat
  hd_name :: string
  hd_run :: "event \<Rightarrow> ('w, unit) action"

type_synonym 'w event_bus = "(string, 'w handler list) jmap"

record handler_failure =
  hf_eventName :: string
  hf_eventId :: "string option"
  hf_handlerName :: string
  hf_error :: error

definition ee_on :: "string \<Rightarrow> 'w handler \<Rightarrow> 'w event_bus \<Rightarrow> 'w event_bus" where
  "ee_on eventName handler bus =
     (case jm_get bus eventName of
        Some existing \<Rightarrow> jm_set eventName (existing @ [handler]) bus
      | None \<Rightarrow> jm_set eventName [handler] bus)"

definition handler_label :: "'w handler \<Rightarrow> event \<Rightarrow> string" where
  "handler_label h ev =
     (if hd_name h \<noteq> [] \<and> hd_name h \<noteq> ''handler'' then hd_name h else ev_name ev)"

text \<open>The loop of \<^verbatim>\<open>dispatch\<close>: each handler in its own try/catch; a failure is logged. The result
  is what the loop logs and the state it leaves: \<^verbatim>\<open>dispatch\<close> has no other outcome.\<close>

fun run_handlers :: "'w handler list \<Rightarrow> event \<Rightarrow> 'w \<Rightarrow> handler_failure list \<times> 'w" where
  "run_handlers [] ev w = ([], w)"
| "run_handlers (h # hs) ev w =
     (case hd_run h ev w of
        (Inr _, w') \<Rightarrow> run_handlers hs ev w'
      | (Inl e, w') \<Rightarrow>
          (case run_handlers hs ev w' of
             (log, w'') \<Rightarrow> (\<lparr>hf_eventName = ev_name ev, hf_eventId = event_id ev,
                              hf_handlerName = handler_label h ev, hf_error = e\<rparr> # log, w'')))"

definition ee_dispatch :: "'w event_bus \<Rightarrow> event \<Rightarrow> 'w \<Rightarrow> handler_failure list \<times> 'w" where
  "ee_dispatch bus ev w =
     (case jm_get bus (ev_name ev) of
        None \<Rightarrow> ([], w)
      | Some eventHandlers \<Rightarrow> run_handlers eventHandlers ev w)"

text \<open>\<^verbatim>\<open>splice\<close> at the first handler with this identity.\<close>

fun remove_handler :: "nat \<Rightarrow> 'w handler list \<Rightarrow> 'w handler list" where
  "remove_handler i [] = []"
| "remove_handler i (h # hs) = (if hd_id h = i then hs else h # remove_handler i hs)"

definition ee_off :: "string \<Rightarrow> 'w handler \<Rightarrow> 'w event_bus \<Rightarrow> 'w event_bus" where
  "ee_off eventName handler bus =
     (case jm_get bus eventName of
        None \<Rightarrow> bus
      | Some existing \<Rightarrow> jm_set eventName (remove_handler (hd_id handler) existing) bus)"

definition ee_close :: "'w event_bus \<Rightarrow> 'w event_bus" where
  "ee_close bus = []"

definition ee_handlers :: "'w event_bus \<Rightarrow> string \<Rightarrow> 'w handler list" where
  "ee_handlers bus n = or_else (jm_get bus n) []"

lemma ee_handlers_on:
  "ee_handlers (ee_on n h bus) = (ee_handlers bus)(n := ee_handlers bus n @ [h])"
  by (auto simp: ee_handlers_def ee_on_def fun_eq_iff split: option.splits)

lemma ee_handlers_off:
  "ee_handlers (ee_off n h bus) = (ee_handlers bus)(n := remove_handler (hd_id h) (ee_handlers bus n))"
  by (auto simp: ee_handlers_def ee_off_def fun_eq_iff split: option.splits)

lemma ee_handlers_close [simp]: "ee_handlers (ee_close bus) n = []"
  by (simp add: ee_handlers_def ee_close_def)

lemma ee_dispatch_handlers: "ee_dispatch bus ev w = run_handlers (ee_handlers bus (ev_name ev)) ev w"
  by (auto simp: ee_dispatch_def ee_handlers_def split: option.splits)

lemma remove_handler_absent: "\<forall>h \<in> set hs. hd_id h \<noteq> i \<Longrightarrow> remove_handler i hs = hs"
  by (induction hs) auto

lemma remove_handler_last:
  assumes "\<forall>h' \<in> set hs. hd_id h' \<noteq> hd_id h"
  shows "remove_handler (hd_id h) (hs @ [h]) = hs"
  using assms by (induction hs) auto

lemma run_handlers_append:
  "run_handlers (xs @ ys) ev w =
     (case run_handlers xs ev w of (l, w') \<Rightarrow>
        (case run_handlers ys ev w' of (l', w'') \<Rightarrow> (l @ l', w'')))"
  by (induction xs arbitrary: w) (auto split: prod.splits sum.splits)

lemma run_handlers_state: "snd (run_handlers hs ev w) = fold (\<lambda>h w. snd (hd_run h ev w)) hs w"
proof (induction hs arbitrary: w)
  case Nil
  then show ?case by simp
next
  case (Cons h hs)
  obtain r w1 where "hd_run h ev w = (r, w1)" by (cases "hd_run h ev w")
  then show ?case
    using Cons.IH [of w1] by (cases r; cases "run_handlers hs ev w1") simp_all
qed

section \<open>Handler registries: the command and the query bus\<close>

text \<open>
  Both buses keep at most one handler per name: what \<^verbatim>\<open>register\<close> and the lookup of
  \<^verbatim>\<open>dispatch\<close> promise the engine.
\<close>

locale handler_registry =
  fixes register :: "string \<Rightarrow> 'h \<Rightarrow> ('b, unit) action"
    and lookup :: "'b \<Rightarrow> string \<Rightarrow> 'h option"
  assumes register_new: "lookup b n = None \<Longrightarrow>
      \<exists>b'. register n h b = (Inr (), b') \<and> lookup b' = (lookup b)(n \<mapsto> h)"
    and register_dup: "lookup b n \<noteq> None \<Longrightarrow> register n h b = (Inl (HandlerAlreadyRegistered n), b)"
begin

text \<open>Registering a list of bindings: it succeeds exactly when no name is bound twice, and then every
  binding is found.\<close>

lemma register_all:
  "for_each (\<lambda>(n, h). register n h) hs b = (r, b') \<Longrightarrow>
   (r = Inr () \<longleftrightarrow> distinct (map fst hs) \<and> (\<forall>n \<in> set (map fst hs). lookup b n = None)) \<and>
   (r = Inr () \<longrightarrow> lookup b' = lookup b ++ map_of hs)"
proof (induction hs arbitrary: b)
  case Nil
  then show ?case by auto
next
  case (Cons nh hs)
  obtain n h where nh: "nh = (n, h)" by (cases nh)
  show ?case
  proof (cases "lookup b n = None")
    case False
    with register_dup [of b n h] Cons.prems nh show ?thesis by auto
  next
    case True
    then obtain b1 where b1: "register n h b = (Inr (), b1)" "lookup b1 = (lookup b)(n \<mapsto> h)"
      using register_new by blast
    with Cons.prems nh have "for_each (\<lambda>(n, h). register n h) hs b1 = (r, b')" by simp
    note IH = Cons.IH [OF this]
    have "(\<forall>m \<in> set (map fst hs). lookup b1 m = None) \<longleftrightarrow>
        n \<notin> set (map fst hs) \<and> (\<forall>m \<in> set (map fst hs). lookup b m = None)"
      using b1(2) by auto
    moreover have "n \<notin> fst ` set hs \<Longrightarrow> lookup b1 ++ map_of hs = lookup b ++ map_of (nh # hs)"
      using b1(2) nh map_of_eq_None_iff [of hs n]
      by (simp add: map_add_upd_left dom_map_of_conv_image_fst)
    ultimately show ?thesis
      using IH True nh by (auto simp: map_add_def fun_eq_iff split: option.splits)
  qed
qed

end

type_synonym 'w command_bus = "(string, command \<Rightarrow> ('w, unit) action) jmap"

definition cb_register :: "string \<Rightarrow> (command \<Rightarrow> ('w, unit) action) \<Rightarrow> ('w command_bus, unit) action" where
  "cb_register commandName handler bus =
     (if jm_has bus commandName then (Inl (HandlerAlreadyRegistered commandName), bus)
      else (Inr (), jm_set commandName handler bus))"

definition cb_dispatch :: "'w command_bus \<Rightarrow> command \<Rightarrow> ('w, unit) action" where
  "cb_dispatch bus c =
     (case jm_get bus (cmd_name c) of
        None \<Rightarrow> throw (NoHandlerRegistered (cmd_name c))
      | Some handler \<Rightarrow> handler c)"

type_synonym 'w query_bus = "(string, jsval \<Rightarrow> ('w, jsval) action) jmap"

definition qb_register :: "string \<Rightarrow> (jsval \<Rightarrow> ('w, jsval) action) \<Rightarrow> ('w query_bus, unit) action" where
  "qb_register queryName handler bus =
     (if jm_has bus queryName then (Inl (HandlerAlreadyRegistered queryName), bus)
      else (Inr (), jm_set queryName handler bus))"

definition qb_dispatch :: "'w query_bus \<Rightarrow> query \<Rightarrow> ('w, jsval) action" where
  "qb_dispatch bus qu =
     (case jm_get bus (q_name qu) of
        None \<Rightarrow> throw (NoHandlerRegistered (q_name qu))
      | Some handler \<Rightarrow> handler (q_payload qu))"

interpretation mem_cb: handler_registry cb_register jm_get
  by unfold_locales (auto simp: cb_register_def jm_has_iff fun_eq_iff)

interpretation mem_qb: handler_registry qb_register jm_get
  by unfold_locales (auto simp: qb_register_def jm_has_iff fun_eq_iff)

section \<open>Properties\<close>

text \<open>Event handlers are isolated from each other. Dispatching an event runs every handler
  registered for its name, in registration order, each on the state its predecessor left and
  whether or not earlier ones failed; dispatch itself never fails; and what it logs is one record
  per failing handler, in order, carrying that handler's error.\<close>
lemma ee_dispatch_isolated:
  "snd (ee_dispatch bus ev w) = fold (\<lambda>h w. snd (hd_run h ev w)) (ee_handlers bus (ev_name ev)) w \<and>
   map hf_error (fst (ee_dispatch bus ev w)) =
     List.map_filter (\<lambda>k. let hs = ee_handlers bus (ev_name ev) in
        (case fst (hd_run (hs ! k) ev (fold (\<lambda>h w. snd (hd_run h ev w)) (take k hs) w)) of
           Inl e \<Rightarrow> Some e | Inr _ \<Rightarrow> None)) [0..<length (ee_handlers bus (ev_name ev))]"
proof -
  let ?out = "\<lambda>hs w k. case fst (hd_run (hs ! k) ev (fold (\<lambda>h w. snd (hd_run h ev w)) (take k hs) w)) of
      Inl e \<Rightarrow> Some e | Inr _ \<Rightarrow> None"
  have "map hf_error (fst (run_handlers hs ev w)) = List.map_filter (?out hs w) [0..<length hs]" for hs
  proof (induction hs arbitrary: w)
    case Nil
    then show ?case by (simp add: List.map_filter_def)
  next
    case (Cons h hs)
    have "[0..<length (h # hs)] = 0 # map Suc [0..<length hs]"
      by (simp add: map_Suc_upt upt_conv_Cons del: upt_Suc)
    moreover have "List.map_filter (?out (h # hs) w) (map Suc [0..<length hs]) =
        List.map_filter (?out hs (snd (hd_run h ev w))) [0..<length hs]"
      by (simp add: List.map_filter_def filter_map comp_def)
    ultimately show ?case
      using Cons.IH [of "snd (hd_run h ev w)"]
      by (cases "hd_run h ev w") (auto simp: map_filter_simps split: sum.splits prod.splits)
  qed
  then show ?thesis by (simp add: ee_dispatch_handlers run_handlers_state Let_def)
qed

text \<open>Each command name has one handler. Registering a list of handlers on a command bus
  succeeds exactly when no name occurs twice in the list and none is already registered; then
  dispatching a command runs the handler registered for its name on that command and nothing else,
  and a command whose name has no handler is rejected without any effect.\<close>
lemma command_bus_routing:
  assumes "for_each (\<lambda>(n, h). cb_register n h) hs bus = (r, bus')"
  shows "(r = Inr () \<longleftrightarrow> distinct (map fst hs) \<and> (\<forall>n \<in> set (map fst hs). jm_get bus n = None)) \<and>
    (r = Inr () \<longrightarrow> cb_dispatch bus' c w =
      (case map_of hs (cmd_name c) of
         Some h \<Rightarrow> h c w
       | None \<Rightarrow> (case jm_get bus (cmd_name c) of
                    Some h \<Rightarrow> h c w
                  | None \<Rightarrow> (Inl (NoHandlerRegistered (cmd_name c)), w))))"
  using mem_cb.register_all [OF assms]
  by (auto simp: cb_dispatch_def throw_def map_add_def split: option.splits)

definition sample_command :: "string \<Rightarrow> command" where
  "sample_command n = \<lparr>cmd_name = n, cmd_payload = JNull, cmd_commandId = None, cmd_targetAggregateId = None\<rparr>"

lemma command_bus_routing_sample:
  "cb_dispatch (snd (for_each (\<lambda>(n, h). cb_register n h)
     [(''Inc'', \<lambda>_ w. (Inr (), w + 1)), (''Dec'', \<lambda>_ w. (Inr (), w - (1::int)))] []))
     (sample_command ''Dec'') 7 = (Inr (), 6)"
proof -
  let ?hs = "[(''Inc'', \<lambda>_ w. (Inr (), w + 1)), (''Dec'', \<lambda>_ w. (Inr (), w - (1::int)))]
      :: (string \<times> (command \<Rightarrow> (int, unit) action)) list"
  have "for_each (\<lambda>(n, h). cb_register n h) ?hs [] =
      (fst (for_each (\<lambda>(n, h). cb_register n h) ?hs []), snd (for_each (\<lambda>(n, h). cb_register n h) ?hs []))"
    by simp
  from command_bus_routing [OF this, of "sample_command ''Dec''" 7] show ?thesis
    by (auto simp: sample_command_def)
qed

text \<open>Subscriptions can be detached and re-attached. Adding a handler that was not subscribed and
  removing it again leaves every subscription list as it was; removing and re-adding a subscribed
  handler moves it behind the others but loses none; after close no event reaches any handler.\<close>
lemma ee_subscription_roundtrip:
  assumes "\<forall>h' \<in> set (ee_handlers bus n). hd_id h' \<noteq> hd_id h"
  shows "ee_handlers (ee_off n h (ee_on n h bus)) = ee_handlers bus \<and>
    (ee_handlers bus2 = (ee_handlers bus)(n := xs @ h # ys) \<longrightarrow> set (xs @ ys) = set (ee_handlers bus n) \<longrightarrow>
      ee_handlers (ee_on n h (ee_off n h bus2)) n = xs @ ys @ [h]) \<and>
    ee_dispatch (ee_close bus) ev w = ([], w)"
proof -
  have "remove_handler (hd_id h) (xs @ h # ys) = xs @ ys" if "set (xs @ ys) = set (ee_handlers bus n)"
  proof -
    have "\<forall>h' \<in> set xs. hd_id h' \<noteq> hd_id h" using that assms by auto
    then show ?thesis by (induction xs) auto
  qed
  then show ?thesis
    using remove_handler_last [OF assms]
    by (auto simp: ee_handlers_on ee_handlers_off ee_dispatch_handlers)
qed

lemma ee_subscription_roundtrip_sample:
  "ee_handlers (ee_off ''E'' \<lparr>hd_id = 7, hd_name = [], hd_run = (\<lambda>_ w. (Inr (), w + (1::int)))\<rparr>
     (ee_on ''E'' \<lparr>hd_id = 7, hd_name = [], hd_run = (\<lambda>_ w. (Inr (), w + 1))\<rparr> [])) = ee_handlers []"
  using ee_subscription_roundtrip [of "[]" "''E''"
      "\<lparr>hd_id = 7, hd_name = [], hd_run = (\<lambda>_ w. (Inr (), w + (1::int)))\<rparr>"]
  by (simp add: ee_handlers_def)

text \<open>The logger writes a message exactly when its level is at least the configured one; a silent
  logger writes nothing, and a child keeps its parent's threshold.\<close>

lemma logger_threshold:
  "logger_log l lv m \<noteq> [] \<longleftrightarrow> nl_level l \<le> lv"
  "logger_log (logger_child l ns) lv m \<noteq> [] \<longleftrightarrow> nl_level l \<le> lv"
  by (simp_all add: logger_log_def less_eq_log_level_def logger_child_def)

lemma silent_logger: "nl_level l = Silent \<Longrightarrow> lv \<noteq> Silent \<Longrightarrow> logger_log l lv m = []"
  by (cases lv) (simp_all add: logger_log_def)

end
