(* ===== verification/Projection.thy ===== *)
theory Projection
  imports Buses Upcasting "HOL-Library.Multiset"
begin

text \<open>
  The read side: the in-memory view store and its factory
  (\<^verbatim>\<open>in-memory-view-store.ts\<close>, \<^verbatim>\<open>in-memory-view-store-factory.ts\<close>), projection
  definitions (\<^verbatim>\<open>core/src/ddd/projection.ts\<close>), the live projection of one event
  (\<^verbatim>\<open>domain.ts\<close>, step 10) and the rebuild of a projection from the event log
  (\<^verbatim>\<open>projection-rebuild.ts\<close>). A reducer is user code: it returns a view, the
  \<^verbatim>\<open>DeleteView\<close> sentinel, or throws.
\<close>

section \<open>View stores\<close>

record 'w view_store =
  vs_save :: "ID \<Rightarrow> jsval \<Rightarrow> ('w, unit) action"
  vs_load :: "ID \<Rightarrow> ('w, jsval option) action"
  vs_delete :: "ID \<Rightarrow> ('w, unit) action"
  vs_truncate :: "('w, unit) action option"

text \<open>A factory mints a store for a transactional context, or for none (\<open>False\<close>).\<close>

type_synonym 'w view_store_factory = "bool \<Rightarrow> 'w view_store"

definition createViewStoreFactory :: "(bool \<Rightarrow> 'w view_store) \<Rightarrow> 'w view_store_factory" where
  "createViewStoreFactory build = build"

type_synonym view_map = "(string, jsval) jmap"

definition mv_save :: "ID \<Rightarrow> jsval \<Rightarrow> (view_map, unit) action" where
  "mv_save viewId view store = (Inr (), jm_set (id_string viewId) view store)"

definition mv_load :: "ID \<Rightarrow> (view_map, jsval option) action" where
  "mv_load viewId store = (Inr (jm_get store (id_string viewId)), store)"

definition mv_delete :: "ID \<Rightarrow> (view_map, unit) action" where
  "mv_delete viewId store = (Inr (), jm_delete (id_string viewId) store)"

definition mv_truncate :: "(view_map, unit) action" where
  "mv_truncate store = (Inr (), [])"

definition mv_findAll :: "view_map \<Rightarrow> jsval list" where
  "mv_findAll store = map snd store"

definition mv_find :: "(jsval \<Rightarrow> bool) \<Rightarrow> view_map \<Rightarrow> jsval list" where
  "mv_find predicate store = filter predicate (map snd store)"

text \<open>The in-memory factory returns its one shared store whatever the context.\<close>

definition mv_getForContext :: "(view_map \<times> 'u) view_store_factory" where
  "mv_getForContext ctx =
     \<lparr>vs_save = (\<lambda>i v. on_fst (mv_save i v)), vs_load = (\<lambda>i. on_fst (mv_load i)),
      vs_delete = (\<lambda>i. on_fst (mv_delete i)), vs_truncate = Some (on_fst mv_truncate)\<rparr>"

section \<open>Projections\<close>

datatype reduce_result = View jsval | DeleteView

datatype consistency = Eventual | Strong

record projection_handler =
  ph_id :: "(event \<Rightarrow> error + ID) option"
  ph_reduce :: "event \<Rightarrow> jsval \<Rightarrow> error + reduce_result"

record 'w projection =
  pj_on :: "(string, projection_handler) jmap"
  pj_initialView :: jsval
  pj_consistency :: "consistency option"
  pj_viewStore :: "'w view_store_factory option"

text \<open>Every handler has a view id extractor, as after the augmentation of \<^verbatim>\<open>Domain.init\<close>.\<close>

definition has_ids :: "'w projection \<Rightarrow> bool" where
  "has_ids p = list_all (\<lambda>(n, h). ph_id h \<noteq> None) (pj_on p)"

lemma has_idsD: "has_ids p \<Longrightarrow> jm_get (pj_on p) n = Some h \<Longrightarrow> \<exists>f. ph_id h = Some f"
  using map_of_SomeD [of "pj_on p" n h] by (auto simp: has_ids_def list_all_iff jm_get_def)

definition defineProjection :: "'w projection \<Rightarrow> 'w projection" where
  "defineProjection config = config"

text \<open>\<^verbatim>\<open>(await store.load(viewId)) ?? projection.initialView\<close>, then reduce, then delete or save.\<close>

definition view_or_initial :: "jsval option \<Rightarrow> jsval \<Rightarrow> jsval" where
  "view_or_initial loaded initial = (case loaded of None \<Rightarrow> initial | Some v \<Rightarrow> coalesce v initial)"

definition reduce_into ::
  "'w view_store \<Rightarrow> jsval \<Rightarrow> projection_handler \<Rightarrow> ID \<Rightarrow> event \<Rightarrow> ('w, bool) action" where
  "reduce_into store initial h viewId ev =
     bind_act (vs_load store viewId)
       (\<lambda>loaded. bind_act (lift_result (ph_reduce h ev (view_or_initial loaded initial)))
         (\<lambda>next. case next of
            DeleteView \<Rightarrow> bind_act (vs_delete store viewId) (\<lambda>_. ret True)
          | View v \<Rightarrow> bind_act (vs_save store viewId v) (\<lambda>_. ret False)))"

text \<open>The subscribed handler of an eventual-consistency projection (\<^verbatim>\<open>runProjection\<close>).\<close>

definition run_projection ::
  "'w view_store \<Rightarrow> jsval \<Rightarrow> projection_handler \<Rightarrow> event \<Rightarrow> ('w, unit) action" where
  "run_projection store initial h ev =
     (case ph_id h of
        None \<Rightarrow> throw TypeError
      | Some f \<Rightarrow>
          bind_act (lift_result (f ev))
            (\<lambda>viewId. bind_act (reduce_into store initial h viewId ev) (\<lambda>_. ret ())))"

text \<open>What one delivered event does to a projection that is subscribed to the keys of its map.\<close>

definition deliver :: "'w view_store \<Rightarrow> 'w projection \<Rightarrow> event \<Rightarrow> ('w, unit) action" where
  "deliver store p ev =
     (case jm_get (pj_on p) (ev_name ev) of
        None \<Rightarrow> ret ()
      | Some h \<Rightarrow> run_projection store (pj_initialView p) h ev)"

section \<open>Rebuilding\<close>

record 'w rebuild_options =
  po_progressInterval :: "int option"
  po_onProgress :: "(nat \<Rightarrow> ('w, unit) action) option"

record rebuild_result =
  rr_projectionName :: string
  rr_eventsRead :: nat
  rr_eventsApplied :: nat
  rr_viewsDeleted :: nat
  rr_durationMs :: int

text \<open>
  The event reader yields events and ends, or throws after some of them. \<open>rc_supportsOff\<close> tells
  whether the bus has an \<^verbatim>\<open>off\<close> method; \<open>rc_startMs\<close> and \<open>rc_endMs\<close> are the two readings of
  the clock.
\<close>

record 'w rebuild_context =
  rc_projectionName :: string
  rc_projection :: "'w projection"
  rc_viewStore :: "'w view_store"
  rc_read :: "'w \<Rightarrow> event list \<times> error option"
  rc_supportsOff :: bool
  rc_subscriptions :: "(string, (string, 'w handler) jmap) jmap"
  rc_aggregateUpcasters :: "(string, upcaster_map) jmap"
  rc_startMs :: int
  rc_endMs :: int

definition upcast_replayed :: "(string, upcaster_map) jmap \<Rightarrow> event \<Rightarrow> error + event" where
  "upcast_replayed ups ev =
     (case (case meta_get md_aggregateName ev of
              None \<Rightarrow> None
            | Some n \<Rightarrow> if n = [] then None else jm_get ups n) of
        None \<Rightarrow> Inr ev
      | Some u \<Rightarrow> (case upcastEvents [ev] u of Inl e \<Rightarrow> Inl e | Inr evs \<Rightarrow> Inr (hd evs)))"

definition replay_view_id :: "projection_handler \<Rightarrow> event \<Rightarrow> error + ID" where
  "replay_view_id h ev =
     (case ph_id h of
        Some f \<Rightarrow> f ev
      | None \<Rightarrow> (case meta_get md_aggregateId ev of
                   None \<Rightarrow> Inl (CannotDeriveViewId (ev_name ev))
                 | Some i \<Rightarrow> Inr i))"

text \<open>The body of the replay loop after the event was read and upcast: \<open>Some deleted\<close> if a handler
  was applied.\<close>

definition replay_event :: "'w rebuild_context \<Rightarrow> event \<Rightarrow> ('w, bool option) action" where
  "replay_event ctx ev =
     (case jm_get (pj_on (rc_projection ctx)) (ev_name ev) of
        None \<Rightarrow> ret None
      | Some h \<Rightarrow>
          bind_act (lift_result (replay_view_id h ev))
            (\<lambda>viewId. bind_act
               (reduce_into (rc_viewStore ctx) (pj_initialView (rc_projection ctx)) h viewId ev)
               (\<lambda>deleted. ret (Some deleted))))"

definition report_progress :: "'w rebuild_options \<Rightarrow> nat \<Rightarrow> ('w, unit) action" where
  "report_progress options applied =
     (if int applied mod or_else (po_progressInterval options) 1000 = 0
      then (case po_onProgress options of None \<Rightarrow> ret () | Some f \<Rightarrow> f applied)
      else ret ())"

fun replay ::
  "'w rebuild_context \<Rightarrow> 'w rebuild_options \<Rightarrow> event list \<Rightarrow> nat \<times> nat \<times> nat \<Rightarrow>
     ('w, nat \<times> nat \<times> nat) action" where
  "replay ctx options [] counts = ret counts"
| "replay ctx options (ev # evs) (eventsRead, applied, deleted) =
     bind_act (lift_result (upcast_replayed (rc_aggregateUpcasters ctx) ev))
       (\<lambda>ev'. bind_act (replay_event ctx ev')
         (\<lambda>out. case out of
            None \<Rightarrow> replay ctx options evs (Suc eventsRead, applied, deleted)
          | Some d \<Rightarrow>
              bind_act (report_progress options (Suc applied))
                (\<lambda>_. replay ctx options evs
                   (Suc eventsRead, Suc applied, if d then Suc deleted else deleted))))"

definition detach :: "(string, 'w handler) jmap \<Rightarrow> 'w event_bus \<Rightarrow> 'w event_bus" where
  "detach subs bus = fold (\<lambda>(n, h). ee_off n h) subs bus"

definition reattach :: "(string, 'w handler) jmap \<Rightarrow> 'w event_bus \<Rightarrow> 'w event_bus" where
  "reattach subs bus = fold (\<lambda>(n, h). ee_on n h) subs bus"

text \<open>The \<^verbatim>\<open>try\<close> block: truncate, replay, report.\<close>

definition replay_all ::
  "'w rebuild_context \<Rightarrow> 'w rebuild_options \<Rightarrow> ('w, rebuild_result) action" where
  "replay_all ctx options =
     bind_act (case vs_truncate (rc_viewStore ctx) of None \<Rightarrow> throw TypeError | Some t \<Rightarrow> t)
       (\<lambda>_ w. case rc_read ctx w of (evs, fault) \<Rightarrow>
          bind_act (replay ctx options evs (0, 0, 0))
            (\<lambda>(eventsRead, applied, deleted).
               case fault of
                 Some e \<Rightarrow> throw e
               | None \<Rightarrow> ret \<lparr>rr_projectionName = rc_projectionName ctx, rr_eventsRead = eventsRead,
                   rr_eventsApplied = applied, rr_viewsDeleted = deleted,
                   rr_durationMs = rc_endMs ctx - rc_startMs ctx\<rparr>) w)"

definition rebuildProjectionImpl ::
  "'w rebuild_context \<Rightarrow> 'w rebuild_options \<Rightarrow> ('w event_bus \<times> 'w, rebuild_result) action" where
  "rebuildProjectionImpl ctx options s =
     (case jm_get (rc_subscriptions ctx) (rc_projectionName ctx) of
        None \<Rightarrow> on_snd (replay_all ctx options) s
      | Some subs \<Rightarrow>
          if rc_supportsOff ctx
          then finally_act (on_snd (replay_all ctx options))
                 (\<lambda>(bus, w). (Inr (), (reattach subs bus, w)))
                 (detach subs (fst s), snd s)
          else if length subs > 0 then (Inl ListenerRemovalUnsupported, s)
          else on_snd (replay_all ctx options) s)"

section \<open>The contract of a view store, and projecting over it\<close>

text \<open>The projection as a function on the keyed views alone.\<close>

definition project_pure ::
  "jsval \<Rightarrow> projection_handler \<Rightarrow> string \<Rightarrow> event \<Rightarrow> (string \<Rightarrow> jsval option) \<Rightarrow>
     error + bool \<times> (string \<Rightarrow> jsval option)" where
  "project_pure initial h key ev views =
     (case ph_reduce h ev (view_or_initial (views key) initial) of
        Inl e \<Rightarrow> Inl e
      | Inr DeleteView \<Rightarrow> Inr (True, views(key := None))
      | Inr (View v) \<Rightarrow> Inr (False, views(key \<mapsto> v)))"

locale view_store_contract =
  fixes store :: "'w view_store"
    and views :: "'w \<Rightarrow> string \<Rightarrow> jsval option"
    and rest :: "'w \<Rightarrow> 'r"
  assumes load_view: "vs_load store i w = (Inr (views w (id_string i)), w)"
    and save_view: "\<exists>w'. vs_save store i v w = (Inr (), w') \<and>
      views w' = (views w)(id_string i \<mapsto> v) \<and> rest w' = rest w"
    and delete_view: "\<exists>w'. vs_delete store i w = (Inr (), w') \<and>
      views w' = (views w)(id_string i := None) \<and> rest w' = rest w"
    and truncate_views: "\<exists>t. vs_truncate store = Some t \<and>
      (\<exists>w'. t w = (Inr (), w') \<and> views w' = Map.empty \<and> rest w' = rest w)"
begin

lemma reduce_into_pure:
  "case project_pure initial h (id_string i) ev (views w) of
     Inl e \<Rightarrow> reduce_into store initial h i ev w = (Inl e, w)
   | Inr (d, c) \<Rightarrow> \<exists>w'. reduce_into store initial h i ev w = (Inr d, w') \<and> views w' = c \<and> rest w' = rest w"
proof -
  let ?v = "view_or_initial (views w (id_string i)) initial"
  show ?thesis
  proof (cases "ph_reduce h ev ?v")
    case (Inl e)
    then show ?thesis by (simp add: project_pure_def reduce_into_def bind_act_def load_view lift_result_def)
  next
    case (Inr x)
    show ?thesis
    proof (cases x)
      case (View v)
      obtain w' where "vs_save store i v w = (Inr (), w')" "views w' = (views w)(id_string i \<mapsto> v)"
          "rest w' = rest w"
        using save_view by blast
      with Inr View show ?thesis
        by (simp add: project_pure_def reduce_into_def bind_act_def load_view lift_result_def ret_def)
    next
      case DeleteView
      obtain w' where "vs_delete store i w = (Inr (), w')" "views w' = (views w)(id_string i := None)"
          "rest w' = rest w"
        using delete_view by blast
      with Inr DeleteView show ?thesis
        by (simp add: project_pure_def reduce_into_def bind_act_def load_view lift_result_def ret_def)
    qed
  qed
qed

text \<open>Two worlds with the same views: projecting an event gives the same outcome and the same
  views.\<close>

lemma reduce_into_views:
  assumes "views w1 = views w2"
  shows "fst (reduce_into store initial h i ev w1) = fst (reduce_into store initial h i ev w2) \<and>
    views (snd (reduce_into store initial h i ev w1)) = views (snd (reduce_into store initial h i ev w2))"
  using reduce_into_pure [of initial h i ev w1] reduce_into_pure [of initial h i ev w2] assms
  by (auto split: sum.splits)

text \<open>Replaying a log against delivering its upcast events live, from the same views.\<close>

lemma replay_matches_deliver:
  assumes "rc_viewStore ctx = store" and "po_onProgress options = None"
    and ids: "has_ids (rc_projection ctx)"
    and "list_all2 (\<lambda>ev ev'. upcast_replayed (rc_aggregateUpcasters ctx) ev = Inr ev') evs evs'"
    and "for_each (deliver store (rc_projection ctx)) evs' w1 = (Inr (), w1')" and "views w2 = views w1"
  shows "\<exists>d' w2'. replay ctx options evs (r, a, d) w2 =
      (Inr (r + length evs,
        a + length (filter (\<lambda>ev. jm_has (pj_on (rc_projection ctx)) (ev_name ev)) evs'), d'), w2') \<and>
    d' + a \<le> d + (a + length (filter (\<lambda>ev. jm_has (pj_on (rc_projection ctx)) (ev_name ev)) evs')) \<and>
    views w2' = views w1' \<and> rest w2' = rest w2"
  using assms(4-)
proof (induction evs evs' arbitrary: w1 w2 r a d rule: list_all2_induct)
  case Nil
  then show ?case by (simp add: ret_def)
next
  case (Cons ev evs ev' evs')
  let ?on = "pj_on (rc_projection ctx)" and ?init = "pj_initialView (rc_projection ctx)"
  have prog: "report_progress options k w = (Inr (), w)" for k w
    by (simp add: report_progress_def assms(2) ret_def)
  show ?case
  proof (cases "jm_get ?on (ev_name ev')")
    case None
    then have "for_each (deliver store (rc_projection ctx)) evs' w1 = (Inr (), w1')"
      using Cons.prems by (simp add: deliver_def [of _ _ ev'] ret_def)
    from Cons.IH [OF this Cons.prems(2), of "Suc r" a d] None Cons.hyps(1) show ?thesis
      by (simp add: bind_act_def lift_result_def replay_event_def ret_def jm_has_iff)
  next
    case (Some h)
    then obtain f where f: "ph_id h = Some f" using has_idsD [OF ids] by blast
    with Some Cons.prems(1) obtain i dl wa where i: "f ev' = Inr i"
      and wa: "reduce_into store ?init h i ev' w1 = (Inr dl, wa)"
        "for_each (deliver store (rc_projection ctx)) evs' wa = (Inr (), w1')"
      by (auto simp: deliver_def [of _ _ ev'] run_projection_def bind_act_def lift_result_def ret_def
          split: sum.splits prod.splits)
    obtain wb where wb: "reduce_into store ?init h i ev' w2 = (Inr dl, wb)" "views wb = views wa" "rest wb = rest w2"
      using reduce_into_pure [of ?init h i ev' w1] reduce_into_pure [of ?init h i ev' w2] wa(1) Cons.prems(2)
      by (auto split: sum.splits)
    have rep: "replay_event ctx ev' w2 = (Inr (Some dl), wb)"
      using Some f i wb(1) assms(1)
      by (simp add: replay_event_def replay_view_id_def bind_act_def lift_result_def ret_def)
    have "replay ctx options (ev # evs) (r, a, d) w2 =
        replay ctx options evs (Suc r, Suc a, if dl then Suc d else d) wb"
      using Cons.hyps(1) rep by (simp add: bind_act_def lift_result_def prog)
    with Cons.IH [OF wa(2) wb(2), of "Suc r" "Suc a" "if dl then Suc d else d"] Some wb(3) show ?thesis
      by (cases dl) (auto simp: jm_has_iff)
  qed
qed

lemma rebuild_views:
  assumes "rc_viewStore ctx = store" and "po_onProgress options = None"
    and "has_ids (rc_projection ctx)"
    and "list_all2 (\<lambda>ev ev'. upcast_replayed (rc_aggregateUpcasters ctx) ev = Inr ev') evs evs'"
    and "for_each (deliver store (rc_projection ctx)) evs' w0 = (Inr (), w0')" and "views w0 = Map.empty"
    and rd: "\<forall>w'. rest w' = rest w \<longrightarrow> rc_read ctx w' = (evs, None)"
  shows "\<exists>result w'. replay_all ctx options w = (Inr result, w') \<and> views w' = views w0' \<and>
    rr_eventsRead result = length evs \<and>
    rr_eventsApplied result = length (filter (\<lambda>ev. jm_has (pj_on (rc_projection ctx)) (ev_name ev)) evs') \<and>
    rr_viewsDeleted result \<le> rr_eventsApplied result"
proof -
  obtain t w1 where t: "vs_truncate store = Some t" "t w = (Inr (), w1)" "views w1 = Map.empty" "rest w1 = rest w"
    using truncate_views by blast
  from replay_matches_deliver [OF assms(1-5), of w1 0 0 0] assms(6) t(3) obtain d' w2 where
    "replay ctx options evs (0, 0, 0) w1 = (Inr (length evs,
        length (filter (\<lambda>ev. jm_has (pj_on (rc_projection ctx)) (ev_name ev)) evs'), d'), w2)"
    "d' \<le> length (filter (\<lambda>ev. jm_has (pj_on (rc_projection ctx)) (ev_name ev)) evs')" "views w2 = views w0'"
    by auto
  with t rd assms(1) show ?thesis by (simp add: replay_all_def bind_act_def ret_def)
qed

end

text \<open>The in-memory store beside the rest of the world.\<close>

lemma mv_context_simps [simp]:
  "vs_save (mv_getForContext ctx) i v = on_fst (mv_save i v)"
  "vs_load (mv_getForContext ctx) i = on_fst (mv_load i)"
  "vs_delete (mv_getForContext ctx) i = on_fst (mv_delete i)"
  "vs_truncate (mv_getForContext ctx) = Some (on_fst mv_truncate)"
  by (simp_all add: mv_getForContext_def)

interpretation mem_views: view_store_contract "mv_getForContext ctx" "\<lambda>w. jm_get (fst w)" snd
  for ctx
proof
  fix w :: "view_map \<times> 'u" and i v
  show "\<exists>t. vs_truncate (mv_getForContext ctx) = Some t \<and>
      (\<exists>w'. t w = (Inr (), w') \<and> jm_get (fst w') = Map.empty \<and> snd w' = snd w)"
    by (intro exI [of _ "on_fst mv_truncate"]) (simp add: on_fst_def mv_truncate_def fun_eq_iff)
qed (auto simp: on_fst_def mv_save_def mv_load_def mv_delete_def fun_eq_iff)

section \<open>Properties\<close>

text \<open>C12: Rebuilding a projection restores what live delivery builds. Take a projection with ids
  over the in-memory view store, an event bus that can remove listeners (the Kafka, RabbitMQ and
  NATS buses cannot, and a rebuild there is refused as soon as the projection has subscriptions),
  no progress callback, and an event log whose reading does not depend on the views. Suppose that
  delivering its events (upcast to the current schema) to the projection one after another,
  starting from an empty view store, succeeds. Then rebuilding the projection over a store in any
  state succeeds and leaves exactly those views; it reports the number of events read, the number
  of events the projection handles as applied, and no more deletions than that.\<close>
theorem rebuild_equals_live:
  fixes ctx :: "(view_map \<times> 'u) rebuild_context"
  assumes "rc_viewStore ctx = mv_getForContext False" and "po_onProgress options = None"
    and "has_ids (rc_projection ctx)"
    and "\<And>v. rc_read ctx (v, u) = (evs, None)"
    and "list_all2 (\<lambda>ev ev'. upcast_replayed (rc_aggregateUpcasters ctx) ev = Inr ev') evs evs'"
    and "for_each (deliver (mv_getForContext False) (rc_projection ctx)) evs' ([], u0) = (Inr (), (live, u1))"
    and "rc_supportsOff ctx"
  shows "\<exists>result bus' views' u'. rebuildProjectionImpl ctx options (bus, (views, u)) =
      (Inr result, (bus', (views', u'))) \<and>
    jm_get views' = jm_get live \<and>
    rr_eventsRead result = length evs \<and>
    rr_eventsApplied result = length (filter (\<lambda>ev. jm_has (pj_on (rc_projection ctx)) (ev_name ev)) evs') \<and>
    rr_viewsDeleted result \<le> rr_eventsApplied result"
proof -
  have rd: "\<forall>w' :: view_map \<times> 'u. snd w' = snd (views, u) \<longrightarrow> rc_read ctx w' = (evs, None)"
    using assms(4) by (metis prod.collapse snd_conv)
  from mem_views.rebuild_views [where w = "(views, u)", OF assms(1-3,5,6) _ rd]
  obtain result w' where "replay_all ctx options (views, u) = (Inr result, w')"
    "jm_get (fst w') = jm_get live" "rr_eventsRead result = length evs"
    "rr_eventsApplied result = length (filter (\<lambda>ev. jm_has (pj_on (rc_projection ctx)) (ev_name ev)) evs')"
    "rr_viewsDeleted result \<le> rr_eventsApplied result"
    by (fastforce simp: fun_eq_iff)
  with assms(7) show ?thesis
    by (cases w') (auto simp: rebuildProjectionImpl_def on_snd_def finally_act_def split: option.splits)
qed

definition sample_projection :: "(view_map \<times> unit) projection" where
  "sample_projection =
     \<lparr>pj_on = [(''Opened'', \<lparr>ph_id = Some (\<lambda>ev. Inr (IDStr ''v'')), ph_reduce = (\<lambda>ev v. Inr (View (ev_payload ev)))\<rparr>),
        (''Closed'', \<lparr>ph_id = Some (\<lambda>ev. Inr (IDStr ''v'')), ph_reduce = (\<lambda>ev v. Inr DeleteView)\<rparr>)],
      pj_initialView = JNull, pj_consistency = None, pj_viewStore = Some mv_getForContext\<rparr>"

definition log_event :: "string \<Rightarrow> int \<Rightarrow> event" where
  "log_event n k = \<lparr>ev_name = n, ev_payload = JNum k, ev_metadata = None\<rparr>"

definition sample_log :: "event list" where
  "sample_log = [log_event ''Opened'' 1, log_event ''Closed'' 0, log_event ''Other'' 5, log_event ''Opened'' 2]"

definition sample_rebuild :: "(view_map \<times> unit) rebuild_context" where
  "sample_rebuild =
     \<lparr>rc_projectionName = ''P'', rc_projection = sample_projection, rc_viewStore = mv_getForContext False,
      rc_read = (\<lambda>_. (sample_log, None)), rc_supportsOff = True, rc_subscriptions = [],
      rc_aggregateUpcasters = [], rc_startMs = 0, rc_endMs = 7\<rparr>"

lemma upcast_replayed_none [simp]: "upcast_replayed [] ev = Inr ev"
  by (simp add: upcast_replayed_def split: option.splits)

theorem rebuild_equals_live_witness:
  "\<exists>result bus' views' u'. rebuildProjectionImpl sample_rebuild \<lparr>po_progressInterval = None, po_onProgress = None\<rparr>
      ([], ([(''stale'', JNull)], ())) = (Inr result, (bus', (views', u'))) \<and>
    jm_get views' = jm_get [(''v'', JNum 2)] \<and> rr_eventsRead result = 4 \<and> rr_eventsApplied result = 3"
proof -
  have live: "for_each (deliver (mv_getForContext False) sample_projection) sample_log ([], ()) =
      (Inr (), ([(''v'', JNum 2)], ()))" by code_simp
  have ids: "has_ids sample_projection" by (simp add: has_ids_def sample_projection_def)
  have n: "length (filter (\<lambda>ev. jm_has (pj_on sample_projection) (ev_name ev)) sample_log) = 3" by code_simp
  have l: "length sample_log = 4" by code_simp
  show ?thesis
    using rebuild_equals_live [of sample_rebuild "\<lparr>po_progressInterval = None, po_onProgress = None\<rparr>" "()"
        sample_log sample_log "()" "[(''v'', JNum 2)]" "()" "[]" "[(''stale'', JNull)]"]
    by (simp add: sample_rebuild_def live ids n l list_all2_same) blast
qed

lemma detach_handlers:
  "jm_ok subs \<Longrightarrow> ee_handlers (detach subs bus) n =
     (case jm_get subs n of None \<Rightarrow> ee_handlers bus n | Some h \<Rightarrow> remove_handler (hd_id h) (ee_handlers bus n))"
proof (induction subs arbitrary: bus)
  case Nil
  then show ?case by (simp add: detach_def)
next
  case (Cons nh subs)
  obtain m h where nh: "nh = (m, h)" by (cases nh)
  from Cons.prems nh have ok: "jm_ok subs" and fresh: "jm_get subs m = None"
    by (auto simp: jm_ok_def jm_get_def map_of_eq_None_iff)
  have "detach (nh # subs) bus = detach subs (ee_off m h bus)" by (simp add: detach_def nh)
  with Cons.IH [OF ok, of "ee_off m h bus"] fresh nh show ?case
    by (auto simp: ee_handlers_off jm_get_def split: option.splits)
qed

lemma reattach_handlers:
  "jm_ok subs \<Longrightarrow> ee_handlers (reattach subs bus) n =
     ee_handlers bus n @ (case jm_get subs n of None \<Rightarrow> [] | Some h \<Rightarrow> [h])"
proof (induction subs arbitrary: bus)
  case Nil
  then show ?case by (simp add: reattach_def)
next
  case (Cons nh subs)
  obtain m h where nh: "nh = (m, h)" by (cases nh)
  from Cons.prems nh have ok: "jm_ok subs" and fresh: "jm_get subs m = None"
    by (auto simp: jm_ok_def jm_get_def map_of_eq_None_iff)
  have "reattach (nh # subs) bus = reattach subs (ee_on m h bus)" by (simp add: reattach_def nh)
  with Cons.IH [OF ok, of "ee_on m h bus"] fresh nh show ?case
    by (auto simp: ee_handlers_on jm_get_def split: option.splits)
qed

text \<open>A rebuild leaves every subscription in place, however it ends. Whether truncating, reading,
  upcasting, reducing and saving succeed or one of them throws, afterwards the bus has for every
  event name the same handlers as before: the projection's own handler for that name has been
  moved behind the others, and no other handler has moved.\<close>
lemma rebuild_reattaches:
  assumes "rc_supportsOff ctx" and "jm_get (rc_subscriptions ctx) (rc_projectionName ctx) = Some subs"
    and "jm_ok subs" and "rebuildProjectionImpl ctx options (bus, w) = (r, (bus', w'))"
  shows "ee_handlers bus' n =
      (case jm_get subs n of
         None \<Rightarrow> ee_handlers bus n
       | Some h \<Rightarrow> remove_handler (hd_id h) (ee_handlers bus n) @ [h]) \<and>
    ((\<forall>h. jm_get subs n = Some h \<longrightarrow> h \<in> set (ee_handlers bus n)) \<longrightarrow> distinct (map hd_id (ee_handlers bus n)) \<longrightarrow>
       mset (ee_handlers bus' n) = mset (ee_handlers bus n))"
proof -
  have bus': "bus' = reattach subs (detach subs bus)"
    using assms(1,2,4)
    by (auto simp: rebuildProjectionImpl_def finally_act_def on_snd_def split: prod.splits)
  have rm: "mset (remove_handler (hd_id h) hs @ [h]) = mset hs"
    if "h \<in> set hs" "distinct (map hd_id hs)" for h and hs :: "'a handler list"
    using that
  proof (induction hs)
    case Nil
    then show ?case by simp
  next
    case (Cons x hs)
    then show ?case by (cases "h = x") (auto simp: image_iff)
  qed
  show ?thesis
    unfolding bus' reattach_handlers [OF assms(3)] detach_handlers [OF assms(3)]
    using rm by (auto split: option.splits)
qed

definition sub_handler :: "nat \<Rightarrow> (view_map \<times> unit) handler" where
  "sub_handler k = \<lparr>hd_id = k, hd_name = [], hd_run = (\<lambda>ev w. (Inr (), w))\<rparr>"

lemma rebuild_reattaches_sample:
  "map hd_id (ee_handlers (fst (snd (rebuildProjectionImpl
     (sample_rebuild\<lparr>rc_subscriptions := [(''P'', [(''Opened'', sub_handler 1)])],
        rc_read := (\<lambda>_. ([], Some (UserError ''db'')))\<rparr>)
     \<lparr>po_progressInterval = None, po_onProgress = None\<rparr>
     ([(''Opened'', [sub_handler 1, sub_handler 2])], ([], ()))))) ''Opened'') = [2, 1]"
proof -
  let ?ctx = "sample_rebuild\<lparr>rc_subscriptions := [(''P'', [(''Opened'', sub_handler 1)])],
        rc_read := (\<lambda>_. ([], Some (UserError ''db'')))\<rparr>"
  let ?out = "rebuildProjectionImpl ?ctx \<lparr>po_progressInterval = None, po_onProgress = None\<rparr>
     ([(''Opened'', [sub_handler 1, sub_handler 2])], ([], ()))"
  have "?out = (fst ?out, (fst (snd ?out), snd (snd ?out)))" by simp
  from rebuild_reattaches [OF _ _ _ this, where n = "''Opened''" and subs = "[(''Opened'', sub_handler 1)]"]
  show ?thesis
    by (simp add: sample_rebuild_def jm_get_def jm_ok_def ee_handlers_def sub_handler_def)
qed

end
