(* ===== verification/Outbox.thy ===== *)
theory Outbox
  imports Messages "HOL-Library.Multiset"
begin

text \<open>
  The transactional outbox: entries and store contract (\<^verbatim>\<open>core/src/persistence/outbox.ts\<close>),
  the in-memory store (\<^verbatim>\<open>in-memory-outbox-store.ts\<close>) and the polling relay
  (\<^verbatim>\<open>outbox-relay.ts\<close>). \<open>now\<close> is \<^verbatim>\<open>new Date()\<close> at the call.

  The relay shares the outbox with the handlers it dispatches to: \<open>shared_relay\<close> gives a dispatch
  the whole world, outbox included, and \<open>mem_relay\<close> is the case of an event bus whose handlers
  leave the outbox alone. Draining may run forever when every dispatch produces new entries, so its
  loop is a partial function; \<open>descending\<close> is the condition under which it returns: what a
  successful dispatch adds is of smaller rank than the event dispatched, and a refused one adds
  nothing. The proof is by the multiset order on the pending entries.
\<close>

record outbox_entry =
  oe_id :: string
  oe_event :: event
  oe_aggregateName :: "string option"
  oe_aggregateId :: "string option"
  oe_createdAt :: int
  oe_publishedAt :: "int option"

section \<open>InMemoryOutboxStore\<close>

type_synonym outbox_store = "(string, outbox_entry) jmap"

definition outbox_save :: "outbox_entry list \<Rightarrow> (outbox_store, unit) action" where
  "outbox_save entries store = (Inr (), fold (\<lambda>e. jm_set (oe_id e) e) entries store)"

definition outbox_loadUnpublished :: "int \<Rightarrow> (outbox_store, outbox_entry list) action" where
  "outbox_loadUnpublished batchSize store =
     (let unpublished = filter (\<lambda>e. oe_publishedAt e = None) (map snd store)
      in (Inr (js_take (sort_key oe_createdAt unpublished) batchSize), store))"

fun mark_ids :: "int \<Rightarrow> string list \<Rightarrow> outbox_store \<Rightarrow> outbox_store" where
  "mark_ids now [] store = store"
| "mark_ids now (i # ids) store =
     mark_ids now ids
       (case jm_get store i of
          None \<Rightarrow> store
        | Some e \<Rightarrow> if oe_publishedAt e = None then jm_set i (e\<lparr>oe_publishedAt := Some now\<rparr>) store
                    else store)"

definition outbox_markPublished :: "int \<Rightarrow> string list \<Rightarrow> (outbox_store, unit) action" where
  "outbox_markPublished now ids store = (Inr (), mark_ids now ids store)"

definition outbox_markPublishedByEventIds :: "int \<Rightarrow> string list \<Rightarrow> (outbox_store, unit) action" where
  "outbox_markPublishedByEventIds now eventIds store =
     (Inr (), map (\<lambda>(k, e).
        (k, if oe_publishedAt e = None \<and>
               (case event_id (oe_event e) of None \<Rightarrow> False | Some i \<Rightarrow> i \<in> set eventIds)
            then e\<lparr>oe_publishedAt := Some now\<rparr> else e)) store)"

definition outbox_deletePublished :: "int option \<Rightarrow> (outbox_store, unit) action" where
  "outbox_deletePublished olderThan store =
     (Inr (), filter (\<lambda>(k, e). \<not> (oe_publishedAt e \<noteq> None \<and>
        (case olderThan of None \<Rightarrow> True | Some t \<Rightarrow> oe_createdAt e < t))) store)"

definition outbox_findAll :: "outbox_store \<Rightarrow> outbox_entry list" where
  "outbox_findAll store = map snd store"

text \<open>The entries still to be published, oldest first, and the invariant of the store: entries are
  filed under their own id.\<close>

definition pending :: "outbox_store \<Rightarrow> outbox_entry list" where
  "pending store = sort_key oe_createdAt (filter (\<lambda>e. oe_publishedAt e = None) (map snd store))"

definition outbox_ok :: "outbox_store \<Rightarrow> bool" where
  "outbox_ok store \<longleftrightarrow> jm_ok store \<and> list_all (\<lambda>(k, e). oe_id e = k) store"

lemma outbox_ok_Nil [simp]: "outbox_ok []"
  by (simp add: outbox_ok_def)

lemma outbox_ok_entry: "outbox_ok s \<Longrightarrow> jm_get s k = Some e \<Longrightarrow> oe_id e = k"
  using map_of_SomeD [of s k e] by (auto simp: outbox_ok_def list_all_iff jm_get_def)

lemma outbox_ok_set: "outbox_ok s \<Longrightarrow> oe_id e = k \<Longrightarrow> outbox_ok (jm_set k e s)"
  unfolding outbox_ok_def
proof (elim conjE, intro conjI)
  show "list_all (\<lambda>(k, e). oe_id e = k) s \<Longrightarrow> oe_id e = k \<Longrightarrow>
      list_all (\<lambda>(k, e). oe_id e = k) (jm_set k e s)"
    unfolding jm_set_def by (induction s) auto
qed simp

lemma outbox_ok_distinct_ids: "outbox_ok s \<Longrightarrow> distinct (map (oe_id \<circ> snd) s)"
proof -
  assume ok: "outbox_ok s"
  have "map (oe_id \<circ> snd) s = map fst s"
    using ok by (auto simp: outbox_ok_def list_all_iff)
  with ok show ?thesis by (metis jm_ok_def outbox_ok_def)
qed

lemma pending_distinct:
  assumes "outbox_ok s"
  shows "distinct (map oe_id (pending s))"
proof -
  have "distinct (map oe_id (map snd s))"
    using outbox_ok_distinct_ids [OF assms] by (simp add: comp_def)
  then have d: "distinct (map oe_id (filter (\<lambda>e. oe_publishedAt e = None) (map snd s)))"
    by (rule distinct_map_filter)
  have "mset (map oe_id (pending s)) = mset (map oe_id (filter (\<lambda>e. oe_publishedAt e = None) (map snd s)))"
    by (simp add: pending_def)
  with d show ?thesis by (metis mset_eq_imp_distinct_iff)
qed

lemma mark_one_filter:
  assumes "outbox_ok s"
  shows "filter (\<lambda>e. oe_publishedAt e = None) (map snd (mark_ids now [i] s)) =
    filter (\<lambda>e. oe_id e \<noteq> i) (filter (\<lambda>e. oe_publishedAt e = None) (map snd s))"
  using assms
proof (induction s)
  case Nil
  then show ?case by simp
next
  case (Cons kv s)
  obtain k e where kv: "kv = (k, e)" by (cases kv)
  from Cons.prems have ok: "outbox_ok s" and key: "oe_id e = k" and fresh: "k \<notin> fst ` set s"
    by (auto simp: outbox_ok_def jm_ok_def kv)
  have other: "oe_id e' \<noteq> k" if "e' \<in> snd ` set s" for e'
    using that fresh ok by (force simp: outbox_ok_def list_all_iff)
  show ?case
  proof (cases "i = k")
    case True
    then show ?thesis
      using kv key other
      by (auto simp: jm_get_def jm_set_def filter_id_conv intro!: filter_cong [OF refl])
  next
    case False
    then show ?thesis
      using Cons.IH [OF ok] kv key by (auto simp: jm_get_def jm_set_def split: option.splits if_splits)
  qed
qed

lemma outbox_ok_mark: "outbox_ok s \<Longrightarrow> outbox_ok (mark_ids now ids s)"
proof (induction ids arbitrary: s)
  case Nil
  then show ?case by simp
next
  case (Cons i ids)
  then show ?case by (auto simp: outbox_ok_set outbox_ok_entry split: option.splits)
qed

lemma pending_mark_one:
  "outbox_ok s \<Longrightarrow> pending (mark_ids now [i] s) = filter (\<lambda>e. oe_id e \<noteq> i) (pending s)"
  unfolding pending_def by (simp only: mark_one_filter filter_sort)

section \<open>OutboxRelay\<close>

record relay_options =
  ro_pollIntervalMs :: "int option"
  ro_batchSize :: "int option"

text \<open>The relay's own state: the interval of the running timer, and the two flags.\<close>

record relay =
  rl_timer :: "int option"
  rl_processing :: bool
  rl_drained :: bool

definition new_relay :: relay where
  "new_relay = \<lparr>rl_timer = None, rl_processing = False, rl_drained = False\<rparr>"

definition relay_start :: "relay_options \<Rightarrow> relay \<Rightarrow> relay" where
  "relay_start options r =
     (if rl_timer r \<noteq> None then r
      else r\<lparr>rl_timer := Some (or_else (ro_pollIntervalMs options) 1000)\<rparr>)"

definition relay_stop :: "relay \<Rightarrow> relay" where
  "relay_stop r = (if rl_timer r \<noteq> None then r\<lparr>rl_timer := None\<rparr> else r)"

text \<open>The operations the relay calls on the world \<open>'w\<close>.\<close>

record 'w relay_deps =
  rd_loadUnpublished :: "int \<Rightarrow> ('w, outbox_entry list) action"
  rd_markPublished :: "string list \<Rightarrow> ('w, unit) action"
  rd_dispatch :: "event \<Rightarrow> ('w, unit) action"

text \<open>The body of the loop: dispatch, then mark; a throw from either is caught per entry.\<close>

definition relay_entry :: "'w relay_deps \<Rightarrow> outbox_entry \<Rightarrow> ('w, unit) action" where
  "relay_entry d entry =
     then_act (rd_dispatch d (oe_event entry)) (rd_markPublished d [oe_id entry])"

fun relay_batch :: "'w relay_deps \<Rightarrow> outbox_entry list \<Rightarrow> 'w \<Rightarrow> nat \<times> 'w" where
  "relay_batch d [] w = (0, w)"
| "relay_batch d (entry # entries) w =
     (case relay_entry d entry w of
        (Inl _, w') \<Rightarrow> relay_batch d entries w'
      | (Inr _, w') \<Rightarrow> (case relay_batch d entries w' of (k, w'') \<Rightarrow> (Suc k, w'')))"

text \<open>\<^verbatim>\<open>processOnce\<close>: it catches everything, so its outcome is a number. The flag is raised
  for the duration of the batch and lowered by the \<^verbatim>\<open>finally\<close> block.\<close>

definition processOnce :: "'w relay_deps \<Rightarrow> relay_options \<Rightarrow> relay \<times> 'w \<Rightarrow> nat \<times> (relay \<times> 'w)" where
  "processOnce d options s =
     (if rl_processing (fst s) then (0, s)
      else
        (case rd_loadUnpublished d (or_else (ro_batchSize options) 100) (snd s) of
           (Inl _, w') \<Rightarrow> (0, ((fst s)\<lparr>rl_processing := False\<rparr>, w'))
         | (Inr entries, w') \<Rightarrow>
             if length entries = 0 then (0, ((fst s)\<lparr>rl_processing := False\<rparr>, w'))
             else (case relay_batch d entries w' of
                     (k, w'') \<Rightarrow> (k, ((fst s)\<lparr>rl_processing := False\<rparr>, w'')))))"

partial_function (option) drain_loop ::
  "'w relay_deps \<Rightarrow> relay_options \<Rightarrow> relay \<times> 'w \<Rightarrow> (relay \<times> 'w) option" where
  "drain_loop d options s =
     (case processOnce d options s of
        (processed, s') \<Rightarrow> if processed > 0 then drain_loop d options s' else Some s')"

definition drain :: "'w relay_deps \<Rightarrow> relay_options \<Rightarrow> relay \<times> 'w \<Rightarrow> (relay \<times> 'w) option" where
  "drain d options s =
     (if rl_drained (fst s) then Some s
      else drain_loop d options (relay_stop ((fst s)\<lparr>rl_drained := True\<rparr>), snd s))"

section \<open>The contract of an outbox store, and what it gives the relay\<close>

locale outbox_contract =
  fixes loadUnpublished :: "int \<Rightarrow> ('w, outbox_entry list) action"
    and markPublished :: "string list \<Rightarrow> ('w, unit) action"
    and pend :: "'w \<Rightarrow> outbox_entry list"
    and inv :: "'w \<Rightarrow> bool"
  assumes load_pend: "inv w \<Longrightarrow> loadUnpublished n w = (Inr (js_take (pend w) n), w)"
    and pend_distinct: "inv w \<Longrightarrow> distinct (map oe_id (pend w))"
    and mark_pend: "inv w \<Longrightarrow> \<exists>w'. markPublished [i] w = (Inr (), w') \<and> inv w' \<and>
      pend w' = filter (\<lambda>e. oe_id e \<noteq> i) (pend w)"
begin

definition descends :: "(event \<Rightarrow> nat) \<Rightarrow> (event \<Rightarrow> ('w, unit) action) \<Rightarrow> bool" where
  "descends rank dispatch \<longleftrightarrow> (\<forall>ev w r w'. inv w \<longrightarrow> dispatch ev w = (r, w') \<longrightarrow>
     inv w' \<and>
     (case r of
        Inl _ \<Rightarrow> mset (pend w') \<subseteq># mset (pend w)
      | Inr _ \<Rightarrow> \<exists>new. mset (pend w') \<subseteq># mset (pend w) + new \<and>
          (\<forall>e \<in># new. rank (oe_event e) < rank ev)))"

abbreviation deps :: "(event \<Rightarrow> ('w, unit) action) \<Rightarrow> 'w relay_deps" where
  "deps dispatch \<equiv> \<lparr>rd_loadUnpublished = loadUnpublished, rd_markPublished = markPublished,
     rd_dispatch = dispatch\<rparr>"

text \<open>One entry: a refused dispatch adds nothing; after a successful one the entry is not pending,
  and what is new is of smaller rank.\<close>

lemma relay_entry_step:
  assumes "descends rank dispatch" and "inv w" and "relay_entry (deps dispatch) e w = (r, w')"
  shows "inv w' \<and> (case r of
      Inl _ \<Rightarrow> mset (pend w') \<subseteq># mset (pend w)
    | Inr _ \<Rightarrow> \<exists>new. mset (pend w') \<subseteq># filter_mset (\<lambda>x. oe_id x \<noteq> oe_id e) (mset (pend w)) + new \<and>
        (\<forall>x \<in># new. rank (oe_event x) < rank (oe_event e)))"
proof -
  obtain q w1 where d: "dispatch (oe_event e) w = (q, w1)" by (cases "dispatch (oe_event e) w")
  with assms(1,2) have w1: "inv w1" and step: "case q of
        Inl _ \<Rightarrow> mset (pend w1) \<subseteq># mset (pend w)
      | Inr _ \<Rightarrow> \<exists>new. mset (pend w1) \<subseteq># mset (pend w) + new \<and>
          (\<forall>x \<in># new. rank (oe_event x) < rank (oe_event e))"
    unfolding descends_def by blast+
  show ?thesis
  proof (cases q)
    case (Inl x)
    with d w1 step assms(3) show ?thesis by (auto simp: relay_entry_def then_act_def bind_act_def)
  next
    case (Inr y)
    from mark_pend [OF w1, of "oe_id e"] obtain w2 where w2: "markPublished [oe_id e] w1 = (Inr (), w2)"
        "inv w2" "pend w2 = filter (\<lambda>x. oe_id x \<noteq> oe_id e) (pend w1)" by blast
    with assms(3) d Inr have r: "r = Inr ()" "w' = w2"
      by (auto simp: relay_entry_def then_act_def bind_act_def)
    from step Inr obtain new where new: "mset (pend w1) \<subseteq># mset (pend w) + new"
        "\<forall>x \<in># new. rank (oe_event x) < rank (oe_event e)" by auto
    have "mset (pend w2) \<subseteq># filter_mset (\<lambda>x. oe_id x \<noteq> oe_id e) (mset (pend w)) +
        filter_mset (\<lambda>x. oe_id x \<noteq> oe_id e) new"
      using multiset_filter_mono [OF new(1), of "\<lambda>x. oe_id x \<noteq> oe_id e"] by (simp add: w2(3) mset_filter)
    with new(2) w2(2) r show ?thesis by (auto intro!: exI [of _ "filter_mset (\<lambda>x. oe_id x \<noteq> oe_id e) new"])
  qed
qed

lemma relay_batch_effect:
  assumes "descends rank dispatch" and "inv w" and "relay_batch (deps dispatch) es w = (k, w')"
  shows "inv w' \<and> (\<exists>sent new. length sent = k \<and> set sent \<subseteq> set es \<and>
    mset (pend w') \<subseteq># filter_mset (\<lambda>x. oe_id x \<notin> oe_id ` set sent) (mset (pend w)) + new \<and>
    (\<forall>x \<in># new. \<exists>e \<in> set sent. rank (oe_event x) < rank (oe_event e)))"
  using assms(2-)
proof (induction es arbitrary: w k)
  case Nil
  then show ?case by (auto intro!: exI [of _ "[]"] exI [of _ "{#}"])
next
  case (Cons e es)
  obtain r w1 where e: "relay_entry (deps dispatch) e w = (r, w1)" by (cases "relay_entry (deps dispatch) e w")
  note step = relay_entry_step [OF assms(1) Cons.prems(1) e]
  show ?case
  proof (cases r)
    case (Inl x)
    with step e Cons.prems have w1: "inv w1" "mset (pend w1) \<subseteq># mset (pend w)"
        "relay_batch (deps dispatch) es w1 = (k, w')" by auto
    from Cons.IH [OF w1(1,3)] obtain sent new where ih: "inv w'" "length sent = k" "set sent \<subseteq> set es"
        "mset (pend w') \<subseteq># filter_mset (\<lambda>x. oe_id x \<notin> oe_id ` set sent) (mset (pend w1)) + new"
        "\<forall>x \<in># new. \<exists>e \<in> set sent. rank (oe_event x) < rank (oe_event e)" by blast
    have "mset (pend w') \<subseteq># filter_mset (\<lambda>x. oe_id x \<notin> oe_id ` set sent) (mset (pend w)) + new"
      using ih(4) multiset_filter_mono [OF w1(2), of "\<lambda>x. oe_id x \<notin> oe_id ` set sent"]
      by (meson subset_mset.add_right_mono subset_mset.trans)
    with ih show ?thesis by (intro conjI exI [of _ sent] exI [of _ new]) auto
  next
    case (Inr y)
    with step obtain new1 where w1: "inv w1"
        "mset (pend w1) \<subseteq># filter_mset (\<lambda>x. oe_id x \<noteq> oe_id e) (mset (pend w)) + new1"
        "\<forall>x \<in># new1. rank (oe_event x) < rank (oe_event e)" by auto
    from e Inr Cons.prems obtain j where j: "relay_batch (deps dispatch) es w1 = (j, w')" "k = Suc j"
      by (auto split: prod.splits)
    from Cons.IH [OF w1(1) j(1)] obtain sent new where ih: "inv w'" "length sent = j" "set sent \<subseteq> set es"
        "mset (pend w') \<subseteq># filter_mset (\<lambda>x. oe_id x \<notin> oe_id ` set sent) (mset (pend w1)) + new"
        "\<forall>x \<in># new. \<exists>e \<in> set sent. rank (oe_event x) < rank (oe_event e)" by blast
    let ?P = "\<lambda>x. oe_id x \<notin> oe_id ` set sent"
    have "filter_mset ?P (filter_mset (\<lambda>x. oe_id x \<noteq> oe_id e) (mset (pend w))) =
        filter_mset (\<lambda>x. oe_id x \<notin> oe_id ` set (e # sent)) (mset (pend w))"
      unfolding filter_filter_mset by (rule filter_mset_cong) auto
    with multiset_filter_mono [OF w1(2), of ?P] have
      "filter_mset ?P (mset (pend w1)) \<subseteq>#
         filter_mset (\<lambda>x. oe_id x \<notin> oe_id ` set (e # sent)) (mset (pend w)) + filter_mset ?P new1"
      by simp
    from subset_mset.trans [OF ih(4) subset_mset.add_right_mono [OF this]]
    have sub: "mset (pend w') \<subseteq>#
        filter_mset (\<lambda>x. oe_id x \<notin> oe_id ` set (e # sent)) (mset (pend w)) + (filter_mset ?P new1 + new)"
      by (simp only: add.assoc)
    have "\<forall>x \<in># filter_mset ?P new1 + new. \<exists>e' \<in> set (e # sent). rank (oe_event x) < rank (oe_event e')"
      using ih(5) w1(3) by (auto simp: ball_Un)
    moreover have "length (e # sent) = k" "set (e # sent) \<subseteq> set (e # es)" using ih(2,3) j(2) by auto
    ultimately show ?thesis using ih(1) sub by blast
  qed
qed

text \<open>One poll: it reports nothing sent, or the pending entries have become smaller in the multiset
  order.\<close>

lemma processOnce_smaller:
  assumes "descends rank dispatch" and "inv w"
    and once: "processOnce (deps dispatch) options (r, w) = (k, (r', w'))"
  shows "inv w' \<and> r' = r \<and>
    (k = 0 \<or> (mset (pend w'), mset (pend w)) \<in> mult (measure (\<lambda>e. rank (oe_event e))))"
proof (cases "rl_processing r \<or> js_take (pend w) (or_else (ro_batchSize options) 100) = []")
  case True
  with once assms(2) show ?thesis by (auto simp: processOnce_def load_pend split: if_splits)
next
  case False
  let ?es = "js_take (pend w) (or_else (ro_batchSize options) 100)"
    and ?R = "measure (\<lambda>e. rank (oe_event e))"
  have r: "r\<lparr>rl_processing := False\<rparr> = r" using False by simp
  have run: "relay_batch (deps dispatch) ?es w = (k, w')" "r' = r"
    using once False assms(2) r by (auto simp: processOnce_def load_pend split: prod.splits)
  from relay_batch_effect [OF assms(1,2) run(1)] obtain sent new where
    w': "inv w'" and sent: "length sent = k" "set sent \<subseteq> set ?es"
    and sub: "mset (pend w') \<subseteq># filter_mset (\<lambda>x. oe_id x \<notin> oe_id ` set sent) (mset (pend w)) + new"
    and new: "\<forall>x \<in># new. \<exists>e \<in> set sent. rank (oe_event x) < rank (oe_event e)" by blast
  show ?thesis
  proof (cases "k = 0")
    case True
    with w' run(2) show ?thesis by simp
  next
    case False
    let ?keep = "filter_mset (\<lambda>x. oe_id x \<notin> oe_id ` set sent) (mset (pend w))"
      and ?gone = "filter_mset (\<lambda>x. oe_id x \<in> oe_id ` set sent) (mset (pend w))"
    have "set sent \<subseteq> set (pend w)"
      using sent(2) by (auto simp: js_take_def dest: in_set_takeD split: if_splits)
    then have gone: "set sent \<subseteq> set_mset ?gone" by auto
    with False sent(1) have "?gone \<noteq> {#}" by (cases sent) auto
    moreover have "\<forall>x \<in># new. \<exists>e \<in># ?gone. (x, e) \<in> ?R" using new gone by fastforce
    ultimately have "(?keep + new, ?keep + ?gone) \<in> mult ?R" by (rule one_step_implies_mult)
    moreover have "?keep + ?gone = mset (pend w)"
      using multiset_partition [of "mset (pend w)" "\<lambda>x. oe_id x \<in> oe_id ` set sent"] by (simp add: add.commute)
    moreover have "mset (pend w') = ?keep + new \<or> (mset (pend w'), ?keep + new) \<in> mult ?R"
      using sub by (meson subset_implies_mult subset_mset.le_imp_less_or_eq)
    moreover have "trans (mult ?R)" by (simp add: mult_def trans_trancl)
    ultimately show ?thesis using w' run(2) by (metis transD)
  qed
qed

lemma relay_batch_total:
  assumes "\<And>ev w. \<exists>w'. dispatch ev w = (Inr (), w')" and "descends rank dispatch" and "inv w"
  shows "fst (relay_batch (deps dispatch) es w) = length es"
  using assms(3)
proof (induction es arbitrary: w)
  case Nil
  then show ?case by simp
next
  case (Cons e es)
  obtain w1 where d: "dispatch (oe_event e) w = (Inr (), w1)" using assms(1) by blast
  with assms(2) Cons.prems have "inv w1" unfolding descends_def by blast
  from mark_pend [OF this, of "oe_id e"] obtain w2 where "markPublished [oe_id e] w1 = (Inr (), w2)" "inv w2"
    by blast
  with d Cons.IH [of w2] show ?case
    by (auto simp: relay_entry_def then_act_def bind_act_def split: prod.splits)
qed

text \<open>Draining ends with a poll that sent nothing, by induction on the multiset order.\<close>

lemma drain_loop_returns:
  assumes desc: "descends rank dispatch" and "inv w"
  shows "\<exists>w0 w'. drain_loop (deps dispatch) options (r, w) = Some (r, w') \<and> inv w0 \<and> inv w' \<and>
    processOnce (deps dispatch) options (r, w0) = (0, (r, w'))"
proof -
  have "wf (inv_image (mult (measure (\<lambda>e. rank (oe_event e)))) (\<lambda>w. mset (pend w)))"
    by (intro wf_inv_image wf_mult) simp
  then show ?thesis
    using assms(2)
  proof (induction w rule: wf_induct_rule)
    case (less w)
    obtain k r1 w1 where once: "processOnce (deps dispatch) options (r, w) = (k, (r1, w1))"
      by (metis prod_cases3)
    note eff = processOnce_smaller [OF desc less.prems once]
    show ?case
    proof (cases "k = 0")
      case True
      with once eff less.prems show ?thesis by (subst drain_loop.simps) auto
    next
      case False
      with eff less.IH [of w1] once show ?thesis
        by (subst drain_loop.simps) (auto simp: in_inv_image)
    qed
  qed
qed

text \<open>When no dispatch is refused, a poll that sent nothing found nothing pending.\<close>

lemma processOnce_none_pending:
  assumes "\<And>ev w. \<exists>w'. dispatch ev w = (Inr (), w')" and "descends rank dispatch" and "inv w"
    and "\<not> rl_processing r" and "1 \<le> or_else (ro_batchSize options) 100"
    and "processOnce (deps dispatch) options (r, w) = (0, (r', w'))"
  shows "pend w' = []"
proof -
  let ?es = "js_take (pend w) (or_else (ro_batchSize options) 100)"
  have "?es = []"
  proof (rule ccontr)
    assume "?es \<noteq> []"
    with assms(3,4,6) have "fst (relay_batch (deps dispatch) ?es w) = 0"
      by (auto simp: processOnce_def load_pend split: prod.splits)
    with relay_batch_total [OF assms(1-3), of ?es] \<open>?es \<noteq> []\<close> show False by simp
  qed
  with assms(3-6) have "w' = w" "pend w = []"
    by (auto simp: processOnce_def load_pend js_take_def)
  then show ?thesis by simp
qed

end

interpretation mem_outbox: outbox_contract
  "\<lambda>n. on_fst (outbox_loadUnpublished n)" "\<lambda>ids. on_fst (outbox_markPublished now ids)"
  "\<lambda>w. pending (fst w)" "\<lambda>w. outbox_ok (fst w)"
  for now
proof
  fix w :: "outbox_store \<times> 'u" and n i
  show "on_fst (outbox_loadUnpublished n) w = (Inr (js_take (pending (fst w)) n), w)"
    by (simp add: on_fst_def outbox_loadUnpublished_def pending_def Let_def)
  show "outbox_ok (fst w) \<Longrightarrow> distinct (map oe_id (pending (fst w)))" by (rule pending_distinct)
  show "outbox_ok (fst w) \<Longrightarrow> \<exists>w'. on_fst (outbox_markPublished now [i]) w = (Inr (), w') \<and>
      outbox_ok (fst w') \<and> pending (fst w') = filter (\<lambda>e. oe_id e \<noteq> i) (pending (fst w))"
    using outbox_ok_mark [of "fst w" now "[i]"] pending_mark_one [of "fst w" now i]
    by (simp add: on_fst_def outbox_markPublished_def del: mark_ids.simps)
qed

section \<open>Properties\<close>

text \<open>The intended effect of a batch on the environment \<open>'u\<close> of the event bus: dispatch every
  event in order and keep the entries whose dispatch succeeded.\<close>

fun dispatch_all :: "(event \<Rightarrow> ('u, unit) action) \<Rightarrow> outbox_entry list \<Rightarrow> 'u \<Rightarrow> outbox_entry list \<times> 'u" where
  "dispatch_all dispatch [] u = ([], u)"
| "dispatch_all dispatch (e # es) u =
     (case dispatch (oe_event e) u of
        (Inl _, u') \<Rightarrow> dispatch_all dispatch es u'
      | (Inr _, u') \<Rightarrow> (case dispatch_all dispatch es u' of (sent, u'') \<Rightarrow> (e # sent, u'')))"

text \<open>The relay of a domain: the outbox is part of the world its event handlers act on.\<close>

definition shared_relay ::
  "int \<Rightarrow> (event \<Rightarrow> (outbox_store \<times> 'u, unit) action) \<Rightarrow> (outbox_store \<times> 'u) relay_deps" where
  "shared_relay now dispatch =
     \<lparr>rd_loadUnpublished = (\<lambda>n. on_fst (outbox_loadUnpublished n)),
      rd_markPublished = (\<lambda>ids. on_fst (outbox_markPublished now ids)),
      rd_dispatch = dispatch\<rparr>"

text \<open>The special case of handlers that leave the outbox alone.\<close>

definition mem_relay :: "int \<Rightarrow> (event \<Rightarrow> ('u, unit) action) \<Rightarrow> (outbox_store \<times> 'u) relay_deps" where
  "mem_relay now dispatch = shared_relay now (\<lambda>ev. on_snd (dispatch ev))"

lemma relay_batch_mem:
  "relay_batch (mem_relay now dispatch) es (store, u) =
     (case dispatch_all dispatch es u of
        (sent, u') \<Rightarrow> (length sent, (mark_ids now (map oe_id sent) store, u')))"
proof (induction es arbitrary: store u)
  case Nil
  then show ?case by simp
next
  case (Cons e es)
  obtain r u1 where d: "dispatch (oe_event e) u = (r, u1)" by (cases "dispatch (oe_event e) u")
  have step: "relay_entry (mem_relay now dispatch) e (store, u) =
      (case r of Inl x \<Rightarrow> (Inl x, (store, u1)) | Inr _ \<Rightarrow> (Inr (), (mark_ids now [oe_id e] store, u1)))"
    by (cases r) (simp_all add: relay_entry_def mem_relay_def shared_relay_def then_act_def bind_act_def on_snd_def
        on_fst_def d outbox_markPublished_def del: mark_ids.simps)
  show ?case
    using Cons d by (cases r) (auto simp: step split: prod.splits)
qed

lemma pending_mark:
  "outbox_ok s \<Longrightarrow> pending (mark_ids now ids s) = filter (\<lambda>e. oe_id e \<notin> set ids) (pending s)"
proof (induction ids arbitrary: s)
  case Nil
  then show ?case by simp
next
  case (Cons i ids)
  have "mark_ids now (i # ids) s = mark_ids now ids (mark_ids now [i] s)" by simp
  then have "pending (mark_ids now (i # ids) s) =
      filter (\<lambda>e. oe_id e \<notin> set ids) (filter (\<lambda>e. oe_id e \<noteq> i) (pending s))"
    using Cons.IH [OF outbox_ok_mark [OF Cons.prems, of now "[i]"]] pending_mark_one [OF Cons.prems]
    by (simp del: mark_ids.simps)
  also have "\<dots> = filter (\<lambda>e. oe_id e \<notin> set (i # ids)) (pending s)"
    unfolding filter_filter by (rule filter_cong) auto
  finally show ?case .
qed

lemma processOnce_mem:
  assumes "\<not> rl_processing r"
  shows "processOnce (mem_relay now dispatch) options (r, (store, u)) =
    (case dispatch_all dispatch (js_take (pending store) (or_else (ro_batchSize options) 100)) u of
       (sent, u') \<Rightarrow> (length sent, (r, (mark_ids now (map oe_id sent) store, u'))))"
proof -
  have r: "r\<lparr>rl_processing := False\<rparr> = r" using assms by simp
  have ld: "rd_loadUnpublished (mem_relay now dispatch) n (store, u) =
      (Inr (js_take (pending store) n), (store, u))" for n
    by (simp add: mem_relay_def shared_relay_def on_fst_def outbox_loadUnpublished_def pending_def Let_def)
  show ?thesis
    using assms by (auto simp: processOnce_def ld r relay_batch_mem split: prod.splits)
qed

text \<open>C29: One poll of the outbox relay. On the in-memory store it offers the oldest unpublished
  entries, up to the batch size, to the event bus in order of creation; an entry is marked
  published, and so leaves the pending list, exactly when its dispatch succeeded; every entry whose
  dispatch threw and every entry beyond the batch stays pending for a later poll; the count
  returned is the number of entries dispatched.\<close>
theorem relay_poll_exact:
  assumes "outbox_ok store" and "\<not> rl_processing r"
    and "dispatch_all dispatch (js_take (pending store) (or_else (ro_batchSize options) 100)) u = (sent, u')"
  shows "\<exists>store'. processOnce (mem_relay now dispatch) options (r, (store, u)) =
      (length sent, (r, (store', u'))) \<and> outbox_ok store' \<and>
    pending store' = filter (\<lambda>e. oe_id e \<notin> oe_id ` set sent) (pending store)"
  using assms pending_mark [OF assms(1), of now "map oe_id sent"] outbox_ok_mark [OF assms(1)]
  by (simp add: processOnce_mem)

definition sample_entry :: "string \<Rightarrow> int \<Rightarrow> outbox_entry" where
  "sample_entry i t = \<lparr>oe_id = i, oe_event = \<lparr>ev_name = i, ev_payload = JNull, ev_metadata = None\<rparr>,
     oe_aggregateName = None, oe_aggregateId = None, oe_createdAt = t, oe_publishedAt = None\<rparr>"

definition flaky_bus :: "event \<Rightarrow> (string list, unit) action" where
  "flaky_bus ev log = (if ev_name ev = ''bad'' then (Inl (UserError ''bus''), log)
                       else (Inr (), log @ [ev_name ev]))"

definition sample_outbox :: outbox_store where
  "sample_outbox = [(''b'', sample_entry ''b'' 5), (''bad'', sample_entry ''bad'' 3),
     (''a'', sample_entry ''a'' 1), (''c'', sample_entry ''c'' 9)]"

theorem relay_poll_exact_witness:
  "\<exists>store'. processOnce (mem_relay 50 flaky_bus) \<lparr>ro_pollIntervalMs = None, ro_batchSize = Some 3\<rparr>
      (new_relay, (sample_outbox, [])) = (2, (new_relay, (store', [''a'', ''b'']))) \<and>
    pending store' = [sample_entry ''bad'' 3, sample_entry ''c'' 9]"
proof -
  have "outbox_ok sample_outbox" "\<not> rl_processing new_relay" by code_simp+
  moreover have "dispatch_all flaky_bus (js_take (pending sample_outbox)
      (or_else (ro_batchSize \<lparr>ro_pollIntervalMs = None, ro_batchSize = Some 3\<rparr>) 100)) [] =
      ([sample_entry ''a'' 1, sample_entry ''b'' 5], [''a'', ''b''])" by code_simp
  moreover have "filter (\<lambda>e. oe_id e \<notin> oe_id ` set [sample_entry ''a'' 1, sample_entry ''b'' 5])
      (pending sample_outbox) = [sample_entry ''bad'' 3, sample_entry ''c'' 9]" by code_simp
  ultimately show ?thesis
    using relay_poll_exact [of sample_outbox new_relay flaky_bus
        "\<lparr>ro_pollIntervalMs = None, ro_batchSize = Some 3\<rparr>" "[]"
        "[sample_entry ''a'' 1, sample_entry ''b'' 5]" "[''a'', ''b'']" 50]
    by (auto simp del: relay_options.simps)
qed

lemma dispatch_all_total:
  assumes "\<And>ev u. fst (dispatch ev u) = Inr ()"
  shows "dispatch_all dispatch es u = (es, fold (\<lambda>e u. snd (dispatch (oe_event e) u)) es u)"
proof (induction es arbitrary: u)
  case Nil
  then show ?case by simp
next
  case (Cons e es)
  obtain u1 where "dispatch (oe_event e) u = (Inr (), u1)"
    using assms [of "oe_event e" u] by (cases "dispatch (oe_event e) u") simp
  with Cons show ?case by simp
qed

lemma filter_not_taken:
  assumes "distinct (map f xs)"
  shows "filter (\<lambda>x. f x \<notin> set (map f (take n xs))) xs = drop n xs"
  using assms
proof (induction xs arbitrary: n)
  case Nil
  then show ?case by simp
next
  case (Cons x xs)
  show ?case
  proof (cases n)
    case 0
    then show ?thesis by (simp add: filter_True)
  next
    case (Suc m)
    have "f y \<noteq> f x" if "y \<in> set xs" for y
      using that Cons.prems by (metis distinct.simps(2) image_eqI list.simps(9) set_map)
    then have "filter (\<lambda>y. f y \<notin> set (map f (take n (x # xs)))) (x # xs) =
        filter (\<lambda>y. f y \<notin> set (map f (take m xs))) xs"
      using Suc by (auto intro!: filter_cong)
    with Cons Suc show ?thesis by simp
  qed
qed

lemma drain_loop_all:
  assumes ok: "outbox_ok store" and idle: "\<not> rl_processing r"
    and total: "\<And>ev u. fst (dispatch ev u) = Inr ()"
    and batch: "1 \<le> or_else (ro_batchSize options) 100"
  shows "\<exists>store'. drain_loop (mem_relay now dispatch) options (r, (store, u)) =
      Some (r, (store', fold (\<lambda>e u. snd (dispatch (oe_event e) u)) (pending store) u)) \<and>
    pending store' = []"
  using ok
proof (induction "length (pending store)" arbitrary: store u rule: less_induct)
  case less
  define n where "n = nat (or_else (ro_batchSize options) 100)"
  let ?es = "take n (pending store)" and ?go = "\<lambda>e u. snd (dispatch (oe_event e) u)"
  have n: "js_take (pending store) (or_else (ro_batchSize options) 100) = ?es" "0 < n"
    using batch by (simp_all add: n_def js_take_def)
  define st1 where "st1 = mark_ids now (map oe_id ?es) store"
  have once: "processOnce (mem_relay now dispatch) options (r, (store, u)) =
      (length ?es, (r, (st1, fold ?go ?es u)))"
    by (simp add: processOnce_mem [OF idle] n(1) dispatch_all_total [of dispatch, OF total] st1_def)
  have p1: "outbox_ok st1" "pending st1 = drop n (pending store)"
    using outbox_ok_mark [OF less.prems] pending_mark [OF less.prems, of now "map oe_id ?es"]
      filter_not_taken [OF pending_distinct [OF less.prems], of n]
    by (simp_all add: st1_def)
  show ?case
  proof (cases "pending store = []")
    case True
    with once p1 show ?thesis by (subst drain_loop.simps) simp
  next
    case False
    have "length (pending st1) < length (pending store)"
      using n(2) False by (simp add: p1(2))
    from less.hyps [OF this p1(1), of "fold ?go ?es u"] obtain store' where
      "drain_loop (mem_relay now dispatch) options (r, (st1, fold ?go ?es u)) =
         Some (r, (store', fold ?go (drop n (pending store)) (fold ?go ?es u)))" "pending store' = []"
      unfolding p1(2) by blast
    moreover have "fold ?go (drop n (pending store)) (fold ?go ?es u) = fold ?go (pending store) u"
      by (metis append_take_drop_id fold_append o_apply)
    ultimately show ?thesis
      using once n(2) False by (subst drain_loop.simps) simp
  qed
qed

text \<open>C13: Draining delivers everything, exactly once. For event handlers that leave the outbox alone
  (they write no entry of their own while an entry is dispatched) and never refuse an event: when
  the relay has not been drained before, no poll is in flight and the batch size is at least one,
  the drain on shutdown returns; it has stopped the timer, dispatched every pending entry exactly
  once and in order of creation, and left nothing pending.\<close>
theorem drain_delivers_all:
  assumes "outbox_ok store" and "\<not> rl_processing r" and "\<not> rl_drained r"
    and "\<And>ev u. fst (dispatch ev u) = Inr ()" and "1 \<le> or_else (ro_batchSize options) 100"
  shows "\<exists>r' store'. drain (mem_relay now dispatch) options (r, (store, u)) =
      Some (r', (store', fold (\<lambda>e u. snd (dispatch (oe_event e) u)) (pending store) u)) \<and>
    pending store' = [] \<and> rl_timer r' = None \<and> rl_drained r'"
proof -
  let ?r = "relay_stop (r\<lparr>rl_drained := True\<rparr>)"
  have "\<not> rl_processing ?r" "rl_timer ?r = None" "rl_drained ?r"
    using assms(2) by (simp_all add: relay_stop_def)
  with drain_loop_all [where dispatch = dispatch and r = ?r and now = now and u = u,
      OF assms(1) _ assms(4,5)] assms(3) show ?thesis
    by (auto simp: drain_def)
qed

definition log_bus :: "event \<Rightarrow> (string list, unit) action" where
  "log_bus ev log = (Inr (), log @ [ev_name ev])"

theorem drain_delivers_all_witness:
  "\<exists>r' store'. drain (mem_relay 50 log_bus) \<lparr>ro_pollIntervalMs = None, ro_batchSize = Some 2\<rparr>
      (new_relay, (sample_outbox, [])) = Some (r', (store', [''a'', ''bad'', ''b'', ''c''])) \<and>
    pending store' = []"
proof -
  have a: "outbox_ok sample_outbox" "\<not> rl_processing new_relay" "\<not> rl_drained new_relay" by code_simp+
  have b: "fold (\<lambda>e u. snd (log_bus (oe_event e) u)) (pending sample_outbox) [] =
      [''a'', ''bad'', ''b'', ''c'']" by code_simp
  show ?thesis
    using drain_delivers_all [OF a, of log_bus "\<lparr>ro_pollIntervalMs = None, ro_batchSize = Some 2\<rparr>" 50 "[]"] b
    by (auto simp: log_bus_def)
qed

text \<open>The condition on the handlers, on the in-memory outbox: they keep it well-formed, a refused
  event has added no entry, and the entries a delivered event has added are of smaller rank than
  the event itself.\<close>

definition descending :: "(event \<Rightarrow> nat) \<Rightarrow> (event \<Rightarrow> (outbox_store \<times> 'u, unit) action) \<Rightarrow> bool" where
  "descending rank dispatch \<longleftrightarrow> (\<forall>ev w r w'. outbox_ok (fst w) \<longrightarrow> dispatch ev w = (r, w') \<longrightarrow>
     outbox_ok (fst w') \<and>
     (case r of
        Inl _ \<Rightarrow> mset (pending (fst w')) \<subseteq># mset (pending (fst w))
      | Inr _ \<Rightarrow> \<exists>new. mset (pending (fst w')) \<subseteq># mset (pending (fst w)) + new \<and>
          (\<forall>e \<in># new. rank (oe_event e) < rank ev)))"

lemma descends_descending: "descending rank dispatch \<Longrightarrow> mem_outbox.descends rank dispatch"
  unfolding descending_def mem_outbox.descends_def .

lemma mset_pending_set:
  "mset (pending (jm_set k e s)) \<subseteq># mset (pending s) + {#e#}"
proof -
  have "mset (filter (\<lambda>e. oe_publishedAt e = None) (map snd (jm_set k e s))) \<subseteq>#
      mset (filter (\<lambda>e. oe_publishedAt e = None) (map snd s)) + {#e#}"
    unfolding jm_set_def by (induction s) (auto simp: subset_mset.le_add_same_cancel1)
  then show ?thesis by (simp add: pending_def)
qed

text \<open>Saving entries is such a step.\<close>

lemma mset_pending_save:
  "mset (pending (snd (outbox_save es s))) \<subseteq># mset (pending s) + mset es"
proof (induction es arbitrary: s)
  case Nil
  then show ?case by (simp add: outbox_save_def)
next
  case (Cons e es)
  have "mset (pending (snd (outbox_save (e # es) s))) \<subseteq># mset (pending (jm_set (oe_id e) e s)) + mset es"
    using Cons.IH [of "jm_set (oe_id e) e s"] by (simp add: outbox_save_def)
  from subset_mset.trans [OF this subset_mset.add_right_mono [OF mset_pending_set [of "oe_id e" e s]]]
  show ?case by (simp add: add.assoc)
qed

text \<open>C40: Draining returns, even when the handlers it dispatches to write new outbox entries and when
  the event bus refuses events: it is enough that the handlers keep the outbox well-formed, that an
  event they refuse has added no entry, and that the entries a delivered event has added carry
  events of smaller rank than its own (no cycle of events causing each other). The loop ends with a
  poll that delivered nothing, the timer stopped. Called again, or while a poll is in flight, drain
  changes nothing in the outbox or the environment; and when no event is refused, no poll is in
  flight and the batch size is at least one, nothing is pending in the end, the entries added on
  the way included.\<close>
theorem drain_returns:
  assumes "descending rank dispatch" and "outbox_ok (fst w)"
  shows "\<exists>r' w'. drain (shared_relay now dispatch) options (r, w) = Some (r', w') \<and>
    outbox_ok (fst w') \<and>
    (rl_drained r \<longrightarrow> r' = r) \<and>
    (rl_drained r \<or> rl_processing r \<longrightarrow> w' = w) \<and>
    (\<not> rl_drained r \<longrightarrow> rl_drained r' \<and> rl_timer r' = None \<and>
      (\<exists>w0. processOnce (shared_relay now dispatch) options (r', w0) = (0, (r', w')))) \<and>
    (\<not> rl_drained r \<longrightarrow> \<not> rl_processing r \<longrightarrow> 1 \<le> or_else (ro_batchSize options) 100 \<longrightarrow>
      (\<forall>ev v. \<exists>v'. dispatch ev v = (Inr (), v')) \<longrightarrow> pending (fst w') = [])"
proof (cases "rl_drained r")
  case True
  with assms(2) show ?thesis by (simp add: drain_def)
next
  case False
  let ?r = "relay_stop (r\<lparr>rl_drained := True\<rparr>)" and ?d = "shared_relay now dispatch"
  note desc = descends_descending [OF assms(1)]
  have r: "rl_processing ?r = rl_processing r" "rl_drained ?r" "rl_timer ?r = None"
    by (simp_all add: relay_stop_def)
  obtain w0 w' where loop: "drain_loop ?d options (?r, w) = Some (?r, w')" and inv: "outbox_ok (fst w0)"
      "outbox_ok (fst w')" and last: "processOnce ?d options (?r, w0) = (0, (?r, w'))"
    using mem_outbox.drain_loop_returns [OF desc assms(2), where options = options and r = ?r]
    unfolding shared_relay_def by blast
  have busy: "w' = w" if "rl_processing r"
    using loop that r(1) by (subst (asm) drain_loop.simps) (simp add: processOnce_def)
  have none: "pending (fst w') = []" if "\<forall>ev v. \<exists>v'. dispatch ev v = (Inr (), v')" "\<not> rl_processing r"
      "1 \<le> or_else (ro_batchSize options) 100"
  proof (rule mem_outbox.processOnce_none_pending [OF _ desc inv(1) _ that(3) last [unfolded shared_relay_def]])
    show "\<exists>v'. dispatch ev v = (Inr (), v')" for ev v using that(1) by blast
    show "\<not> rl_processing ?r" using that(2) r(1) by simp
  qed
  from last have "\<exists>w0. processOnce ?d options (?r, w0) = (0, (?r, w'))" by blast
  with False loop inv(2) busy none r(2,3) show ?thesis
    by (intro exI [of _ ?r] exI [of _ w']) (simp add: drain_def)
qed

text \<open>A bus whose handler of \<^verbatim>\<open>a\<close> writes a further entry to the outbox.\<close>

definition chain_bus :: "event \<Rightarrow> (outbox_store \<times> string list, unit) action" where
  "chain_bus ev w =
     (Inr (), (if ev_name ev = ''a'' then snd (outbox_save [sample_entry ''a2'' 20] (fst w)) else fst w,
               snd w @ [ev_name ev]))"

definition chain_rank :: "event \<Rightarrow> nat" where
  "chain_rank ev = (if ev_name ev = ''a'' then 1 else 0)"

lemma chain_bus_descending: "descending chain_rank chain_bus"
proof -
  have new: "mset (pending (snd (outbox_save [sample_entry ''a2'' 20] s))) \<subseteq>#
      mset (pending s) + {#sample_entry ''a2'' 20#}" for s
    using mset_pending_save [of "[sample_entry ''a2'' 20]" s] by simp
  have ok: "outbox_ok s \<Longrightarrow> outbox_ok (snd (outbox_save [sample_entry ''a2'' 20] s))" for s
    by (simp add: outbox_save_def outbox_ok_set)
  have rank: "ev_name (oe_event (sample_entry ''a2'' 20)) \<noteq> ''a''" by (simp add: sample_entry_def)
  show ?thesis
    unfolding descending_def
  proof (intro allI impI)
    fix ev r and w w' :: "outbox_store \<times> string list"
    assume "outbox_ok (fst w)" and "chain_bus ev w = (r, w')"
    then show "outbox_ok (fst w') \<and>
       (case r of Inl _ \<Rightarrow> mset (pending (fst w')) \<subseteq># mset (pending (fst w))
        | Inr _ \<Rightarrow> \<exists>new. mset (pending (fst w')) \<subseteq># mset (pending (fst w)) + new \<and>
            (\<forall>e \<in># new. chain_rank (oe_event e) < chain_rank ev))"
    proof (cases "ev_name ev = ''a''")
      case True
      then have w': "r = Inr ()" "fst w' = snd (outbox_save [sample_entry ''a2'' 20] (fst w))"
        using \<open>chain_bus ev w = (r, w')\<close> by (auto simp: chain_bus_def)
      have "\<forall>e \<in># {#sample_entry ''a2'' 20#}. chain_rank (oe_event e) < chain_rank ev"
        using True rank by (simp add: chain_rank_def)
      with w' new [of "fst w"] ok [OF \<open>outbox_ok (fst w)\<close>] show ?thesis
        unfolding w' by (auto intro!: exI [of _ "{#sample_entry ''a2'' 20#}"])
    next
      case False
      with \<open>outbox_ok (fst w)\<close> \<open>chain_bus ev w = (r, w')\<close> show ?thesis
        by (auto simp: chain_bus_def intro!: exI [of _ "{#}"])
    qed
  qed
qed

theorem drain_returns_witness:
  "\<exists>r' w'. drain (shared_relay 50 chain_bus) \<lparr>ro_pollIntervalMs = None, ro_batchSize = Some 2\<rparr>
      (new_relay, (sample_outbox, [])) = Some (r', w') \<and> rl_drained r' \<and> pending (fst w') = []"
proof -
  have "outbox_ok (fst (sample_outbox, [] :: string list))" by code_simp
  from drain_returns [OF chain_bus_descending this, of 50 "\<lparr>ro_pollIntervalMs = None, ro_batchSize = Some 2\<rparr>"
      new_relay]
  show ?thesis by (auto simp: new_relay_def chain_bus_def)
qed

end
