(* ===== verification/Wiring.thy ===== *)
theory Wiring
  imports Command_Executor Projection Outbox
begin

text \<open>
  The configuration half of \<^verbatim>\<open>domain.ts\<close>: \<^verbatim>\<open>resolveAggregatePersistence\<close>, the steps of
  \<^verbatim>\<open>Domain.init\<close> that resolve persistence, snapshots, concurrency, stores and projections from
  the wiring and the persistence adapter, the callbacks \<^verbatim>\<open>onEventsProduced\<close> and
  \<^verbatim>\<open>onEventsDispatched\<close> it composes, and \<^verbatim>\<open>wireDomain\<close>'s test for a global wiring. A
  factory of the wiring is its outcome, a value or the error it throws. Warnings that init logs are
  left out.
\<close>

section \<open>Wirings and the adapter\<close>

record 'w adapter =
  ad_eventSourced :: "'w persistence option"
  ad_stateStored :: "'w persistence option"
  ad_snapshotLoad :: "(string \<Rightarrow> ID \<Rightarrow> ('w, snapshot option) action) option"
  ad_snapshotSave :: "string \<Rightarrow> ID \<Rightarrow> snapshot \<Rightarrow> ('w, unit) action"
  ad_locker :: "'w locker option"
  ad_eventReader :: "('w \<Rightarrow> event list \<times> error option) option"

datatype 'w persistence_wiring =
    Shorthand string
  | Factory "error + 'w persistence"
  | Configured "'w persistence"

datatype 'w concurrency_wiring =
    OptimisticShorthand
  | PessimisticShorthand
  | OptimisticObject "int option"
  | PessimisticObject "'w locker option" "int option"

record 'w snapshot_wiring =
  sw_store :: "(error + (string \<Rightarrow> ID \<Rightarrow> ('w, snapshot option) action) \<times>
                        (string \<Rightarrow> ID \<Rightarrow> snapshot \<Rightarrow> ('w, unit) action)) option"
  sw_strategy :: snapshot_strategy

record 'w aggregate_wiring =
  aw_persistence :: "'w persistence_wiring option"
  aw_concurrency :: "'w concurrency_wiring option"
  aw_snapshots :: "'w snapshot_wiring option"

section \<open>wireDomain: global or per-aggregate\<close>

text \<open>\<^verbatim>\<open>isGlobalAggregateWiring\<close> looks at the keys of the object only.\<close>

definition isGlobalAggregateWiring :: "string list option \<Rightarrow> bool" where
  "isGlobalAggregateWiring keys =
     (case keys of
        None \<Rightarrow> True
      | Some ks \<Rightarrow> ''persistence'' \<in> set ks \<or> ''concurrency'' \<in> set ks \<or> ''snapshots'' \<in> set ks \<or> length ks = 0)"

section \<open>Persistence\<close>

definition resolveAggregatePersistence ::
  "string \<Rightarrow> 'w persistence_wiring option \<Rightarrow> 'w adapter option \<Rightarrow> error + 'w persistence option" where
  "resolveAggregatePersistence aggregateName persistence adapter =
     (case persistence of
        None \<Rightarrow> Inr (case adapter of None \<Rightarrow> None | Some a \<Rightarrow> ad_stateStored a)
      | Some (Shorthand s) \<Rightarrow>
          (case adapter of
             None \<Rightarrow> Inl (ConfigError aggregateName ''shorthand requires an adapter'')
           | Some a \<Rightarrow>
               if s = ''event-sourced'' then
                 (case ad_eventSourced a of
                    None \<Rightarrow> Inl (ConfigError aggregateName ''no eventSourcedPersistence'')
                  | Some p \<Rightarrow> Inr (Some p))
               else if s = ''state-stored'' then
                 (case ad_stateStored a of
                    None \<Rightarrow> Inl (ConfigError aggregateName ''no stateStoredPersistence'')
                  | Some p \<Rightarrow> Inr (Some p))
               else Inl (ConfigError aggregateName ''unknown persistence shorthand''))
      | Some (Factory f) \<Rightarrow> (case f of Inl e \<Rightarrow> Inl e | Inr p \<Rightarrow> Inr (Some p))
      | Some (Configured p) \<Rightarrow> Inr (Some p))"

text \<open>The loop over the registered aggregates.\<close>

fun resolve_each ::
  "(string, 'w aggregate_wiring) jmap \<Rightarrow> 'w adapter option \<Rightarrow> string list \<Rightarrow>
     error + (string, 'w persistence) jmap" where
  "resolve_each wirings adapter [] = Inr []"
| "resolve_each wirings adapter (n # ns) =
     (case resolveAggregatePersistence n
             (case jm_get wirings n of None \<Rightarrow> None | Some aw \<Rightarrow> aw_persistence aw) adapter of
        Inl e \<Rightarrow> Inl e
      | Inr po \<Rightarrow>
          (case resolve_each wirings adapter ns of
             Inl e \<Rightarrow> Inl e
           | Inr m \<Rightarrow> Inr (case po of None \<Rightarrow> m | Some p \<Rightarrow> (n, p) # m)))"

text \<open>Step 4 for a per-aggregate wiring; \<open>fresh\<close> is the in-memory fallback it constructs. The
  aggregate names are the keys of an object, hence distinct.\<close>

definition resolve_per_aggregate ::
  "string list \<Rightarrow> (string, 'w aggregate_wiring) jmap \<Rightarrow> 'w adapter option \<Rightarrow> 'w persistence \<Rightarrow>
     error + 'w resolver" where
  "resolve_per_aggregate aggregateNames wirings adapter fresh =
     (case find (\<lambda>n. n \<notin> set aggregateNames) (map fst wirings) of
        Some n \<Rightarrow> Inl (ConfigError n ''unknown aggregate'')
      | None \<Rightarrow>
          (case resolve_each wirings adapter aggregateNames of
             Inl e \<Rightarrow> Inl e
           | Inr resolved \<Rightarrow>
               if length resolved > 0 then
                 let missing = filter (\<lambda>n. \<not> jm_has resolved n) aggregateNames
                 in if length missing > 0 \<and> length resolved < length aggregateNames
                    then (case adapter of
                            None \<Rightarrow> Inl (ConfigError (hd missing) ''missing persistence'')
                          | Some _ \<Rightarrow> Inr (PerAggregateResolver (resolved @ map (\<lambda>n. (n, fresh)) missing)))
                    else Inr (PerAggregateResolver resolved)
               else Inr (GlobalResolver fresh)))"

definition resolve_global ::
  "'w aggregate_wiring option \<Rightarrow> 'w adapter option \<Rightarrow> 'w persistence \<Rightarrow> error + 'w resolver" where
  "resolve_global wiring adapter fresh =
     (case resolveAggregatePersistence ''(global)''
             (case wiring of None \<Rightarrow> None | Some aw \<Rightarrow> aw_persistence aw) adapter of
        Inl e \<Rightarrow> Inl e
      | Inr None \<Rightarrow> Inr (GlobalResolver fresh)
      | Inr (Some p) \<Rightarrow> Inr (GlobalResolver p))"

section \<open>Snapshots\<close>

definition resolve_snapshot_config ::
  "string \<Rightarrow> 'w snapshot_wiring \<Rightarrow> 'w adapter option \<Rightarrow> error + 'w snapshot_config" where
  "resolve_snapshot_config name sw adapter =
     (case sw_store sw of
        Some (Inl e) \<Rightarrow> Inl e
      | Some (Inr (ld, sv)) \<Rightarrow> Inr \<lparr>sc_load = ld, sc_save = sv, sc_strategy = sw_strategy sw\<rparr>
      | None \<Rightarrow>
          (case adapter of
             None \<Rightarrow> Inl (ConfigError name ''no snapshot store'')
           | Some a \<Rightarrow>
               (case ad_snapshotLoad a of
                  None \<Rightarrow> Inl (ConfigError name ''no snapshot store'')
                | Some ld \<Rightarrow> Inr \<lparr>sc_load = ld, sc_save = ad_snapshotSave a, sc_strategy = sw_strategy sw\<rparr>)))"

fun resolve_snapshots ::
  "(string, 'w aggregate_wiring) jmap \<Rightarrow> 'w adapter option \<Rightarrow> error + (string, 'w snapshot_config) jmap" where
  "resolve_snapshots [] adapter = Inr []"
| "resolve_snapshots ((n, aw) # ws) adapter =
     (case aw_snapshots aw of
        None \<Rightarrow> resolve_snapshots ws adapter
      | Some sw \<Rightarrow>
          (case resolve_snapshot_config n sw adapter of
             Inl e \<Rightarrow> Inl e
           | Inr sc \<Rightarrow> (case resolve_snapshots ws adapter of Inl e \<Rightarrow> Inl e | Inr m \<Rightarrow> Inr ((n, sc) # m))))"

section \<open>Concurrency\<close>

definition resolveConcurrency ::
  "'w adapter option \<Rightarrow> string \<Rightarrow> 'w concurrency_wiring option \<Rightarrow> error + 'w strategy" where
  "resolveConcurrency adapter aggregateName concurrency =
     (let adapterLocker = (case adapter of None \<Rightarrow> None | Some a \<Rightarrow> ad_locker a)
      in case concurrency of
           None \<Rightarrow> Inr (Optimistic 0)
         | Some OptimisticShorthand \<Rightarrow> Inr (Optimistic 0)
         | Some PessimisticShorthand \<Rightarrow>
             (case adapterLocker of
                None \<Rightarrow> Inl (ConfigError aggregateName ''pessimistic requires a locker'')
              | Some l \<Rightarrow> Inr (Pessimistic l None))
         | Some (PessimisticObject locker lockTimeoutMs) \<Rightarrow>
             (case (case locker of None \<Rightarrow> adapterLocker | Some l \<Rightarrow> Some l) of
                None \<Rightarrow> Inl (ConfigError aggregateName ''pessimistic requires a locker'')
              | Some l \<Rightarrow> Inr (Pessimistic l lockTimeoutMs))
         | Some (OptimisticObject maxRetries) \<Rightarrow> Inr (Optimistic (or_else maxRetries 0)))"

fun resolve_strategies ::
  "'w adapter option \<Rightarrow> (string, 'w aggregate_wiring) jmap \<Rightarrow> error + (string, 'w strategy) jmap" where
  "resolve_strategies adapter [] = Inr []"
| "resolve_strategies adapter ((n, aw) # ws) =
     (case aw_concurrency aw of
        None \<Rightarrow> resolve_strategies adapter ws
      | Some c \<Rightarrow>
          (case resolveConcurrency adapter n (Some c) of
             Inl e \<Rightarrow> Inl e
           | Inr s \<Rightarrow> (case resolve_strategies adapter ws of Inl e \<Rightarrow> Inl e | Inr m \<Rightarrow> Inr ((n, s) # m))))"

text \<open>Step 5.6 for a per-aggregate wiring.\<close>

definition resolve_per_aggregate_concurrency ::
  "'w adapter option \<Rightarrow> (string, 'w aggregate_wiring) jmap \<Rightarrow> error + 'w strategy" where
  "resolve_per_aggregate_concurrency adapter wirings =
     (case resolve_strategies adapter wirings of
        Inl e \<Rightarrow> Inl e
      | Inr strategies \<Rightarrow>
          Inr (if length strategies > 0 then PerAggregate strategies (Optimistic 0) else Optimistic 0))"

section \<open>Projections\<close>

text \<open>Step 5.9: handlers without an \<^verbatim>\<open>id\<close> get one that reads the aggregate id of the event's
  metadata.\<close>

definition default_view_id :: "string \<Rightarrow> event \<Rightarrow> error + ID" where
  "default_view_id eventName ev =
     (case meta_get md_aggregateId ev of
        None \<Rightarrow> Inl (CannotDeriveViewId eventName)
      | Some i \<Rightarrow> Inr i)"

definition augment_projection :: "'w projection \<Rightarrow> 'w projection" where
  "augment_projection p =
     p\<lparr>pj_on := map (\<lambda>(eventName, h).
         (eventName, case ph_id h of
            Some _ \<Rightarrow> h
          | None \<Rightarrow> h\<lparr>ph_id := Some (default_view_id eventName)\<rparr>)) (pj_on p)\<rparr>"

text \<open>The view store factory of the wiring, else the projection's own; and the resolved projection.\<close>

definition resolve_factory ::
  "'w view_store_factory option \<Rightarrow> 'w projection \<Rightarrow> 'w view_store_factory option" where
  "resolve_factory wired p = (case wired of Some f \<Rightarrow> Some f | None \<Rightarrow> pj_viewStore p)"

definition resolve_projection ::
  "'w view_store_factory option \<Rightarrow> 'w projection \<Rightarrow> 'w projection" where
  "resolve_projection wired p = (if resolve_factory wired p \<noteq> None then augment_projection p else p)"

text \<open>Step 5.7b: a strong projection without a view store is refused.\<close>

fun check_view_stores ::
  "(string, 'w projection \<times> 'w view_store_factory option) jmap \<Rightarrow> error + unit" where
  "check_view_stores [] = Inr ()"
| "check_view_stores ((name, (p, factory)) # ps) =
     (if factory = None \<and> pj_consistency p = Some Strong then Inl (ConfigError name ''strong without viewStore'')
      else check_view_stores ps)"

section \<open>onEventsProduced and onEventsDispatched\<close>

text \<open>The thunk enlisted per strong projection and event: the whole read-modify-write runs at commit.\<close>

definition strong_thunk ::
  "'w view_store_factory \<Rightarrow> 'w projection \<Rightarrow> projection_handler \<Rightarrow> ID \<Rightarrow> event \<Rightarrow> ('w, unit) action" where
  "strong_thunk factory p h viewId ev =
     bind_act (reduce_into (factory True) (pj_initialView p) h viewId ev) (\<lambda>_. ret ())"

fun enlist_strong_events ::
  "'w view_store_factory \<Rightarrow> 'w projection \<Rightarrow> event list \<Rightarrow> ('w uow \<times> 'w, unit) action" where
  "enlist_strong_events factory p [] = ret ()"
| "enlist_strong_events factory p (ev # evs) =
     then_act
       (case jm_get (pj_on p) (ev_name ev) of
          None \<Rightarrow> ret ()
        | Some h \<Rightarrow>
            (case ph_id h of
               None \<Rightarrow> ret ()
             | Some f \<Rightarrow>
                 bind_act (lift_result (f ev))
                   (\<lambda>viewId. on_fst (enlist (strong_thunk factory p h viewId ev)))))
       (enlist_strong_events factory p evs)"

text \<open>One outbox entry per event; \<open>uuid\<close> and \<open>now\<close> are the successive values of the generator and
  of the clock.\<close>

definition outbox_entries :: "(nat \<Rightarrow> string) \<Rightarrow> (nat \<Rightarrow> int) \<Rightarrow> event list \<Rightarrow> outbox_entry list" where
  "outbox_entries uuid now events =
     map (\<lambda>(k, ev). \<lparr>oe_id = uuid k, oe_event = ev,
        oe_aggregateName = meta_get md_aggregateName ev,
        oe_aggregateId = map_option id_string (meta_get md_aggregateId ev),
        oe_createdAt = now k, oe_publishedAt = None\<rparr>) (enumerate 0 events)"

definition onEventsProduced ::
  "('w view_store_factory \<times> 'w projection) list \<Rightarrow> (outbox_entry list \<Rightarrow> ('w, unit) action) option \<Rightarrow>
     (nat \<Rightarrow> string) \<Rightarrow> (nat \<Rightarrow> int) \<Rightarrow> event list \<Rightarrow> ('w uow \<times> 'w, unit) action" where
  "onEventsProduced strongProjections outboxSave uuid now events =
     then_act (for_each (\<lambda>(factory, p). enlist_strong_events factory p events) strongProjections)
       (case outboxSave of
          None \<Rightarrow> ret ()
        | Some save \<Rightarrow>
            if length events > 0 then on_fst (enlist (save (outbox_entries uuid now events))) else ret ())"

definition event_ids :: "event list \<Rightarrow> string list" where
  "event_ids events = List.map_filter event_id events"

definition onEventsDispatched ::
  "(string list \<Rightarrow> ('w, unit) action) \<Rightarrow> event list \<Rightarrow> ('w, unit) action" where
  "onEventsDispatched markPublishedByEventIds events =
     (if length (event_ids events) > 0 then markPublishedByEventIds (event_ids events) else ret ())"

section \<open>Properties of the resolution\<close>

lemma resolve_each_none:
  "resolve_each wirings adapter ns = Inr m \<Longrightarrow> n \<notin> set ns \<Longrightarrow> jm_get m n = None"
  by (induction ns arbitrary: m) (auto simp: jm_get_def split: sum.splits option.splits)

lemma resolve_each_get:
  assumes "distinct ns" and "resolve_each wirings adapter ns = Inr m"
  shows "(n \<notin> set ns \<longrightarrow> jm_get m n = None) \<and>
    (n \<in> set ns \<longrightarrow> resolveAggregatePersistence n
        (case jm_get wirings n of None \<Rightarrow> None | Some aw \<Rightarrow> aw_persistence aw) adapter = Inr (jm_get m n)) \<and>
    length m + length (filter (\<lambda>n. \<not> jm_has m n) ns) = length ns"
  using assms
proof (induction ns arbitrary: m)
  case Nil
  then show ?case by simp
next
  case (Cons k ns)
  let ?r = "resolveAggregatePersistence k (case jm_get wirings k of None \<Rightarrow> None | Some aw \<Rightarrow> aw_persistence aw) adapter"
  from Cons.prems(2) obtain po m' where m': "?r = Inr po" "resolve_each wirings adapter ns = Inr m'"
    "m = (case po of None \<Rightarrow> m' | Some p \<Rightarrow> (k, p) # m')"
    by (auto split: sum.splits)
  from Cons.prems(1) have k: "k \<notin> set ns" "distinct ns" by auto
  note IH = Cons.IH [OF k(2) m'(2)]
  have km: "jm_get m' k = None" by (rule resolve_each_none [OF m'(2) k(1)])
  show ?case
  proof (cases po)
    case None
    then show ?thesis using m' IH km k(1) by (auto simp: jm_has_iff)
  next
    case (Some p)
    have "filter (\<lambda>n. \<not> jm_has m n) ns = filter (\<lambda>n. \<not> jm_has m' n) ns"
      using Some m'(3) k(1) by (intro filter_cong) (auto simp: jm_has_iff jm_get_def)
    then show ?thesis using Some m' IH k(1) by (auto simp: jm_has_iff jm_get_def)
  qed
qed

text \<open>Every registered aggregate has a persistence after init. When a per-aggregate wiring is
  accepted, resolving any registered aggregate at dispatch time succeeds (so the error for a missing
  persistence cannot occur), and it yields the persistence the wiring or the adapter determines for
  that aggregate whenever they determine one.\<close>
lemma wired_aggregates_resolve:
  assumes "distinct aggregateNames" and "n \<in> set aggregateNames"
    and "resolve_per_aggregate aggregateNames wirings adapter fresh = Inr r"
  shows "\<exists>po p. resolveAggregatePersistence n
      (case jm_get wirings n of None \<Rightarrow> None | Some aw \<Rightarrow> aw_persistence aw) adapter = Inr po \<and>
    resolve r n = Inr p \<and> (\<forall>q. po = Some q \<longrightarrow> p = q) \<and> (po = None \<longrightarrow> p = fresh)"
proof -
  from assms(3) obtain m where m: "resolve_each wirings adapter aggregateNames = Inr m"
    by (auto simp: resolve_per_aggregate_def split: option.splits sum.splits)
  note g = resolve_each_get [OF assms(1) m]
  let ?missing = "filter (\<lambda>n. \<not> jm_has m n) aggregateNames"
  have po: "resolveAggregatePersistence n
      (case jm_get wirings n of None \<Rightarrow> None | Some aw \<Rightarrow> aw_persistence aw) adapter = Inr (jm_get m n)"
    using g assms(2) by blast
  have add: "jm_get (m @ map (\<lambda>n. (n, fresh)) ?missing) n =
      (case jm_get m n of None \<Rightarrow> Some fresh | Some q \<Rightarrow> Some q)"
  proof (cases "jm_get m n")
    case None
    then have "n \<in> set ?missing" using assms(2) by (simp add: jm_has_iff)
    then show ?thesis using None by (auto simp: jm_get_def map_add_def map_of_map_restrict split: option.splits)
  next
    case (Some q)
    then show ?thesis by (simp add: jm_get_def map_add_def map_of_map_restrict jm_has_def split: option.splits)
  qed
  show ?thesis
  proof (cases "jm_get m n")
    case None
    then have "n \<in> set ?missing" using assms(2) by (simp add: jm_has_iff)
    then have miss: "0 < length ?missing" by (metis length_pos_if_in_set)
    moreover have "length m + length ?missing = length aggregateNames" using g by blast
    ultimately have "length m < length aggregateNames" by linarith
    with assms(3) m miss have "r = GlobalResolver fresh \<or>
        r = PerAggregateResolver (m @ map (\<lambda>n. (n, fresh)) ?missing)"
      by (auto simp: resolve_per_aggregate_def Let_def split: option.splits if_splits)
    with None po add show ?thesis by auto
  next
    case (Some q)
    then have "m \<noteq> []" by auto
    with assms(3) m have "r = PerAggregateResolver m \<or> r = PerAggregateResolver (m @ map (\<lambda>n. (n, fresh)) ?missing)"
      by (auto simp: resolve_per_aggregate_def Let_def split: option.splits if_splits)
    with Some po add show ?thesis by auto
  qed
qed

definition no_wiring :: "'w aggregate_wiring" where
  "no_wiring = \<lparr>aw_persistence = None, aw_concurrency = None, aw_snapshots = None\<rparr>"

definition bare_adapter :: "'w adapter" where
  "bare_adapter = \<lparr>ad_eventSourced = None, ad_stateStored = None, ad_snapshotLoad = None,
     ad_snapshotSave = (\<lambda>_ _ _ w. (Inr (), w)), ad_locker = None, ad_eventReader = None\<rparr>"

lemma wired_aggregates_resolve_sample:
  "\<exists>r. resolve_per_aggregate [''Order'', ''Room'']
      [(''Order'', no_wiring\<lparr>aw_persistence := Some (Configured (mem_es_persistence True))\<rparr>)]
      (Some bare_adapter) (mem_es_persistence False) = Inr r \<and>
    resolve r ''Room'' = Inr (mem_es_persistence False)"
proof -
  let ?r = "PerAggregateResolver ([(''Order'', mem_es_persistence True)] @ map (\<lambda>n. (n, mem_es_persistence False)) [''Room''])"
  have r: "resolve_per_aggregate [''Order'', ''Room'']
      [(''Order'', no_wiring\<lparr>aw_persistence := Some (Configured (mem_es_persistence True))\<rparr>)]
      (Some bare_adapter) (mem_es_persistence False) = Inr ?r"
    by (simp add: resolve_per_aggregate_def resolveAggregatePersistence_def no_wiring_def bare_adapter_def jm_get_def
        jm_has_def Let_def)
  from wired_aggregates_resolve [OF _ _ this, of "''Room''"]
  have "\<exists>p. resolve ?r ''Room'' = Inr p \<and> p = mem_es_persistence False"
    by (auto simp: resolveAggregatePersistence_def bare_adapter_def jm_get_def)
  with r show ?thesis by auto
qed

lemma resolve_strategies_get:
  assumes "jm_ok wirings" and "resolve_strategies adapter wirings = Inr m"
  shows "\<exists>s. resolveConcurrency adapter n (case jm_get wirings n of None \<Rightarrow> None | Some aw \<Rightarrow> aw_concurrency aw) = Inr s \<and>
    s = (case jm_get m n of None \<Rightarrow> Optimistic 0 | Some s \<Rightarrow> s)"
  using assms
proof (induction wirings arbitrary: m)
  case Nil
  then show ?case by (simp add: resolveConcurrency_def Let_def)
next
  case (Cons kaw ws)
  obtain k aw where kaw: "kaw = (k, aw)" by (cases kaw)
  from Cons.prems(1) kaw have ok: "jm_ok ws" and fresh: "jm_get ws k = None"
    by (auto simp: jm_ok_def jm_get_def map_of_eq_None_iff)
  have absent: "jm_get m' k = None" if "resolve_strategies adapter ws = Inr m'" for m'
    using that fresh
    by (induction ws arbitrary: m') (auto simp: jm_get_def split: option.splits sum.splits if_splits prod.splits)
  show ?case
  proof (cases "aw_concurrency aw")
    case None
    with Cons.prems(2) kaw have m: "resolve_strategies adapter ws = Inr m" by simp
    from Cons.IH [OF ok m] absent [OF m] None kaw show ?thesis
      by (cases "n = k") (auto simp: jm_get_def resolveConcurrency_def Let_def)
  next
    case (Some c)
    with Cons.prems(2) kaw obtain s m' where m': "resolveConcurrency adapter k (Some c) = Inr s"
      "resolve_strategies adapter ws = Inr m'" "m = (k, s) # m'"
      by (auto split: sum.splits)
    from Cons.IH [OF ok m'(2)] m' Some kaw show ?thesis by (cases "n = k") (auto simp: jm_get_def)
  qed
qed

text \<open>Each aggregate gets its own concurrency control. The composite strategy that init builds for
  a per-aggregate wiring executes an attempt for an aggregate exactly as the strategy resolved from
  that aggregate's own setting would: a single optimistic attempt when the aggregate has no wiring
  or no setting.\<close>
lemma per_aggregate_concurrency:
  assumes "jm_ok wirings" and "resolve_per_aggregate_concurrency adapter wirings = Inr strategy"
  shows "\<exists>s. resolveConcurrency adapter n (case jm_get wirings n of None \<Rightarrow> None | Some aw \<Rightarrow> aw_concurrency aw) = Inr s \<and>
    strategy_execute strategy n i attempt = strategy_execute s n i attempt"
proof -
  from assms(2) obtain m where m: "resolve_strategies adapter wirings = Inr m"
    "strategy = (if length m > 0 then PerAggregate m (Optimistic 0) else Optimistic 0)"
    by (auto simp: resolve_per_aggregate_concurrency_def split: sum.splits)
  from resolve_strategies_get [OF assms(1) m(1), of n] m(2) show ?thesis
    by (auto split: option.splits)
qed

lemma per_aggregate_concurrency_sample:
  "\<exists>s. resolveConcurrency None ''Order'' (Some (OptimisticObject (Some 3))) = Inr s \<and>
    strategy_execute (PerAggregate [(''Order'', Optimistic 3)] (Optimistic 0)) ''Order'' (IDNum 1) contended =
      strategy_execute s ''Order'' (IDNum 1) contended"
  using per_aggregate_concurrency [of "[(''Order'', no_wiring\<lparr>aw_concurrency := Some (OptimisticObject (Some 3))\<rparr>)]"
      None "PerAggregate [(''Order'', Optimistic 3)] (Optimistic 0)" "''Order''" "IDNum 1" contended]
  by (simp add: jm_ok_def resolve_per_aggregate_concurrency_def resolveConcurrency_def no_wiring_def jm_get_def Let_def)

text \<open>An aggregate that happens to be called like one of the three settings makes the whole record
  read as a global wiring.\<close>

lemma aggregate_named_persistence_misread:
  "isGlobalAggregateWiring (Some [''Order'', ''persistence''])"
  "\<not> isGlobalAggregateWiring (Some [''Order'', ''Room''])"
  by (simp_all add: isGlobalAggregateWiring_def)

lemma augment_has_ids: "has_ids (augment_projection p)"
  by (auto simp: has_ids_def augment_projection_def list_all_iff split: option.splits)

lemma augment_get:
  "jm_get (pj_on (augment_projection p)) n =
     map_option (\<lambda>h. case ph_id h of Some _ \<Rightarrow> h | None \<Rightarrow> h\<lparr>ph_id := Some (default_view_id n)\<rparr>) (jm_get (pj_on p) n)"
proof -
  have "map_of (map (\<lambda>(k, h). (k, f k h)) xs) n = map_option (f n) (map_of xs n)" for f and xs :: "(string \<times> projection_handler) list"
    by (induction xs) auto
  then show ?thesis by (simp add: jm_get_def augment_projection_def)
qed

section \<open>Properties of the callbacks\<close>

text \<open>C39: A strong-consistency projection does at commit what an eventual one does on delivery. If
  enlisting the view updates for a batch of events succeeds, it changes nothing but the list of
  operations, and running the enlisted operations at commit has, from every state, the same outcome
  and the same effect as delivering the events one after another to the projection over the
  transaction-scoped view store.\<close>
theorem strong_projection_equals_delivery:
  assumes "has_ids p" and "\<not> u_completed u"
    and "enlist_strong_events factory p evs (u, w) = (Inr (), (u', w'))"
  shows "\<exists>ops. u' = u\<lparr>u_operations := u_operations u @ ops\<rparr> \<and> w' = w \<and>
    (\<forall>v. run_operations ops v = for_each (deliver (factory True) p) evs v)"
  using assms(2,3)
proof (induction evs arbitrary: u)
  case Nil
  then show ?case by (intro exI [of _ "[]"]) (simp add: ret_def run_operations_def)
next
  case (Cons ev evs)
  show ?case
  proof (cases "jm_get (pj_on p) (ev_name ev)")
    case None
    with Cons.prems have "enlist_strong_events factory p evs (u, w) = (Inr (), (u', w'))"
      by (simp add: then_act_def bind_act_def ret_def)
    from Cons.IH [OF Cons.prems(1) this] None show ?thesis by (simp add: deliver_def ret_def)
  next
    case (Some h)
    obtain f where f: "ph_id h = Some f" using has_idsD [OF assms(1) Some] by blast
    with Some Cons.prems obtain i where i: "f ev = Inr i"
      by (cases "f ev") (auto simp: then_act_def bind_act_def lift_result_def)
    let ?op = "strong_thunk factory p h i ev"
    let ?u = "u\<lparr>u_operations := u_operations u @ [?op]\<rparr>"
    have "enlist_strong_events factory p evs (?u, w) = (Inr (), (u', w'))"
      using Cons.prems Some f i by (simp add: then_act_def bind_act_def lift_result_def on_fst_def)
    moreover have "\<not> u_completed ?u" using Cons.prems(1) by simp
    ultimately obtain ops where ops: "u' = ?u\<lparr>u_operations := u_operations ?u @ ops\<rparr>" "w' = w"
      "\<forall>v. run_operations ops v = for_each (deliver (factory True) p) evs v"
      using Cons.IH [of ?u] by blast
    have "?op v = deliver (factory True) p ev v" for v
      using Some f i by (simp add: strong_thunk_def deliver_def run_projection_def bind_act_def lift_result_def)
    then have "run_operations (?op # ops) v = for_each (deliver (factory True) p) (ev # evs) v" for v
      using ops(3) by (auto simp: run_operations_Cons split: prod.split sum.split)
    with ops(1,2) show ?thesis by (intro exI [of _ "?op # ops"]) simp
  qed
qed

theorem strong_projection_equals_delivery_witness:
  "\<exists>u' ops. enlist_strong_events mv_getForContext sample_projection [log_event ''Opened'' 4, log_event ''Other'' 1]
      (createInMemoryUnitOfWork, ([], ())) = (Inr (), (u', ([], ()))) \<and> u_operations u' = ops \<and>
    run_operations ops ([], ()) = (Inr (), ([(''v'', JNum 4)], ()))"
proof -
  let ?evs = "[log_event ''Opened'' 4, log_event ''Other'' 1]"
  let ?out = "enlist_strong_events mv_getForContext sample_projection ?evs (createInMemoryUnitOfWork, ([], ()))"
  have ids: "has_ids sample_projection" by (simp add: has_ids_def sample_projection_def)
  have ok: "fst ?out = Inr ()"
    by (simp add: sample_projection_def log_event_def jm_get_def then_act_def bind_act_def lift_result_def on_fst_def ret_def)
  obtain u' w' where o: "?out = (Inr (), (u', w'))" using ok by (metis prod.collapse)
  have live: "for_each (deliver (mv_getForContext True) sample_projection) ?evs ([], ()) = (Inr (), ([(''v'', JNum 4)], ()))"
    by code_simp
  from strong_projection_equals_delivery [OF ids new_uow_simps(3) o] live o show ?thesis by auto
qed

lemma outbox_entries_events: "map oe_event (outbox_entries uuid now evs) = evs"
  by (simp add: outbox_entries_def comp_def case_prod_beta)

lemma outbox_save_fresh:
  assumes "distinct (map oe_id es)" and "\<forall>e \<in> set es. jm_get store (oe_id e) = None"
  shows "fold (\<lambda>e. jm_set (oe_id e) e) es store = store @ map (\<lambda>e. (oe_id e, e)) es"
  using assms
proof (induction es arbitrary: store)
  case Nil
  then show ?case by simp
next
  case (Cons e es)
  have "jm_set (oe_id e) e store = store @ [(oe_id e, e)]" using Cons.prems(2) by (simp add: jm_set_new)
  moreover have "\<forall>x \<in> set es. jm_get (store @ [(oe_id e, e)]) (oe_id x) = None"
    using Cons.prems by (auto simp: jm_get_def map_add_def) (metis image_eqI)
  ultimately show ?case using Cons.IH [of "store @ [(oe_id e, e)]"] Cons.prems(1) by simp
qed

text \<open>The outbox covers exactly the events of a command. The entries enlisted for a batch are one
  per event in order; saved at commit under fresh ids they become pending without disturbing any
  other entry; and when, after publishing, the batch's event ids are marked, none of its entries is
  pending any more, while an entry for an event with another id is pending exactly if it was before.
  So an event that was committed but not published stays pending for the relay.\<close>
lemma outbox_covers_batch:
  assumes "entries = outbox_entries uuid clock evs"
    and "distinct (map oe_id entries)" and "\<forall>e \<in> set entries. jm_get store (oe_id e) = None"
    and "\<forall>ev \<in> set evs. event_id ev \<noteq> None"
    and "outbox_save entries store = (Inr (), store1)"
    and "outbox_markPublishedByEventIds now (event_ids evs) store1 = (Inr (), store2)"
  shows "map oe_event entries = evs \<and>
    set (pending store1) = set (pending store) \<union> set entries \<and>
    set (pending store2) = {e \<in> set (pending store). event_id (oe_event e) \<notin> Some ` set (event_ids evs)}"
proof -
  have ids: "set (event_ids evs) = {i. \<exists>ev \<in> set evs. event_id ev = Some i}"
    by (auto simp: event_ids_def List.map_filter_def intro!: image_eqI [rotated])
  have st1: "store1 = store @ map (\<lambda>e. (oe_id e, e)) entries"
    using assms(5) outbox_save_fresh [OF assms(2,3)] by (simp add: outbox_save_def)
  have new: "oe_publishedAt e = None \<and> oe_event e \<in> set evs" if "e \<in> set entries" for e
    using that assms(1) by (auto simp: outbox_entries_def in_set_enumerate_eq)
  have pend: "set (pending s) = {e. \<exists>k. (k, e) \<in> set s \<and> oe_publishedAt e = None}" for s
    by (force simp: pending_def)
  let ?hit = "\<lambda>e. oe_publishedAt e = None \<and>
      (case event_id (oe_event e) of None \<Rightarrow> False | Some i \<Rightarrow> i \<in> set (event_ids evs))"
  have st2: "store2 = map (\<lambda>(k, e). (k, if ?hit e then e\<lparr>oe_publishedAt := Some now\<rparr> else e)) store1"
    using assms(6) by (simp add: outbox_markPublishedByEventIds_def)
  have p1: "set (pending store1) = set (pending store) \<union> set entries"
    unfolding pend st1 using new by auto
  have "set (pending store2) = {e \<in> set (pending store1). \<not> ?hit e}"
    unfolding pend st2 by (force split: if_splits)
  also have "\<dots> = {e \<in> set (pending store). event_id (oe_event e) \<notin> Some ` set (event_ids evs)}"
  proof -
    have e: "\<exists>i \<in> set (event_ids evs). event_id (oe_event e) = Some i" if "e \<in> set entries" for e
      using new [OF that] assms(4) ids by fastforce
    have "?hit e \<longleftrightarrow> event_id (oe_event e) \<in> Some ` set (event_ids evs)" if "e \<in> set (pending store1)" for e
    proof -
      have "oe_publishedAt e = None" using that by (auto simp: pend)
      then show ?thesis by (auto split: option.splits)
    qed
    then have "{e \<in> set (pending store1). \<not> ?hit e} =
        {e \<in> set (pending store1). event_id (oe_event e) \<notin> Some ` set (event_ids evs)}" by blast
    then show ?thesis unfolding p1 using e by fastforce
  qed
  finally show ?thesis using p1 assms(1) outbox_entries_events by auto
qed

definition stamped :: "string \<Rightarrow> event" where
  "stamped i = \<lparr>ev_name = ''E'', ev_payload = JNull, ev_metadata = Some \<lparr>md_eventId = i, md_timestamp = 0,
     md_correlationId = ''c'', md_causationId = ''x'', md_userId = None, md_version = None, md_aggregateName = None,
     md_aggregateId = None, md_sequenceNumber = None, md_traceparent = None, md_tracestate = None\<rparr>\<rparr>"

lemma outbox_covers_batch_sample:
  "set (pending (snd (outbox_markPublishedByEventIds 9 (event_ids [stamped ''e1'', stamped ''e2''])
     (snd (outbox_save (outbox_entries (\<lambda>k. replicate (Suc k) CHR ''u'') (\<lambda>k. 5) [stamped ''e1'', stamped ''e2''])
        [(''z'', sample_entry ''z'' 1)]))))) =
   {e \<in> set (pending [(''z'', sample_entry ''z'' 1)]).
      event_id (oe_event e) \<notin> Some ` set (event_ids [stamped ''e1'', stamped ''e2''])}"
proof -
  let ?evs = "[stamped ''e1'', stamped ''e2'']" and ?store = "[(''z'', sample_entry ''z'' 1)]"
  let ?es = "outbox_entries (\<lambda>k. replicate (Suc k) CHR ''u'') (\<lambda>k. 5) ?evs"
  have d: "distinct (map oe_id ?es)" by (simp add: outbox_entries_def)
  have f: "\<forall>e \<in> set ?es. jm_get ?store (oe_id e) = None" by (simp add: outbox_entries_def jm_get_def)
  have e: "\<forall>ev \<in> set ?evs. event_id ev \<noteq> None" by (simp add: stamped_def)
  have s: "outbox_save ?es ?store = (Inr (), snd (outbox_save ?es ?store))" by (simp add: outbox_save_def)
  have m: "outbox_markPublishedByEventIds 9 (event_ids ?evs) (snd (outbox_save ?es ?store)) =
      (Inr (), snd (outbox_markPublishedByEventIds 9 (event_ids ?evs) (snd (outbox_save ?es ?store))))"
    by (simp add: outbox_markPublishedByEventIds_def)
  from outbox_covers_batch [OF refl d f e s m] show ?thesis by (elim conjE)
qed

end
