(* ===== verification/Saga_Executor.thy ===== *)
theory Saga_Executor
  imports Command_Executor Buses
begin

text \<open>
  The saga lifecycle (\<^verbatim>\<open>executors/saga-executor.ts\<close>) and saga definitions
  (\<^verbatim>\<open>core/src/ddd/saga.ts\<close>): derive the instance, load or bootstrap its state, run the
  handler, then persist the new state and dispatch the reaction commands, either in one unit of work
  (atomic) or state first (best-effort). The first component of the state is the unit of work of the
  enclosing \<^verbatim>\<open>uowStorage.run\<close> scope; the metadata context of \<^verbatim>\<open>metadataStorage.run\<close> is an
  argument of the command bus. Logging and tracing spans only observe and are left out.
\<close>

datatype reaction_commands = NoCommands | OneCommand command | ManyCommands "command list"

record reaction =
  re_state :: jsval
  re_commands :: reaction_commands

datatype atomicity = Atomic | BestEffort

record 'w saga_entry =
  se_id :: "event \<Rightarrow> error + ID"
  se_handle :: "event \<Rightarrow> jsval \<Rightarrow> ('w, reaction) action"

record 'w saga =
  sg_initialState :: jsval
  sg_startedBy :: "string list"
  sg_on :: "(string, 'w saga_entry) jmap"
  sg_atomicity :: "atomicity option"

definition defineSaga :: "'w saga \<Rightarrow> 'w saga" where
  "defineSaga config = config"

record 'w saga_executor =
  sx_load :: "string \<Rightarrow> ID \<Rightarrow> ('w, (jsval \<times> int) option) action"
  sx_save :: "string \<Rightarrow> ID \<Rightarrow> jsval \<Rightarrow> int \<Rightarrow> ('w, unit) action"
  sx_newUow :: "'w uow"
  sx_commit :: "('w uow \<times> 'w, event list) action"
  sx_dispatchCommand :: "metadata_context option \<Rightarrow> command \<Rightarrow> ('w uow option \<times> 'w, unit) action"
  sx_dispatch :: "event \<Rightarrow> ('w, unit) action"
  sx_onEventsDispatched :: "(event list \<Rightarrow> ('w, unit) action) option"
  sx_uuid :: "'w \<Rightarrow> string"

section \<open>Steps of execute\<close>

text \<open>Step 6: the context that reaction commands inherit. Its \<^verbatim>\<open>userId\<close> property is present
  also when the event has none.\<close>

definition saga_context :: "string \<Rightarrow> event \<Rightarrow> metadata_context" where
  "saga_context uuid ev =
     \<lparr>ctx_correlationId = Some (Some (or_else (meta_get (\<lambda>m. Some (md_correlationId m)) ev) uuid)),
      ctx_causationId = Some (Some (or_else (event_id ev) (ev_name ev))),
      ctx_userId = Some (meta_get md_userId ev)\<rparr>"

definition commands_of :: "reaction \<Rightarrow> command list" where
  "commands_of r = (case re_commands r of NoCommands \<Rightarrow> [] | OneCommand c \<Rightarrow> [c] | ManyCommands cs \<Rightarrow> cs)"

text \<open>Steps 3 and 4: the state to react from, or nothing when the saga has not started.\<close>

definition saga_start_state ::
  "'w saga \<Rightarrow> event \<Rightarrow> (jsval \<times> int) option \<Rightarrow> (jsval \<times> int) option" where
  "saga_start_state saga ev loaded =
     (case loaded of
        None \<Rightarrow> if ev_name ev \<in> set (sg_startedBy saga) then Some (sg_initialState saga, 0) else None
      | Some sv \<Rightarrow> Some sv)"

text \<open>Running inside \<^verbatim>\<open>uowStorage.run(uow, \<dots>)\<close>.\<close>

definition in_uow :: "('w uow option \<times> 'w, 'a) action \<Rightarrow> ('w uow \<times> 'w, 'a) action" where
  "in_uow m s = (case m (Some (fst s), snd s) of (r, (su, w')) \<Rightarrow> (r, (or_else su (fst s), w')))"

definition dispatch_commands ::
  "'w saga_executor \<Rightarrow> metadata_context \<Rightarrow> command list \<Rightarrow> ('w uow option \<times> 'w, unit) action" where
  "dispatch_commands sx ctx commands = for_each (sx_dispatchCommand sx (Some ctx)) commands"

text \<open>The commit phase of both modes, with \<^verbatim>\<open>failCommitPhase\<close>: a best-effort rollback, then the
  error again.\<close>

definition commit_phase ::
  "'w saga_executor \<Rightarrow> atomicity \<Rightarrow> string \<Rightarrow> ID \<Rightarrow> int \<Rightarrow> reaction \<Rightarrow> metadata_context \<Rightarrow>
     ('w uow \<times> 'w, event list) action" where
  "commit_phase sx mode sagaName sagaId expectedVersion reaction ctx =
     catch_act
       (then_act (on_fst (enlist (sx_save sx sagaName sagaId (re_state reaction) expectedVersion)))
         (then_act
           (case mode of
              Atomic \<Rightarrow> in_uow (dispatch_commands sx ctx (commands_of reaction))
            | BestEffort \<Rightarrow> ret ())
           (sx_commit sx)))
       (\<lambda>e. then_act (on_fst (swallow rollback)) (throw e))"

text \<open>Steps 5 to 7. The hooks run once: after the commit and before publishing, or, on failure, in
  the \<^verbatim>\<open>finally\<close> block; their failure is swallowed.\<close>

definition react ::
  "'w saga_executor \<Rightarrow> string \<Rightarrow> 'w saga \<Rightarrow> event \<Rightarrow> ID \<Rightarrow> 'w saga_entry \<Rightarrow> jsval \<Rightarrow> int \<Rightarrow>
     ('w uow option \<times> 'w, unit) action" where
  "react sx sagaName saga ev sagaId onEntry currentState expectedVersion =
     bind_act (on_snd (se_handle onEntry ev currentState))
       (\<lambda>reaction (outer, w).
          let ctx = saga_context (sx_uuid sx w) ev;
              mode = or_else (sg_atomicity saga) Atomic
          in case commit_phase sx mode sagaName sagaId expectedVersion reaction ctx (sx_newUow sx, w) of
               (Inl e, s) \<Rightarrow> (Inl e, (outer, snd (snd (swallow (runUowCompletionHooks False) s))))
             | (Inr events, s) \<Rightarrow>
                 then_act
                   (on_snd (publish (sx_dispatch sx) (sx_onEventsDispatched sx) events))
                   (case mode of
                      Atomic \<Rightarrow> ret ()
                    | BestEffort \<Rightarrow>
                        if length (commands_of reaction) > 0
                        then dispatch_commands sx ctx (commands_of reaction) else ret ())
                   (outer, snd (snd (swallow (runUowCompletionHooks True) s))))"

definition saga_execute ::
  "'w saga_executor \<Rightarrow> string \<Rightarrow> 'w saga \<Rightarrow> event \<Rightarrow> ('w uow option \<times> 'w, unit) action" where
  "saga_execute sx sagaName saga ev =
     (case jm_get (sg_on saga) (ev_name ev) of
        None \<Rightarrow> ret ()
      | Some onEntry \<Rightarrow>
          bind_act (lift_result (se_id onEntry ev))
            (\<lambda>sagaId. bind_act (on_snd (sx_load sx sagaName sagaId))
              (\<lambda>loaded. case saga_start_state saga ev loaded of
                 None \<Rightarrow> ret ()
               | Some (currentState, expectedVersion) \<Rightarrow>
                   react sx sagaName saga ev sagaId onEntry currentState expectedVersion)))"

section \<open>The in-memory configuration\<close>

definition mem_saga_executor ::
  "(metadata_context option \<Rightarrow> command \<Rightarrow> ((saga_store \<times> 'u) uow option \<times> (saga_store \<times> 'u), unit) action) \<Rightarrow>
     (event \<Rightarrow> ('u, unit) action) \<Rightarrow> string \<Rightarrow> (saga_store \<times> 'u) saga_executor" where
  "mem_saga_executor dispatchCommand dispatch uuid =
     \<lparr>sx_load = (\<lambda>n i. on_fst (saga_load n i)), sx_save = (\<lambda>n i st v. on_fst (saga_save n i st v)),
      sx_newUow = createInMemoryUnitOfWork, sx_commit = commit, sx_dispatchCommand = dispatchCommand,
      sx_dispatch = (\<lambda>ev. on_snd (dispatch ev)), sx_onEventsDispatched = None, sx_uuid = (\<lambda>_. uuid)\<rparr>"

lemma mem_saga_executor_simps [simp]:
  "sx_load (mem_saga_executor dc d uu) = (\<lambda>n i. on_fst (saga_load n i))"
  "sx_save (mem_saga_executor dc d uu) = (\<lambda>n i st v. on_fst (saga_save n i st v))"
  "sx_newUow (mem_saga_executor dc d uu) = createInMemoryUnitOfWork"
  "sx_commit (mem_saga_executor dc d uu) = commit"
  "sx_dispatchCommand (mem_saga_executor dc d uu) = dc"
  "sx_dispatch (mem_saga_executor dc d uu) = (\<lambda>ev. on_snd (d ev))"
  "sx_onEventsDispatched (mem_saga_executor dc d uu) = None"
  "sx_uuid (mem_saga_executor dc d uu) w = uu"
  by (simp_all add: mem_saga_executor_def)

text \<open>From an event that the saga reacts to, in the in-memory configuration: the reaction runs on the
  stored or initial state.\<close>

lemma mem_saga_reacts:
  assumes "jm_get (sg_on saga) (ev_name ev) = Some entry" and "se_id entry ev = Inr i"
    and "saga_start_state saga ev (jm_get store (instance_key n i)) = Some (st0, v)"
  shows "saga_execute (mem_saga_executor dc d uu) n saga ev (outer, (store, x)) =
    react (mem_saga_executor dc d uu) n saga ev i entry st0 v (outer, (store, x))"
  using assms
  by (simp add: saga_execute_def bind_act_def lift_result_def on_snd_def on_fst_def saga_load_def Let_def)

lemma start_version:
  assumes "saga_start_state saga ev (jm_get store k) = Some (st0, v)"
  shows "v = (case jm_get store k of None \<Rightarrow> 0 | Some (_, v) \<Rightarrow> v)"
  using assms by (auto simp: saga_start_state_def split: option.splits if_splits)

lemma saga_save_current:
  assumes "saga_start_state saga ev (jm_get store (instance_key n i)) = Some (st0, v)"
  shows "saga_save n i st v store = (Inr (), jm_set (instance_key n i) (st, v + 1) store)"
  using start_version [OF assms] by (simp add: saga_save_def Let_def split: option.splits)

section \<open>Properties\<close>

text \<open>The unit of work as the reaction commands find it: the saga's own save is enlisted first.\<close>

definition saga_uow :: "string \<Rightarrow> ID \<Rightarrow> jsval \<Rightarrow> int \<Rightarrow> (saga_store \<times> 'u) uow" where
  "saga_uow n i st v = createInMemoryUnitOfWork\<lparr>u_operations := [on_fst (saga_save n i st v)]\<rparr>"

lemma saga_uow_simps [simp]:
  "\<not> u_completed (saga_uow n i st v)" "u_hooks (saga_uow n i st v) = None" "u_pendingEvents (saga_uow n i st v) = []"
  "u_operations (saga_uow n i st v) = [on_fst (saga_save n i st v)]"
  by (simp_all add: saga_uow_def)

lemma mem_commit_phase_atomic:
  "commit_phase (mem_saga_executor dc d uu) Atomic n i v re ctx (createInMemoryUnitOfWork, w) =
     (case dispatch_commands (mem_saga_executor dc d uu) ctx (commands_of re) (Some (saga_uow n i (re_state re) v), w) of
        (Inl e, (su, w')) \<Rightarrow> (Inl e, (snd (swallow rollback (or_else su (saga_uow n i (re_state re) v))), w'))
      | (Inr _, (su, w')) \<Rightarrow>
          catch_act commit (\<lambda>e. then_act (on_fst (swallow rollback)) (throw e))
            (or_else su (saga_uow n i (re_state re) v), w'))"
  by (auto simp: commit_phase_def catch_act_def then_act_def bind_act_def on_fst_def in_uow_def swallow_def throw_def
      saga_uow_def split: prod.splits sum.splits)

lemma no_hooks: "u_hooks u = None \<Longrightarrow> swallow (runUowCompletionHooks b) (u, w) = (Inr (), (u, w))"
  by (simp add: swallow_def runUowCompletionHooks_def)

lemma rollback_hooks: "u_hooks (snd (rollback u)) = u_hooks u"
  by (simp add: rollback_def then_act_def bind_act_def assertNotCompleted_def)


definition sample_saga :: "atomicity option \<Rightarrow> (saga_store \<times> int) saga" where
  "sample_saga mode =
     \<lparr>sg_initialState = JNum 0, sg_startedBy = [''Placed''],
      sg_on = [(''Placed'', \<lparr>se_id = (\<lambda>ev. Inr (IDNum 7)),
        se_handle = (\<lambda>ev st w. (Inr \<lparr>re_state = JNum 1, re_commands = OneCommand (sample_command ''Pay'')\<rparr>, w))\<rparr>)],
      sg_atomicity = mode\<rparr>"

definition refusing_bus :: "metadata_context option \<Rightarrow> command \<Rightarrow> ((saga_store \<times> int) uow option \<times> (saga_store \<times> int), unit) action" where
  "refusing_bus ctx c s = (Inl (UserError ''declined''), s)"

definition count_events :: "event \<Rightarrow> (int, unit) action" where
  "count_events ev k = (Inr (), k + 1)"

text \<open>A bus whose command defers an event to the shared unit of work.\<close>

definition accepting_bus :: "metadata_context option \<Rightarrow> command \<Rightarrow> ((saga_store \<times> int) uow option \<times> (saga_store \<times> int), unit) action" where
  "accepting_bus ctx c s =
     (Inr (), (map_option (\<lambda>u. u\<lparr>u_pendingEvents := u_pendingEvents u @
        [\<lparr>ev_name = ''Paid'', ev_payload = JNull, ev_metadata = None\<rparr>]\<rparr>) (fst s), snd s))"


text \<open>In the best-effort mode the saga state is durable before its commands run. The handler's
  state is committed first, at the next version; the reaction commands are then dispatched outside
  the saga's unit of work on a world that already holds that state, and the saga's outcome is
  theirs: a command that throws makes the saga throw, with the new state kept.\<close>
lemma saga_best_effort_state_first:
  fixes d :: "event \<Rightarrow> ('u, unit) action"
  assumes "jm_get (sg_on saga) (ev_name ev) = Some entry" and "se_id entry ev = Inr i"
    and "saga_start_state saga ev (jm_get store (instance_key n i)) = Some (st0, v)"
    and "sg_atomicity saga = Some BestEffort"
    and "se_handle entry ev st0 (store, x) = (Inr re, (store, x))" and "commands_of re \<noteq> []"
  shows "saga_execute (mem_saga_executor dc d uu) n saga ev (outer, (store, x)) =
    dispatch_commands (mem_saga_executor dc d uu) (saga_context uu ev) (commands_of re)
      (outer, (jm_set (instance_key n i) (re_state re, v + 1) store, x))"
proof -
  let ?sx = "mem_saga_executor dc d uu" and ?store' = "jm_set (instance_key n i) (re_state re, v + 1) store"
  have "run_operations (u_operations (saga_uow n i (re_state re) v)) (store, x) = (Inr (), (?store', x))"
    using saga_save_current [OF assms(3)] by (simp add: run_operations_def on_fst_def)
  then have c: "commit (saga_uow n i (re_state re) v, (store, x)) =
      (Inr [], ((saga_uow n i (re_state re) v)\<lparr>u_completed := True\<rparr>, (?store', x)))"
    by (subst mem_uow.cmt_ok) auto
  have "commit_phase ?sx BestEffort n i v re (saga_context uu ev) (createInMemoryUnitOfWork, (store, x)) =
      (Inr [], ((saga_uow n i (re_state re) v)\<lparr>u_completed := True\<rparr>, (?store', x)))"
    using c by (simp add: commit_phase_def catch_act_def then_act_def bind_act_def on_fst_def ret_def saga_uow_def)
  then show ?thesis
    unfolding mem_saga_reacts [OF assms(1-3)]
    using assms(4-6)
    by (simp add: react_def bind_act_def on_snd_def no_hooks Let_def publish_def then_act_def ret_def)
qed

lemma saga_best_effort_state_first_sample:
  "saga_execute (mem_saga_executor refusing_bus count_events ''u'') ''Fulfil'' (sample_saga (Some BestEffort))
     \<lparr>ev_name = ''Placed'', ev_payload = JNull, ev_metadata = None\<rparr> (None, ([], 0)) =
   (Inl (UserError ''declined''), (None, ([(instance_key ''Fulfil'' (IDNum 7), (JNum 1, 1))], 0)))"
proof -
  let ?ev = "\<lparr>ev_name = ''Placed'', ev_payload = JNull, ev_metadata = None\<rparr>"
  let ?entry = "snd (hd (sg_on (sample_saga (Some BestEffort))))"
  let ?re = "\<lparr>re_state = JNum 1, re_commands = OneCommand (sample_command ''Pay'')\<rparr>"
  have a: "jm_get (sg_on (sample_saga (Some BestEffort))) (ev_name ?ev) = Some ?entry" "se_id ?entry ?ev = Inr (IDNum 7)"
    "saga_start_state (sample_saga (Some BestEffort)) ?ev (jm_get [] (instance_key ''Fulfil'' (IDNum 7))) = Some (JNum 0, 0)"
    "sg_atomicity (sample_saga (Some BestEffort)) = Some BestEffort"
    "se_handle ?entry ?ev (JNum 0) ([], 0) = (Inr ?re, ([], 0))" "commands_of ?re \<noteq> []"
    by (simp_all add: sample_saga_def jm_get_def saga_start_state_def commands_of_def)
  from saga_best_effort_state_first [OF a, of refusing_bus count_events "''u''" None] show ?thesis
    by (simp add: dispatch_commands_def commands_of_def refusing_bus_def jm_set_def)
qed

text \<open>A saga reacts only to its own events and only once started. An event the saga has no entry
  for, or one whose instance does not exist and whose name is not among those that start the saga,
  is ignored: the call succeeds and neither the saga store nor anything else changes.\<close>
lemma saga_ignores_foreign_events:
  assumes "jm_get (sg_on saga) (ev_name ev) = None \<or>
    (\<exists>entry i. jm_get (sg_on saga) (ev_name ev) = Some entry \<and> se_id entry ev = Inr i \<and>
       jm_get store (instance_key n i) = None \<and> ev_name ev \<notin> set (sg_startedBy saga))"
  shows "saga_execute (mem_saga_executor dc d uu) n saga ev (outer, (store, x)) = (Inr (), (outer, (store, x)))"
  using assms
  by (auto simp: saga_execute_def ret_def bind_act_def lift_result_def on_snd_def on_fst_def saga_load_def
      saga_start_state_def Let_def)

lemma saga_ignores_foreign_events_sample:
  "saga_execute (mem_saga_executor refusing_bus count_events ''u'') ''Fulfil'' (sample_saga None)
     \<lparr>ev_name = ''Paid'', ev_payload = JNull, ev_metadata = None\<rparr> (None, ([], 3)) = (Inr (), (None, ([], 3)))"
  by (rule saga_ignores_foreign_events) (simp add: sample_saga_def jm_get_def)

end
