(* ===== verification/Subscriptions.thy ===== *)
theory Subscriptions
  imports Wiring Saga_Executor
begin

text \<open>
  The registration half of \<^verbatim>\<open>Domain.init\<close> (\<^verbatim>\<open>domain.ts\<close>, steps 8 to 12): query
  handlers on the query bus, and the subscriptions of eventual-consistency projections, sagas and
  standalone event handlers on the event bus, with the registry of projection handlers that
  \<^verbatim>\<open>rebuildProjection\<close> detaches and re-attaches. A closure created by init is a handler with a
  fresh identity.
\<close>

section \<open>Queries\<close>

text \<open>A projection's query handlers see the base view store of the projection, if it has one.\<close>

type_synonym 's query_handler = "jsval \<Rightarrow> 's view_store option \<Rightarrow> ('s, jsval) action"

definition projection_queries ::
  "((string, 's query_handler) jmap \<times> 's view_store option) list \<Rightarrow>
     (string \<times> (jsval \<Rightarrow> ('s, jsval) action)) list" where
  "projection_queries projections =
     concat (map (\<lambda>(queryHandlers, store). map (\<lambda>(n, h). (n, \<lambda>payload. h payload store)) queryHandlers) projections)"

definition register_queries ::
  "((string, 's query_handler) jmap \<times> 's view_store option) list \<Rightarrow>
     (string \<times> (jsval \<Rightarrow> ('s, jsval) action)) list \<Rightarrow> ('s query_bus, unit) action" where
  "register_queries projections standalone =
     for_each (\<lambda>(n, h). qb_register n h) (projection_queries projections @ standalone)"

section \<open>Event subscriptions\<close>

record 's subscriptions =
  sb_next :: nat
  sb_registry :: "(string, (string, 's handler) jmap) jmap"
  sb_bus :: "'s event_bus"

definition no_subscriptions :: "'s subscriptions" where
  "no_subscriptions = \<lparr>sb_next = 0, sb_registry = [], sb_bus = []\<rparr>"

definition subscribeToEvent ::
  "string \<Rightarrow> string \<Rightarrow> (event \<Rightarrow> ('s, unit) action) \<Rightarrow> 's subscriptions \<Rightarrow> 's subscriptions" where
  "subscribeToEvent eventName label run st =
     st\<lparr>sb_next := Suc (sb_next st),
        sb_bus := ee_on eventName \<lparr>hd_id = sb_next st, hd_name = label, hd_run = run\<rparr> (sb_bus st)\<rparr>"

text \<open>Step 10, one event of one projection: the bound handler is recorded, then subscribed.\<close>

definition subscribe_projection_event ::
  "string \<Rightarrow> 's view_store \<Rightarrow> 's projection \<Rightarrow> string \<times> projection_handler \<Rightarrow> 's subscriptions \<Rightarrow> 's subscriptions" where
  "subscribe_projection_event projectionName store p eh st =
     (case eh of (eventName, h) \<Rightarrow>
        (case ph_id h of
           None \<Rightarrow> st
         | Some _ \<Rightarrow>
             let bound = \<lparr>hd_id = sb_next st, hd_name = ''boundHandler'', hd_run = run_projection store (pj_initialView p) h\<rparr>;
                 own = or_else (jm_get (sb_registry st) projectionName) []
             in subscribeToEvent eventName ''boundHandler'' (run_projection store (pj_initialView p) h)
                  (st\<lparr>sb_registry := jm_set projectionName (jm_set eventName bound own) (sb_registry st)\<rparr>)))"

definition subscribe_projection ::
  "string \<times> ('s projection \<times> 's view_store option) \<Rightarrow> 's subscriptions \<Rightarrow> 's subscriptions" where
  "subscribe_projection entry st =
     (case entry of (projectionName, (p, viewStoreInstance)) \<Rightarrow>
        if pj_consistency p = Some Strong then st
        else (case viewStoreInstance of
                None \<Rightarrow> st
              | Some store \<Rightarrow> fold (subscribe_projection_event projectionName store p) (pj_on p) st))"

text \<open>Step 11; \<open>exec\<close> is \<^verbatim>\<open>this._sagaExecutor.execute\<close>.\<close>

definition subscribe_saga ::
  "(string \<Rightarrow> 'w saga \<Rightarrow> event \<Rightarrow> ('s, unit) action) \<Rightarrow> string \<times> 'w saga \<Rightarrow> 's subscriptions \<Rightarrow> 's subscriptions" where
  "subscribe_saga exec entry st =
     (case entry of (sagaName, saga) \<Rightarrow>
        fold (\<lambda>(eventName, _). subscribeToEvent eventName [] (exec sagaName saga)) (sg_on saga) st)"

text \<open>Steps 10, 11 and 12 in this order.\<close>

definition subscribe_all ::
  "(string \<Rightarrow> 'w saga \<Rightarrow> event \<Rightarrow> ('s, unit) action) \<Rightarrow>
     (string, 's projection \<times> 's view_store option) jmap \<Rightarrow> (string, 'w saga) jmap \<Rightarrow>
     (string, event \<Rightarrow> ('s, unit) action) jmap \<Rightarrow> 's subscriptions \<Rightarrow> 's subscriptions" where
  "subscribe_all exec projections sagas standalone st =
     fold (\<lambda>(eventName, h). subscribeToEvent eventName [] h) standalone
       (fold (subscribe_saga exec) sagas (fold subscribe_projection projections st))"

section \<open>What an event name reaches\<close>

text \<open>The specification: the reactions to an event name, in the order they run.\<close>

definition projection_reactions ::
  "string \<Rightarrow> string \<times> ('s projection \<times> 's view_store option) \<Rightarrow> (event \<Rightarrow> ('s, unit) action) list" where
  "projection_reactions n entry =
     (case entry of (_, (p, viewStoreInstance)) \<Rightarrow>
        (case (jm_get (pj_on p) n, viewStoreInstance) of
           (Some h, Some store) \<Rightarrow>
             if pj_consistency p \<noteq> Some Strong \<and> ph_id h \<noteq> None then [run_projection store (pj_initialView p) h] else []
         | _ \<Rightarrow> []))"

definition reactions ::
  "(string \<Rightarrow> 'w saga \<Rightarrow> event \<Rightarrow> ('s, unit) action) \<Rightarrow>
     (string, 's projection \<times> 's view_store option) jmap \<Rightarrow> (string, 'w saga) jmap \<Rightarrow>
     (string, event \<Rightarrow> ('s, unit) action) jmap \<Rightarrow> string \<Rightarrow> (event \<Rightarrow> ('s, unit) action) list" where
  "reactions exec projections sagas standalone n =
     concat (map (projection_reactions n) projections) @
     map (\<lambda>(sagaName, saga). exec sagaName saga) (filter (\<lambda>(_, saga). jm_has (sg_on saga) n) sagas) @
     (case jm_get standalone n of None \<Rightarrow> [] | Some h \<Rightarrow> [h])"

definition bus_runs :: "'s subscriptions \<Rightarrow> string \<Rightarrow> (event \<Rightarrow> ('s, unit) action) list" where
  "bus_runs st n = map hd_run (ee_handlers (sb_bus st) n)"

lemma bus_runs_subscribe:
  "bus_runs (subscribeToEvent e l f st) n = bus_runs st n @ (if e = n then [f] else [])"
  by (simp add: bus_runs_def subscribeToEvent_def ee_handlers_on)

lemma bus_runs_registry [simp]: "bus_runs (st\<lparr>sb_registry := r\<rparr>) n = bus_runs st n"
  by (simp add: bus_runs_def)

text \<open>Steps that each append some reactions append them in order.\<close>

lemma bus_runs_fold:
  assumes "\<And>x st. x \<in> set xs \<Longrightarrow> bus_runs (f x st) n = bus_runs st n @ g x"
  shows "bus_runs (fold f xs st) n = bus_runs st n @ concat (map g xs)"
  using assms by (induction xs arbitrary: st) auto

lemma concat_jmap:
  assumes "jm_ok m"
  shows "concat (map (\<lambda>(k, v). if k = n then g v else []) m) = (case jm_get m n of None \<Rightarrow> [] | Some v \<Rightarrow> g v)"
  using assms
proof (induction m)
  case (Cons kv m)
  have "concat (map (\<lambda>(k, v). if k = n then g v else []) m) = []" if "fst kv = n"
  proof -
    have "\<forall>x \<in> set m. fst x \<noteq> n" using Cons.prems that unfolding jm_ok_def
      by (metis distinct.simps(2) image_eqI list.set_map list.simps(9))
    then show ?thesis by (simp add: case_prod_unfold)
  qed
  with Cons show ?case by (cases kv) (auto simp: jm_ok_def jm_get_def)
qed simp

lemma bus_runs_projection:
  assumes "jm_ok (pj_on p)"
  shows "bus_runs (subscribe_projection (name, (p, so)) st) n = bus_runs st n @ projection_reactions n (name, (p, so))"
proof (cases "pj_consistency p = Some Strong \<or> so = None")
  case True
  then show ?thesis by (auto simp: subscribe_projection_def projection_reactions_def split: option.splits)
next
  case False
  then obtain store where so: "so = Some store" by auto
  let ?g = "\<lambda>h. if ph_id h = None then [] else [run_projection store (pj_initialView p) h]"
  have "bus_runs (subscribe_projection_event name store p x st) n =
      bus_runs st n @ (case x of (k, h) \<Rightarrow> if k = n then ?g h else [])" for x st
    by (auto simp: subscribe_projection_event_def bus_runs_subscribe Let_def split: prod.splits option.splits)
  then have "bus_runs (fold (subscribe_projection_event name store p) (pj_on p) st) n =
      bus_runs st n @ concat (map (\<lambda>(k, h). if k = n then ?g h else []) (pj_on p))"
    by (rule bus_runs_fold)
  then show ?thesis
    using False so concat_jmap [OF assms, of n ?g]
    by (auto simp: subscribe_projection_def projection_reactions_def split: option.splits)
qed

lemma bus_runs_saga:
  assumes "jm_ok (sg_on saga)"
  shows "bus_runs (subscribe_saga exec (sagaName, saga) st) n =
    bus_runs st n @ (if jm_has (sg_on saga) n then [exec sagaName saga] else [])"
proof -
  have "bus_runs (case x of (e, _) \<Rightarrow> subscribeToEvent e [] (exec sagaName saga) st) n =
      bus_runs st n @ (case x of (k, _) \<Rightarrow> if k = n then [exec sagaName saga] else [])"
    for x :: "string \<times> 'a saga_entry" and st
    by (simp add: bus_runs_subscribe split: prod.splits)
  then show ?thesis
    using concat_jmap [OF assms, of n "\<lambda>_. [exec sagaName saga]"]
    unfolding subscribe_saga_def prod.case
    by (subst bus_runs_fold) (auto simp: jm_has_iff split: option.splits prod.splits)
qed

text \<open>C30: Published events reach exactly the live consumers, in a fixed order. After init, dispatching
  an event runs first every eventual-consistency projection that has a view store and handles the
  event's name, then every saga that listens to it, then its standalone handler, each in definition
  order and on the state the previous one left; strong projections, projections without a view
  store and everything registered for other names are not run.\<close>
theorem init_event_routing:
  assumes "\<forall>(_, (p, _)) \<in> set projections. jm_ok (pj_on p)" and "\<forall>(_, saga) \<in> set sagas. jm_ok (sg_on saga)"
    and "jm_ok standalone"
    and "bus = sb_bus (subscribe_all exec projections sagas standalone no_subscriptions)"
  shows "map hd_run (ee_handlers bus n) = reactions exec projections sagas standalone n \<and>
    snd (ee_dispatch bus ev w) =
      fold (\<lambda>run w. snd (run ev w)) (reactions exec projections sagas standalone (ev_name ev)) w"
proof -
  let ?ps = "fold subscribe_projection projections no_subscriptions"
  let ?ss = "fold (subscribe_saga exec) sagas ?ps"
  have p: "bus_runs ?ps n = concat (map (projection_reactions n) projections)" for n
  proof -
    have "bus_runs ?ps n = bus_runs no_subscriptions n @ concat (map (projection_reactions n) projections)"
      by (rule bus_runs_fold) (use assms(1) bus_runs_projection in \<open>fastforce split: prod.splits\<close>)
    then show ?thesis by (simp add: bus_runs_def no_subscriptions_def ee_handlers_def)
  qed
  have s: "bus_runs ?ss n = bus_runs ?ps n @
      concat (map (\<lambda>(sagaName, saga). if jm_has (sg_on saga) n then [exec sagaName saga] else []) sagas)" for n
    by (rule bus_runs_fold) (use assms(2) bus_runs_saga in \<open>fastforce split: prod.splits\<close>)
  have f: "concat (map (\<lambda>(sagaName, saga). if jm_has (sg_on saga) n then [exec sagaName saga] else []) sagas) =
      map (\<lambda>(sagaName, saga). exec sagaName saga) (filter (\<lambda>(_, saga). jm_has (sg_on saga) n) sagas)" for n
    by (induction sagas) auto
  have "bus_runs (fold (\<lambda>(eventName, h). subscribeToEvent eventName [] h) standalone ?ss) n =
      bus_runs ?ss n @ concat (map (\<lambda>(k, h). if k = n then [h] else []) standalone)" for n
    by (rule bus_runs_fold) (simp add: bus_runs_subscribe split: prod.splits)
  then have all: "map hd_run (ee_handlers bus n) = reactions exec projections sagas standalone n" for n
    using concat_jmap [OF assms(3), of n "\<lambda>h. [h]"]
    by (simp add: assms(4) subscribe_all_def bus_runs_def [symmetric] p s f reactions_def)
  have "snd (ee_dispatch bus ev w) = fold (\<lambda>run w. snd (run ev w)) (map hd_run (ee_handlers bus (ev_name ev))) w"
    by (simp add: ee_dispatch_handlers run_handlers_state fold_map comp_def)
  then show ?thesis by (simp add: all)
qed

theorem init_event_routing_witness:
  "snd (ee_dispatch (sb_bus (subscribe_all (\<lambda>n sg ev w. (Inl (UserError n), w))
       [(''P'', (sample_projection, Some (mv_getForContext False)))] [(''S'', sample_saga None)]
       [(''Opened'', \<lambda>ev (v, u). (Inr (), (jm_set ''seen'' (JBool True) v, u)))] no_subscriptions))
     (log_event ''Opened'' 5) ([], ())) = ([(''v'', JNum 5), (''seen'', JBool True)], ())"
proof -
  let ?ps = "[(''P'', (sample_projection, Some (mv_getForContext False)))]"
  let ?ss = "[(''S'', sample_saga None)]"
  let ?sa = "[(''Opened'', \<lambda>ev (v, u). (Inr (), (jm_set ''seen'' (JBool True) v, u)))]"
  let ?exec = "\<lambda>n (sg :: (saga_store \<times> int) saga) (ev :: event) w. (Inl (UserError n), w)"
  have a: "\<forall>(_, (p, _)) \<in> set ?ps. jm_ok (pj_on p)" "\<forall>(_, saga) \<in> set ?ss. jm_ok (sg_on saga)" "jm_ok ?sa"
    by (simp_all add: jm_ok_def sample_projection_def sample_saga_def)
  have "fold (\<lambda>run w. snd (run (log_event ''Opened'' 5) w))
      (reactions ?exec ?ps ?ss ?sa (ev_name (log_event ''Opened'' 5))) ([], ()) =
      ([(''v'', JNum 5), (''seen'', JBool True)], ())"
    by code_simp
  then show ?thesis
    using init_event_routing [where exec = ?exec and ev = "log_event ''Opened'' 5" and w = "([], ())",
        OF a refl] by (simp only:)
qed

text \<open>The registry: every recorded handler is subscribed under its event, and identities are unique
  per event name, so that \<^verbatim>\<open>off\<close> removes exactly the recorded handler.\<close>

definition registry_inv :: "'s subscriptions \<Rightarrow> bool" where
  "registry_inv st \<longleftrightarrow>
     (\<forall>n. distinct (map hd_id (ee_handlers (sb_bus st) n)) \<and>
          (\<forall>h \<in> set (ee_handlers (sb_bus st) n). hd_id h < sb_next st)) \<and>
     (\<forall>name subs. jm_get (sb_registry st) name = Some subs \<longrightarrow> jm_ok subs \<and>
        (\<forall>n h. jm_get subs n = Some h \<longrightarrow> h \<in> set (ee_handlers (sb_bus st) n)))"

lemma registry_inv_subscribe:
  assumes "registry_inv st"
  shows "registry_inv (subscribeToEvent e l f st)"
proof -
  have "sb_next st \<notin> hd_id ` set (ee_handlers (sb_bus st) n)" for n
    using assms unfolding registry_inv_def by (metis image_iff less_irrefl)
  with assms show ?thesis
    unfolding registry_inv_def subscribeToEvent_def by (auto simp: ee_handlers_on less_Suc_eq)
qed

lemma registry_inv_projection_event:
  assumes "registry_inv st"
  shows "registry_inv (subscribe_projection_event name store p x st)"
proof (cases x)
  case (Pair e h)
  show ?thesis
  proof (cases "ph_id h")
    case None
    with Pair assms show ?thesis by (simp add: subscribe_projection_event_def)
  next
    case (Some f)
    let ?b = "\<lparr>hd_id = sb_next st, hd_name = ''boundHandler'', hd_run = run_projection store (pj_initialView p) h\<rparr>"
    let ?st = "subscribeToEvent e ''boundHandler'' (run_projection store (pj_initialView p) h) st"
    let ?reg = "jm_set name (jm_set e ?b (or_else (jm_get (sb_registry st) name) [])) (sb_registry st)"
    have eq: "subscribe_projection_event name store p x st = ?st\<lparr>sb_registry := ?reg\<rparr>"
      using Pair Some by (simp add: subscribe_projection_event_def subscribeToEvent_def Let_def)
    have bus: "sb_bus ?st = ee_on e ?b (sb_bus st)" "sb_registry ?st = sb_registry st"
      by (simp_all add: subscribeToEvent_def)
    have keep: "k \<in> set (ee_handlers (sb_bus ?st) n)" if "k \<in> set (ee_handlers (sb_bus st) n)" for k n
      using that by (auto simp: bus ee_handlers_on)
    have new: "?b \<in> set (ee_handlers (sb_bus ?st) e)" by (simp add: bus ee_handlers_on)
    have old: "k \<in> set (ee_handlers (sb_bus ?st) n)"
      if "jm_get (sb_registry st) m = Some subs" "jm_get subs n = Some k" for m subs n k
      using assms that keep unfolding registry_inv_def by blast
    have "k \<in> set (ee_handlers (sb_bus ?st) n)"
      if "jm_get ?reg m = Some subs" "jm_get subs n = Some k" for m subs n k
      using that old new by (auto split: if_splits simp: or_else_def split: option.splits)
    moreover have "jm_ok subs" if "jm_get ?reg m = Some subs" for m subs
      using that assms unfolding registry_inv_def by (auto split: if_splits option.splits simp: or_else_def)
    moreover have "registry_inv ?st" using assms by (rule registry_inv_subscribe)
    ultimately show ?thesis unfolding eq registry_inv_def by simp
  qed
qed

lemma registry_inv_fold:
  assumes "\<And>x st. registry_inv st \<Longrightarrow> registry_inv (f x st)" and "registry_inv st"
  shows "registry_inv (fold f xs st)"
  using assms(2) by (induction xs arbitrary: st) (simp_all add: assms(1))

lemma registry_inv_all:
  "registry_inv (subscribe_all exec projections sagas standalone no_subscriptions)"
proof -
  have "registry_inv no_subscriptions" by (simp add: registry_inv_def no_subscriptions_def ee_handlers_def)
  moreover have "registry_inv st \<Longrightarrow> registry_inv (subscribe_projection x st)" for x st
    by (auto simp: subscribe_projection_def intro!: registry_inv_fold registry_inv_projection_event split: prod.splits option.splits)
  moreover have "registry_inv st \<Longrightarrow> registry_inv (subscribe_saga exec x st)" for x st
    by (auto simp: subscribe_saga_def intro!: registry_inv_fold registry_inv_subscribe split: prod.splits)
  ultimately show ?thesis
    unfolding subscribe_all_def
    by (intro registry_inv_fold) (auto intro: registry_inv_subscribe split: prod.splits)
qed

section \<open>Queries\<close>

text \<open>A query reaches its projection's view store. When init has registered the query handlers
  without an error, query names are unique across projections and standalone handlers; a query named
  by a projection runs that projection's handler on the query's payload with that projection's base
  view store; and a query nobody handles is refused without effect.\<close>
lemma init_query_routing:
  assumes "register_queries projections standalone [] = (Inr (), bus)"
  shows "distinct (map fst (projection_queries projections @ standalone)) \<and>
    ((queryHandlers, store) \<in> set projections \<longrightarrow> (q_name qu, h) \<in> set queryHandlers \<longrightarrow>
      qb_dispatch bus qu = h (q_payload qu) store) \<and>
    ((q_name qu, h') \<in> set standalone \<longrightarrow> qb_dispatch bus qu = h' (q_payload qu)) \<and>
    (q_name qu \<notin> fst ` set (projection_queries projections @ standalone) \<longrightarrow>
      qb_dispatch bus qu = throw (NoHandlerRegistered (q_name qu)))"
proof -
  let ?all = "projection_queries projections @ standalone"
  note reg = mem_qb.register_all [OF assms [unfolded register_queries_def]]
  have dist: "distinct (map fst ?all)" using reg by blast
  have "jm_get bus = jm_get [] ++ map_of ?all" using reg by blast
  then have get: "jm_get bus n = map_of ?all n" for n by (simp only: jm_get_empty empty_map_add)
  have hit: "qb_dispatch bus qu = k (q_payload qu)" if "(q_name qu, k) \<in> set ?all" for k
  proof -
    have "map_of ?all (q_name qu) = Some k" using dist that by (rule map_of_is_SomeI)
    then show ?thesis by (simp only: qb_dispatch_def get option.case)
  qed
  have "(q_name qu, \<lambda>payload. h payload store) \<in> set ?all"
    if "(queryHandlers, store) \<in> set projections" "(q_name qu, h) \<in> set queryHandlers"
    using that by (force simp: projection_queries_def)
  note own = hit [OF this]
  have "qb_dispatch bus qu = throw (NoHandlerRegistered (q_name qu))" if "q_name qu \<notin> fst ` set ?all"
  proof -
    have "map_of ?all (q_name qu) = None" using that by (simp only: map_of_eq_None_iff not_False_eq_True)
    then show ?thesis by (simp only: qb_dispatch_def get option.case)
  qed
  with dist own hit [of h'] show ?thesis by auto
qed

definition sample_queries :: "((string, (view_map \<times> unit) query_handler) jmap \<times> (view_map \<times> unit) view_store option) list" where
  "sample_queries =
     [([(''GetView'', \<lambda>payload store s. case store of
          None \<Rightarrow> (Inr JUndef, s)
        | Some vs \<Rightarrow> bind_act (vs_load vs (IDStr ''v'')) (\<lambda>v. ret (or_else v JNull)) s)],
       Some (mv_getForContext False))]"

lemma init_query_routing_sample:
  "\<exists>bus. register_queries sample_queries [(''Ping'', \<lambda>payload s. (Inr payload, s))] [] = (Inr (), bus) \<and>
     qb_dispatch bus \<lparr>q_name = ''GetView'', q_payload = JNull\<rparr> ([(''v'', JNum 3)], ()) =
       (Inr (JNum 3), ([(''v'', JNum 3)], ()))"
proof -
  let ?sa = "[(''Ping'', \<lambda>payload s. (Inr payload, s))] :: (string \<times> (jsval \<Rightarrow> (view_map \<times> unit, jsval) action)) list"
  let ?qu = "\<lparr>q_name = ''GetView'', q_payload = JNull\<rparr>"
  have "fst (register_queries sample_queries ?sa []) = Inr ()"
    by (simp add: register_queries_def projection_queries_def sample_queries_def qb_register_def jm_has_def jm_set_def)
  then obtain bus where b: "register_queries sample_queries ?sa [] = (Inr (), bus)" by (metis prod.collapse)
  let ?qhs = "fst (hd sample_queries)" and ?st = "snd (hd sample_queries)" and ?h = "snd (hd (fst (hd sample_queries)))"
  have "(?qhs, ?st) \<in> set sample_queries" "(q_name ?qu, ?h) \<in> set ?qhs" by (simp_all add: sample_queries_def)
  with init_query_routing [OF b, of ?qhs ?st ?qu ?h]
  have "qb_dispatch bus ?qu ([(''v'', JNum 3)], ()) = ?h (q_payload ?qu) ?st ([(''v'', JNum 3)], ())" by simp
  also have "\<dots> = (Inr (JNum 3), ([(''v'', JNum 3)], ()))" by code_simp
  finally show ?thesis using b by blast
qed

end
