(* ===== verification/Domain.thy ===== *)
theory Domain
  imports Subscriptions
begin

text \<open>
  The running domain (\<^verbatim>\<open>domain.ts\<close>): the gate that counts operations and the graceful
  shutdown, \<^verbatim>\<open>withUnitOfWork\<close>, the registration of command handlers on the bus and the routing
  of \<^verbatim>\<open>dispatchCommand\<close>, \<^verbatim>\<open>dispatchQuery\<close>, the outbox entry points and the checks of
  \<^verbatim>\<open>rebuildProjection\<close>. A scoped state is the unit of work of the enclosing
  \<^verbatim>\<open>uowStorage.run\<close>, if any, beside the world.
\<close>

section \<open>The operation gate\<close>

text \<open>\<open>og_promise\<close>: \<^verbatim>\<open>_shutdownPromise\<close> is set; \<open>og_draining\<close>: \<^verbatim>\<open>_drainResolve\<close> is set;
  \<open>og_drained\<close>: the wait for in-flight operations is over without a timeout.\<close>

record op_gate =
  og_shuttingDown :: bool
  og_promise :: bool
  og_active :: int
  og_draining :: bool
  og_drained :: bool

definition open_gate :: op_gate where
  "open_gate = \<lparr>og_shuttingDown = False, og_promise = False, og_active = 0, og_draining = False, og_drained = False\<rparr>"

definition acquireOperation :: "(op_gate, unit) action" where
  "acquireOperation g =
     (if og_shuttingDown g then (Inl DomainShutdownError, g)
      else (Inr (), g\<lparr>og_active := og_active g + 1\<rparr>))"

definition releaseOperation :: "op_gate \<Rightarrow> op_gate" where
  "releaseOperation g =
     (let g' = g\<lparr>og_active := og_active g - 1\<rparr>
      in if og_active g' = 0 \<and> og_draining g' then g'\<lparr>og_drained := True\<rparr> else g')"

text \<open>\<^verbatim>\<open>shutdown\<close> up to the wait of its first phase.\<close>

definition begin_shutdown :: "op_gate \<Rightarrow> op_gate" where
  "begin_shutdown g =
     (if og_promise g then g
      else
        let g' = g\<lparr>og_shuttingDown := True, og_promise := True\<rparr>
        in if og_active g' > 0 then g'\<lparr>og_draining := True\<rparr> else g'\<lparr>og_drained := True\<rparr>)"

text \<open>\<^verbatim>\<open>this._acquireOperation(); try { m } finally { this._releaseOperation() }\<close>\<close>

definition guarded :: "('s, 'a) action \<Rightarrow> (op_gate \<times> 's, 'a) action" where
  "guarded m s =
     (case acquireOperation (fst s) of
        (Inl e, g) \<Rightarrow> (Inl e, (g, snd s))
      | (Inr _, g) \<Rightarrow> (case m (snd s) of (r, t) \<Rightarrow> (r, (releaseOperation g, t))))"

section \<open>withUnitOfWork\<close>

record 'w domain =
  dm_newUow :: "'w uow"
  dm_commit :: "('w uow \<times> 'w, event list) action"
  dm_dispatch :: "event \<Rightarrow> ('w, unit) action"
  dm_markPublished :: "(string list \<Rightarrow> ('w, unit) action) option"

definition uow_scope ::
  "'w domain \<Rightarrow> ('w uow option \<times> 'w, 'a) action \<Rightarrow> ('w uow \<times> 'w, 'a \<times> event list) action" where
  "uow_scope dm fn =
     catch_act
       (bind_act (in_uow fn) (\<lambda>result. bind_act (dm_commit dm) (\<lambda>events. ret (result, events))))
       (\<lambda>e. then_act (on_fst (swallow rollback)) (throw e))"

definition with_uow_body ::
  "'w domain \<Rightarrow> ('w uow option \<times> 'w, 'a) action \<Rightarrow> ('w uow option \<times> 'w, 'a) action" where
  "with_uow_body dm fn s =
     (case s of
        (Some u, w) \<Rightarrow> (Inl NestedUnitOfWork, s)
      | (None, w) \<Rightarrow>
          (case uow_scope dm fn (dm_newUow dm, w) of
             (Inl e, t) \<Rightarrow> (Inl e, (None, snd (snd (swallow (runUowCompletionHooks False) t))))
           | (Inr (result, events), t) \<Rightarrow>
               (case publish (dm_dispatch dm) (map_option onEventsDispatched (dm_markPublished dm)) events
                       (snd (snd (swallow (runUowCompletionHooks True) t))) of
                  (Inl e, w') \<Rightarrow> (Inl e, (None, w'))
                | (Inr _, w') \<Rightarrow> (Inr result, (None, w')))))"

definition withUnitOfWork ::
  "'w domain \<Rightarrow> ('w uow option \<times> 'w, 'a) action \<Rightarrow> (op_gate \<times> ('w uow option \<times> 'w), 'a) action" where
  "withUnitOfWork dm fn = guarded (with_uow_body dm fn)"

section \<open>Commands and queries\<close>

text \<open>Step 6: one bus handler per command name of each aggregate. \<open>exec\<close> is
  \<^verbatim>\<open>this._commandExecutor.execute\<close>.\<close>

definition aggregate_handlers ::
  "(string \<Rightarrow> 'w aggregate \<Rightarrow> command \<Rightarrow> ('s, unit) action) \<Rightarrow> (string, 'w aggregate) jmap \<Rightarrow>
     (string \<times> (command \<Rightarrow> ('s, unit) action)) list" where
  "aggregate_handlers exec aggregates =
     concat (map (\<lambda>(an, ag). map (\<lambda>(cn, _). (cn, exec an ag)) (ag_decide ag)) aggregates)"

text \<open>Steps 6 and 7: aggregates first, then the standalone handlers.\<close>

definition register_commands ::
  "(string \<Rightarrow> 'w aggregate \<Rightarrow> command \<Rightarrow> ('s, unit) action) \<Rightarrow> (string, 'w aggregate) jmap \<Rightarrow>
     (string \<times> (command \<Rightarrow> ('s, unit) action)) list \<Rightarrow> ('s command_bus, unit) action" where
  "register_commands exec aggregates standalone =
     for_each (\<lambda>(n, h). cb_register n h) (aggregate_handlers exec aggregates @ standalone)"

text \<open>The loop of \<^verbatim>\<open>dispatchCommand\<close>: the first aggregate that decides the command.\<close>

definition find_aggregate :: "(string, 'w aggregate) jmap \<Rightarrow> string \<Rightarrow> (string \<times> 'w aggregate) option" where
  "find_aggregate aggregates commandName = find (\<lambda>(an, ag). jm_has (ag_decide ag) commandName) aggregates"

definition route_command ::
  "(string \<Rightarrow> 'w aggregate \<Rightarrow> command \<Rightarrow> ('s, unit) action) \<Rightarrow> (string, 'w aggregate) jmap \<Rightarrow> 's command_bus \<Rightarrow>
     command \<Rightarrow> ('s, ID option) action" where
  "route_command exec aggregates bus cmd =
     (case find_aggregate aggregates (cmd_name cmd) of
        Some (an, ag) \<Rightarrow> bind_act (exec an ag cmd) (\<lambda>_. ret (cmd_targetAggregateId cmd))
      | None \<Rightarrow> bind_act (cb_dispatch bus cmd) (\<lambda>_. ret (cmd_targetAggregateId cmd)))"

definition dispatchCommand ::
  "(string \<Rightarrow> 'w aggregate \<Rightarrow> command \<Rightarrow> ('s, unit) action) \<Rightarrow> (string, 'w aggregate) jmap \<Rightarrow> 's command_bus \<Rightarrow>
     command \<Rightarrow> (op_gate \<times> 's, ID option) action" where
  "dispatchCommand exec aggregates bus cmd = guarded (route_command exec aggregates bus cmd)"

definition dispatchQuery :: "'s query_bus \<Rightarrow> query \<Rightarrow> (op_gate \<times> 's, jsval) action" where
  "dispatchQuery bus qu = guarded (qb_dispatch bus qu)"

text \<open>\<^verbatim>\<open>metadataStorage.run(context, fn)\<close>: inside \<open>fn\<close> the override is \<open>context\<close> alone.\<close>

definition withMetadataContext ::
  "metadata_context \<Rightarrow> (metadata_context option \<Rightarrow> ('s, 'a) action) \<Rightarrow> ('s, 'a) action" where
  "withMetadataContext context fn = fn (Some context)"

section \<open>Outbox entry points and the rest of shutdown\<close>

definition startOutboxRelay :: "relay_options \<Rightarrow> relay option \<Rightarrow> relay option" where
  "startOutboxRelay options r = map_option (relay_start options) r"

definition stopOutboxRelay :: "relay option \<Rightarrow> relay option" where
  "stopOutboxRelay r = map_option relay_stop r"

definition processOutboxOnce ::
  "'w relay_deps \<Rightarrow> relay_options \<Rightarrow> relay option \<times> 'w \<Rightarrow> nat \<times> (relay option \<times> 'w)" where
  "processOutboxOnce d options s =
     (case s of
        (None, w) \<Rightarrow> (0, s)
      | (Some r, w) \<Rightarrow> (case processOnce d options (r, w) of (k, (r', w')) \<Rightarrow> (k, (Some r', w'))))"

text \<open>Phases 3 and 4 of \<^verbatim>\<open>_performShutdown\<close>: close the bus, then the closeable components in
  reverse order of collection, ignoring their failures.\<close>

definition close_phase :: "('w, unit) action \<Rightarrow> ('w, unit) action list \<Rightarrow> ('w, unit) action" where
  "close_phase closeBus closeables =
     then_act closeBus (for_each (\<lambda>close. swallow close) (rev closeables))"

text \<open>Closing is best-effort: once the bus is closed every component is closed, in reverse order and
  whether or not others fail, and the phase succeeds.\<close>

lemma close_phase_all:
  assumes "closeBus w = (Inr (), w1)"
  shows "close_phase closeBus closeables w = (Inr (), foldr (\<lambda>close w. snd (close w)) closeables w1)"
  using assms for_each_total [of "rev closeables" "\<lambda>close. swallow close" w1]
  by (simp add: close_phase_def act foldr_conv_fold) (simp add: swallow_def)

section \<open>rebuildProjection\<close>

record 'w rebuild_domain =
  rb_shuttingDown :: bool
  rb_projections :: "(string, 'w projection) jmap"
  rb_factories :: "(string, 'w view_store_factory) jmap"
  rb_adapterReader :: "('w \<Rightarrow> event list \<times> error option) option"
  rb_resolver :: "'w resolver"
  rb_aggregates :: "(string, 'w aggregate) jmap"
  rb_supportsOff :: bool
  rb_subscriptions :: "(string, (string, 'w handler) jmap) jmap"
  rb_startMs :: int
  rb_endMs :: int

text \<open>The structural fallback: the first aggregate whose persistence can be read.\<close>

fun first_reader :: "'w resolver \<Rightarrow> string list \<Rightarrow> ('w \<Rightarrow> event list \<times> error option) option" where
  "first_reader rs [] = None"
| "first_reader rs (n # ns) =
     (case resolve rs n of
        Inl _ \<Rightarrow> first_reader rs ns
      | Inr p \<Rightarrow> (case pc_read p of Some rd \<Rightarrow> Some rd | None \<Rightarrow> first_reader rs ns))"

definition rebuild_reader :: "'w rebuild_domain \<Rightarrow> ('w \<Rightarrow> event list \<times> error option) option" where
  "rebuild_reader rb =
     (case rb_adapterReader rb of
        Some rd \<Rightarrow> Some rd
      | None \<Rightarrow> first_reader (rb_resolver rb) (map fst (rb_aggregates rb)))"

definition aggregate_upcasters :: "(string, 'w aggregate) jmap \<Rightarrow> (string, upcaster_map) jmap" where
  "aggregate_upcasters aggregates =
     List.map_filter (\<lambda>(n, ag). map_option (\<lambda>u. (n, u)) (ag_upcasters ag)) aggregates"

text \<open>The checks in the order of the source, then the context they produce.\<close>

definition rebuild_checks :: "'w rebuild_domain \<Rightarrow> string \<Rightarrow> 'w rebuild_options \<Rightarrow> error + 'w rebuild_context" where
  "rebuild_checks rb name options =
     (if rb_shuttingDown rb then Inl DomainShutdownError
      else case jm_get (rb_projections rb) name of
        None \<Rightarrow> Inl (ProjectionNotFoundError name)
      | Some p \<Rightarrow>
          if pj_consistency p = Some Strong then Inl (StrongConsistencyRebuildError name)
          else (case jm_get (rb_factories rb) name of
             None \<Rightarrow> Inl (MissingViewStoreFactoryError name)
           | Some factory \<Rightarrow>
               (case rebuild_reader rb of
                  None \<Rightarrow> Inl EventReaderUnavailableError
                | Some rd \<Rightarrow>
                    if vs_truncate (factory False) = None then Inl (ViewStoreNotTruncatableError name)
                    else (case po_progressInterval options of
                       Some k \<Rightarrow> if k \<le> 0 then Inl (RangeError k)
                         else Inr \<lparr>rc_projectionName = name, rc_projection = p, rc_viewStore = factory False,
                            rc_read = rd, rc_supportsOff = rb_supportsOff rb, rc_subscriptions = rb_subscriptions rb,
                            rc_aggregateUpcasters = aggregate_upcasters (rb_aggregates rb),
                            rc_startMs = rb_startMs rb, rc_endMs = rb_endMs rb\<rparr>
                     | None \<Rightarrow> Inr \<lparr>rc_projectionName = name, rc_projection = p, rc_viewStore = factory False,
                            rc_read = rd, rc_supportsOff = rb_supportsOff rb, rc_subscriptions = rb_subscriptions rb,
                            rc_aggregateUpcasters = aggregate_upcasters (rb_aggregates rb),
                            rc_startMs = rb_startMs rb, rc_endMs = rb_endMs rb\<rparr>))))"

definition rebuildProjection ::
  "'w rebuild_domain \<Rightarrow> string \<Rightarrow> 'w rebuild_options \<Rightarrow> ('w event_bus \<times> 'w, rebuild_result) action" where
  "rebuildProjection rb name options =
     bind_act (lift_result (rebuild_checks rb name options)) (\<lambda>ctx. rebuildProjectionImpl ctx options)"

section \<open>Operations in flight\<close>

text \<open>The gate with the set of operations that are between their acquire and their release.\<close>

inductive gate_step :: "op_gate \<times> nat set \<Rightarrow> op_gate \<times> nat set \<Rightarrow> bool" where
  gate_start: "c \<notin> S \<Longrightarrow> acquireOperation g = (Inr (), g') \<Longrightarrow> gate_step (g, S) (g', insert c S)"
| gate_refuse: "acquireOperation g = (Inl e, g') \<Longrightarrow> gate_step (g, S) (g', S)"
| gate_finish: "c \<in> S \<Longrightarrow> gate_step (g, S) (releaseOperation g, S - {c})"
| gate_shutdown: "gate_step (g, S) (begin_shutdown g, S)"

inductive_cases gate_stepE: "gate_step (g, S) (g', S')"

definition gate_inv :: "op_gate \<times> nat set \<Rightarrow> bool" where
  "gate_inv s \<longleftrightarrow> finite (snd s) \<and> og_active (fst s) = int (card (snd s)) \<and>
     og_promise (fst s) = og_shuttingDown (fst s) \<and>
     (og_draining (fst s) \<longrightarrow> og_shuttingDown (fst s)) \<and>
     (og_shuttingDown (fst s) \<and> snd s \<noteq> {} \<longrightarrow> og_draining (fst s)) \<and>
     (og_drained (fst s) \<longleftrightarrow> og_shuttingDown (fst s) \<and> snd s = {})"

lemma gate_inv_step:
  assumes "gate_step s s'" and "gate_inv s"
  shows "gate_inv s'"
  using assms
proof (induction rule: gate_step.induct)
  case (gate_start c S g g')
  then show ?case by (auto simp: gate_inv_def acquireOperation_def split: if_splits)
next
  case (gate_refuse g e g' S)
  then show ?case by (auto simp: acquireOperation_def split: if_splits)
next
  case (gate_finish c S g)
  then have "finite S" by (simp add: gate_inv_def)
  with gate_finish(1) have card: "int (card (S - {c})) = int (card S) - 1"
    using card.remove [of S c] by simp
  have fin: "finite (S - {c})" using \<open>finite S\<close> by simp
  then have "int (card (S - {c})) = 0 \<longleftrightarrow> S - {c} = {}" by simp
  with gate_finish card fin show ?case
    by (auto simp: gate_inv_def releaseOperation_def Let_def)
next
  case (gate_shutdown g S)
  then have "0 < og_active g \<longleftrightarrow> S \<noteq> {}" by (auto simp: gate_inv_def card_gt_0_iff)
  with gate_shutdown show ?case by (auto simp: gate_inv_def begin_shutdown_def Let_def)
qed

lemma gate_inv_reachable: "gate_step\<^sup>*\<^sup>* (open_gate, {}) s \<Longrightarrow> gate_inv s"
proof (induction rule: rtranclp_induct)
  case base
  then show ?case by (simp add: gate_inv_def open_gate_def)
next
  case (step y z)
  then show ?case by (auto intro: gate_inv_step)
qed

section \<open>Properties\<close>

text \<open>C32: The drain promise of a shutdown counts exactly the operations in flight. In every reachable
  state the counter is the number of operations that have been admitted and have not finished; the
  drain promise that the shutdown waits for is settled precisely when shutdown was requested and no
  operation is in flight (it is neither settled early nor missed when the last one finishes or none
  is running); and once shutdown was requested no further operation is admitted, so the set in
  flight only shrinks. The shutdown itself waits for this promise only as long as its time limit
  allows: that race is not part of this property but of the one on the deadline, in
  \<open>Startup\<close>.\<close>
theorem shutdown_drains_in_flight:
  assumes "gate_step\<^sup>*\<^sup>* (open_gate, {}) (g, S)"
  shows "og_active g = int (card S) \<and> finite S \<and>
    (og_drained g \<longleftrightarrow> og_shuttingDown g \<and> S = {}) \<and>
    (og_shuttingDown g \<longrightarrow> gate_step (g, S) (g', S') \<longrightarrow> og_shuttingDown g' \<and> S' \<subseteq> S)"
proof -
  from gate_inv_reachable [OF assms] have inv: "gate_inv (g, S)" .
  have "og_shuttingDown g' \<and> S' \<subseteq> S" if "og_shuttingDown g" "gate_step (g, S) (g', S')"
    using that(2,1)
    by (elim gate_stepE) (auto simp: acquireOperation_def releaseOperation_def begin_shutdown_def Let_def split: if_splits)
  with inv show ?thesis by (auto simp: gate_inv_def)
qed

theorem shutdown_drains_in_flight_witness:
  "og_drained (releaseOperation (begin_shutdown (snd (acquireOperation open_gate)))) \<and>
   \<not> og_drained (begin_shutdown (snd (acquireOperation open_gate)))"
proof -
  let ?g1 = "snd (acquireOperation open_gate)"
  have a: "gate_step (open_gate, {}) (?g1, {0})"
    using gate_start [of 0 "{}" open_gate ?g1] by (simp add: acquireOperation_def open_gate_def)
  have b: "gate_step (?g1, {0}) (begin_shutdown ?g1, {0})" by (rule gate_shutdown)
  have c: "gate_step (begin_shutdown ?g1, {0}) (releaseOperation (begin_shutdown ?g1), {0} - {0})"
    by (rule gate_finish) simp
  have r2: "gate_step\<^sup>*\<^sup>* (open_gate, {}) (begin_shutdown ?g1, {0})"
    by (rule rtranclp.rtrancl_into_rtrancl [of gate_step, OF r_into_rtranclp [of gate_step, OF a] b])
  have r3: "gate_step\<^sup>*\<^sup>* (open_gate, {}) (releaseOperation (begin_shutdown ?g1), {})"
    using r2 c by (simp add: rtranclp.rtrancl_into_rtrancl)
  have s: "og_shuttingDown (releaseOperation (begin_shutdown ?g1))"
    by (simp add: releaseOperation_def begin_shutdown_def acquireOperation_def open_gate_def)
  have "\<not> og_drained (begin_shutdown ?g1)"
    using shutdown_drains_in_flight [OF r2, of "begin_shutdown ?g1" "{0}"] by blast
  moreover have "og_drained (releaseOperation (begin_shutdown ?g1))"
    using shutdown_drains_in_flight [OF r3, of "releaseOperation (begin_shutdown ?g1)" "{}"] s by blast
  ultimately show ?thesis by blast
qed

lemma publish_total:
  assumes "\<And>ev w. fst (dispatch ev w) = Inr ()"
  shows "fst (publish dispatch cb evs w) = Inr ()"
  using for_each_total [of evs dispatch w] assms
  by (auto simp: publish_def then_act_def bind_act_def ret_def split: option.splits)

lemma guarded_open:
  assumes "\<not> og_shuttingDown g" and "\<not> og_draining g"
  shows "guarded m (g, s) = (fst (m s), (g, snd (m s)))"
  using assms by (auto simp: guarded_def acquireOperation_def releaseOperation_def Let_def split: prod.splits)

text \<open>C8: An explicit unit of work is all-or-nothing. Over a transactional commit and a bus that never
  throws, when the body only enlists work: if the body throws, or the commit does, the error is
  rethrown and the world is exactly as before, with nothing published; otherwise the body's result
  is returned, all enlisted operations have run in order and the deferred events have been published
  after them. In every case the scope has no unit of work afterwards and the operation counter is
  restored.\<close>
theorem withUnitOfWork_all_or_nothing:
  assumes "db_transaction transaction" and "dm_commit dm = tx_commit transaction"
    and "\<And>ev w. fst (dm_dispatch dm ev w) = Inr ()"
    and "fn (Some (dm_newUow dm), w) = (r, (Some u, w))" and "\<not> u_completed u" and "u_hooks u = None"
    and "\<not> og_shuttingDown g" and "\<not> og_draining g"
  shows "case withUnitOfWork dm fn (g, (None, w)) of
      (Inl e, s) \<Rightarrow> s = (g, (None, w)) \<and>
        (r = Inl e \<or> (\<exists>x. r = Inr x) \<and> fst (run_operations (u_operations u) w) = Inl e)
    | (Inr x, s) \<Rightarrow> r = Inr x \<and> (\<exists>w1. run_operations (u_operations u) w = (Inr (), w1) \<and>
        s = (g, (None, snd (publish (dm_dispatch dm) (map_option onEventsDispatched (dm_markPublished dm))
               (u_pendingEvents u) w1))))"
proof -
  have hooks: "swallow (runUowCompletionHooks b) (v, w') = (Inr (), (v, w'))" if "u_hooks v = None" for b v w'
    using that by (rule no_hooks)
  have body: "in_uow fn (dm_newUow dm, w) = (r, (u, w))" using assms(4) by (simp add: in_uow_def)
  show ?thesis
  proof (cases r)
    case (Inl e)
    then have "with_uow_body dm fn (None, w) = (Inl e, (None, w))"
      using assms(6)
      by (simp add: with_uow_body_def uow_scope_def catch_act_def bind_act_def body then_act_def on_fst_def throw_def
          swallow_def rollback_hooks runUowCompletionHooks_def)
    with Inl assms(7,8) show ?thesis by (simp add: withUnitOfWork_def guarded_open)
  next
    case (Inr x)
    obtain q w1 where run: "run_operations (u_operations u) w = (q, w1)" by (cases "run_operations (u_operations u) w")
    show ?thesis
    proof (cases q)
      case (Inl e)
      have "tx_commit transaction (u, w) = (Inl e, (u\<lparr>u_completed := True\<rparr>, w))"
        using run Inl assms(5) db_transaction.tx_rollback [OF assms(1), of "run_operations (u_operations u)" w e w1]
        by (simp add: tx_commit_def uow_defs)
      then have "with_uow_body dm fn (None, w) = (Inl e, (None, w))"
        using assms(2,6) Inr
        by (simp add: with_uow_body_def uow_scope_def catch_act_def bind_act_def body then_act_def on_fst_def throw_def
            swallow_def rollback_def assertNotCompleted_def runUowCompletionHooks_def)
      with run Inl Inr assms(7,8) show ?thesis by (simp add: withUnitOfWork_def guarded_open)
    next
      case ok: (Inr y)
      let ?p = "publish (dm_dispatch dm) (map_option onEventsDispatched (dm_markPublished dm)) (u_pendingEvents u) w1"
      have "tx_commit transaction (u, w) = (Inr (u_pendingEvents u), (u\<lparr>u_completed := True\<rparr>, w1))"
        using run ok assms(5) db_transaction.tx_ok [OF assms(1), of "run_operations (u_operations u)" w w1]
        by (simp add: tx_commit_def uow_defs)
      moreover have "fst ?p = Inr ()" by (rule publish_total [OF assms(3)])
      ultimately have "with_uow_body dm fn (None, w) = (Inr x, (None, snd ?p))"
        using assms(2,6) Inr
        by (cases ?p) (simp add: with_uow_body_def uow_scope_def catch_act_def bind_act_def body ret_def hooks)
      with run ok Inr assms(7,8) show ?thesis by (simp add: withUnitOfWork_def guarded_open)
    qed
  qed
qed

definition list_domain :: "int list domain" where
  "list_domain = \<lparr>dm_newUow = createInMemoryUnitOfWork, dm_commit = tx_commit snapshot_transaction,
     dm_dispatch = (\<lambda>ev w. (Inr (), w @ [0])), dm_markPublished = None\<rparr>"

definition enlist_two :: "(int list uow option \<times> int list, unit) action" where
  "enlist_two s = (case s of (None, w) \<Rightarrow> (Inr (), s)
     | (Some u, w) \<Rightarrow> (Inr (), (Some (u\<lparr>u_operations := [put 7, failing ''db'']\<rparr>), w)))"

theorem withUnitOfWork_all_or_nothing_witness:
  "snd (withUnitOfWork list_domain enlist_two (open_gate, (None, [1]))) = (open_gate, (None, [1]))"
proof -
  let ?u = "createInMemoryUnitOfWork\<lparr>u_operations := [put 7, failing ''db'']\<rparr> :: int list uow"
  have f: "enlist_two (Some (dm_newUow list_domain), [1]) = (Inr (), (Some ?u, [1]))"
    by (simp add: enlist_two_def list_domain_def)
  have c: "dm_commit list_domain = tx_commit snapshot_transaction" by (simp add: list_domain_def)
  have d: "fst (dm_dispatch list_domain ev w) = Inr ()" for ev w by (simp add: list_domain_def)
  have g: "\<not> og_shuttingDown open_gate" "\<not> og_draining open_gate" by (simp_all add: open_gate_def)
  have "fst (run_operations (u_operations ?u) [1]) = Inl (UserError ''db'')"
    by (simp add: run_operations_def put_def failing_def)
  note fail = this
  obtain q t where qt: "withUnitOfWork list_domain enlist_two (open_gate, (None, [1])) = (q, t)"
    by (cases "withUnitOfWork list_domain enlist_two (open_gate, (None, [1]))")
  from withUnitOfWork_all_or_nothing [where dm = list_domain and fn = enlist_two and w = "[1]" and u = ?u and g = open_gate,
      OF db_tx.db_transaction_axioms c d f _ _ g]
  show ?thesis unfolding qt using fail by (cases q) auto
qed

lemma aggregate_handlers_names:
  "fst ` set (aggregate_handlers exec aggregates) = (\<Union>(an, ag) \<in> set aggregates. fst ` set (ag_decide ag))"
  by (force simp: aggregate_handlers_def)

lemma map_of_const: "map_of (map (\<lambda>(k, _). (k, v)) xs) c = (if map_of xs c = None then None else Some v)"
  by (induction xs) auto

lemma aggregate_handlers_find:
  assumes "distinct (map fst (aggregate_handlers exec aggregates))"
  shows "map_of (aggregate_handlers exec aggregates) c =
    (case find_aggregate aggregates c of None \<Rightarrow> None | Some (an, ag) \<Rightarrow> Some (exec an ag))"
  using assms
proof (induction aggregates)
  case Nil
  then show ?case by (simp add: aggregate_handlers_def find_aggregate_def)
next
  case (Cons a aggregates)
  obtain an ag where a: "a = (an, ag)" by (cases a)
  let ?own = "map (\<lambda>(cn, _). (cn, exec an ag)) (ag_decide ag)"
  have split: "aggregate_handlers exec (a # aggregates) = ?own @ aggregate_handlers exec aggregates"
    by (simp add: aggregate_handlers_def a)
  have own: "map_of ?own c = (if jm_has (ag_decide ag) c then Some (exec an ag) else None)"
    by (simp add: map_of_const jm_has_def)
  show ?case
  proof (cases "jm_has (ag_decide ag) c")
    case True
    then have "c \<in> fst ` set ?own" using own by (metis map_of_eq_None_iff option.distinct(1))
    then have "c \<notin> fst ` set (aggregate_handlers exec aggregates)"
      using Cons.prems split by (auto simp: distinct_append)
    then have "map_of (aggregate_handlers exec aggregates) c = None" by (simp add: map_of_eq_None_iff)
    with True own show ?thesis by (simp add: split [unfolded a] a find_aggregate_def map_add_def)
  next
    case False
    from Cons.prems have "distinct (map fst (aggregate_handlers exec aggregates))" by (simp add: split)
    with Cons.IH False own show ?thesis 
      by (simp add: split [unfolded a] a find_aggregate_def map_add_def split: option.splits)
  qed
qed

text \<open>The two ways to send a command agree. When init has registered all command handlers without
  an error, then for every command, dispatching it on the command bus (as sagas do) runs exactly
  what dispatchCommand's own routing runs: the executor on the first aggregate that decides it, or
  else the standalone handler; and a name that neither knows is refused by both without effect.\<close>
lemma command_routing_agrees:
  assumes "register_commands exec aggregates standalone [] = (Inr (), bus)"
  shows "route_command exec aggregates bus cmd =
      bind_act (cb_dispatch bus cmd) (\<lambda>_. ret (cmd_targetAggregateId cmd)) \<and>
    cb_dispatch bus cmd =
      (case find_aggregate aggregates (cmd_name cmd) of
         Some (an, ag) \<Rightarrow> exec an ag cmd
       | None \<Rightarrow> (case map_of standalone (cmd_name cmd) of
                    Some h \<Rightarrow> h cmd
                  | None \<Rightarrow> throw (NoHandlerRegistered (cmd_name cmd))))"
proof -
  let ?hs = "aggregate_handlers exec aggregates"
  note reg = mem_cb.register_all [OF assms [unfolded register_commands_def]]
  have dist: "distinct (map fst (?hs @ standalone))" using reg by blast
  have "jm_get bus = jm_get [] ++ map_of (?hs @ standalone)" using reg by blast
  then have get: "jm_get bus = map_of (?hs @ standalone)" by (simp only: jm_get_empty empty_map_add)
  have own: "map_of ?hs (cmd_name cmd) =
      (case find_aggregate aggregates (cmd_name cmd) of None \<Rightarrow> None | Some (an, ag) \<Rightarrow> Some (exec an ag))"
    by (rule aggregate_handlers_find) (use dist in simp)
  have cb: "cb_dispatch bus cmd =
      (case find_aggregate aggregates (cmd_name cmd) of
         Some (an, ag) \<Rightarrow> exec an ag cmd
       | None \<Rightarrow> (case map_of standalone (cmd_name cmd) of
                    Some h \<Rightarrow> h cmd
                  | None \<Rightarrow> throw (NoHandlerRegistered (cmd_name cmd))))"
  proof (cases "find_aggregate aggregates (cmd_name cmd)")
    case None
    with own show ?thesis by (simp add: cb_dispatch_def get map_add_def split: option.splits)
  next
    case (Some x)
    obtain an ag where x: "x = (an, ag)" by (cases x)
    have "map_of ?hs (cmd_name cmd) = Some (exec an ag)" using own Some x by simp
    moreover have "map_of standalone (cmd_name cmd) = None"
    proof -
      have "cmd_name cmd \<in> fst ` set ?hs" using calculation by (metis map_of_eq_None_iff option.distinct(1))
      then have "cmd_name cmd \<notin> fst ` set standalone" using dist by (auto simp: distinct_append)
      then show ?thesis by (simp add: map_of_eq_None_iff)
    qed
    ultimately show ?thesis using Some x by (simp add: cb_dispatch_def get map_add_def)
  qed
  then show ?thesis by (auto simp: route_command_def split: option.splits)
qed

lemma command_routing_agrees_sample:
  "\<exists>bus. register_commands (\<lambda>an ag cmd s. (Inr (), s + (1::int))) [(''Cnt'', counter_aggregate :: unit aggregate)]
      [(''Ping'', \<lambda>cmd s. (Inr (), s * 10))] [] = (Inr (), bus) \<and>
    cb_dispatch bus (sample_command ''Add'') 4 = (Inr (), 5) \<and> cb_dispatch bus (sample_command ''Ping'') 4 = (Inr (), 40)"
proof -
  let ?exec = "\<lambda>an (ag :: unit aggregate) cmd s. (Inr (), s + (1::int))" and ?ags = "[(''Cnt'', counter_aggregate)]"
  let ?sa = "[(''Ping'', \<lambda>cmd s. (Inr (), s * 10))]"
  have "fst (register_commands ?exec ?ags ?sa []) = Inr ()"
    by (simp add: register_commands_def aggregate_handlers_def counter_aggregate_def cb_register_def jm_has_def
        jm_set_def)
  then obtain bus where b: "register_commands ?exec ?ags ?sa [] = (Inr (), bus)" by (metis prod.collapse)
  have "cb_dispatch bus (sample_command ''Add'') 4 = (Inr (), 5)"
    using command_routing_agrees [OF b, of "sample_command ''Add''"]
    by (simp add: find_aggregate_def counter_aggregate_def jm_has_def sample_command_def)
  moreover have "cb_dispatch bus (sample_command ''Ping'') 4 = (Inr (), 40)"
    using command_routing_agrees [OF b, of "sample_command ''Ping''"]
    by (simp add: find_aggregate_def counter_aggregate_def jm_has_def sample_command_def)
  ultimately show ?thesis using b by blast
qed

text \<open>A rebuild is refused before anything is touched. It is refused exactly when the domain is
  shutting down, the projection is unknown, strongly consistent or without a view store factory, no
  event reader is available, the view store cannot be truncated, or the progress interval is not
  positive; then the corresponding error is thrown and neither the subscriptions nor the views nor
  anything else has changed.\<close>
lemma rebuild_refusals:
  "(case rebuild_checks rb name options of
      Inl e \<Rightarrow> rebuildProjection rb name options s = (Inl e, s)
    | Inr ctx \<Rightarrow> rebuildProjection rb name options s = rebuildProjectionImpl ctx options s) \<and>
   ((\<exists>e. rebuild_checks rb name options = Inl e) \<longleftrightarrow>
     rb_shuttingDown rb \<or> jm_get (rb_projections rb) name = None \<or>
     (\<exists>p. jm_get (rb_projections rb) name = Some p \<and> pj_consistency p = Some Strong) \<or>
     jm_get (rb_factories rb) name = None \<or> rebuild_reader rb = None \<or>
     (\<exists>f. jm_get (rb_factories rb) name = Some f \<and> vs_truncate (f False) = None) \<or>
     (\<exists>k. k \<le> 0 \<and> po_progressInterval options = Some k))"
proof
  show "case rebuild_checks rb name options of
      Inl e \<Rightarrow> rebuildProjection rb name options s = (Inl e, s)
    | Inr ctx \<Rightarrow> rebuildProjection rb name options s = rebuildProjectionImpl ctx options s"
    by (auto simp: rebuildProjection_def bind_act_def lift_result_def split: sum.splits)
  show "(\<exists>e. rebuild_checks rb name options = Inl e) \<longleftrightarrow>
     rb_shuttingDown rb \<or> jm_get (rb_projections rb) name = None \<or>
     (\<exists>p. jm_get (rb_projections rb) name = Some p \<and> pj_consistency p = Some Strong) \<or>
     jm_get (rb_factories rb) name = None \<or> rebuild_reader rb = None \<or>
     (\<exists>f. jm_get (rb_factories rb) name = Some f \<and> vs_truncate (f False) = None) \<or>
     (\<exists>k. k \<le> 0 \<and> po_progressInterval options = Some k)"
    by (auto simp: rebuild_checks_def split: option.splits if_splits)
qed

end
