(* ===== verification/Hash_Uuid.thy ===== *)
theory Hash_Uuid
  imports Main "HOL-Library.Word" "HOL-Library.List_Lexorder" "HOL-Library.Char_ord"
begin

text \<open>
  The two bit-level routines of the framework: the FNV-1a hash that turns a lock key into a
  PostgreSQL advisory lock number (\<^verbatim>\<open>core/src/persistence/hash.ts\<close>), written over
  unbounded integers as the source writes it over \<^verbatim>\<open>BigInt\<close>, and the generator of
  version 7 UUIDs (\<^verbatim>\<open>engine/src/uuid.ts\<close>) as a function of the clock and of the
  sixteen random bytes it draws. A JavaScript string is here the list of its UTF-16 code units.
\<close>

unbundle bit_operations_syntax

section \<open>fnv1a64\<close>

type_synonym code_unit = "16 word"

definition FNV_OFFSET_BASIS :: int where
  "FNV_OFFSET_BASIS = 0xcbf29ce484222325"

definition FNV_PRIME :: int where
  "FNV_PRIME = 0x100000001b3"

definition MASK :: int where
  "MASK = 0xffffffffffffffff"

fun fnv_loop :: "int \<Rightarrow> code_unit list \<Rightarrow> int" where
  "fnv_loop hash [] = hash"
| "fnv_loop hash (c # cs) = fnv_loop (((hash XOR uint c) * FNV_PRIME) AND MASK) cs"

definition fnv1a64 :: "code_unit list \<Rightarrow> int" where
  "fnv1a64 key =
     (let hash = fnv_loop FNV_OFFSET_BASIS key
      in if hash \<ge> 0x8000000000000000 then hash - 0x10000000000000000 else hash)"

text \<open>The same computation on machine words: the reference definition.\<close>

definition fnv_step :: "64 word \<Rightarrow> code_unit \<Rightarrow> 64 word" where
  "fnv_step h c = (h XOR ucast c) * 0x100000001b3"

definition fnv_word :: "code_unit list \<Rightarrow> 64 word" where
  "fnv_word key = foldl fnv_step 0xcbf29ce484222325 key"

lemma mask_mod: "x AND MASK = x mod 2 ^ 64" for x :: int
proof -
  have "MASK = mask 64" by (simp add: MASK_def mask_eq_exp_minus_1)
  then have "x AND MASK = take_bit 64 x" by (simp only: take_bit_eq_mask)
  then show ?thesis by (simp only: take_bit_eq_mod)
qed

lemma uint_ucast_unit: "uint (ucast c :: 64 word) = uint c" for c :: code_unit
proof -
  have "uint c < 2 ^ 16" using uint_bounded [of c] by simp
  then show ?thesis by (simp add: unsigned_ucast_eq take_bit_int_eq_self_iff)
qed

lemma uint_fnv_step: "uint (fnv_step h c) = ((uint h XOR uint c) * FNV_PRIME) AND MASK"
  by (simp add: fnv_step_def uint_word_ariths(3) uint_xor mask_mod FNV_PRIME_def uint_ucast_unit)

lemma fnv_loop_word: "fnv_loop (uint h) key = uint (foldl fnv_step h key)"
  by (induction key arbitrary: h) (simp_all flip: uint_fnv_step)

lemma sint_by_cases: "sint h = (if uint h \<ge> 0x8000000000000000 then uint h - 0x10000000000000000 else uint h)"
  for h :: "64 word"
proof -
  have r: "0 \<le> uint h" "uint h < 18446744073709551616" using uint_bounded [of h] by simp_all
  have s: "sint h = (uint h + 9223372036854775808) mod 18446744073709551616 - 9223372036854775808"
    using int_word_sint [of "uint h", where 'a = 64] by simp
  show ?thesis
  proof (cases "uint h \<ge> 0x8000000000000000")
    case True
    have "(uint h + 9223372036854775808) mod 18446744073709551616 =
        (uint h - 9223372036854775808 + 18446744073709551616) mod 18446744073709551616"
      by (rule arg_cong [where f = "\<lambda>x. x mod 18446744073709551616"]) simp
    also have "\<dots> = (uint h - 9223372036854775808) mod 18446744073709551616" by (rule mod_add_self2)
    also have "\<dots> = uint h - 9223372036854775808" using r True by (intro mod_pos_pos_trivial) simp_all
    finally show ?thesis using True s by simp
  next
    case False
    then show ?thesis using r s by simp
  qed
qed

lemma fnv1a64_word: "fnv1a64 key = sint (fnv_word key)"
proof -
  have "FNV_OFFSET_BASIS = uint (0xcbf29ce484222325 :: 64 word)" by (simp add: FNV_OFFSET_BASIS_def)
  then have "fnv_loop FNV_OFFSET_BASIS key = fnv_loop (uint (0xcbf29ce484222325 :: 64 word)) key"
    by (rule arg_cong)
  then have "fnv_loop FNV_OFFSET_BASIS key = uint (fnv_word key)"
    unfolding fnv_loop_word fnv_word_def .
  then show ?thesis by (simp add: fnv1a64_def sint_by_cases Let_def)
qed

text \<open>The prime is odd, hence invertible modulo \<open>2\<^sup>6\<^sup>4\<close>.\<close>

lemma fnv_prime_inverse: "(0x100000001b3 :: 64 word) * 0xce965057aff6957b = 1"
  by simp

lemma fnv_step_inject: "fnv_step h c = fnv_step h' c' \<longleftrightarrow> h XOR ucast c = h' XOR ucast c'"
proof
  assume "fnv_step h c = fnv_step h' c'"
  then have "(h XOR ucast c) * (0x100000001b3 * 0xce965057aff6957b) =
      (h' XOR ucast c') * (0x100000001b3 * 0xce965057aff6957b)"
    by (simp only: fnv_step_def flip: mult.assoc)
  then show "h XOR ucast c = h' XOR ucast c'" by (simp only: fnv_prime_inverse mult_1_right)
qed (simp add: fnv_step_def)

lemma xor_cancel_left: "a XOR b = a XOR c \<longleftrightarrow> b = c" for a b c :: "'a::len word"
  by (metis xor.assoc xor_self_eq xor.left_neutral)

lemma xor_cancel_right: "b XOR a = c XOR a \<longleftrightarrow> b = c" for a b c :: "'a::len word"
  by (simp only: xor.commute [of b a] xor.commute [of c a] xor_cancel_left)

lemma ucast_unit_inject: "(ucast c :: 64 word) = ucast d \<longleftrightarrow> c = d" for c d :: code_unit
proof
  assume "(ucast c :: 64 word) = ucast d"
  then have "uint (ucast c :: 64 word) = uint (ucast d :: 64 word)" by (rule arg_cong)
  then show "c = d" unfolding uint_ucast_unit by (rule unsigned_word_eqI)
qed simp

lemma foldl_fnv_inject: "foldl fnv_step h s = foldl fnv_step h' s \<longleftrightarrow> h = h'"
  by (induction s arbitrary: h h') (simp_all add: fnv_step_inject xor_cancel_right)

text \<open>Lock keys are hashed as 64-bit FNV-1a, and near keys do not collide. The big-integer loop
  with its mask computes exactly the wrap-around computation on 64-bit words, the result read as a
  signed number, so it always fits PostgreSQL's bigint; and two keys that differ in exactly one
  code unit always get different lock numbers.\<close>
lemma fnv1a64_single_unit:
  "fnv1a64 key = sint (fnv_word key) \<and> - (2 ^ 63) \<le> fnv1a64 key \<and> fnv1a64 key < 2 ^ 63 \<and>
   (fnv1a64 (p @ c # s) = fnv1a64 (p @ d # s) \<longleftrightarrow> c = d)"
proof -
  have "sint x = sint y \<longleftrightarrow> x = y" for x y :: "64 word" by (auto intro: signed_word_eqI)
  then have "fnv1a64 (p @ c # s) = fnv1a64 (p @ d # s) \<longleftrightarrow> c = d"
    by (simp add: fnv1a64_word fnv_word_def foldl_fnv_inject fnv_step_inject xor_cancel_left ucast_unit_inject)
  moreover have "- (2 ^ 63) \<le> fnv1a64 key" "fnv1a64 key < 2 ^ 63"
    using sint_ge [of "fnv_word key"] sint_lt [of "fnv_word key"] by (simp_all add: fnv1a64_word)
  ultimately show ?thesis by (simp add: fnv1a64_word)
qed

section \<open>uuidv7\<close>

text \<open>\<^verbatim>\<open>x & 0xff\<close> on a number first takes \<^verbatim>\<open>ToInt32\<close> of it; the clock counts
  milliseconds since 1970 and is not negative, so \<^verbatim>\<open>now / 2 ** k\<close> truncates as \<open>div\<close> does.\<close>

definition to_int32 :: "int \<Rightarrow> int" where
  "to_int32 x = signed_take_bit 31 x"

definition ts_byte :: "int \<Rightarrow> nat \<Rightarrow> 8 word" where
  "ts_byte now k = word_of_int (to_int32 (now div 2 ^ k) AND 0xff)"

definition uuid_bytes :: "int \<Rightarrow> 8 word list \<Rightarrow> 8 word list" where
  "uuid_bytes now bytes =
     bytes[0 := ts_byte now 40, 1 := ts_byte now 32, 2 := ts_byte now 24, 3 := ts_byte now 16,
           4 := ts_byte now 8, 5 := ts_byte now 0,
           6 := (bytes ! 6 AND 0x0f) OR 0x70,
           8 := (bytes ! 8 AND 0x3f) OR 0x80]"

definition hex_digit :: "nat \<Rightarrow> char" where
  "hex_digit n = ''0123456789abcdef'' ! n"

definition hex_byte :: "8 word \<Rightarrow> string" where
  "hex_byte b = [hex_digit (unat b div 16), hex_digit (unat b mod 16)]"

text \<open>\<^verbatim>\<open>s.slice(i, j)\<close>, \<open>0 \<le> i \<le> j\<close>.\<close>

definition hex_slice :: "nat \<Rightarrow> nat \<Rightarrow> string \<Rightarrow> string" where
  "hex_slice i j s = take (j - i) (drop i s)"

definition uuidv7 :: "int \<Rightarrow> 8 word list \<Rightarrow> string" where
  "uuidv7 now random =
     (let hex = concat (map hex_byte (uuid_bytes now random))
      in hex_slice 0 8 hex @ ''-'' @ hex_slice 8 12 hex @ ''-'' @ hex_slice 12 16 hex @ ''-'' @
         hex_slice 16 20 hex @ ''-'' @ drop 20 hex)"

lemma uint_ts_byte: "uint (ts_byte now k) = now div 2 ^ k mod 256"
proof -
  have "(255 :: int) = mask 8" by (simp add: mask_eq_exp_minus_1)
  then have "to_int32 (now div 2 ^ k) AND 0xff = take_bit 8 (signed_take_bit 31 (now div 2 ^ k))"
    by (simp only: to_int32_def take_bit_eq_mask)
  also have "\<dots> = take_bit 8 (now div 2 ^ k)" by (simp add: take_bit_signed_take_bit)
  finally have "uint (ts_byte now k) = take_bit 8 (now div 2 ^ k)"
    by (simp add: ts_byte_def uint_word_of_int_eq)
  then show ?thesis by (simp add: take_bit_eq_mod)
qed

text \<open>The sixteen bytes, and the string they give.\<close>

lemma list_of_16:
  assumes "length xs = 16"
  shows "xs = map ((!) xs) [0, 1, 2, 3, 4, 5, 6, 7, 8, 9, 10, 11, 12, 13, 14, 15]"
proof -
  have "[0..<16] = [0, 1, 2, 3, 4, 5, 6, 7, 8, 9, 10, 11, 12, 13, 14, 15 :: nat]" by (simp add: upt_rec)
  then show ?thesis using map_nth [of xs] assms by simp
qed

lemma uuidv7_expand:
  assumes "length random = 16"
  shows "uuidv7 now random =
    concat (map hex_byte [ts_byte now 40, ts_byte now 32, ts_byte now 24, ts_byte now 16]) @ CHR ''-'' #
    concat (map hex_byte [ts_byte now 8, ts_byte now 0]) @ CHR ''-'' #
    hex_byte ((random ! 6 AND 0x0f) OR 0x70) @ hex_byte (random ! 7) @ CHR ''-'' #
    hex_byte ((random ! 8 AND 0x3f) OR 0x80) @ hex_byte (random ! 9) @ CHR ''-'' #
    concat (map hex_byte [random ! 10, random ! 11, random ! 12, random ! 13, random ! 14, random ! 15])"
proof -
  have "uuid_bytes now random =
      [ts_byte now 40, ts_byte now 32, ts_byte now 24, ts_byte now 16, ts_byte now 8, ts_byte now 0,
       (random ! 6 AND 0x0f) OR 0x70, random ! 7, (random ! 8 AND 0x3f) OR 0x80, random ! 9,
       random ! 10, random ! 11, random ! 12, random ! 13, random ! 14, random ! 15]"
    using assms by (subst list_of_16) (simp_all add: uuid_bytes_def nth_list_update)
  then show ?thesis by (simp add: uuidv7_def hex_slice_def hex_byte_def)
qed

lemma hex_digit_less: "m < n \<Longrightarrow> n < 16 \<Longrightarrow> hex_digit m < hex_digit n"
proof -
  have "\<forall>n \<in> set [0..<16]. \<forall>m \<in> set [0..<n]. hex_digit m < hex_digit n" by code_simp
  then show "m < n \<Longrightarrow> n < 16 \<Longrightarrow> hex_digit m < hex_digit n" by simp
qed

lemma less_append_same_length:
  fixes xs ys :: "'a::order list"
  assumes "length xs = length ys" and "xs < ys"
  shows "xs @ us < ys @ vs"
  using assms by (induction xs ys rule: list_induct2) auto

lemma less_append_prefix: "us < vs \<Longrightarrow> xs @ us < xs @ vs" for xs us vs :: "'a::order list"
  by (induction xs) auto

lemma length_hex_bytes [simp]: "length (concat (map hex_byte bs)) = 2 * length bs"
  by (induction bs) (simp_all add: hex_byte_def)

lemma byte_bound: "unat b < 256" for b :: "8 word"
  using unsigned_less [of b, where ?'a = nat] by simp

lemma hex_byte_less:
  assumes "unat b < unat c"
  shows "hex_byte b < hex_byte c"
proof -
  have c: "unat c div 16 < 16" using byte_bound [of c] by simp
  have "unat b div 16 \<le> unat c div 16" using assms by (simp add: div_le_mono)
  then consider "unat b div 16 < unat c div 16" | "unat b div 16 = unat c div 16" by linarith
  then show ?thesis
  proof cases
    case 1
    with c show ?thesis by (simp add: hex_byte_def hex_digit_less)
  next
    case 2
    then have "unat b mod 16 < unat c mod 16"
      using assms div_mult_mod_eq [of "unat b" 16] div_mult_mod_eq [of "unat c" 16] by linarith
    with 2 show ?thesis by (simp add: hex_byte_def hex_digit_less)
  qed
qed

text \<open>Big-endian bytes as a number; its order is the order of the hexadecimal strings.\<close>

fun big_endian :: "8 word list \<Rightarrow> nat" where
  "big_endian [] = 0"
| "big_endian (b # bs) = unat b * 256 ^ length bs + big_endian bs"

lemma big_endian_bound: "big_endian bs < 256 ^ length bs"
proof (induction bs)
  case (Cons b bs)
  have "Suc (unat b) \<le> 256" using byte_bound [of b] by simp
  then have "Suc (unat b) * 256 ^ length bs \<le> 256 * 256 ^ length bs" by (intro mult_right_mono) simp_all
  with Cons show ?case unfolding mult_Suc big_endian.simps length_Cons power_Suc by linarith
qed simp

lemma big_endian_inject: "length bs = length cs \<Longrightarrow> big_endian bs = big_endian cs \<longleftrightarrow> bs = cs"
proof (induction bs cs rule: list_induct2)
  case (Cons b bs c cs)
  let ?m = "256 ^ length bs :: nat"
  have m: "big_endian bs < ?m" "big_endian cs < ?m"
    using big_endian_bound [of bs] big_endian_bound [of cs] Cons.hyps by simp_all
  have "unat b = unat c \<and> big_endian bs = big_endian cs"
    if "unat b * ?m + big_endian bs = unat c * ?m + big_endian cs"
  proof -
    have "(unat b * ?m + big_endian bs) div ?m = (unat c * ?m + big_endian cs) div ?m"
      and "(unat b * ?m + big_endian bs) mod ?m = (unat c * ?m + big_endian cs) mod ?m"
      using that by simp_all
    with m show ?thesis by simp
  qed
  with Cons show ?case by (auto simp: word_unat_eq_iff)
qed simp

lemma hex_less:
  assumes "length bs = length cs" and "big_endian bs < big_endian cs"
  shows "concat (map hex_byte bs) < concat (map hex_byte cs)"
  using assms
proof (induction bs cs rule: list_induct2)
  case (Cons b bs c cs)
  show ?case
  proof (cases "unat b < unat c")
    case True
    then have "hex_byte b @ concat (map hex_byte bs) < hex_byte c @ concat (map hex_byte cs)"
      by (intro less_append_same_length hex_byte_less) (simp_all add: hex_byte_def)
    then show ?thesis by simp
  next
    case False
    have "\<not> unat c < unat b"
    proof
      assume "unat c < unat b"
      then have "Suc (unat c) * 256 ^ length cs \<le> unat b * 256 ^ length bs"
        using Cons.hyps by (intro mult_mono) simp_all
      with Cons.prems big_endian_bound [of cs] show False by simp
    qed
    with False have "b = c" by (simp add: not_less word_unat_eq_iff)
    with Cons show ?thesis by (simp add: less_append_prefix)
  qed
qed simp

lemma byte_join: "x div 2 ^ (k + 8) * 256 + x div 2 ^ k mod 256 = x div 2 ^ k" for x :: int
proof -
  have "x div 2 ^ (k + 8) = x div 2 ^ k div 256"
    by (simp add: power_add zdiv_zmult2_eq)
  then show ?thesis by (simp add: mult.commute)
qed

lemma big_endian_timestamp:
  assumes "0 \<le> now" and "now < 2 ^ 48"
  shows "int (big_endian [ts_byte now 40, ts_byte now 32, ts_byte now 24, ts_byte now 16]) = now div 2 ^ 16"
    and "int (big_endian [ts_byte now 8, ts_byte now 0]) = now mod 2 ^ 16"
proof -
  define b where "b k = now div 2 ^ k mod 256" for k
  have b: "uint (ts_byte now k) = b k" for k by (simp add: b_def uint_ts_byte)
  have join: "now div 2 ^ (k + 8) * 256 + b k = now div 2 ^ k" for k
    unfolding b_def by (rule byte_join)
  have "now div 2 ^ 40 < 256" using assms by (simp add: div_less_iff_less_mult)
  then have top: "b 40 = now div 2 ^ 40" using assms by (simp add: b_def)
  have "b 40 * 256 + b 32 = now div 2 ^ 32" using join [of 32] top by simp
  moreover have "now div 2 ^ 32 * 256 + b 24 = now div 2 ^ 24" using join [of 24] by simp
  moreover have "now div 2 ^ 24 * 256 + b 16 = now div 2 ^ 16" using join [of 16] by simp
  ultimately have "((b 40 * 256 + b 32) * 256 + b 24) * 256 + b 16 = now div 2 ^ 16" by simp
  then show "int (big_endian [ts_byte now 40, ts_byte now 32, ts_byte now 24, ts_byte now 16]) = now div 2 ^ 16"
    by (simp add: b)
  have "now div 65536 * 256 + b 8 = now div 256" using join [of 8] by simp
  moreover have "now div 256 * 256 + b 0 = now" using join [of 0] by simp
  ultimately have "b 8 * 256 + b 0 = now - now div 65536 * 65536" by linarith
  then have "b 8 * 256 + b 0 = now mod 65536" by (simp only: minus_div_mult_eq_mod)
  then show "int (big_endian [ts_byte now 8, ts_byte now 0]) = now mod 2 ^ 16" by (simp add: b)
qed

lemma timestamp_hex_less:
  assumes "0 \<le> now" and "now < now'" and "now' < 2 ^ 48"
  shows "concat (map hex_byte [ts_byte now 40, ts_byte now 32, ts_byte now 24, ts_byte now 16]) @ x #
           concat (map hex_byte [ts_byte now 8, ts_byte now 0]) @ s <
         concat (map hex_byte [ts_byte now' 40, ts_byte now' 32, ts_byte now' 24, ts_byte now' 16]) @ x #
           concat (map hex_byte [ts_byte now' 8, ts_byte now' 0]) @ t"
proof -
  let ?hi = "\<lambda>n. [ts_byte n 40, ts_byte n 32, ts_byte n 24, ts_byte n 16]"
  let ?lo = "\<lambda>n. [ts_byte n 8, ts_byte n 0]"
  have r: "0 \<le> now" "now < 2 ^ 48" "0 \<le> now'" "now' < 2 ^ 48" using assms by auto
  note hl = big_endian_timestamp [OF r(1,2)] big_endian_timestamp [OF r(3,4)]
  show ?thesis
  proof (cases "now div 2 ^ 16 < now' div 2 ^ 16")
    case True
    then have "big_endian (?hi now) < big_endian (?hi now')" using hl(1,3) by linarith
    then have "concat (map hex_byte (?hi now)) < concat (map hex_byte (?hi now'))"
      by (intro hex_less) simp_all
    then show ?thesis by (intro less_append_same_length) (simp_all only: length_hex_bytes list.size)
  next
    case False
    have "now div 2 ^ 16 \<le> now' div 2 ^ 16" using assms(2) by (intro zdiv_mono1) simp_all
    with False have eq: "now div 2 ^ 16 = now' div 2 ^ 16" by simp
    then have "big_endian (?hi now) = big_endian (?hi now')" using hl(1,3) by linarith
    then have hi: "concat (map hex_byte (?hi now)) = concat (map hex_byte (?hi now'))"
      using big_endian_inject [of "?hi now" "?hi now'"] by simp
    have "now mod 2 ^ 16 < now' mod 2 ^ 16"
      using assms(2) eq by (metis div_mult_mod_eq add_less_cancel_left)
    then have "big_endian (?lo now) < big_endian (?lo now')" using hl(2,4) by linarith
    then have "concat (map hex_byte (?lo now)) < concat (map hex_byte (?lo now'))"
      by (intro hex_less) simp_all
    then have "concat (map hex_byte (?lo now)) @ s < concat (map hex_byte (?lo now')) @ t"
      by (intro less_append_same_length) (simp_all only: length_hex_bytes list.size)
    then have "x # concat (map hex_byte (?lo now)) @ s < x # concat (map hex_byte (?lo now')) @ t" by simp
    then show ?thesis unfolding hi by (rule less_append_prefix)
  qed
qed

text \<open>Generated identifiers are ordered by time. For two clock readings in the 48-bit range, the
  earlier one gives the smaller string in lexicographic order, whatever the random bytes are.\<close>
lemma uuidv7_time_ordered:
  assumes "0 \<le> now" and "now < now'" and "now' < 2 ^ 48"
    and "length random = 16" and "length random' = 16"
  shows "uuidv7 now random < uuidv7 now' random'"
  unfolding uuidv7_expand [OF assms(4)] uuidv7_expand [OF assms(5)]
  by (rule timestamp_hex_less [OF assms(1-3)])

lemma uuidv7_time_ordered_sample:
  "uuidv7 1000 (replicate 16 255) < uuidv7 70000 (replicate 16 0)"
  by (rule uuidv7_time_ordered) simp_all

lemma unat_div_16: "unat w div 16 = unat (drop_bit 4 w)" for w :: "8 word"
proof -
  have "unat (drop_bit 4 w) = drop_bit 4 (unat w)" using byte_bound [of w] by (simp only: unsigned_drop_bit_eq) (simp add: take_bit_nat_eq_self)
  also have "\<dots> = unat w div 16" by (simp add: drop_bit_eq_div)
  finally show ?thesis by simp
qed

lemma version_nibble: "hex_digit (unat ((w AND 0x0f) OR 0x70) div 16) = CHR ''7''" for w :: "8 word"
  by (simp add: unat_div_16 drop_bit_and drop_bit_or hex_digit_def)

lemma word_and_3: "w AND 3 \<in> {0, 1, 2, 3}" for w :: "8 word"
proof -
  have "w AND 3 = take_bit 2 w" by (simp add: take_bit_eq_mask mask_eq_exp_minus_1)
  then have "unat (w AND 3) = take_bit 2 (unat w)" by (simp only: unsigned_take_bit_eq)
  then have "unat (w AND 3) < 4" by (simp add: take_bit_eq_mod)
  then have "unat (w AND 3) \<in> {0, 1, 2, 3}" by auto
  then show ?thesis by (auto simp: word_unat_eq_iff)
qed

lemma variant_nibble: "hex_digit (unat ((w AND 0x3f) OR 0x80) div 16) \<in> set ''89ab''" for w :: "8 word"
proof -
  have "drop_bit 4 ((w AND 0x3f) OR 0x80) = (drop_bit 4 w AND 3) OR 8"
    by (simp add: drop_bit_and drop_bit_or)
  then show ?thesis
    using word_and_3 [of "drop_bit 4 w"] by (auto simp: unat_div_16 hex_digit_def)
qed

text \<open>Generated identifiers have the layout of a version 7 UUID. The string has 36 characters with
  dashes after 8, 12, 16 and 20 digits, the version digit is 7 and the variant digit is one of 8, 9,
  a and b, for every clock reading and all random bytes.\<close>
lemma uuidv7_layout:
  assumes "length random = 16"
  shows "length (uuidv7 now random) = 36 \<and>
    map ((!) (uuidv7 now random)) [8, 13, 18, 23] = ''----'' \<and>
    uuidv7 now random ! 14 = CHR ''7'' \<and> uuidv7 now random ! 19 \<in> set ''89ab''"
  unfolding uuidv7_expand [OF assms]
  using version_nibble [of "random ! 6"] variant_nibble [of "random ! 8"]
  by (simp add: hex_byte_def)

lemma uuidv7_layout_sample:
  "length (uuidv7 1700000000000 (replicate 16 171)) = 36 \<and>
   uuidv7 1700000000000 (replicate 16 171) ! 14 = CHR ''7''"
  using uuidv7_layout [of "replicate 16 171" 1700000000000] by simp

end
