(* ===== verification/Json.thy ===== *)
theory Json
  imports Messages "HOL-Library.Char_ord"
begin

text \<open>
  The JSON texts the adapters write and read: \<^verbatim>\<open>JSON.stringify\<close> and
  \<^verbatim>\<open>JSON.parse\<close> on the values of the prelude, and the two directions between an event and
  the object that carries it. Numbers are the integers (a fraction or an exponent is outside the
  values of this development and does not parse), code units are 8 bit wide. The round trip
  \<open>json_parse_text\<close> says what a reader gets back: the value without its
  \<^verbatim>\<open>undefined\<close>s.
\<close>

section \<open>JSON.stringify\<close>

definition DQ :: char where "DQ = CHR 0x22"
definition BS :: char where "BS = CHR 0x5C"

lemma DQ_BS [simp]: "DQ \<noteq> BS" "BS \<noteq> DQ"
  by (simp_all add: DQ_def BS_def)

definition hex_digit :: "nat \<Rightarrow> char" where
  "hex_digit n = (if n < 10 then char_of (48 + n) else char_of (87 + n))"

text \<open>A code unit inside a string literal: the two-character escapes, \<^verbatim>\<open>\u00XX\<close> for the
  other control characters, and the unit itself.\<close>

definition json_escape :: "char \<Rightarrow> string" where
  "json_escape c =
     (let n = of_char c :: nat in
      if c = DQ then [BS, DQ] else if c = BS then [BS, BS]
      else if n = 8 then [BS, CHR ''b''] else if n = 9 then [BS, CHR ''t'']
      else if n = 10 then [BS, CHR ''n''] else if n = 12 then [BS, CHR ''f'']
      else if n = 13 then [BS, CHR ''r'']
      else if n < 32 then [BS, CHR ''u'', CHR ''0'', CHR ''0'', hex_digit (n div 16), hex_digit (n mod 16)]
      else [c])"

definition json_quote :: "string \<Rightarrow> string" where
  "json_quote s = DQ # concat (map json_escape s) @ [DQ]"

fun join_comma :: "string list \<Rightarrow> string" where
  "join_comma [] = []"
| "join_comma [x] = x"
| "join_comma (x # y # r) = x @ CHR '','' # join_comma (y # r)"

fun json_text :: "jsval \<Rightarrow> string option"
and json_items :: "jsval list \<Rightarrow> string list"
and json_fields :: "(string \<times> jsval) list \<Rightarrow> string list" where
  "json_text JUndef = None"
| "json_text JNull = Some ''null''"
| "json_text (JBool b) = Some (if b then ''true'' else ''false'')"
| "json_text (JNum n) = Some (int_string n)"
| "json_text (JStr s) = Some (json_quote s)"
| "json_text (JArr xs) = Some (''['' @ join_comma (json_items xs) @ '']'')"
| "json_text (JObj kvs) = Some (''{'' @ join_comma (json_fields kvs) @ ''}'')"
| "json_items [] = []"
| "json_items (x # xs) = or_else (json_text x) ''null'' # json_items xs"
| "json_fields [] = []"
| "json_fields ((k, v) # r) =
     (case json_text v of
        None \<Rightarrow> json_fields r
      | Some t \<Rightarrow> (json_quote k @ CHR '':'' # t) # json_fields r)"

section \<open>JSON.parse\<close>

definition is_ws :: "char \<Rightarrow> bool" where
  "is_ws c \<longleftrightarrow> (of_char c :: nat) \<in> {9, 10, 13, 32}"

definition skip_ws :: "string \<Rightarrow> string" where
  "skip_ws = dropWhile is_ws"

definition is_digit :: "char \<Rightarrow> bool" where
  "is_digit c \<longleftrightarrow> 48 \<le> (of_char c :: nat) \<and> (of_char c :: nat) \<le> 57"

definition digits_value :: "string \<Rightarrow> nat" where
  "digits_value ds = foldl (\<lambda>n c. 10 * n + (of_char c - 48)) 0 ds"

definition parse_nat :: "string \<Rightarrow> (nat \<times> string) option" where
  "parse_nat s =
     (let ds = takeWhile is_digit s; r = dropWhile is_digit s in
      if ds = [] \<or> (1 < length ds \<and> hd ds = CHR ''0'') then None
      else (case r of
              [] \<Rightarrow> Some (digits_value ds, [])
            | c # _ \<Rightarrow> if c \<in> {CHR ''.'', CHR ''e'', CHR ''E''} then None
                      else Some (digits_value ds, r)))"

definition hex_value :: "char \<Rightarrow> nat option" where
  "hex_value c =
     (let n = of_char c :: nat in
      if 48 \<le> n \<and> n \<le> 57 then Some (n - 48)
      else if 97 \<le> n \<and> n \<le> 102 then Some (n - 87)
      else if 65 \<le> n \<and> n \<le> 70 then Some (n - 55) else None)"

definition hex4 :: "char \<Rightarrow> char \<Rightarrow> char \<Rightarrow> char \<Rightarrow> char option" where
  "hex4 a b c d =
     (case (hex_value a, hex_value b, hex_value c, hex_value d) of
        (Some w, Some x, Some y, Some z) \<Rightarrow>
          (let n = ((w * 16 + x) * 16 + y) * 16 + z in if n < 256 then Some (char_of n) else None)
      | _ \<Rightarrow> None)"

definition unescape :: "char \<Rightarrow> char option" where
  "unescape e =
     (if e = DQ then Some DQ else if e = BS then Some BS else if e = CHR ''/'' then Some CHR ''/''
      else if e = CHR ''b'' then Some (char_of (8::nat)) else if e = CHR ''t'' then Some (char_of (9::nat))
      else if e = CHR ''n'' then Some (char_of (10::nat)) else if e = CHR ''f'' then Some (char_of (12::nat))
      else if e = CHR ''r'' then Some (char_of (13::nat)) else None)"

definition cons_fst :: "'a \<Rightarrow> ('a list \<times> 'b) option \<Rightarrow> ('a list \<times> 'b) option" where
  "cons_fst x r = map_option (\<lambda>(xs, b). (x # xs, b)) r"

lemma cons_fst_simps [simp]: "cons_fst x None = None" "cons_fst x (Some (xs, b)) = Some (x # xs, b)"
  by (simp_all add: cons_fst_def)

text \<open>A string literal after its opening quote: the decoded string and the text behind it.\<close>

fun parse_str :: "string \<Rightarrow> (string \<times> string) option" where
  "parse_str [] = None"
| "parse_str (c # r) =
     (if c = DQ then Some ([], r)
      else if c = BS then
        (case r of
           [] \<Rightarrow> None
         | e # r1 \<Rightarrow>
             if e = CHR ''u'' then
               (case r1 of
                  h1 # h2 # h3 # h4 # r2 \<Rightarrow>
                    (case hex4 h1 h2 h3 h4 of None \<Rightarrow> None | Some u \<Rightarrow> cons_fst u (parse_str r2))
                | _ \<Rightarrow> None)
             else (case unescape e of None \<Rightarrow> None | Some u \<Rightarrow> cons_fst u (parse_str r1)))
      else if (of_char c :: nat) < 32 then None
      else cons_fst c (parse_str r))"

fun strip_literal :: "string \<Rightarrow> string \<Rightarrow> string option" where
  "strip_literal [] s = Some s"
| "strip_literal (p # ps) [] = None"
| "strip_literal (p # ps) (c # s) = (if c = p then strip_literal ps s else None)"

text \<open>An object literal that repeats a key keeps the last value.\<close>

definition make_obj :: "(string \<times> jsval) list \<Rightarrow> jsval" where
  "make_obj kvs = JObj (fold (\<lambda>(k, v). jm_set k v) kvs [])"

fun parse_val :: "nat \<Rightarrow> string \<Rightarrow> (jsval \<times> string) option"
and parse_items :: "nat \<Rightarrow> string \<Rightarrow> (jsval list \<times> string) option"
and parse_fields :: "nat \<Rightarrow> string \<Rightarrow> ((string \<times> jsval) list \<times> string) option" where
  "parse_val 0 s = None"
| "parse_val (Suc n) s =
     (case skip_ws s of
        [] \<Rightarrow> None
      | c # r \<Rightarrow>
          if c = CHR ''n'' then map_option (\<lambda>r'. (JNull, r')) (strip_literal ''ull'' r)
          else if c = CHR ''t'' then map_option (\<lambda>r'. (JBool True, r')) (strip_literal ''rue'' r)
          else if c = CHR ''f'' then map_option (\<lambda>r'. (JBool False, r')) (strip_literal ''alse'' r)
          else if c = DQ then map_option (\<lambda>(x, r'). (JStr x, r')) (parse_str r)
          else if c = CHR ''-'' then map_option (\<lambda>(k, r'). (JNum (- int k), r')) (parse_nat r)
          else if c = CHR ''['' then
            (case skip_ws r of
               [] \<Rightarrow> None
             | d # r' \<Rightarrow> if d = CHR '']'' then Some (JArr [], r')
                        else map_option (\<lambda>(xs, r''). (JArr xs, r'')) (parse_items n r))
          else if c = CHR ''{'' then
            (case skip_ws r of
               [] \<Rightarrow> None
             | d # r' \<Rightarrow> if d = CHR ''}'' then Some (JObj [], r')
                        else map_option (\<lambda>(kvs, r''). (make_obj kvs, r'')) (parse_fields n r))
          else map_option (\<lambda>(k, r'). (JNum (int k), r')) (parse_nat (c # r)))"
| "parse_items 0 s = None"
| "parse_items (Suc n) s =
     (case parse_val n s of
        None \<Rightarrow> None
      | Some (v, r) \<Rightarrow>
          (case skip_ws r of
             [] \<Rightarrow> None
           | c # r' \<Rightarrow> if c = CHR '','' then cons_fst v (parse_items n r')
                      else if c = CHR '']'' then Some ([v], r') else None))"
| "parse_fields 0 s = None"
| "parse_fields (Suc n) s =
     (case skip_ws s of
        [] \<Rightarrow> None
      | q # r \<Rightarrow>
          if q \<noteq> DQ then None
          else (case parse_str r of
             None \<Rightarrow> None
           | Some (k, r1) \<Rightarrow>
               (case skip_ws r1 of
                  [] \<Rightarrow> None
                | c # r2 \<Rightarrow>
                    if c \<noteq> CHR '':'' then None
                    else (case parse_val n r2 of
                       None \<Rightarrow> None
                     | Some (v, r3) \<Rightarrow>
                         (case skip_ws r3 of
                            [] \<Rightarrow> None
                          | d # r4 \<Rightarrow> if d = CHR '','' then cons_fst (k, v) (parse_fields n r4)
                                     else if d = CHR ''}'' then Some ([(k, v)], r4) else None)))))"

text \<open>Each level of nesting and each element uses two units of fuel and at least one character, so
  two units per character suffice; \<open>json_parse_text\<close> proves it for the texts that are
  written.\<close>

definition json_parse :: "string \<Rightarrow> jsval option" where
  "json_parse s =
     (case parse_val (2 * length s + 2) s of
        Some (v, r) \<Rightarrow> if skip_ws r = [] then Some v else None
      | None \<Rightarrow> None)"

section \<open>The round trip\<close>

text \<open>What \<^verbatim>\<open>JSON.stringify\<close> keeps of a value: an \<^verbatim>\<open>undefined\<close> element of an
  array becomes \<^verbatim>\<open>null\<close>, an \<^verbatim>\<open>undefined\<close> property disappears.\<close>

fun json_norm :: "jsval \<Rightarrow> jsval"
and norm_items :: "jsval list \<Rightarrow> jsval list"
and norm_fields :: "(string \<times> jsval) list \<Rightarrow> (string \<times> jsval) list" where
  "json_norm (JArr xs) = JArr (norm_items xs)"
| "json_norm (JObj kvs) = JObj (norm_fields kvs)"
| "json_norm v = v"
| "norm_items [] = []"
| "norm_items (x # xs) = (if x = JUndef then JNull else json_norm x) # norm_items xs"
| "norm_fields [] = []"
| "norm_fields ((k, v) # r) = (if v = JUndef then norm_fields r else (k, json_norm v) # norm_fields r)"

text \<open>The keys of a JavaScript object are distinct.\<close>

fun js_wf :: "jsval \<Rightarrow> bool" where
  "js_wf (JArr xs) \<longleftrightarrow> (\<forall>x \<in> set xs. js_wf x)"
| "js_wf (JObj kvs) \<longleftrightarrow> distinct (map fst kvs) \<and> (\<forall>kv \<in> set kvs. js_wf (snd kv))"
| "js_wf v \<longleftrightarrow> True"

lemma json_text_None [simp]: "json_text v = None \<longleftrightarrow> v = JUndef"
  by (cases v) simp_all

subsection \<open>Numerals\<close>

lemma nat_string_digit: "n < 10 \<Longrightarrow> nat_string n = [char_of (48 + n)]"
  by (simp add: nat_string.simps)

lemma is_digit_of: "n < 10 \<Longrightarrow> is_digit (char_of (48 + n :: nat))"
  by (simp add: is_digit_def of_char_mod_256 take_bit_eq_mod)

lemma of_char_digit: "n < 10 \<Longrightarrow> (of_char (char_of (48 + n :: nat)) :: nat) = 48 + n"
  by simp

lemma nat_string_digits: "\<forall>c \<in> set (nat_string n). is_digit c"
proof (induction n rule: nat_string.induct)
  case (1 n)
  then show ?case by (subst nat_string.simps) (auto simp: is_digit_of)
qed

lemma nat_string_nonempty [simp]: "nat_string n \<noteq> []"
  by (subst nat_string.simps) simp

lemma int_string_nonempty [simp]: "int_string k \<noteq> []"
  by (simp add: int_string_def)

lemma digits_value_snoc: "digits_value (ds @ [c]) = 10 * digits_value ds + (of_char c - 48)"
  by (simp add: digits_value_def)

lemma digits_value_nat_string: "digits_value (nat_string n) = n"
proof (induction n rule: nat_string.induct)
  case (1 n)
  show ?case
  proof (cases "n < 10")
    case True
    then show ?thesis by (simp add: nat_string_digit digits_value_def of_char_digit)
  next
    case False
    then show ?thesis using "1.IH" False
      by (subst nat_string.simps) (simp add: digits_value_snoc of_char_digit)
  qed
qed

lemma hd_nat_string: "0 < n \<Longrightarrow> hd (nat_string n) \<noteq> CHR ''0''"
proof (induction n rule: nat_string.induct)
  case (1 n)
  show ?case
  proof (cases "n < 10")
    case True
    then have "(of_char (hd (nat_string n)) :: nat) = 48 + n"
      by (simp add: nat_string_digit of_char_digit)
    with "1.prems" show ?thesis by auto
  next
    case False
    then have "hd (nat_string (n div 10)) \<noteq> CHR ''0''" by (intro "1.IH") auto
    with False show ?thesis by (subst nat_string.simps) simp
  qed
qed

definition json_stop :: "string \<Rightarrow> bool" where
  "json_stop r \<longleftrightarrow> r = [] \<or> hd r \<in> {CHR '','', CHR '']'', CHR ''}''}"

lemma json_stop_no_digit: "json_stop r \<Longrightarrow> takeWhile is_digit r = [] \<and> dropWhile is_digit r = r"
  by (cases r) (auto simp: json_stop_def is_digit_def)

lemma parse_nat_string:
  assumes "json_stop r"
  shows "parse_nat (nat_string n @ r) = Some (n, r)"
proof -
  have ds: "takeWhile is_digit (nat_string n @ r) = nat_string n"
      "dropWhile is_digit (nat_string n @ r) = r"
    using nat_string_digits [of n] json_stop_no_digit [OF assms]
    by (simp_all add: takeWhile_append2 dropWhile_append2)
  have "\<not> (1 < length (nat_string n) \<and> hd (nat_string n) = CHR ''0'')"
    using hd_nat_string [of n] by (cases "n = 0") (auto simp: nat_string_digit)
  with assms show ?thesis
    unfolding parse_nat_def Let_def ds
    by (cases r) (auto simp: digits_value_nat_string json_stop_def)
qed

subsection \<open>String literals\<close>

lemma hex4_digits:
  assumes "n < 32"
  shows "hex4 CHR ''0'' CHR ''0'' (hex_digit (n div 16)) (hex_digit (n mod 16)) = Some (char_of n)"
proof -
  have hv: "hex_value (hex_digit m) = Some m" if "m < 16" for m
    using that by (auto simp: hex_value_def hex_digit_def Let_def)
  have "n div 16 < 16" "n mod 16 < 16" using assms by auto
  then have "hex_value (hex_digit (n div 16)) = Some (n div 16)"
      "hex_value (hex_digit (n mod 16)) = Some (n mod 16)" by (simp_all only: hv)
  moreover have "hex_value CHR ''0'' = Some 0" by (simp add: hex_value_def)
  ultimately show ?thesis using assms by (simp add: hex4_def Let_def)
qed

lemma parse_str_escape: "parse_str (json_escape c @ r) = cons_fst c (parse_str r)"
proof -
  let ?n = "of_char c :: nat"
  have c: "c = char_of ?n" by simp
  consider "c = DQ" | "c = BS" | "?n = 8" | "?n = 9" | "?n = 10" | "?n = 12" | "?n = 13"
    | "c \<noteq> DQ" "c \<noteq> BS" "?n \<notin> {8, 9, 10, 12, 13}" "?n < 32"
    | "c \<noteq> DQ" "c \<noteq> BS" "\<not> ?n < 32" by auto
  then show ?thesis
  proof cases
    case 8
    then have "json_escape c =
        [BS, CHR ''u'', CHR ''0'', CHR ''0'', hex_digit (?n div 16), hex_digit (?n mod 16)]"
      by (simp add: json_escape_def Let_def)
    then show ?thesis using hex4_digits [of ?n] 8 by simp
  next
    case 9
    then show ?thesis by (simp add: json_escape_def Let_def)
  next
    case 1
    then show ?thesis by (simp add: json_escape_def unescape_def DQ_def BS_def)
  next
    case 2
    then show ?thesis by (simp add: json_escape_def unescape_def DQ_def BS_def)
  qed (subst c, simp add: json_escape_def unescape_def Let_def DQ_def BS_def)+
qed

lemma parse_str_quote: "parse_str (concat (map json_escape s) @ DQ # r) = Some (s, r)"
  by (induction s) (simp_all add: parse_str_escape)

subsection \<open>Values\<close>

lemma skip_ws_Cons [simp]: "\<not> is_ws c \<Longrightarrow> skip_ws (c # r) = c # r"
  by (simp add: skip_ws_def)

lemma is_ws_punctuation [simp]:
  "\<not> is_ws CHR '',''" "\<not> is_ws CHR '':''" "\<not> is_ws CHR ''[''" "\<not> is_ws CHR '']''"
  "\<not> is_ws CHR ''{''" "\<not> is_ws CHR ''}''" "\<not> is_ws DQ" "\<not> is_ws CHR ''-''"
  "\<not> is_ws CHR ''n''" "\<not> is_ws CHR ''t''" "\<not> is_ws CHR ''f''"
  by (simp_all add: is_ws_def DQ_def)

lemma is_digit_not_special:
  "is_digit c \<Longrightarrow> \<not> is_ws c \<and> c \<notin> {CHR ''n'', CHR ''t'', CHR ''f'', DQ, CHR ''-'', CHR ''['', CHR ''{'',
     CHR '']'', CHR ''}''}"
  by (auto simp: is_digit_def is_ws_def DQ_def)

lemma DQ_special [simp]:
  "DQ \<noteq> CHR ''n''" "DQ \<noteq> CHR ''t''" "DQ \<noteq> CHR ''f''" "DQ \<noteq> CHR '']''" "DQ \<noteq> CHR ''}''"
  by (simp_all add: DQ_def)

lemma parse_val_int:
  assumes "json_stop r"
  shows "parse_val (Suc n) (int_string k @ r) = Some (JNum k, r)"
proof (cases "k < 0")
  case True
  then show ?thesis using assms by (simp add: int_string_def parse_nat_string DQ_def)
next
  case False
  obtain c cs where c: "nat_string (nat k) = c # cs" by (cases "nat_string (nat k)") auto
  then have "is_digit c" using nat_string_digits [of "nat k"] by simp
  moreover have "parse_nat (c # cs @ r) = Some (nat k, r)"
    using parse_nat_string [OF assms, of "nat k"] c by simp
  ultimately show ?thesis
    using False c is_digit_not_special [of c] by (simp add: int_string_def)
qed

text \<open>The first character of a value's text.\<close>

lemma json_text_head:
  assumes "json_text v = Some t"
  shows "\<exists>c r. t = c # r \<and> \<not> is_ws c \<and> c \<noteq> CHR '']'' \<and> c \<noteq> CHR ''}''"
proof (cases v)
  case (JNum n)
  obtain c cs where c: "nat_string (nat n) = c # cs" by (cases "nat_string (nat n)") auto
  then have "is_digit c" using nat_string_digits [of "nat n"] by simp
  then have "c \<notin> {CHR '']'', CHR ''}''} \<and> \<not> is_ws c" using is_digit_not_special by blast
  moreover have "t = int_string n" using JNum assms by simp
  then have "t = (if n < 0 then CHR ''-'' # nat_string (nat (- n)) else c # cs)"
    by (simp add: int_string_def c)
  ultimately show ?thesis by (cases "n < 0") simp_all
next
  case (JBool b)
  with assms have "t = (if b then ''true'' else ''false'')" by simp
  then show ?thesis by (cases b) simp_all
next
  case (JStr s)
  with assms have "t = DQ # concat (map json_escape s) @ [DQ]" by (simp add: json_quote_def)
  then show ?thesis by simp
qed (use assms [symmetric] in simp_all)

lemma json_item_head:
  "\<exists>c q. or_else (json_text x) ''null'' = c # q \<and> \<not> is_ws c \<and> c \<noteq> CHR '']''"
proof (cases "json_text x")
  case None
  then show ?thesis by simp
next
  case (Some t)
  from json_text_head [OF Some] obtain c q where "t = c # q" "\<not> is_ws c" "c \<noteq> CHR '']''" by blast
  with Some show ?thesis by simp
qed

lemma join_comma_Cons: "xs \<noteq> [] \<Longrightarrow> join_comma (x # xs) = x @ CHR '','' # join_comma xs"
  by (cases xs) simp_all

lemma json_items_Nil [simp]: "json_items xs = [] \<longleftrightarrow> xs = []"
  by (cases xs) simp_all

lemma norm_fields_keys: "kv \<in> set (norm_fields kvs) \<Longrightarrow> fst kv \<in> fst ` set kvs"
  by (induction kvs) (auto split: if_splits)

lemma norm_fields_distinct: "distinct (map fst kvs) \<Longrightarrow> distinct (map fst (norm_fields kvs))"
proof (induction kvs)
  case Nil
  then show ?case by simp
next
  case (Cons kv r)
  then show ?case by (cases kv) (auto dest: norm_fields_keys)
qed

lemma make_obj_distinct:
  assumes "distinct (map fst kvs)"
  shows "make_obj kvs = JObj kvs"
proof -
  have "fold (\<lambda>(k, v). jm_set k v) kvs acc = acc @ kvs"
    if "distinct (map fst (acc @ kvs))" for acc
    using that
  proof (induction kvs arbitrary: acc)
    case Nil
    then show ?case by simp
  next
    case (Cons kv kvs)
    obtain k v where kv: "kv = (k, v)" by (cases kv)
    with Cons.prems have "jm_get acc k = None"
      by (auto simp: jm_get_def map_of_eq_None_iff)
    then have "jm_set k v acc = acc @ [(k, v)]" by (rule jm_set_new)
    with Cons.IH [of "acc @ [(k, v)]"] Cons.prems kv show ?case by simp
  qed
  from this [of "[]"] assms show ?thesis by (simp add: make_obj_def)
qed

lemma json_fields_Nil [simp]: "json_fields kvs = [] \<longleftrightarrow> norm_fields kvs = []"
  by (induction kvs) (auto split: option.splits if_splits)

lemma parse_items_step:
  assumes "parse_val n (t @ c # r) = Some (v, c # r)"
  shows "c = CHR '']'' \<Longrightarrow> parse_items (Suc n) (t @ c # r) = Some ([v], r)"
    and "c = CHR '','' \<Longrightarrow> parse_items (Suc n) (t @ c # r) = cons_fst v (parse_items n r)"
  using assms by simp_all

lemma parse_fields_step:
  assumes "parse_val n (t @ c # r) = Some (v, c # r)"
  shows "c = CHR ''}'' \<Longrightarrow> parse_fields (Suc n) (json_quote k @ CHR '':'' # t @ c # r) = Some ([(k, v)], r)"
    and "c = CHR '','' \<Longrightarrow>
      parse_fields (Suc n) (json_quote k @ CHR '':'' # t @ c # r) = cons_fst (k, v) (parse_fields n r)"
  using assms by (simp_all add: json_quote_def parse_str_quote)

lemma parse_json_text:
  "json_text v = Some t \<Longrightarrow> js_wf v \<Longrightarrow> 2 * length t \<le> n \<Longrightarrow> json_stop r \<Longrightarrow>
     parse_val n (t @ r) = Some (json_norm v, r)"
  "xs \<noteq> [] \<Longrightarrow> \<forall>x \<in> set xs. js_wf x \<Longrightarrow> 2 * length (join_comma (json_items xs)) + 1 \<le> n \<Longrightarrow>
     parse_items n (join_comma (json_items xs) @ CHR '']'' # r) = Some (norm_items xs, r)"
  "norm_fields kvs \<noteq> [] \<Longrightarrow> \<forall>kv \<in> set kvs. js_wf (snd kv) \<Longrightarrow>
     2 * length (join_comma (json_fields kvs)) + 1 \<le> n \<Longrightarrow>
     parse_fields n (join_comma (json_fields kvs) @ CHR ''}'' # r) = Some (norm_fields kvs, r)"
proof (induction v and xs and kvs arbitrary: t n r and n r and n r
    rule: json_text_json_items_json_fields.induct)
  case 2
  then obtain m where "n = Suc m" by (cases n) auto
  with 2 show ?case by auto
next
  case (3 b)
  then obtain m where "n = Suc m" by (cases n) (auto split: if_splits)
  with 3 show ?case by auto
next
  case (4 k)
  then obtain m where "n = Suc m" by (cases n) auto
  with 4 parse_val_int [of r m k] show ?case by (simp del: parse_val.simps)
next
  case (5 s)
  then obtain m where "n = Suc m" by (cases n) (auto simp: json_quote_def)
  with 5 show ?case by (auto simp: json_quote_def parse_str_quote)
next
  case (6 xs)
  then obtain m where m: "n = Suc m" by (cases n) auto
  show ?case
  proof (cases "xs = []")
    case True
    with 6 m show ?thesis by (auto simp: DQ_def)
  next
    case False
    let ?j = "join_comma (json_items xs)"
    have t: "t = ''['' @ ?j @ '']''" using 6 by simp
    have "parse_items m (?j @ CHR '']'' # r) = Some (norm_items xs, r)"
      using 6 m t False by (intro "6.IH") auto
    moreover obtain d ds where "?j = d # ds" "\<not> is_ws d" "d \<noteq> CHR '']''"
    proof -
      obtain x ys where xs: "xs = x # ys" using False by (cases xs) auto
      obtain c q where "or_else (json_text x) ''null'' = c # q" "\<not> is_ws c" "c \<noteq> CHR '']''"
        using json_item_head by blast
      then show ?thesis using that [of c] xs by (cases ys) simp_all
    qed
    ultimately show ?thesis using t m by (simp add: DQ_def)
  qed
next
  case (7 kvs)
  then obtain m where m: "n = Suc m" by (cases n) auto
  let ?j = "join_comma (json_fields kvs)"
  have t: "t = ''{'' @ ?j @ ''}''" using 7 by simp
  show ?case
  proof (cases "norm_fields kvs = []")
    case True
    then have "json_fields kvs = []" by simp
    with t m True show ?thesis by (simp add: DQ_def)
  next
    case False
    have "parse_fields m (?j @ CHR ''}'' # r) = Some (norm_fields kvs, r)"
      using 7 m t False by (intro "7.IH") auto
    moreover obtain ds where "?j = DQ # ds"
    proof -
      have ne: "json_fields kvs \<noteq> []" using False by simp
      have "\<forall>f \<in> set (json_fields kvs). \<exists>q. f = DQ # q"
        by (induction kvs) (auto simp: json_quote_def split: option.splits)
      with ne show ?thesis using that by (cases "json_fields kvs" rule: join_comma.cases) auto
    qed
    moreover have "make_obj (norm_fields kvs) = JObj (norm_fields kvs)"
      using 7 by (intro make_obj_distinct norm_fields_distinct) simp
    moreover have "CHR ''{'' \<noteq> DQ" by (simp add: DQ_def)
    ultimately show ?thesis using t m by simp
  qed
next
  case (9 x xs)
  let ?t = "or_else (json_text x) ''null''"
  obtain m where m: "n = Suc m" using 9 by (cases n) auto
  let ?y = "if x = JUndef then JNull else json_norm x"
  show ?case
  proof (cases "xs = []")
    case True
    have "parse_val m (?t @ CHR '']'' # r) = Some (?y, CHR '']'' # r)"
    proof (cases "x = JUndef")
      case True
      then obtain m' where "m = Suc m'" using 9 m \<open>xs = []\<close> by (cases m) auto
      with True show ?thesis by simp
    next
      case False
      then obtain u where "json_text x = Some u" by (cases "json_text x") auto
      with False 9 m \<open>xs = []\<close> show ?thesis by (simp add: json_stop_def)
    qed
    with True m show ?thesis by simp
  next
    case False
    let ?j = "join_comma (json_items xs)"
    have len: "2 * length ?t + 2 * length ?j + 2 \<le> m"
      using 9 m False by (simp add: join_comma_Cons)
    have "parse_val m (?t @ CHR '','' # ?j @ CHR '']'' # r) = Some (?y, CHR '','' # ?j @ CHR '']'' # r)"
    proof (cases "x = JUndef")
      case True
      then obtain m' where "m = Suc m'" using len by (cases m) auto
      with True show ?thesis by simp
    next
      case False
      then obtain u where "json_text x = Some u" by (cases "json_text x") auto
      with False 9 len show ?thesis by (simp add: json_stop_def)
    qed
    moreover have "parse_items m (?j @ CHR '']'' # r) = Some (norm_items xs, r)"
      using 9 len False by (intro "9.IH") auto
    ultimately show ?thesis using False m by (simp add: join_comma_Cons)
  qed
next
  case (11 k v kvs)
  obtain m where m: "n = Suc m" using 11 by (cases n) auto
  show ?case
  proof (cases "json_text v")
    case None
    with 11 show ?thesis by (simp del: parse_fields.simps)
  next
    case (Some u)
    then have v: "v \<noteq> JUndef" by auto
    show ?thesis
    proof (cases "norm_fields kvs = []")
      case True
      then have nil: "json_fields kvs = []" by simp
      then have "2 * length u \<le> m" using 11 Some m by (simp del: json_fields_Nil)
      then have "parse_val m (u @ CHR ''}'' # r) = Some (json_norm v, CHR ''}'' # r)"
        using 11 Some by (intro "11.IH") (auto simp: json_stop_def)
      from parse_fields_step(1) [OF this refl] show ?thesis
        using Some True v m nil by (simp del: json_fields_Nil)
    next
      case False
      let ?j = "join_comma (json_fields kvs)"
      have len: "2 * length u + 2 * length ?j + 2 \<le> m"
        using 11 m False Some by (simp add: join_comma_Cons)
      have "parse_val m (u @ CHR '','' # ?j @ CHR ''}'' # r) = Some (json_norm v, CHR '','' # ?j @ CHR ''}'' # r)"
        using 11 Some len by (intro "11.IH") (auto simp: json_stop_def)
      note step = parse_fields_step(2) [OF this refl, of k]
      have "parse_fields m (?j @ CHR ''}'' # r) = Some (norm_fields kvs, r)"
        using 11 len False Some by (intro "11.IH") auto
      with step show ?thesis using Some False v m by (simp add: join_comma_Cons)
    qed
  qed
qed (auto simp: DQ_def elim: Suc_le_D)

lemma json_parse_text:
  assumes "json_text v = Some t" and "js_wf v"
  shows "json_parse t = Some (json_norm v)"
  using parse_json_text(1) [OF assms, of "2 * length t + 2" "[]"]
  by (simp add: json_parse_def json_stop_def skip_ws_def)

section \<open>Events as objects\<close>

text \<open>\<^verbatim>\<open>v.p\<close> for a value that is not \<^verbatim>\<open>null\<close> or
  \<^verbatim>\<open>undefined\<close>.\<close>

fun js_prop :: "jsval \<Rightarrow> string \<Rightarrow> jsval" where
  "js_prop (JObj kvs) p = or_else (jm_get kvs p) JUndef"
| "js_prop _ p = JUndef"

text \<open>\<^verbatim>\<open>JSON.stringify\<close> throws on a \<^verbatim>\<open>bigint\<close>.\<close>

fun id_js :: "ID \<Rightarrow> error + jsval" where
  "id_js (IDStr s) = Inr (JStr s)"
| "id_js (IDNum n) = Inr (JNum n)"
| "id_js (IDBig n) = Inl TypeError"

definition opt_field :: "string \<Rightarrow> ('a \<Rightarrow> jsval) \<Rightarrow> 'a option \<Rightarrow> (string \<times> jsval) list" where
  "opt_field k f a = (case a of None \<Rightarrow> [] | Some x \<Rightarrow> [(k, f x)])"

definition opt_id :: "ID option \<Rightarrow> error + jsval option" where
  "opt_id a = (case a of None \<Rightarrow> Inr None
     | Some i \<Rightarrow> (case id_js i of Inl e \<Rightarrow> Inl e | Inr v \<Rightarrow> Inr (Some v)))"

text \<open>An instant is its number of milliseconds in this development, so that numeral stands for the
  ISO 8601 text of the instant.\<close>

definition metadata_js :: "event_metadata \<Rightarrow> error + jsval" where
  "metadata_js m =
     (case (opt_id (md_userId m), opt_id (md_aggregateId m)) of
        (Inr uid, Inr aid) \<Rightarrow>
          Inr (JObj ([(''eventId'', JStr (md_eventId m)),
                      (''timestamp'', JStr (int_string (md_timestamp m))),
                      (''correlationId'', JStr (md_correlationId m)),
                      (''causationId'', JStr (md_causationId m))] @
                     opt_field ''userId'' id uid @
                     opt_field ''version'' JNum (md_version m) @
                     opt_field ''aggregateName'' JStr (md_aggregateName m) @
                     opt_field ''aggregateId'' id aid @
                     opt_field ''sequenceNumber'' JNum (md_sequenceNumber m) @
                     opt_field ''traceparent'' JStr (md_traceparent m) @
                     opt_field ''tracestate'' JStr (md_tracestate m)))
      | _ \<Rightarrow> Inl TypeError)"

definition event_js :: "event \<Rightarrow> error + jsval" where
  "event_js ev =
     (case ev_metadata ev of
        None \<Rightarrow> Inr (JObj [(''name'', JStr (ev_name ev)), (''payload'', ev_payload ev)])
      | Some m \<Rightarrow> (case metadata_js m of
          Inl e \<Rightarrow> Inl e
        | Inr mj \<Rightarrow> Inr (JObj [(''name'', JStr (ev_name ev)), (''payload'', ev_payload ev),
                             (''metadata'', mj)])))"

text \<open>\<^verbatim>\<open>JSON.stringify(event)\<close>; an object always has a text.\<close>

definition event_text :: "event \<Rightarrow> error + string" where
  "event_text ev =
     (case event_js ev of Inl e \<Rightarrow> Inl e | Inr v \<Rightarrow> Inr (or_else (json_text v) []))"

text \<open>The event an object stands for, if its fields have the types of \<^verbatim>\<open>Event\<close>.\<close>

definition js_int :: "string \<Rightarrow> int option" where
  "js_int s = (case json_parse s of Some (JNum n) \<Rightarrow> Some n | _ \<Rightarrow> None)"

fun get_str :: "jsval \<Rightarrow> string option" where
  "get_str (JStr s) = Some s"
| "get_str _ = None"

fun get_opt_str :: "jsval \<Rightarrow> string option option" where
  "get_opt_str (JStr s) = Some (Some s)"
| "get_opt_str JUndef = Some None"
| "get_opt_str _ = None"

fun get_opt_num :: "jsval \<Rightarrow> int option option" where
  "get_opt_num (JNum n) = Some (Some n)"
| "get_opt_num JUndef = Some None"
| "get_opt_num _ = None"

fun get_opt_id :: "jsval \<Rightarrow> ID option option" where
  "get_opt_id (JStr s) = Some (Some (IDStr s))"
| "get_opt_id (JNum n) = Some (Some (IDNum n))"
| "get_opt_id JUndef = Some None"
| "get_opt_id _ = None"

definition metadata_of_js :: "jsval \<Rightarrow> event_metadata option" where
  "metadata_of_js v =
     Option.bind (get_str (js_prop v ''eventId'')) (\<lambda>ei.
     Option.bind (Option.bind (get_str (js_prop v ''timestamp'')) js_int) (\<lambda>ts.
     Option.bind (get_str (js_prop v ''correlationId'')) (\<lambda>co.
     Option.bind (get_str (js_prop v ''causationId'')) (\<lambda>ca.
     Option.bind (get_opt_id (js_prop v ''userId'')) (\<lambda>ui.
     Option.bind (get_opt_num (js_prop v ''version'')) (\<lambda>ve.
     Option.bind (get_opt_str (js_prop v ''aggregateName'')) (\<lambda>an.
     Option.bind (get_opt_id (js_prop v ''aggregateId'')) (\<lambda>ai.
     Option.bind (get_opt_num (js_prop v ''sequenceNumber'')) (\<lambda>sn.
     Option.bind (get_opt_str (js_prop v ''traceparent'')) (\<lambda>tp.
     Option.bind (get_opt_str (js_prop v ''tracestate'')) (\<lambda>tst.
       Some \<lparr>md_eventId = ei, md_timestamp = ts, md_correlationId = co, md_causationId = ca,
             md_userId = ui, md_version = ve, md_aggregateName = an, md_aggregateId = ai,
             md_sequenceNumber = sn, md_traceparent = tp, md_tracestate = tst\<rparr>)))))))))))"

definition event_of_js :: "jsval \<Rightarrow> event option" where
  "event_of_js v =
     Option.bind (get_str (js_prop v ''name'')) (\<lambda>n.
       (case js_prop v ''metadata'' of
          JUndef \<Rightarrow> Some \<lparr>ev_name = n, ev_payload = js_prop v ''payload'', ev_metadata = None\<rparr>
        | m \<Rightarrow> Option.bind (metadata_of_js m) (\<lambda>md.
            Some \<lparr>ev_name = n, ev_payload = js_prop v ''payload'', ev_metadata = Some md\<rparr>)))"

text \<open>A payload that JSON can carry unchanged.\<close>

definition json_clean :: "jsval \<Rightarrow> bool" where
  "json_clean v \<longleftrightarrow> js_wf v \<and> json_norm v = v"

lemma js_int_string [simp]: "js_int (int_string n) = Some n"
  using json_parse_text [of "JNum n" "int_string n"] by (simp add: js_int_def)

lemma norm_fields_append: "norm_fields (xs @ ys) = norm_fields xs @ norm_fields ys"
  by (induction xs) auto

lemma norm_opt_field [simp]:
  "norm_fields (opt_field k JNum a) = opt_field k JNum a"
  "norm_fields (opt_field k JStr b) = opt_field k JStr b"
  by (simp_all add: opt_field_def split: option.splits)

definition simple_id :: "jsval \<Rightarrow> bool" where
  "simple_id v \<longleftrightarrow> (\<exists>s. v = JStr s) \<or> (\<exists>n. v = JNum n)"

lemma opt_id_cases:
  assumes "opt_id a = Inr w"
  shows "norm_fields (opt_field k id w) = opt_field k id w"
    and "get_opt_id (or_else w JUndef) = Some a"
    and "\<forall>x. w = Some x \<longrightarrow> js_wf x"
  using assms by (cases a; cases "the a"; auto simp: opt_id_def opt_field_def)+

lemma opt_id_Inl: "opt_id a = Inl e \<Longrightarrow> e = TypeError"
  by (cases a; cases "the a"; auto simp: opt_id_def)

lemma jm_get_opt_append [simp]:
  "k \<noteq> k' \<Longrightarrow> jm_get (opt_field k f a @ ys) k' = jm_get ys k'"
  "jm_get ys k = None \<Longrightarrow> jm_get (opt_field k f a @ ys) k = map_option f a"
  by (auto simp: opt_field_def jm_get_def split: option.splits)

lemma jm_get_opt_field [simp]:
  "jm_get (opt_field k f a) k' = (if k = k' then map_option f a else None)"
  by (auto simp: opt_field_def jm_get_def split: option.splits)

lemma jm_get_Cons [simp]: "jm_get ((k, v) # r) k' = (if k = k' then Some v else jm_get r k')"
  by (simp add: jm_get_def)

lemma get_opt_simps [simp]:
  "get_opt_num (or_else (map_option JNum a) JUndef) = Some a"
  "get_opt_str (or_else (map_option JStr b) JUndef) = Some b"
  by (cases a; simp) (cases b; simp)

lemma opt_field_keys [simp]: "map fst (opt_field k f a) = (if a = None then [] else [k])"
  by (simp add: opt_field_def split: option.splits)

lemma opt_field_wf:
  assumes "\<And>x. a = Some x \<Longrightarrow> js_wf (f x)"
  shows "\<forall>kv \<in> set (opt_field k f a). js_wf (snd kv)"
  using assms by (auto simp: opt_field_def split: option.splits)

lemma metadata_js_roundtrip:
  assumes "metadata_js m = Inr v"
  shows "js_wf v" and "json_norm v = v" and "metadata_of_js v = Some m" and "v \<noteq> JUndef"
proof -
  obtain uid aid where u: "opt_id (md_userId m) = Inr uid" and a: "opt_id (md_aggregateId m) = Inr aid"
      and v: "v = JObj ([(''eventId'', JStr (md_eventId m)),
                      (''timestamp'', JStr (int_string (md_timestamp m))),
                      (''correlationId'', JStr (md_correlationId m)),
                      (''causationId'', JStr (md_causationId m))] @
                     opt_field ''userId'' id uid @ opt_field ''version'' JNum (md_version m) @
                     opt_field ''aggregateName'' JStr (md_aggregateName m) @
                     opt_field ''aggregateId'' id aid @
                     opt_field ''sequenceNumber'' JNum (md_sequenceNumber m) @
                     opt_field ''traceparent'' JStr (md_traceparent m) @
                     opt_field ''tracestate'' JStr (md_tracestate m))"
    using assms by (auto simp: metadata_js_def split: sum.splits)
  show "js_wf v"
    using opt_id_cases(3) [OF u] opt_id_cases(3) [OF a]
    by (auto simp: v ball_Un intro!: opt_field_wf split: if_splits)
  show "json_norm v = v"
    using opt_id_cases(1) [OF u] opt_id_cases(1) [OF a] by (simp add: v norm_fields_append)
  show "metadata_of_js v = Some m"
    using opt_id_cases(2) [OF u] opt_id_cases(2) [OF a]
    by (simp add: v metadata_of_js_def option.map_id)
  show "v \<noteq> JUndef" by (simp add: v)
qed

lemma event_js_roundtrip:
  assumes "event_js ev = Inr v" and "json_clean (ev_payload ev)"
  shows "js_wf v" and "event_of_js (json_norm v) = Some ev" and "v \<noteq> JUndef"
proof -
  have "js_wf v \<and> event_of_js (json_norm v) = Some ev \<and> v \<noteq> JUndef"
  proof (cases "ev_metadata ev")
    case None
    with assms show ?thesis
      by (auto simp: event_js_def json_clean_def event_of_js_def)
  next
    case (Some m)
    then obtain mj where mj: "metadata_js m = Inr mj"
        and v: "v = JObj [(''name'', JStr (ev_name ev)), (''payload'', ev_payload ev), (''metadata'', mj)]"
      using assms by (auto simp: event_js_def split: sum.splits)
    note rt = metadata_js_roundtrip [OF mj]
    have "(case mj of JUndef \<Rightarrow> Some e | x \<Rightarrow> Option.bind (metadata_of_js x) g) =
        Option.bind (metadata_of_js mj) g" for e :: event and g
      using rt(4) by (cases mj) simp_all
    with rt Some assms(2) show ?thesis
      by (auto simp: v json_clean_def event_of_js_def)
  qed
  then show "js_wf v" "event_of_js (json_norm v) = Some ev" "v \<noteq> JUndef" by simp_all
qed

lemma event_text_roundtrip:
  assumes "event_text ev = Inr t" and "json_clean (ev_payload ev)"
  shows "Option.bind (json_parse t) event_of_js = Some ev"
proof -
  obtain v where v: "event_js ev = Inr v" and t: "t = or_else (json_text v) []"
    using assms(1) by (auto simp: event_text_def split: sum.splits)
  note rt = event_js_roundtrip [OF v assms(2)]
  then obtain u where "json_text v = Some u" by (cases "json_text v") auto
  with t rt json_parse_text [of v u] show ?thesis by simp
qed

text \<open>\<^verbatim>\<open>JSON.stringify(event)\<close> throws exactly when an identifier of the metadata is a
  \<^verbatim>\<open>bigint\<close>.\<close>

lemma event_text_fails_iff:
  "(\<exists>e. event_text ev = Inl e) \<longleftrightarrow>
     (\<exists>m n. ev_metadata ev = Some m \<and> (md_userId m = Some (IDBig n) \<or> md_aggregateId m = Some (IDBig n)))"
proof -
  have opt: "(\<exists>e. opt_id a = Inl e) \<longleftrightarrow> (\<exists>n. a = Some (IDBig n))" for a
    by (cases a; cases "the a"; auto simp: opt_id_def)
  have "(\<exists>e. metadata_js m = Inl e) \<longleftrightarrow>
      (\<exists>e. opt_id (md_userId m) = Inl e) \<or> (\<exists>e. opt_id (md_aggregateId m) = Inl e)" for m
    by (cases "opt_id (md_userId m)"; cases "opt_id (md_aggregateId m)"; simp add: metadata_js_def)
  then have md: "(\<exists>e. metadata_js m = Inl e) \<longleftrightarrow>
      (\<exists>n. md_userId m = Some (IDBig n) \<or> md_aggregateId m = Some (IDBig n))" for m
    by (auto simp: opt)
  show ?thesis
  proof (cases "ev_metadata ev")
    case None
    then show ?thesis by (simp add: event_text_def event_js_def)
  next
    case (Some m)
    then have "(\<exists>e. event_text ev = Inl e) \<longleftrightarrow> (\<exists>e. metadata_js m = Inl e)"
      by (auto simp: event_text_def event_js_def split: sum.splits)
    with md Some show ?thesis by auto
  qed
qed

end
