(* ===== verification/Broker.thy ===== *)
theory Broker
  imports Buses Json
begin

text \<open>
  What the three broker event buses share: a handler on the parsed message, the concurrent run of
  all handlers of an event with \<^verbatim>\<open>Promise.allSettled\<close>, the report of the rejections and
  the choice of the one that is thrown again, and the exponential backoff. The handlers run one
  after the other here, each to completion: their interleaving at their own awaits is not modelled.
  A message is the value \<^verbatim>\<open>JSON.parse\<close> returns, whatever its shape, because the cast
  to \<^verbatim>\<open>Event\<close> checks nothing.
\<close>

section \<open>Handlers and settled results\<close>

record 'w bhandler =
  bh_name :: string
  bh_run :: "jsval \<Rightarrow> ('w, unit) action"

fun settle_all :: "'w bhandler list \<Rightarrow> jsval \<Rightarrow> 'w \<Rightarrow> error option list \<times> 'w" where
  "settle_all [] v w = ([], w)"
| "settle_all (h # hs) v w =
     (case bh_run h v w of
        (r, w1) \<Rightarrow> (case settle_all hs v w1 of
          (rs, w2) \<Rightarrow> ((case r of Inl e \<Rightarrow> Some e | Inr _ \<Rightarrow> None) # rs, w2)))"

definition js_name :: "jsval \<Rightarrow> string" where
  "js_name v = (case js_prop v ''name'' of JStr s \<Rightarrow> s | _ \<Rightarrow> ''undefined'')"

definition js_event_id :: "jsval \<Rightarrow> string option" where
  "js_event_id v = get_str (js_prop (js_prop v ''metadata'') ''eventId'')"

definition bhandler_label :: "'w bhandler \<Rightarrow> jsval \<Rightarrow> string" where
  "bhandler_label h v =
     (if bh_name h \<noteq> [] \<and> bh_name h \<noteq> ''handler'' then bh_name h else js_name v)"

text \<open>
  The loop over the settled results: every rejection is logged, and \<open>first\<close> is the variable
  \<^verbatim>\<open>firstRejection\<close>, which a rejection with the reason \<^verbatim>\<open>undefined\<close> leaves
  unset. Reading \<^verbatim>\<open>event.name\<close> of a \<^verbatim>\<open>null\<close> message throws.
\<close>

fun report_rejections ::
  "('w bhandler \<times> error option) list \<Rightarrow> jsval \<Rightarrow> error option \<Rightarrow> (error + error option) \<times> handler_failure list" where
  "report_rejections [] v first = (Inr first, [])"
| "report_rejections ((h, None) # r) v first = report_rejections r v first"
| "report_rejections ((h, Some e) # r) v first =
     (if nullish v then (Inl TypeError, [])
      else (case report_rejections r v
                   (if first = None \<and> e \<noteq> UndefinedReason then Some e else first) of
              (x, log) \<Rightarrow> (x, \<lparr>hf_eventName = js_name v, hf_eventId = js_event_id v,
                              hf_handlerName = bhandler_label h v, hf_error = e\<rparr> # log)))"

definition run_all :: "'w bhandler list \<Rightarrow> jsval \<Rightarrow> 'w \<Rightarrow> (error + unit) \<times> handler_failure list \<times> 'w" where
  "run_all hs v w =
     (case settle_all hs v w of
        (rs, w') \<Rightarrow>
          (case report_rejections (zip hs rs) v None of
             (Inl e, log) \<Rightarrow> (Inl e, log, w')
           | (Inr None, log) \<Rightarrow> (Inr (), log, w')
           | (Inr (Some e), log) \<Rightarrow> (Inl e, log, w')))"

lemma settle_all_length [simp]: "length (fst (settle_all hs v w)) = length hs"
  by (induction hs arbitrary: w) (auto split: prod.splits, metis fst_conv)

lemma settle_all_world: "snd (settle_all hs v w) = fold (\<lambda>h w. snd (bh_run h v w)) hs w"
  by (induction hs arbitrary: w) (auto split: prod.splits, metis snd_conv)

lemma run_all_world: "snd (snd (run_all hs v w)) = fold (\<lambda>h w. snd (bh_run h v w)) hs w"
  by (auto simp: run_all_def settle_all_world [symmetric] split: prod.splits sum.splits option.splits)

text \<open>What is thrown again: the first rejection whose reason is not \<^verbatim>\<open>undefined\<close>.\<close>

definition first_reason :: "error option list \<Rightarrow> error option" where
  "first_reason rs = (case filter (\<lambda>r. r \<noteq> Some UndefinedReason \<and> r \<noteq> None) rs of [] \<Rightarrow> None | r # _ \<Rightarrow> r)"

lemma report_rejections_first:
  assumes "\<not> nullish v" and "length rs = length hs"
  shows "fst (report_rejections (zip hs rs) v first) =
    Inr (if first = None then first_reason rs else first)"
  using assms(2)
proof (induction rs hs arbitrary: first rule: list_induct2)
  case Nil
  then show ?case by (simp add: first_reason_def)
next
  case (Cons r rs h hs)
  show ?case
  proof (cases r)
    case None
    with Cons.IH show ?thesis by (simp add: first_reason_def)
  next
    case (Some e)
    let ?f = "if first = None \<and> e \<noteq> UndefinedReason then Some e else first"
    obtain x log where x: "report_rejections (zip hs rs) v ?f = (x, log)"
      by (cases "report_rejections (zip hs rs) v ?f")
    then have "x = Inr (if ?f = None then first_reason rs else ?f)"
      using Cons.IH [of ?f] by simp
    with Some assms(1) x show ?thesis by (auto simp: first_reason_def)
  qed
qed

lemma run_all_outcome:
  assumes "\<not> nullish v"
  shows "fst (run_all hs v w) =
    (case first_reason (fst (settle_all hs v w)) of None \<Rightarrow> Inr () | Some e \<Rightarrow> Inl e)"
proof -
  obtain rs w' where s: "settle_all hs v w = (rs, w')" by (cases "settle_all hs v w")
  then have "length rs = length hs" using settle_all_length [of hs v w] by simp
  from report_rejections_first [OF assms this, of None] s show ?thesis
    by (auto simp: run_all_def split: prod.splits sum.splits option.splits)
qed

text \<open>Whatever is thrown again, a handler has rejected with.\<close>

lemma settle_all_reasons:
  "Some e \<in> set (fst (settle_all hs v w)) \<Longrightarrow> \<exists>h \<in> set hs. \<exists>w'. fst (bh_run h v w') = Inl e"
proof (induction hs arbitrary: w)
  case Nil
  then show ?case by simp
next
  case (Cons h hs)
  obtain r w1 where r: "bh_run h v w = (r, w1)" by (cases "bh_run h v w")
  show ?case
  proof (cases "r = Inl e")
    case True
    with r have "fst (bh_run h v w) = Inl e" by simp
    then show ?thesis by auto
  next
    case False
    with Cons.prems r have "Some e \<in> set (fst (settle_all hs v w1))" by (auto split: prod.splits sum.splits)
    with Cons.IH show ?thesis by auto
  qed
qed

lemma first_reason_rejected:
  assumes "first_reason (fst (settle_all hs v w)) = Some e"
  shows "e \<noteq> UndefinedReason \<and> (\<exists>h \<in> set hs. \<exists>w'. fst (bh_run h v w') = Inl e)"
proof -
  let ?rs = "fst (settle_all hs v w)"
  have "Some e \<in> set (filter (\<lambda>r. r \<noteq> Some UndefinedReason \<and> r \<noteq> None) ?rs)"
    using assms unfolding first_reason_def by (cases "filter (\<lambda>r. r \<noteq> Some UndefinedReason \<and> r \<noteq> None) ?rs") auto
  then show ?thesis using settle_all_reasons [of e hs v w] by auto
qed

text \<open>A rejection without a reason is logged, and the message is treated as handled.\<close>

lemma rejection_without_reason:
  "run_all [\<lparr>bh_name = ''h'', bh_run = (\<lambda>_ w. (Inl UndefinedReason, w))\<rparr>] (JObj [(''name'', JStr ''E'')]) w =
     (Inr (), [\<lparr>hf_eventName = ''E'', hf_eventId = None, hf_handlerName = ''h'', hf_error = UndefinedReason\<rparr>], w)"
  by (simp add: run_all_def js_name_def js_event_id_def bhandler_label_def nullish_def)

section \<open>Retrying a delivery\<close>

text \<open>
  The specification the redelivery of each bus is compared with: a message is given to the handlers
  at most \<open>n\<close> times, until they accept it; a queue is worked off in order, and \<open>out\<close> says what a
  message leaves as a dead letter, depending on whether it was accepted.
\<close>

fun try_handle :: "nat \<Rightarrow> ('w \<Rightarrow> bool \<times> 'w) \<Rightarrow> 'w \<Rightarrow> bool \<times> 'w" where
  "try_handle 0 h w = (False, w)"
| "try_handle (Suc n) h w = (case h w of (True, w') \<Rightarrow> (True, w') | (False, w') \<Rightarrow> try_handle n h w')"

fun work_off ::
  "nat \<Rightarrow> ('m \<Rightarrow> 'w \<Rightarrow> bool \<times> 'w) \<Rightarrow> ('m \<Rightarrow> bool \<Rightarrow> 'd list) \<Rightarrow> 'm list \<Rightarrow> 'w \<Rightarrow> 'd list \<times> 'w" where
  "work_off n h out [] w = ([], w)"
| "work_off n h out (m # q) w =
     (case try_handle n (h m) w of
        (ok, w1) \<Rightarrow> (case work_off n h out q w1 of (ds, w2) \<Rightarrow> (out m ok @ ds, w2)))"

text \<open>What a message leaves behind as a dead letter, by whether its handlers accepted it.\<close>

definition unless_accepted :: "('m \<Rightarrow> 'd) \<Rightarrow> 'm \<Rightarrow> bool \<Rightarrow> 'd list" where
  "unless_accepted letter m ok = (if ok then [] else [letter m])"

lemma unless_accepted_simps [simp]:
  "unless_accepted letter m True = []" "unless_accepted letter m False = [letter m]"
  by (simp_all add: unless_accepted_def)

text \<open>How the handlers of an event take a message text: one that does not parse counts as
  handled.\<close>

definition delivery_ok :: "'w bhandler list \<Rightarrow> string \<Rightarrow> 'w \<Rightarrow> bool \<times> 'w" where
  "delivery_ok hs content w =
     (case json_parse content of
        None \<Rightarrow> (True, w)
      | Some v \<Rightarrow> (case run_all hs v w of (r, _, w') \<Rightarrow> (r = Inr (), w')))"

text \<open>The broker hands over the head of the queue, \<open>n\<close> times or until the queue is empty.\<close>

fun pump :: "('s \<Rightarrow> 'm list) \<Rightarrow> ('m \<Rightarrow> 's \<Rightarrow> 's) \<Rightarrow> nat \<Rightarrow> 's \<Rightarrow> 's" where
  "pump ready deliver 0 s = s"
| "pump ready deliver (Suc n) s =
     (case ready s of [] \<Rightarrow> s | m # _ \<Rightarrow> pump ready deliver n (deliver m s))"

text \<open>
  With a window of \<open>k\<close> outstanding messages the broker has handed over the first \<open>k\<close> unsettled
  messages, and any of them may be the next to be settled: \<open>picks\<close> names them by their position.
\<close>

fun serve :: "('s \<Rightarrow> 'm list) \<Rightarrow> ('m \<Rightarrow> 's \<Rightarrow> 's) \<Rightarrow> nat list \<Rightarrow> 's \<Rightarrow> 's" where
  "serve ready deliver [] s = s"
| "serve ready deliver (i # picks) s =
     (if i < length (ready s) then serve ready deliver picks (deliver (ready s ! i) s) else s)"

text \<open>A window of one is the pump.\<close>

lemma serve_one:
  "\<forall>i \<in> set picks. int i < 1 \<Longrightarrow> serve ready deliver picks s = pump ready deliver (length picks) s"
proof (induction picks arbitrary: s)
  case Nil
  then show ?case by simp
next
  case (Cons i picks)
  then show ?case by (cases "ready s") simp_all
qed

text \<open>
  What a bus and its broker promise together of one delivery. \<open>trying m n k\<close> says that by the
  bookkeeping \<open>k\<close> the head \<open>m\<close> of the queue has \<open>n\<close> attempts left; \<open>k\<^sub>0\<close> is the bookkeeping without
  an attempt in progress. A delivery that the handlers accept removes the message; one they refuse
  leaves it with one attempt less, or gives it up at once when that was the last; without an
  attempt left a delivery gives the message up and runs no handler. \<open>out\<close> is what a message leaves
  among the dead letters when it is removed from the queue.
\<close>

locale redelivery =
  fixes deliver :: "'m \<Rightarrow> 's \<Rightarrow> 's"
    and ready :: "'s \<Rightarrow> 'm list"
    and dead :: "'s \<Rightarrow> 'd list"
    and out :: "'m \<Rightarrow> bool \<Rightarrow> 'd list"
    and world :: "'s \<Rightarrow> 'w"
    and book :: "'s \<Rightarrow> 'k"
    and k\<^sub>0 :: 'k
    and trying :: "'m \<Rightarrow> nat \<Rightarrow> 'k \<Rightarrow> bool"
    and handle :: "'m \<Rightarrow> 'w \<Rightarrow> bool \<times> 'w"
    and inv :: "'s \<Rightarrow> bool"
    and N :: nat
    and Q :: "'m set"
  assumes start: "m \<in> Q \<Longrightarrow> trying m N k\<^sub>0"
    and inv_deliver: "inv s \<Longrightarrow> ready s = m # q \<Longrightarrow> inv (deliver m s)"
    and accepted: "inv s \<Longrightarrow> ready s = m # q \<Longrightarrow> trying m (Suc n) (book s) \<Longrightarrow>
      handle m (world s) = (True, w') \<Longrightarrow>
      ready (deliver m s) = q \<and> dead (deliver m s) = dead s @ out m True \<and> world (deliver m s) = w' \<and>
      book (deliver m s) = k\<^sub>0"
    and refused: "inv s \<Longrightarrow> ready s = m # q \<Longrightarrow> trying m (Suc n) (book s) \<Longrightarrow>
      handle m (world s) = (False, w') \<Longrightarrow>
      world (deliver m s) = w' \<and>
      (ready (deliver m s) = m # q \<and> dead (deliver m s) = dead s \<and> trying m n (book (deliver m s)) \<or>
       n = 0 \<and> ready (deliver m s) = q \<and> dead (deliver m s) = dead s @ out m False \<and> book (deliver m s) = k\<^sub>0)"
    and given_up: "inv s \<Longrightarrow> ready s = m # q \<Longrightarrow> trying m 0 (book s) \<Longrightarrow>
      ready (deliver m s) = q \<and> dead (deliver m s) = dead s @ out m False \<and> world (deliver m s) = world s \<and>
      book (deliver m s) = k\<^sub>0"
begin

definition settled_as :: "'s \<Rightarrow> 'm list \<Rightarrow> 'd list \<Rightarrow> 'w \<Rightarrow> 's \<Rightarrow> bool" where
  "settled_as s q ds w' s' \<longleftrightarrow>
     inv s' \<and> ready s' = q \<and> dead s' = dead s @ ds \<and> world s' = w' \<and> book s' = k\<^sub>0"

text \<open>The head of the queue with \<open>n\<close> attempts left is settled within \<open>n + 1\<close> deliveries.\<close>

lemma head_settles:
  assumes "inv s" and "ready s = m # q" and "trying m n (book s)" and "try_handle n (handle m) (world s) = (ok, w')"
  shows "\<exists>j s'. j \<le> n + 1 \<and> (\<forall>f. pump ready deliver (j + f) s = pump ready deliver f s') \<and>
    settled_as s q (out m ok) w' s'"
  using assms
proof (induction n arbitrary: s)
  case 0
  from given_up [OF 0(1-3)] inv_deliver [OF 0(1,2)] 0 show ?case
    by (intro exI [of _ "1::nat"] exI [of _ "deliver m s"]) (auto simp: settled_as_def)
next
  case (Suc n)
  let ?s1 = "deliver m s"
  have step: "pump ready deliver (Suc j + f) s = pump ready deliver (j + f) ?s1" for j f
    using Suc.prems(2) by simp
  have i: "inv ?s1" by (rule inv_deliver [OF Suc.prems(1,2)])
  obtain b w1 where d: "handle m (world s) = (b, w1)" by (cases "handle m (world s)")
  show ?case
  proof (cases b)
    case True
    with d have "handle m (world s) = (True, w1)" by simp
    from accepted [OF Suc.prems(1-3) this] i Suc.prems(4) d True step [of 0] show ?thesis
      by (intro exI [of _ "1::nat"] exI [of _ ?s1]) (auto simp: settled_as_def)
  next
    case False
    with d have h: "handle m (world s) = (False, w1)" by simp
    then have t: "try_handle n (handle m) w1 = (ok, w')" using Suc.prems(4) by simp
    note r = refused [OF Suc.prems(1-3) h]
    show ?thesis
    proof (cases "ready ?s1 = m # q \<and> dead ?s1 = dead s \<and> trying m n (book ?s1)")
      case True
      with Suc.IH [OF i] r t obtain j s' where "j \<le> n + 1"
          "\<forall>f. pump ready deliver (j + f) ?s1 = pump ready deliver f s'"
          "settled_as ?s1 q (out m ok) w' s'" by auto
      with step True show ?thesis
        by (intro exI [of _ "Suc j"] exI [of _ s']) (auto simp: settled_as_def)
    next
      case False
      with r have "n = 0" "ready ?s1 = q" "dead ?s1 = dead s @ out m False" "book ?s1 = k\<^sub>0" "world ?s1 = w1" by auto
      with t i step [of 0] show ?thesis
        by (intro exI [of _ "1::nat"] exI [of _ ?s1]) (auto simp: settled_as_def)
    qed
  qed
qed

lemma queue_settles:
  assumes "inv s" and "ready s = q" and "set q \<subseteq> Q" and "book s = k\<^sub>0" and "work_off N handle out q (world s) = (ds, w')"
  shows "\<exists>j s'. j \<le> (N + 1) * length q \<and> (\<forall>f. pump ready deliver (j + f) s = pump ready deliver f s') \<and>
    settled_as s [] ds w' s'"
  using assms
proof (induction q arbitrary: s ds)
  case Nil
  then show ?case by (intro exI [of _ 0] exI [of _ s]) (simp add: settled_as_def)
next
  case (Cons m q)
  obtain ok w1 where t: "try_handle N (handle m) (world s) = (ok, w1)" by (cases "try_handle N (handle m) (world s)")
  have "trying m N (book s)" using Cons.prems(3,4) start by simp
  from head_settles [OF Cons.prems(1,2) this t] obtain j s1 where j: "j \<le> N + 1"
      "\<forall>f. pump ready deliver (j + f) s = pump ready deliver f s1"
    and s1: "settled_as s q (out m ok) w1 s1" by blast
  obtain ds' where w: "work_off N handle out q w1 = (ds', w')" and ds: "ds = out m ok @ ds'"
    using Cons.prems(5) t by (auto split: prod.splits)
  from Cons.IH [of s1 ds'] Cons.prems(3) s1 w obtain j' s' where j': "j' \<le> (N + 1) * length q"
      "\<forall>f. pump ready deliver (j' + f) s1 = pump ready deliver f s'"
    and s': "settled_as s1 [] ds' w' s'"
    by (auto simp: settled_as_def)
  have "pump ready deliver (j + j' + f) s = pump ready deliver f s'" for f
    using j(2) [rule_format, of "j' + f"] j'(2) [rule_format, of f] by (simp add: add.assoc)
  moreover have "j + j' \<le> (N + 1) * length (m # q)" using j(1) j'(1) by simp
  moreover have "settled_as s [] ds w' s'" using s1 s' ds by (auto simp: settled_as_def)
  ultimately show ?case by blast
qed

lemma queue_drains:
  assumes "inv s" and "ready s = q" and "set q \<subseteq> Q" and "book s = k\<^sub>0" and "work_off N handle out q (world s) = (ds, w')"
  shows "settled_as s [] ds w' (pump ready deliver ((N + 1) * length q) s)"
proof -
  from queue_settles [OF assms] obtain j s1 where j: "j \<le> (N + 1) * length q"
      "\<forall>f. pump ready deliver (j + f) s = pump ready deliver f s1" and s1: "settled_as s [] ds w' s1"
    by blast
  from j(1) obtain f where "(N + 1) * length q = j + f" using le_Suc_ex by blast
  with j(2) have "pump ready deliver ((N + 1) * length q) s = pump ready deliver f s1" by simp
  moreover have "pump ready deliver f s1 = s1" using s1 by (cases f) (simp_all add: settled_as_def)
  ultimately show ?thesis using s1 by simp
qed

end

section \<open>Exponential backoff\<close>

text \<open>\<^verbatim>\<open>Math.min(initial * Math.pow(2, attempt), max)\<close>\<close>

definition backoff :: "int \<Rightarrow> int \<Rightarrow> nat \<Rightarrow> int" where
  "backoff initial maximum attempt = min (initial * 2 ^ attempt) maximum"

lemma backoff_mono:
  assumes "0 \<le> initial" and "i \<le> j"
  shows "backoff initial maximum i \<le> backoff initial maximum j"
proof -
  have "(2::int) ^ i \<le> 2 ^ j" using assms(2) by (simp add: power_increasing)
  with assms(1) have "initial * 2 ^ i \<le> initial * 2 ^ j" by (simp add: mult_left_mono)
  then show ?thesis by (simp add: backoff_def)
qed

lemma backoff_bounds:
  "backoff initial maximum i \<le> maximum"
  "0 \<le> initial \<Longrightarrow> 0 \<le> maximum \<Longrightarrow> 0 \<le> backoff initial maximum i"
  by (simp_all add: backoff_def)

end
