(* ===== verification/Rabbitmq.thy ===== *)
theory Rabbitmq
  imports Broker Complex_Main
begin

text \<open>
  \<^verbatim>\<open>RabbitMqEventBus\<close> (\<^verbatim>\<open>adapters/rabbitmq/src/rabbitmq-event-bus.ts\<close>):
  connecting with bounded retries, the reconnection loop, registration, publishing, closing, and
  the processing of a delivery with its retry counter and dead-lettering. The client library
  \<^verbatim>\<open>amqplib\<close> is a record of operations on a broker state \<open>'b\<close>; a connection and a
  channel are handles. The hash of \<^verbatim>\<open>node:crypto\<close> is a parameter.
\<close>

section \<open>Configuration and state\<close>

record rabbit_config =
  rc_url :: string
  rc_exchangeName :: "string option"
  rc_exchangeType :: "string option"
  rc_queuePrefix :: string
  rc_prefetchCount :: "int option"
  rc_maxAttempts :: "int option"
  rc_initialDelayMs :: "int option"
  rc_maxDelayMs :: "int option"
  rc_maxRetries :: "int option"

definition rc_exchange :: "rabbit_config \<Rightarrow> string" where
  "rc_exchange cfg = or_else (rc_exchangeName cfg) ''noddde.events''"

definition rc_type :: "rabbit_config \<Rightarrow> string" where
  "rc_type cfg = or_else (rc_exchangeType cfg) ''topic''"

definition rc_dlx :: "rabbit_config \<Rightarrow> string" where
  "rc_dlx cfg = rc_exchange cfg @ ''.dlx''"

definition rc_dlq :: "rabbit_config \<Rightarrow> string" where
  "rc_dlq cfg = rc_queuePrefix cfg @ ''.dlq''"

record amqp_message =
  am_tag :: nat
  am_content :: string
  am_messageId :: "string option"

record amqp_publication =
  pb_exchange :: string
  pb_routingKey :: string
  pb_content :: string
  pb_messageId :: "string option"
  pb_headers :: "(string \<times> string) list"

text \<open>The operations of \<^verbatim>\<open>amqplib\<close> the bus calls; each may fail.\<close>

record 'b amqp =
  am_connect :: "('b, nat) action"
  am_createConfirmChannel :: "nat \<Rightarrow> ('b, nat) action"
  am_prefetch :: "nat \<Rightarrow> int \<Rightarrow> ('b, unit) action"
  am_assertExchange :: "nat \<Rightarrow> string \<Rightarrow> string \<Rightarrow> ('b, unit) action"
  am_assertQueue :: "nat \<Rightarrow> string \<Rightarrow> ('b, unit) action"
  am_bindQueue :: "nat \<Rightarrow> string \<Rightarrow> string \<Rightarrow> string \<Rightarrow> ('b, unit) action"
  am_consume :: "nat \<Rightarrow> string \<Rightarrow> string \<Rightarrow> ('b, unit) action"
  am_publish :: "nat \<Rightarrow> amqp_publication \<Rightarrow> ('b, unit) action"
  am_waitForConfirms :: "nat \<Rightarrow> ('b, unit) action"
  am_ack :: "nat \<Rightarrow> amqp_message \<Rightarrow> ('b, unit) action"
  am_nack :: "nat \<Rightarrow> amqp_message \<Rightarrow> ('b, unit) action"
  am_closeChannel :: "nat \<Rightarrow> ('b, unit) action"
  am_closeConnection :: "nat \<Rightarrow> ('b, unit) action"

text \<open>
  The fields of the bus. \<open>rb_watched\<close> are the connections whose \<^verbatim>\<open>close\<close> event calls
  \<^verbatim>\<open>_handleUnexpectedClose\<close>, \<open>rb_delays\<close> the waits between attempts, \<open>rb_log\<close> the
  handler failures it logs; \<open>rb_world\<close> is the state of the handlers.
\<close>

record ('w, 'b) rabbit =
  rb_handlers :: "(string, 'w bhandler list) jmap"
  rb_connection :: "nat option"
  rb_channel :: "nat option"
  rb_connected :: bool
  rb_closed :: bool
  rb_reconnecting :: bool
  rb_deliveryCounts :: "(string, int) jmap"
  rb_watched :: "nat list"
  rb_delays :: "rat list"
  rb_log :: "handler_failure list"
  rb_world :: 'w
  rb_broker :: 'b

definition on_broker :: "('b, 'a) action \<Rightarrow> (('w, 'b) rabbit, 'a) action" where
  "on_broker m s = (case m (rb_broker s) of (r, b) \<Rightarrow> (r, s\<lparr>rb_broker := b\<rparr>))"

definition upd :: "('s \<Rightarrow> 's) \<Rightarrow> ('s, unit) action" where
  "upd f s = (Inr (), f s)"

lemma upd_then [act]: "then_act (upd f) k s = k (f s)"
  by (simp add: then_act_def bind_act_def upd_def)

section \<open>Setting up consumers\<close>

definition assertDeadLetterTopology :: "rabbit_config \<Rightarrow> 'b amqp \<Rightarrow> nat \<Rightarrow> (('w, 'b) rabbit, unit) action" where
  "assertDeadLetterTopology cfg am ch =
     then_act (on_broker (am_assertExchange am ch (rc_dlx cfg) ''fanout''))
    (then_act (on_broker (am_assertQueue am ch (rc_dlq cfg)))
              (on_broker (am_bindQueue am ch (rc_dlq cfg) (rc_dlx cfg) [])))"

text \<open>The callback given to \<^verbatim>\<open>consume\<close> is determined by the event name and the captured
  channel; what it does with a delivery is \<open>processDelivery\<close> below.\<close>

definition setupConsumer :: "rabbit_config \<Rightarrow> 'b amqp \<Rightarrow> string \<Rightarrow> (('w, 'b) rabbit, unit) action" where
  "setupConsumer cfg am eventName s =
     (case rb_channel s of
        None \<Rightarrow> (Inr (), s)
      | Some ch \<Rightarrow>
          (let queueName = rc_queuePrefix cfg @ ''.'' @ eventName in
           then_act (if rc_maxRetries cfg \<noteq> None then assertDeadLetterTopology cfg am ch else ret ())
          (then_act (on_broker (am_assertQueue am ch queueName))
          (then_act (on_broker (am_bindQueue am ch queueName (rc_exchange cfg) eventName))
                    (on_broker (am_consume am ch queueName eventName))))) s)"

section \<open>Connecting\<close>

definition to_lower :: "char \<Rightarrow> char" where
  "to_lower c = (let n = of_char c :: nat in if 65 \<le> n \<and> n \<le> 90 then char_of (n + 32) else c)"

definition js_includes :: "string \<Rightarrow> string \<Rightarrow> bool" where
  "js_includes s p \<longleftrightarrow> sublist p s"

definition quote_type :: string where
  "quote_type = ''inequivalent arg '' @ [CHR 0x27] @ ''type'' @ [CHR 0x27] @ '' for exchange''"

text \<open>A driver error is its message.\<close>

definition isExchangeTypeMismatch :: "error \<Rightarrow> bool" where
  "isExchangeTypeMismatch e =
     (case e of
        UserError message \<Rightarrow>
          (js_includes message ''PRECONDITION_FAILED'' \<or> js_includes message ''PRECONDITION-FAILED'') \<and>
          js_includes (map to_lower message) quote_type
      | _ \<Rightarrow> False)"

text \<open>The part of an attempt after the connection is open, up to the consumers of the handlers
  registered so far; then the listeners are attached.\<close>

definition open_channel :: "rabbit_config \<Rightarrow> 'b amqp \<Rightarrow> nat \<Rightarrow> (('w, 'b) rabbit, unit) action" where
  "open_channel cfg am c =
     then_act (upd (rb_connection_update (\<lambda>_. Some c)))
    (bind_act (on_broker (am_createConfirmChannel am c)) (\<lambda>ch.
     then_act (upd (rb_channel_update (\<lambda>_. Some ch)))
    (then_act (on_broker (am_prefetch am ch (or_else (rc_prefetchCount cfg) 10)))
    (then_act (catch_act (on_broker (am_assertExchange am ch (rc_exchange cfg) (rc_type cfg)))
                 (\<lambda>e. if isExchangeTypeMismatch e
                      then throw (ExchangeTypeMismatchError (rc_exchange cfg) (rc_type cfg)) else throw e))
              (\<lambda>s. for_each (setupConsumer cfg am) (map fst (rb_handlers s)) s)))))"

definition connect_setup :: "rabbit_config \<Rightarrow> 'b amqp \<Rightarrow> nat \<Rightarrow> (('w, 'b) rabbit, unit) action" where
  "connect_setup cfg am c =
     then_act (open_channel cfg am c)
    (then_act (upd (rb_watched_update ((#) c)))
              (upd (rb_connected_update (\<lambda>_. True))))"

definition is_type_mismatch :: "error \<Rightarrow> bool" where
  "is_type_mismatch e = (case e of ExchangeTypeMismatchError _ _ \<Rightarrow> True | _ \<Rightarrow> False)"

definition drop_connection :: "('w, 'b) rabbit \<Rightarrow> ('w, 'b) rabbit" where
  "drop_connection s = s\<lparr>rb_connection := None, rb_channel := None\<rparr>"

definition connect_attempt :: "rabbit_config \<Rightarrow> 'b amqp \<Rightarrow> (('w, 'b) rabbit, unit) action" where
  "connect_attempt cfg am s =
     (case on_broker (am_connect am) s of
        (Inl e, s1) \<Rightarrow> (Inl e, drop_connection s1)
      | (Inr c, s1) \<Rightarrow>
          (case connect_setup cfg am c s1 of
             (Inr _, s2) \<Rightarrow> (Inr (), s2)
           | (Inl e, s2) \<Rightarrow>
               (Inl e, drop_connection (snd (swallow (on_broker (am_closeConnection am c)) s2)))))"

text \<open>The loop; \<open>left\<close> counts the attempts that remain. With no attempt at all the variable
  \<^verbatim>\<open>lastError\<close> is still \<^verbatim>\<open>undefined\<close> when it is thrown.\<close>

fun connect_attempts ::
  "rabbit_config \<Rightarrow> 'b amqp \<Rightarrow> nat \<Rightarrow> nat \<Rightarrow> error \<Rightarrow> (('w, 'b) rabbit, unit) action" where
  "connect_attempts cfg am attempt 0 lastError s = (Inl lastError, s)"
| "connect_attempts cfg am attempt (Suc left) lastError s =
     (case connect_attempt cfg am s of
        (Inr _, s1) \<Rightarrow> (Inr (), s1)
      | (Inl e, s1) \<Rightarrow>
          if is_type_mismatch e then (Inl e, s1)
          else connect_attempts cfg am (attempt + 1) left e
                 (if 0 < left
                  then s1\<lparr>rb_delays := rb_delays s1 @
                         [of_int (backoff (or_else (rc_initialDelayMs cfg) 1000)
                                          (or_else (rc_maxDelayMs cfg) 30000) attempt)]\<rparr>
                  else s1))"

definition connectWithRetry :: "rabbit_config \<Rightarrow> 'b amqp \<Rightarrow> (('w, 'b) rabbit, unit) action" where
  "connectWithRetry cfg am = connect_attempts cfg am 0 (nat (or_else (rc_maxAttempts cfg) 3)) UndefinedReason"

definition rabbit_connect :: "rabbit_config \<Rightarrow> 'b amqp \<Rightarrow> (('w, 'b) rabbit, unit) action" where
  "rabbit_connect cfg am s = (if rb_connected s then (Inr (), s) else connectWithRetry cfg am s)"

section \<open>Reconnecting\<close>

text \<open>
  An attempt of the reconnection loop: the listeners are attached as soon as the connection is
  open, and nothing is closed when a later step fails. \<open>env\<close> is what other callbacks do to the bus
  while the loop awaits \<^verbatim>\<open>connect\<close>.
\<close>

definition reconnect_attempt ::
  "rabbit_config \<Rightarrow> 'b amqp \<Rightarrow> (('w, 'b) rabbit \<Rightarrow> ('w, 'b) rabbit) \<Rightarrow> (('w, 'b) rabbit, unit) action" where
  "reconnect_attempt cfg am env =
     bind_act (on_broker (am_connect am)) (\<lambda>c.
     then_act (upd env)
    (then_act (upd (\<lambda>s. s\<lparr>rb_connection := Some c, rb_watched := c # rb_watched s\<rparr>))
    (bind_act (on_broker (am_createConfirmChannel am c)) (\<lambda>ch.
     then_act (upd (rb_channel_update (\<lambda>_. Some ch)))
    (then_act (on_broker (am_prefetch am ch (or_else (rc_prefetchCount cfg) 10)))
    (then_act (on_broker (am_assertExchange am ch (rc_exchange cfg) (rc_type cfg)))
    (then_act (\<lambda>s. for_each (setupConsumer cfg am) (map fst (rb_handlers s)) s)
              (upd (rb_connected_update (\<lambda>_. True))))))))))"

text \<open>\<open>env n\<close> is the interference during the \<open>n\<close>th connect, \<open>env' n\<close> during the \<open>n\<close>th wait, and
  \<open>rnd n\<close> the \<open>n\<close>th value of \<^verbatim>\<open>Math.random()\<close>.\<close>

definition jittered :: "rabbit_config \<Rightarrow> rat \<Rightarrow> nat \<Rightarrow> rat" where
  "jittered cfg r attempt =
     of_int (backoff (or_else (rc_initialDelayMs cfg) 1000) (or_else (rc_maxDelayMs cfg) 30000) attempt) *
     (3 / 4 + r * (1 / 2))"

partial_function (option) reconnectPersistently ::
  "rabbit_config \<Rightarrow> 'b amqp \<Rightarrow> (nat \<Rightarrow> ('w, 'b) rabbit \<Rightarrow> ('w, 'b) rabbit) \<Rightarrow>
   (nat \<Rightarrow> ('w, 'b) rabbit \<Rightarrow> ('w, 'b) rabbit) \<Rightarrow> (nat \<Rightarrow> rat) \<Rightarrow> nat \<Rightarrow>
   ('w, 'b) rabbit \<Rightarrow> ('w, 'b) rabbit option" where
  "reconnectPersistently cfg am env env' rnd attempt s =
     (if rb_closed s then Some s
      else (case reconnect_attempt cfg am (env attempt) s of
              (Inr _, s1) \<Rightarrow> Some s1
            | (Inl e, s1) \<Rightarrow>
                if rb_closed s1 then Some s1
                else (let s2 = env' attempt (s1\<lparr>rb_delays := rb_delays s1 @ [jittered cfg (rnd attempt) attempt]\<rparr>) in
                      if rb_closed s2 then Some s2
                      else reconnectPersistently cfg am env env' rnd (attempt + 1) s2)))"

text \<open>\<^verbatim>\<open>_handleUnexpectedClose\<close> up to the start of the loop, and whether it starts one.\<close>

definition handleUnexpectedClose :: "('w, 'b) rabbit \<Rightarrow> bool \<times> ('w, 'b) rabbit" where
  "handleUnexpectedClose s =
     (if rb_reconnecting s then (False, s)
      else (True, s\<lparr>rb_reconnecting := True, rb_connected := False\<rparr>))"

definition connection_closed :: "nat \<Rightarrow> ('w, 'b) rabbit \<Rightarrow> bool \<times> ('w, 'b) rabbit" where
  "connection_closed c s =
     (if c \<in> set (rb_watched s) \<and> \<not> rb_closed s then handleUnexpectedClose s else (False, s))"

section \<open>Registration, publication and close\<close>

text \<open>A failing setup of the consumer of a late registration is only logged.\<close>

definition rabbit_on :: "rabbit_config \<Rightarrow> 'b amqp \<Rightarrow> string \<Rightarrow> 'w bhandler \<Rightarrow> (('w, 'b) rabbit, unit) action" where
  "rabbit_on cfg am eventName handler s =
     (if rb_closed s then (Inl (BusClosed ''RabbitMqEventBus''), s)
      else (case jm_get (rb_handlers s) eventName of
         Some existing \<Rightarrow> (Inr (), s\<lparr>rb_handlers := jm_set eventName (existing @ [handler]) (rb_handlers s)\<rparr>)
       | None \<Rightarrow>
           (let s1 = s\<lparr>rb_handlers := jm_set eventName [handler] (rb_handlers s)\<rparr> in
            if rb_connected s1 then swallow (setupConsumer cfg am eventName) s1 else (Inr (), s1))))"

definition rabbit_dispatch :: "rabbit_config \<Rightarrow> 'b amqp \<Rightarrow> event \<Rightarrow> (('w, 'b) rabbit, unit) action" where
  "rabbit_dispatch cfg am ev s =
     (if \<not> rb_connected s then (Inl (NotConnected ''RabbitMqEventBus''), s)
      else (case rb_channel s of
         None \<Rightarrow> (Inl (NotConnected ''RabbitMqEventBus''), s)
       | Some ch \<Rightarrow>
           bind_act (lift_result (event_text ev)) (\<lambda>body.
           then_act (on_broker (am_publish am ch
                       \<lparr>pb_exchange = rc_exchange cfg, pb_routingKey = ev_name ev, pb_content = body,
                        pb_messageId = event_id ev, pb_headers = []\<rparr>))
                    (on_broker (am_waitForConfirms am ch))) s))"

definition rabbit_close :: "'b amqp \<Rightarrow> ('w, 'b) rabbit \<Rightarrow> ('w, 'b) rabbit" where
  "rabbit_close am s =
     (if rb_closed s then s
      else (let s1 = s\<lparr>rb_closed := True, rb_connected := False, rb_handlers := []\<rparr>;
                s2 = (case rb_channel s1 of None \<Rightarrow> s1
                      | Some ch \<Rightarrow> (snd (swallow (on_broker (am_closeChannel am ch)) s1))\<lparr>rb_channel := None\<rparr>)
            in (case rb_connection s2 of None \<Rightarrow> s2
                | Some c \<Rightarrow> (snd (swallow (on_broker (am_closeConnection am c)) s2))\<lparr>rb_connection := None\<rparr>)))"

section \<open>Deliveries\<close>

text \<open>\<^verbatim>\<open>_handleMessage\<close>; the result says whether the message was poisoned.\<close>

definition rabbit_handleMessage :: "string \<Rightarrow> string \<Rightarrow> (('w, 'b) rabbit, bool) action" where
  "rabbit_handleMessage eventName content s =
     (case json_parse content of
        None \<Rightarrow> (Inr True, s)
      | Some v \<Rightarrow>
          (case run_all (or_else (jm_get (rb_handlers s) eventName) []) v (rb_world s) of
             (r, lg, w) \<Rightarrow>
               (case r of Inl e \<Rightarrow> Inl e | Inr _ \<Rightarrow> Inr False,
                s\<lparr>rb_world := w, rb_log := rb_log s @ lg\<rparr>)))"

definition deadLetter ::
  "rabbit_config \<Rightarrow> 'b amqp \<Rightarrow> nat \<Rightarrow> string \<Rightarrow> amqp_message \<Rightarrow> string \<Rightarrow> int \<Rightarrow> (('w, 'b) rabbit, unit) action" where
  "deadLetter cfg am ch eventName msg reason attempts =
     then_act (swallow (on_broker (am_publish am ch
                 \<lparr>pb_exchange = rc_dlx cfg, pb_routingKey = eventName, pb_content = am_content msg,
                  pb_messageId = None,
                  pb_headers = [(''x-original-event-name'', eventName), (''x-death-reason'', reason),
                                (''x-attempts'', int_string attempts)]\<rparr>)))
              (swallow (on_broker (am_ack am ch msg)))"

definition retry_key :: "(string \<Rightarrow> string) \<Rightarrow> amqp_message \<Rightarrow> string" where
  "retry_key digest msg = or_else (am_messageId msg) (digest (am_content msg))"

text \<open>The second half of \<^verbatim>\<open>_processDelivery\<close>: run the handlers, then settle the message.\<close>

definition handle_and_settle ::
  "'b amqp \<Rightarrow> nat \<Rightarrow> string \<Rightarrow> amqp_message \<Rightarrow> string option \<Rightarrow> ('w, 'b) rabbit \<Rightarrow> ('w, 'b) rabbit" where
  "handle_and_settle am ch eventName msg retryKey s =
     (case rabbit_handleMessage eventName (am_content msg) s of
        (Inr _, s1) \<Rightarrow>
          (let s2 = snd (swallow (on_broker (am_ack am ch msg)) s1) in
           (case retryKey of
              None \<Rightarrow> s2
            | Some k \<Rightarrow> s2\<lparr>rb_deliveryCounts := jm_delete k (rb_deliveryCounts s2)\<rparr>))
      | (Inl e, s1) \<Rightarrow> snd (swallow (on_broker (am_nack am ch msg)) s1))"

definition processDelivery ::
  "rabbit_config \<Rightarrow> 'b amqp \<Rightarrow> (string \<Rightarrow> string) \<Rightarrow> nat \<Rightarrow> string \<Rightarrow> amqp_message \<Rightarrow>
   ('w, 'b) rabbit \<Rightarrow> ('w, 'b) rabbit" where
  "processDelivery cfg am digest ch eventName msg s =
     (case rc_maxRetries cfg of
        None \<Rightarrow> handle_and_settle am ch eventName msg None s
      | Some maxRetries \<Rightarrow>
          (let k = retry_key digest msg;
               count = or_else (jm_get (rb_deliveryCounts s) k) 0 + 1;
               s1 = s\<lparr>rb_deliveryCounts := jm_set k count (rb_deliveryCounts s)\<rparr>
           in if maxRetries < count
              then snd (deadLetter cfg am ch eventName msg ''max-retries-exceeded'' count
                     (s1\<lparr>rb_deliveryCounts := jm_delete k (rb_deliveryCounts s1)\<rparr>))
              else handle_and_settle am ch eventName msg (Some k) s1))"

text \<open>\<^verbatim>\<open>_peekAggregateId\<close>: \<^verbatim>\<open>String\<close> of the property, whatever it is; an
  object or array identifier is outside the model.\<close>

definition js_string :: "jsval \<Rightarrow> string" where
  "js_string v =
     (case v of JStr s \<Rightarrow> s | JNum n \<Rightarrow> int_string n | JBool b \<Rightarrow> (if b then ''true'' else ''false'')
      | JNull \<Rightarrow> ''null'' | _ \<Rightarrow> ''undefined'')"

definition peekAggregateId :: "string \<Rightarrow> string option" where
  "peekAggregateId content =
     (case json_parse content of
        None \<Rightarrow> None
      | Some v \<Rightarrow>
          if nullish v \<or> nullish (js_prop v ''metadata'') then None
          else (case js_prop (js_prop v ''metadata'') ''aggregateId'' of
                  JUndef \<Rightarrow> None | a \<Rightarrow> Some (js_string a)))"

section \<open>A queue is worked off\<close>

text \<open>
  What the bus relies on of a queue and its channel while the channel is open and the bus is the
  queue's only consumer. \<open>ready\<close> are the unsettled messages in queue order, the delivered ones
  included: an acknowledged message leaves, and a message that is refused with
  \<^verbatim>\<open>requeue\<close> returns to its original place. What is published to the dead-letter exchange
  arrives behind the dead letters there are (\<open>dead\<close>). The broker has delivered at most
  \<^verbatim>\<open>prefetch\<close> unsettled messages, the first of the queue, and the callback runs for all of
  them concurrently; so any of them may be settled next, which is \<open>serve\<close> with picks below that
  bound. Only a \<^verbatim>\<open>prefetchCount\<close> of 1 makes the deliveries follow the queue order; for the
  default of 10 the order the bus still keeps, per aggregate, is the subject of \<open>Rabbit_Chains\<close>.
\<close>

definition queue_laws ::
  "'b amqp \<Rightarrow> nat \<Rightarrow> string \<Rightarrow> ('b \<Rightarrow> amqp_message list) \<Rightarrow> ('b \<Rightarrow> string list) \<Rightarrow> bool" where
  "queue_laws am ch dlx ready dead \<longleftrightarrow>
     (\<forall>b m q. ready b = m # q \<longrightarrow>
        (\<exists>b'. am_ack am ch m b = (Inr (), b') \<and> ready b' = q \<and> dead b' = dead b)) \<and>
     (\<forall>b m q. ready b = m # q \<longrightarrow>
        (\<exists>b'. am_nack am ch m b = (Inr (), b') \<and> ready b' = m # q \<and> dead b' = dead b)) \<and>
     (\<forall>b p. pb_exchange p = dlx \<longrightarrow>
        (\<exists>b'. am_publish am ch p b = (Inr (), b') \<and> ready b' = ready b \<and> dead b' = dead b @ [pb_content p]))"

lemma queue_lawsD:
  assumes "queue_laws am ch dlx ready dead" and "ready b = m # q"
  obtains b1 b2 where "am_ack am ch m b = (Inr (), b1)" "ready b1 = q" "dead b1 = dead b"
    and "am_nack am ch m b = (Inr (), b2)" "ready b2 = m # q" "dead b2 = dead b"
  using assms unfolding queue_laws_def by metis

lemma queue_laws_publish:
  assumes "queue_laws am ch dlx ready dead" and "pb_exchange p = dlx"
  obtains b' where "am_publish am ch p b = (Inr (), b')" "ready b' = ready b" "dead b' = dead b @ [pb_content p]"
  using assms unfolding queue_laws_def by metis

definition event_handlers :: "('w, 'b) rabbit \<Rightarrow> string \<Rightarrow> 'w bhandler list" where
  "event_handlers s eventName = or_else (jm_get (rb_handlers s) eventName) []"

lemma handleMessage_delivery:
  assumes "rabbit_handleMessage eventName content s = (r, s1)"
  shows "delivery_ok (event_handlers s eventName) content (rb_world s) = (\<not> isl r, rb_world s1)"
    and "rb_broker s1 = rb_broker s" and "rb_deliveryCounts s1 = rb_deliveryCounts s"
    and "rb_handlers s1 = rb_handlers s"
  using assms
  by (auto simp: rabbit_handleMessage_def delivery_ok_def event_handlers_def
      split: option.splits prod.splits sum.splits)

text \<open>The part of the state the queue is about.\<close>

record ('w) queue_view =
  qv_ready :: "amqp_message list"
  qv_dead :: "string list"
  qv_world :: 'w
  qv_counts :: "string \<Rightarrow> int option"
  qv_handlers :: "(string, 'w bhandler list) jmap"

definition rview ::
  "('b \<Rightarrow> amqp_message list) \<Rightarrow> ('b \<Rightarrow> string list) \<Rightarrow> ('w, 'b) rabbit \<Rightarrow> 'w queue_view" where
  "rview ready dead s = \<lparr>qv_ready = ready (rb_broker s), qv_dead = dead (rb_broker s), qv_world = rb_world s,
     qv_counts = jm_get (rb_deliveryCounts s), qv_handlers = rb_handlers s\<rparr>"

lemma deliver_handled:
  fixes s :: "('w, 'b) rabbit"
  assumes laws: "queue_laws am ch (rc_dlx cfg) ready dead" and rdy: "ready (rb_broker s) = msg # q"
    and cfg: "rc_maxRetries cfg = Some mr"
    and count: "or_else (jm_get (rb_deliveryCounts s) (retry_key digest msg)) 0 < mr"
    and ok: "delivery_ok (event_handlers s ev) (am_content msg) (rb_world s) = (True, w')"
  shows "rview ready dead (processDelivery cfg am digest ch ev msg s) =
    \<lparr>qv_ready = q, qv_dead = dead (rb_broker s), qv_world = w',
     qv_counts = (jm_get (rb_deliveryCounts s))(retry_key digest msg := None), qv_handlers = rb_handlers s\<rparr>"
proof -
  let ?k = "retry_key digest msg"
  let ?s1 = "s\<lparr>rb_deliveryCounts := jm_set ?k (or_else (jm_get (rb_deliveryCounts s) ?k) 0 + 1) (rb_deliveryCounts s)\<rparr>"
  obtain r s2 where h: "rabbit_handleMessage ev (am_content msg) ?s1 = (r, s2)"
    by (cases "rabbit_handleMessage ev (am_content msg) ?s1")
  note hm = handleMessage_delivery [OF h]
  then obtain x where r: "r = Inr x" and w: "rb_world s2 = w'"
    using ok by (cases r) (auto simp: event_handlers_def)
  from hm(2) rdy have "ready (rb_broker s2) = msg # q" by simp
  from queue_lawsD [OF laws this] obtain b1 where b1: "am_ack am ch msg (rb_broker s2) = (Inr (), b1)"
      "ready b1 = q" "dead b1 = dead (rb_broker s2)" by metis
  have "processDelivery cfg am digest ch ev msg s = handle_and_settle am ch ev msg (Some ?k) ?s1"
    using cfg count by (simp add: processDelivery_def Let_def)
  also have "\<dots> = s2\<lparr>rb_broker := b1, rb_deliveryCounts := jm_delete ?k (rb_deliveryCounts s2)\<rparr>"
    using h r b1 by (simp add: handle_and_settle_def on_broker_def swallow_def Let_def)
  finally show ?thesis
    using b1 w hm by (auto simp: rview_def fun_eq_iff)
qed

lemma deliver_failed:
  fixes s :: "('w, 'b) rabbit"
  assumes laws: "queue_laws am ch (rc_dlx cfg) ready dead" and rdy: "ready (rb_broker s) = msg # q"
    and cfg: "rc_maxRetries cfg = Some mr"
    and count: "or_else (jm_get (rb_deliveryCounts s) (retry_key digest msg)) 0 < mr"
    and ok: "delivery_ok (event_handlers s ev) (am_content msg) (rb_world s) = (False, w')"
  shows "rview ready dead (processDelivery cfg am digest ch ev msg s) =
    \<lparr>qv_ready = msg # q, qv_dead = dead (rb_broker s), qv_world = w',
     qv_counts = (jm_get (rb_deliveryCounts s))(retry_key digest msg \<mapsto>
        or_else (jm_get (rb_deliveryCounts s) (retry_key digest msg)) 0 + 1), qv_handlers = rb_handlers s\<rparr>"
proof -
  let ?k = "retry_key digest msg"
  let ?s1 = "s\<lparr>rb_deliveryCounts := jm_set ?k (or_else (jm_get (rb_deliveryCounts s) ?k) 0 + 1) (rb_deliveryCounts s)\<rparr>"
  obtain r s2 where h: "rabbit_handleMessage ev (am_content msg) ?s1 = (r, s2)"
    by (cases "rabbit_handleMessage ev (am_content msg) ?s1")
  note hm = handleMessage_delivery [OF h]
  then obtain e where r: "r = Inl e" and w: "rb_world s2 = w'"
    using ok by (cases r) (auto simp: event_handlers_def)
  from hm(2) rdy have "ready (rb_broker s2) = msg # q" by simp
  from queue_lawsD [OF laws this] obtain b1 where b1: "am_nack am ch msg (rb_broker s2) = (Inr (), b1)"
      "ready b1 = msg # q" "dead b1 = dead (rb_broker s2)" by metis
  have "processDelivery cfg am digest ch ev msg s = handle_and_settle am ch ev msg (Some ?k) ?s1"
    using cfg count by (simp add: processDelivery_def Let_def)
  also have "\<dots> = s2\<lparr>rb_broker := b1\<rparr>"
    using h r b1 by (simp add: handle_and_settle_def on_broker_def swallow_def)
  finally show ?thesis
    using b1 w hm by (auto simp: rview_def fun_eq_iff)
qed

lemma deliver_exhausted:
  fixes s :: "('w, 'b) rabbit"
  assumes laws: "queue_laws am ch (rc_dlx cfg) ready dead" and rdy: "ready (rb_broker s) = msg # q"
    and cfg: "rc_maxRetries cfg = Some mr"
    and count: "mr \<le> or_else (jm_get (rb_deliveryCounts s) (retry_key digest msg)) 0"
  shows "rview ready dead (processDelivery cfg am digest ch ev msg s) =
    \<lparr>qv_ready = q, qv_dead = dead (rb_broker s) @ [am_content msg], qv_world = rb_world s,
     qv_counts = (jm_get (rb_deliveryCounts s))(retry_key digest msg := None), qv_handlers = rb_handlers s\<rparr>"
proof -
  let ?k = "retry_key digest msg"
  let ?c = "or_else (jm_get (rb_deliveryCounts s) ?k) 0 + 1"
  let ?p = "\<lparr>pb_exchange = rc_dlx cfg, pb_routingKey = ev, pb_content = am_content msg, pb_messageId = None,
             pb_headers = [(''x-original-event-name'', ev), (''x-death-reason'', ''max-retries-exceeded''),
                           (''x-attempts'', int_string ?c)]\<rparr>"
  have "pb_exchange ?p = rc_dlx cfg" by simp
  then obtain b1 where b1: "am_publish am ch ?p (rb_broker s) = (Inr (), b1)"
      "ready b1 = ready (rb_broker s)" "dead b1 = dead (rb_broker s) @ [pb_content ?p]"
    by (rule queue_laws_publish [OF laws])
  then have "ready b1 = msg # q" using rdy by simp
  then obtain b2 where b2: "am_ack am ch msg b1 = (Inr (), b2)" "ready b2 = q" "dead b2 = dead b1"
    by (rule queue_lawsD [OF laws])
  have "processDelivery cfg am digest ch ev msg s =
      s\<lparr>rb_deliveryCounts := jm_delete ?k (jm_set ?k ?c (rb_deliveryCounts s)), rb_broker := b2\<rparr>"
    using cfg count b1 b2
    by (simp add: processDelivery_def Let_def deadLetter_def on_broker_def swallow_def then_act_def bind_act_def)
  then show ?thesis
    using b1 b2 by (auto simp: rview_def fun_eq_iff)
qed

text \<open>The bus and a lawful queue are an instance of redelivery: the bookkeeping are the counters.\<close>

lemma rabbit_redelivery:
  fixes s0 :: "('w, 'b) rabbit"
  assumes laws: "queue_laws am ch (rc_dlx cfg) ready dead" and cfg: "rc_maxRetries cfg = Some (int mr)"
    and none: "\<forall>msg \<in> Q. k0 (retry_key digest msg) = None"
  shows "redelivery (processDelivery cfg am digest ch ev) (\<lambda>s. ready (rb_broker s)) (\<lambda>s. dead (rb_broker s))
    (unless_accepted am_content) rb_world (\<lambda>s. jm_get (rb_deliveryCounts s)) k0
    (\<lambda>msg n k. or_else (k (retry_key digest msg)) 0 + int n = int mr \<and> k(retry_key digest msg := None) = k0)
    (\<lambda>msg. delivery_ok (event_handlers s0 ev) (am_content msg))
    (\<lambda>s. event_handlers s ev = event_handlers s0 ev) mr Q"
proof (unfold_locales, goal_cases)
  case (1 m)
  with none show ?case by (auto simp: fun_eq_iff)
next
  case (2 s m q)
  obtain b w1 where d: "delivery_ok (event_handlers s ev) (am_content m) (rb_world s) = (b, w1)"
    by (cases "delivery_ok (event_handlers s ev) (am_content m) (rb_world s)")
  have "rb_handlers (processDelivery cfg am digest ch ev m s) = rb_handlers s"
  proof (cases "or_else (jm_get (rb_deliveryCounts s) (retry_key digest m)) 0 < int mr")
    case True
    show ?thesis
      using deliver_handled [OF laws 2(2) cfg True] deliver_failed [OF laws 2(2) cfg True] d
      by (cases b) (simp_all add: rview_def)
  next
    case False
    then show ?thesis using deliver_exhausted [OF laws 2(2) cfg, of digest ev] by (simp add: rview_def)
  qed
  with 2(1) show ?case by (simp add: event_handlers_def)
next
  case (3 s m q n w')
  then have "or_else (jm_get (rb_deliveryCounts s) (retry_key digest m)) 0 < int mr" by simp
  from deliver_handled [OF laws 3(2) cfg this, of ev w'] 3 show ?case by (simp add: rview_def)
next
  case (4 s m q n w')
  then have "or_else (jm_get (rb_deliveryCounts s) (retry_key digest m)) 0 < int mr" by simp
  from deliver_failed [OF laws 4(2) cfg this, of ev w'] 4 show ?case by (simp add: rview_def)
next
  case (5 s m q)
  then have "int mr \<le> or_else (jm_get (rb_deliveryCounts s) (retry_key digest m)) 0" by simp
  from deliver_exhausted [OF laws 5(2) cfg this, of ev] 5 show ?case by (simp add: rview_def)
qed

text \<open>C15: A RabbitMQ queue is worked off. Let the retry limit be \<open>mr\<close>, let the bus be configured
  with a \<^verbatim>\<open>prefetchCount\<close> of 1 and be the only consumer of the queue (with the default of
  10 the deliveries run concurrently and the queue order is not kept), and let the queue and the
  handlers' promises settle as documented: an acknowledged message leaves the queue, a message
  refused with requeue returns to its place, a publication to the dead-letter exchange is stored.
  Then \<open>mr + 1\<close> deliveries per message empty the queue, whichever errors the handlers reject with:
  each message that parses is given to its handlers until they accept it, but at most \<open>mr\<close> times, in
  queue order; exactly the parsing messages they never accepted are in the dead-letter queue, once
  each and in order; and no retry counter is left behind. A message that does not parse is
  acknowledged and dropped (when \<open>mr\<close> is 0 nothing is parsed, and every message is dead-lettered).\<close>
theorem rabbit_queue_drains:
  fixes s :: "('w, 'b) rabbit"
  assumes "queue_laws am ch (rc_dlx cfg) ready dead" and "rc_maxRetries cfg = Some (int mr)"
    and "rc_prefetchCount cfg = Some 1" and "ready (rb_broker s) = q"
    and "\<forall>msg \<in> set q. jm_get (rb_deliveryCounts s) (retry_key digest msg) = None"
    and "work_off mr (\<lambda>msg. delivery_ok (event_handlers s ev) (am_content msg))
      (unless_accepted am_content) q (rb_world s) = (ds, w')"
    and "\<forall>i \<in> set picks. int i < or_else (rc_prefetchCount cfg) 10" and "length picks = (mr + 1) * length q"
    and "s' = serve (\<lambda>s. ready (rb_broker s)) (processDelivery cfg am digest ch ev) picks s"
  shows "ready (rb_broker s') = [] \<and> dead (rb_broker s') = dead (rb_broker s) @ ds \<and>
    rb_world s' = w' \<and> jm_get (rb_deliveryCounts s') = jm_get (rb_deliveryCounts s)"
proof -
  note rd = rabbit_redelivery [OF assms(1,2,5), where ?s0.0 = s and ev = ev]
  have "s' = pump (\<lambda>s. ready (rb_broker s)) (processDelivery cfg am digest ch ev) ((mr + 1) * length q) s"
    using assms(3,7,8,9) by (simp add: serve_one)
  with redelivery.queue_drains [OF rd refl assms(4) subset_refl refl assms(6)] show ?thesis
    by (simp add: redelivery.settled_as_def [OF rd])
qed

text \<open>A broker with one queue, for the samples.\<close>

record queue_broker =
  qb_ready :: "amqp_message list"
  qb_dead :: "string list"
  qb_sent :: "amqp_publication list"
  qb_open :: "nat list"

definition queue_amqp :: "string \<Rightarrow> queue_broker amqp" where
  "queue_amqp dlx =
     \<lparr>am_connect = (\<lambda>b. let c = Suc (sum_list (qb_open b)) in (Inr c, b\<lparr>qb_open := c # qb_open b\<rparr>)),
      am_createConfirmChannel = (\<lambda>c. ret 0), am_prefetch = (\<lambda>_ _. ret ()),
      am_assertExchange = (\<lambda>_ _ _. ret ()), am_assertQueue = (\<lambda>_ _. ret ()),
      am_bindQueue = (\<lambda>_ _ _ _. ret ()), am_consume = (\<lambda>_ _ _. ret ()),
      am_publish = (\<lambda>_ p b. (Inr (), if pb_exchange p = dlx then b\<lparr>qb_dead := qb_dead b @ [pb_content p]\<rparr>
                                    else b\<lparr>qb_sent := qb_sent b @ [p]\<rparr>)),
      am_waitForConfirms = (\<lambda>_. ret ()),
      am_ack = (\<lambda>_ _ b. (Inr (), b\<lparr>qb_ready := tl (qb_ready b)\<rparr>)), am_nack = (\<lambda>_ _. ret ()),
      am_closeChannel = (\<lambda>_. ret ()),
      am_closeConnection = (\<lambda>c b. (Inr (), b\<lparr>qb_open := filter (\<lambda>x. x \<noteq> c) (qb_open b)\<rparr>))\<rparr>"

lemma queue_amqp_laws: "queue_laws (queue_amqp dlx) ch dlx qb_ready qb_dead"
  by (simp add: queue_laws_def queue_amqp_def ret_def)

definition sample_rabbit :: rabbit_config where
  "sample_rabbit = \<lparr>rc_url = ''amqp'', rc_exchangeName = None, rc_exchangeType = None, rc_queuePrefix = ''svc'',
     rc_prefetchCount = Some 1, rc_maxAttempts = None, rc_initialDelayMs = None, rc_maxDelayMs = None,
     rc_maxRetries = Some 2\<rparr>"

definition sample_text :: "int \<Rightarrow> string" where
  "sample_text n = or_else (json_text (JObj [(''name'', JStr ''E''), (''payload'', JNum n)])) []"

text \<open>A handler that counts its calls and rejects the payload 1.\<close>

definition picky_handler :: "nat bhandler" where
  "picky_handler = \<lparr>bh_name = ''picky'',
     bh_run = (\<lambda>v w. (if js_prop v ''payload'' = JNum 1 then Inl (UserError ''one'') else Inr (), w + 1))\<rparr>"

definition sample_bus :: "queue_broker \<Rightarrow> (nat, queue_broker) rabbit" where
  "sample_bus b = \<lparr>rb_handlers = [(''E'', [picky_handler])], rb_connection = Some 0, rb_channel = Some 0,
     rb_connected = True, rb_closed = False, rb_reconnecting = False, rb_deliveryCounts = [], rb_watched = [],
     rb_delays = [], rb_log = [], rb_world = 0, rb_broker = b\<rparr>"

definition sample_queue :: "amqp_message list" where
  "sample_queue = [\<lparr>am_tag = 1, am_content = sample_text 1, am_messageId = Some ''a''\<rparr>,
                   \<lparr>am_tag = 2, am_content = sample_text 2, am_messageId = Some ''b''\<rparr>]"

definition sample_broker :: queue_broker where
  "sample_broker = \<lparr>qb_ready = sample_queue, qb_dead = [], qb_sent = [], qb_open = [0]\<rparr>"

interpretation sample_queue: redelivery "processDelivery sample_rabbit (queue_amqp (rc_dlx sample_rabbit)) id 0 ''E''"
  "\<lambda>s. qb_ready (rb_broker s)" "\<lambda>s. qb_dead (rb_broker s)" "unless_accepted am_content" rb_world
  "\<lambda>s. jm_get (rb_deliveryCounts s)" Map.empty
  "\<lambda>msg n k. or_else (k (retry_key id msg)) 0 + int n = int 2 \<and> k(retry_key id msg := None) = Map.empty"
  "\<lambda>msg. delivery_ok (event_handlers (sample_bus sample_broker) ''E'') (am_content msg)"
  "\<lambda>s. event_handlers s ''E'' = event_handlers (sample_bus sample_broker) ''E''" 2 UNIV
  by (rule rabbit_redelivery [OF queue_amqp_laws]) (simp_all add: sample_rabbit_def)

theorem rabbit_queue_drains_witness:
  "let s' = serve (\<lambda>s. qb_ready (rb_broker s))
        (processDelivery sample_rabbit (queue_amqp (rc_dlx sample_rabbit)) id 0 ''E'')
        (replicate 6 0) (sample_bus sample_broker)
   in qb_ready (rb_broker s') = [] \<and> qb_dead (rb_broker s') = [sample_text 1] \<and> rb_world s' = 3"
proof -
  let ?s = "sample_bus sample_broker"
  have q: "qb_ready (rb_broker ?s) = sample_queue" by (simp add: sample_bus_def sample_broker_def)
  have c: "\<forall>msg \<in> set sample_queue. jm_get (rb_deliveryCounts ?s) (retry_key id msg) = None"
    by (simp add: sample_bus_def)
  have cfg: "rc_maxRetries sample_rabbit = Some (int 2)" "rc_prefetchCount sample_rabbit = Some 1"
    by (simp_all add: sample_rabbit_def)
  have w: "work_off 2 (\<lambda>msg. delivery_ok (event_handlers ?s ''E'') (am_content msg))
      (unless_accepted am_content) sample_queue (rb_world ?s) = ([sample_text 1], 3)" by code_simp
  have n: "\<forall>i \<in> set (replicate 6 0). int i < or_else (rc_prefetchCount sample_rabbit) 10"
      "length (replicate 6 (0 :: nat)) = (2 + 1) * length sample_queue" by (simp_all add: cfg(2) sample_queue_def)
  from rabbit_queue_drains [OF queue_amqp_laws cfg q c w n refl] show ?thesis
    by (simp add: sample_bus_def sample_broker_def Let_def)
qed

section \<open>Connecting leaks nothing\<close>

text \<open>What the bus relies on of connections: a successful \<^verbatim>\<open>connect\<close> opens one more,
  \<^verbatim>\<open>close\<close> closes it, nothing else opens or closes any. \<open>opn\<close> reads the set of open
  connections.\<close>

definition connection_laws :: "'b amqp \<Rightarrow> ('b \<Rightarrow> nat set) \<Rightarrow> bool" where
  "connection_laws am opn \<longleftrightarrow>
     (\<forall>b. (case am_connect am b of
             (Inl _, b') \<Rightarrow> opn b' = opn b
           | (Inr c, b') \<Rightarrow> c \<notin> opn b \<and> opn b' = insert c (opn b))) \<and>
     (\<forall>c b. opn (snd (am_closeConnection am c b)) = opn b - {c}) \<and>
     (\<forall>c. keeps opn (am_createConfirmChannel am c)) \<and> (\<forall>c n. keeps opn (am_prefetch am c n)) \<and>
     (\<forall>c x t. keeps opn (am_assertExchange am c x t)) \<and> (\<forall>c q. keeps opn (am_assertQueue am c q)) \<and>
     (\<forall>c q x k. keeps opn (am_bindQueue am c q x k)) \<and> (\<forall>c q e. keeps opn (am_consume am c q e))"

lemma keeps_on_broker [keeps_intros]: "keeps g m \<Longrightarrow> keeps (\<lambda>s. g (rb_broker s)) (on_broker m)"
  by (auto simp: keeps_def on_broker_def split: prod.splits) (metis snd_conv)

lemma keeps_on_broker_fields [keeps_intros]:
  "keeps rb_connected (on_broker m)" "keeps rb_watched (on_broker m)" "keeps rb_connection (on_broker m)"
  "keeps rb_channel (on_broker m)" "keeps rb_delays (on_broker m)" "keeps rb_handlers (on_broker m)"
  by (auto simp: keeps_def on_broker_def split: prod.splits)

lemma keeps_handlers_loop [keeps_intros]:
  assumes "\<And>x. keeps f (g x)"
  shows "keeps f (\<lambda>s. for_each g (h s) s)"
proof -
  have "keeps f (for_each g xs)" for xs by (rule keeps_for_each [where g = g, OF assms])
  then show ?thesis by (simp add: keeps_def)
qed

lemma keeps_setupConsumer [keeps_intros]:
  assumes "\<And>ch. keeps f (assertDeadLetterTopology cfg am ch)"
    and "\<And>ch q. keeps f (on_broker (am_assertQueue am ch q))"
    and "\<And>ch q x k. keeps f (on_broker (am_bindQueue am ch q x k))"
    and "\<And>ch q e. keeps f (on_broker (am_consume am ch q e))"
  shows "keeps f (setupConsumer cfg am ev)"
proof -
  have "f (snd (setupConsumer cfg am ev s)) = f s" for s
  proof (cases "rb_channel s")
    case None
    then show ?thesis by (simp add: setupConsumer_def)
  next
    case (Some ch)
    have "keeps f (then_act (if rc_maxRetries cfg \<noteq> None then assertDeadLetterTopology cfg am ch else ret ())
          (then_act (on_broker (am_assertQueue am ch (rc_queuePrefix cfg @ ''.'' @ ev)))
          (then_act (on_broker (am_bindQueue am ch (rc_queuePrefix cfg @ ''.'' @ ev) (rc_exchange cfg) ev))
                    (on_broker (am_consume am ch (rc_queuePrefix cfg @ ''.'' @ ev) ev)))))"
      by (intro keeps_intros assms)
    with Some show ?thesis by (simp add: setupConsumer_def keeps_def Let_def)
  qed
  then show ?thesis by (simp add: keeps_def)
qed

lemma keeps_topology [keeps_intros]:
  assumes "\<And>ch x t. keeps f (on_broker (am_assertExchange am ch x t))"
    and "\<And>ch q. keeps f (on_broker (am_assertQueue am ch q))"
    and "\<And>ch q x k. keeps f (on_broker (am_bindQueue am ch q x k))"
  shows "keeps f (assertDeadLetterTopology cfg am ch)"
  unfolding assertDeadLetterTopology_def by (intro keeps_intros assms)

lemma keeps_upd: "(\<And>s. f (u s) = f s) \<Longrightarrow> keeps f (upd u)"
  by (simp add: keeps_def upd_def)

lemma open_channel_keeps:
  "keeps rb_connected (open_channel cfg am c)" "keeps rb_watched (open_channel cfg am c)"
  "keeps rb_delays (open_channel cfg am c)"
  by (unfold open_channel_def; intro keeps_intros keeps_upd; simp)+

lemma open_channel_keeps_open:
  assumes "connection_laws am opn"
  shows "keeps (\<lambda>s. opn (rb_broker s)) (open_channel cfg am c)"
  using assms unfolding open_channel_def connection_laws_def
  by (intro keeps_intros keeps_upd) simp_all

lemma open_channel_success:
  assumes "open_channel cfg am c s = (Inr u, s')"
  shows "rb_connection s' = Some c \<and> rb_channel s' \<noteq> None"
proof -
  obtain ch s1 where "on_broker (am_createConfirmChannel am c) (s\<lparr>rb_connection := Some c\<rparr>) = (Inr ch, s1)"
      and rest: "then_act (on_broker (am_prefetch am ch (or_else (rc_prefetchCount cfg) 10)))
    (then_act (catch_act (on_broker (am_assertExchange am ch (rc_exchange cfg) (rc_type cfg)))
                 (\<lambda>e. if isExchangeTypeMismatch e
                      then throw (ExchangeTypeMismatchError (rc_exchange cfg) (rc_type cfg)) else throw e))
              (\<lambda>s. for_each (setupConsumer cfg am) (map fst (rb_handlers s)) s))
     (s1\<lparr>rb_channel := Some ch\<rparr>) = (Inr u, s')" (is "?m (s1\<lparr>rb_channel := Some ch\<rparr>) = _")
    using assms by (auto simp: open_channel_def bind_act_split act)
  moreover have "keeps rb_connection ?m" "keeps rb_channel ?m"
    by (intro keeps_intros)+
  moreover have "keeps rb_connection (on_broker (am_createConfirmChannel am c))" by (intro keeps_intros)
  ultimately show ?thesis by (auto dest!: keepsD)
qed

definition connect_outcome ::
  "('b \<Rightarrow> nat set) \<Rightarrow> ('w, 'b) rabbit \<Rightarrow> error + unit \<Rightarrow> ('w, 'b) rabbit \<Rightarrow> bool" where
  "connect_outcome opn s r s' \<longleftrightarrow>
    (case r of
      Inr _ \<Rightarrow> rb_connected s' \<and> rb_channel s' \<noteq> None \<and>
        (\<exists>c. rb_connection s' = Some c \<and> c \<notin> opn (rb_broker s) \<and>
             opn (rb_broker s') = insert c (opn (rb_broker s)) \<and> rb_watched s' = c # rb_watched s)
    | Inl _ \<Rightarrow> \<not> rb_connected s' \<and> rb_channel s' = None \<and> rb_connection s' = None \<and>
        opn (rb_broker s') = opn (rb_broker s) \<and> rb_watched s' = rb_watched s)"

lemma connect_outcome_cong:
  assumes "opn (rb_broker s1) = opn (rb_broker s)" and "rb_watched s1 = rb_watched s"
  shows "connect_outcome opn s1 r s' = connect_outcome opn s r s'"
  using assms by (cases r) (simp_all add: connect_outcome_def)

lemma connect_attempt_outcome:
  assumes laws: "connection_laws am opn" and run: "connect_attempt cfg am s = (r, s')" and "\<not> rb_connected s"
  shows "connect_outcome opn s r s'"
    and "rb_delays s' = rb_delays s"
proof -
  obtain x b1 where c: "am_connect am (rb_broker s) = (x, b1)" by (cases "am_connect am (rb_broker s)")
  let ?s1 = "s\<lparr>rb_broker := b1\<rparr>"
  have open1: "case x of Inl _ \<Rightarrow> opn b1 = opn (rb_broker s)
      | Inr c \<Rightarrow> c \<notin> opn (rb_broker s) \<and> opn b1 = insert c (opn (rb_broker s))"
    using laws c unfolding connection_laws_def by (auto split: sum.splits prod.splits)
  have "connect_outcome opn s r s' \<and> rb_delays s' = rb_delays s"
  proof (cases x)
    case (Inl e)
    with c run open1 assms(3) show ?thesis
      by (auto simp: connect_outcome_def connect_attempt_def on_broker_def drop_connection_def)
  next
    case (Inr cn)
    obtain y s2 where o: "open_channel cfg am cn ?s1 = (y, s2)" by (cases "open_channel cfg am cn ?s1")
    note k = open_channel_keeps [THEN keepsD, OF o] open_channel_keeps_open [OF laws, THEN keepsD, OF o]
    show ?thesis
    proof (cases y)
      case (Inl e)
      with o have "connect_setup cfg am cn ?s1 = (Inl e, s2)" by (simp add: connect_setup_def act)
      then have rs: "(r, s') = (Inl e, drop_connection (snd (swallow (on_broker (am_closeConnection am cn)) s2)))"
        using run c Inr by (simp add: connect_attempt_def on_broker_def)
      obtain z b3 where z: "am_closeConnection am cn (rb_broker s2) = (z, b3)"
        by (cases "am_closeConnection am cn (rb_broker s2)")
      then have "opn b3 = opn (rb_broker s2) - {cn}"
        using laws unfolding connection_laws_def by (metis snd_conv)
      with rs z k open1 Inr assms(3) show ?thesis
        by (auto simp: connect_outcome_def on_broker_def swallow_def drop_connection_def)
    next
      case (Inr u)
      with o have "connect_setup cfg am cn ?s1 = (Inr (), s2\<lparr>rb_watched := cn # rb_watched s2, rb_connected := True\<rparr>)"
        by (simp add: connect_setup_def then_act_def bind_act_def upd_def)
      with run c \<open>x = Inr cn\<close> have rs: "r = Inr ()" "s' = s2\<lparr>rb_watched := cn # rb_watched s2, rb_connected := True\<rparr>"
        by (simp_all add: connect_attempt_def on_broker_def)
      from open_channel_success o Inr have "rb_connection s2 = Some cn \<and> rb_channel s2 \<noteq> None" by blast
      with rs k open1 \<open>x = Inr cn\<close> show ?thesis by (auto simp: connect_outcome_def)
    qed
  qed
  then show "connect_outcome opn s r s'"
    and "rb_delays s' = rb_delays s" by simp_all
qed

lemma connect_attempts_outcome:
  assumes laws: "connection_laws am opn"
  shows "connect_attempts cfg am a left e0 s = (r, s') \<Longrightarrow> \<not> rb_connected s \<Longrightarrow>
    rb_connection s = None \<Longrightarrow> rb_channel s = None \<Longrightarrow>
    connect_outcome opn s r s' \<and>
    (\<exists>k. k \<le> left - 1 \<and> rb_delays s' = rb_delays s @
       map (\<lambda>i. of_int (backoff (or_else (rc_initialDelayMs cfg) 1000) (or_else (rc_maxDelayMs cfg) 30000) i)) [a..<a + k])"
proof (induction left arbitrary: a e0 s)
  case 0
  then show ?case by (auto simp: connect_outcome_def)
next
  case (Suc left)
  let ?b = "\<lambda>i. of_int (backoff (or_else (rc_initialDelayMs cfg) 1000) (or_else (rc_maxDelayMs cfg) 30000) i) :: rat"
  obtain x s1 where at: "connect_attempt cfg am s = (x, s1)" by (cases "connect_attempt cfg am s")
  note o = connect_attempt_outcome [OF laws at Suc.prems(2)]
  show ?case
  proof (cases "\<exists>e. x = Inl e \<and> \<not> is_type_mismatch e")
    case False
    then have "(r, s') = (x, s1)" using Suc.prems(1) at by (cases x) auto
    with o show ?thesis by (auto intro: exI [of _ 0])
  next
    case True
    then obtain e where x: "x = Inl e" "\<not> is_type_mismatch e" by blast
    let ?s2 = "if 0 < left then s1\<lparr>rb_delays := rb_delays s1 @ [?b a]\<rparr> else s1"
    have run: "connect_attempts cfg am (a + 1) left e ?s2 = (r, s')"
      using Suc.prems(1) at x by (simp split: if_splits)
    have pre: "\<not> rb_connected ?s2" "rb_connection ?s2 = None" "rb_channel ?s2 = None"
        "opn (rb_broker ?s2) = opn (rb_broker s)" "rb_watched ?s2 = rb_watched s"
      using o(1) x by (auto simp: connect_outcome_def)
    have out: "connect_outcome opn s r s'"
      using Suc.IH [OF run pre(1-3)] connect_outcome_cong [OF pre(4,5)] by blast
    from Suc.IH [OF run pre(1-3)] obtain k where k: "k \<le> left - 1"
        "rb_delays s' = rb_delays ?s2 @ map ?b [a + 1..<a + 1 + k]" by blast
    show ?thesis
    proof (cases "left = 0")
      case True
      with k out o(2) show ?thesis by (intro conjI exI [of _ 0]) auto
    next
      case False
      have "[a..<a + Suc k] = a # [a + 1..<a + 1 + k]" by (simp add: upt_conv_Cons)
      with False k out o(2) show ?thesis by (intro conjI exI [of _ "Suc k"]) (auto simp del: upt_Suc)
    qed
  qed
qed

text \<open>C28: Connecting to RabbitMQ is bounded and leaks no connection. Assume that
  \<^verbatim>\<open>connect\<close> opens a connection, \<^verbatim>\<open>close\<close> closes it and no other call opens or
  closes one. From a bus that is not connected, \<^verbatim>\<open>connect()\<close> either ends connected, with
  exactly one more open connection, the one it keeps and listens to, and a channel; or it throws,
  with the same open connections as before, no connection or channel kept and no listener attached.
  It waits at most \<^verbatim>\<open>maxAttempts - 1\<close> times, the waits being the first terms of the
  exponential backoff.\<close>
theorem rabbit_connect_no_leak:
  assumes "connection_laws am opn" and "rabbit_connect cfg am s = (r, s')"
    and "\<not> rb_connected s" and "rb_connection s = None" and "rb_channel s = None"
  shows "(case r of
      Inr _ \<Rightarrow> rb_connected s' \<and> rb_channel s' \<noteq> None \<and>
        (\<exists>c. rb_connection s' = Some c \<and> c \<notin> opn (rb_broker s) \<and>
             opn (rb_broker s') = insert c (opn (rb_broker s)) \<and> rb_watched s' = c # rb_watched s)
    | Inl _ \<Rightarrow> \<not> rb_connected s' \<and> rb_channel s' = None \<and> rb_connection s' = None \<and>
        opn (rb_broker s') = opn (rb_broker s) \<and> rb_watched s' = rb_watched s) \<and>
    (\<exists>k. k \<le> nat (or_else (rc_maxAttempts cfg) 3) - 1 \<and> rb_delays s' = rb_delays s @
       map (\<lambda>i. of_int (backoff (or_else (rc_initialDelayMs cfg) 1000) (or_else (rc_maxDelayMs cfg) 30000) i)) [0..<k])"
  using connect_attempts_outcome [OF assms(1), of cfg 0 "nat (or_else (rc_maxAttempts cfg) 3)" UndefinedReason s r s']
    assms(2-) by (simp add: rabbit_connect_def connectWithRetry_def connect_outcome_def)

lemma queue_amqp_connections: "connection_laws (queue_amqp dlx) (\<lambda>b. set (qb_open b))"
proof -
  have "Suc (sum_list xs) \<notin> set xs" for xs :: "nat list"
    using member_le_sum_list by fastforce
  then show ?thesis
    by (auto simp: connection_laws_def queue_amqp_def Let_def intro!: keeps_intros)
qed

text \<open>The same broker when no channel can be created.\<close>

definition broken_amqp :: "queue_broker amqp" where
  "broken_amqp = (queue_amqp ''x'')\<lparr>am_createConfirmChannel := (\<lambda>_. throw (UserError ''no channel''))\<rparr>"

lemma broken_amqp_connections: "connection_laws broken_amqp (\<lambda>b. set (qb_open b))"
  using queue_amqp_connections [of "''x''"]
  by (simp add: connection_laws_def broken_amqp_def keeps_throw)

definition fresh_bus :: "(nat, queue_broker) rabbit" where
  "fresh_bus = (sample_bus (sample_broker\<lparr>qb_open := []\<rparr>))\<lparr>rb_connected := False, rb_connection := None, rb_channel := None\<rparr>"

theorem rabbit_connect_no_leak_witness:
  "let s' = snd (rabbit_connect sample_rabbit broken_amqp fresh_bus) in
   set (qb_open (rb_broker s')) = {} \<and> \<not> rb_connected s' \<and> rb_watched s' = [] \<and> rb_delays s' = [1000, 2000]"
proof -
  let ?o = "rabbit_connect sample_rabbit broken_amqp fresh_bus"
  have f: "fst ?o = Inl (UserError ''no channel'')" and d: "rb_delays (snd ?o) = [1000, 2000]"
    by code_simp+
  then have r: "?o = (Inl (UserError ''no channel''), snd ?o)" by (metis prod.collapse)
  have "\<not> rb_connected fresh_bus" "rb_connection fresh_bus = None" "rb_channel fresh_bus = None"
      "set (qb_open (rb_broker fresh_bus)) = {}" "rb_watched fresh_bus = []"
    by (simp_all add: fresh_bus_def sample_bus_def)
  with rabbit_connect_no_leak [OF broken_amqp_connections r] d show ?thesis by (simp add: Let_def)
qed

text \<open>The reconnection loop does not have this property: an attempt that fails after the connection
  was opened leaves it open and keeps listening to it.\<close>

lemma reconnect_attempt_leaks:
  assumes "connection_laws am opn" and "am_connect am (rb_broker s) = (Inr c, b)"
    and "\<And>b. fst (am_createConfirmChannel am c b) = Inl e"
  shows "c \<in> opn (rb_broker (snd (reconnect_attempt cfg am id s))) \<and>
    c \<in> set (rb_watched (snd (reconnect_attempt cfg am id s))) \<and> fst (reconnect_attempt cfg am id s) = Inl e"
proof -
  obtain b2 where ch: "am_createConfirmChannel am c b = (Inl e, b2)"
    using assms(3) [of b] by (cases "am_createConfirmChannel am c b") auto
  have "opn b = insert c (opn (rb_broker s))"
    using assms(1,2) unfolding connection_laws_def by (auto split: sum.splits prod.splits)
  moreover have "keeps opn (am_createConfirmChannel am c)" using assms(1) by (simp add: connection_laws_def)
  then have "opn b2 = opn b" using ch by (rule keepsD)
  ultimately show ?thesis
    using assms(2) ch
    by (simp add: reconnect_attempt_def on_broker_def then_act_def bind_act_def upd_def)
qed

text \<open>Nor does \<^verbatim>\<open>close()\<close> stop an attempt that is waiting for its connection: the bus ends
  up connected although it is closed.\<close>

lemma close_during_reconnect:
  assumes "reconnect_attempt cfg am (rabbit_close am) s = (Inr u, s')"
  shows "rb_connected s'"
  using assms by (auto simp: reconnect_attempt_def bind_act_split then_act_def upd_def)

lemma reconnect_stops_when_closed:
  "rb_closed s \<Longrightarrow> reconnectPersistently cfg am env env' rnd a s = Some s"
  by (subst reconnectPersistently.simps) simp

text \<open>The jitter keeps a wait between three and five quarters of the backoff.\<close>

lemma jittered_bounds:
  assumes "0 \<le> r" and "r < 1" and "0 \<le> or_else (rc_initialDelayMs cfg) 1000" and "0 \<le> or_else (rc_maxDelayMs cfg) 30000"
  shows "3 / 4 * of_int (backoff (or_else (rc_initialDelayMs cfg) 1000) (or_else (rc_maxDelayMs cfg) 30000) a) \<le> jittered cfg r a \<and>
    jittered cfg r a \<le> 5 / 4 * of_int (or_else (rc_maxDelayMs cfg) 30000)"
proof -
  let ?b = "backoff (or_else (rc_initialDelayMs cfg) 1000) (or_else (rc_maxDelayMs cfg) 30000) a"
  have b: "0 \<le> ?b" "?b \<le> or_else (rc_maxDelayMs cfg) 30000" using backoff_bounds assms(3,4) by auto
  then have "0 \<le> (of_int ?b :: rat)" "(of_int ?b :: rat) \<le> of_int (or_else (rc_maxDelayMs cfg) 30000)" by simp_all
  moreover have "of_int ?b * (3 / 4) \<le> of_int ?b * (3 / 4 + r * (1 / 2))"
    using calculation assms(1) by (intro mult_left_mono) auto
  moreover have "of_int ?b * (3 / 4 + r * (1 / 2)) \<le> of_int (or_else (rc_maxDelayMs cfg) 30000) * (5 / 4)"
    using calculation assms(1,2) by (intro mult_mono) auto
  ultimately show ?thesis by (simp add: jittered_def mult.commute)
qed

end
