(* ===== verification/Rabbit_Chains.thy ===== *)
theory Rabbit_Chains
  imports Rabbitmq
begin

text \<open>
  The per-aggregate promise chains of the RabbitMQ consumer callback
  (\<^verbatim>\<open>rabbitmq-event-bus.ts\<close>, \<^verbatim>\<open>_setupConsumer\<close>): the broker may call
  the callback for several deliveries at once, and \<^verbatim>\<open>_aggregateChains\<close> serializes those
  of one aggregate. A delivery is a task, numbered in arrival order, and its number stands for the
  promise \<^verbatim>\<open>next\<close>; the steps are the points between which callbacks interleave.
\<close>

section \<open>Tasks and steps\<close>

datatype task_status = Waiting | Running | Finished | Cleaned

record chain_task =
  ct_aggregate :: "string option"
  ct_prior :: "nat option"
  ct_status :: task_status

record chain_state =
  cs_chains :: "(string, nat) jmap"
  cs_tasks :: "chain_task list"

definition task_done :: "chain_state \<Rightarrow> nat \<Rightarrow> bool" where
  "task_done st i \<longleftrightarrow> ct_status (cs_tasks st ! i) = Finished \<or> ct_status (cs_tasks st ! i) = Cleaned"

definition set_status :: "nat \<Rightarrow> task_status \<Rightarrow> chain_state \<Rightarrow> chain_state" where
  "set_status i x st = st\<lparr>cs_tasks := (cs_tasks st)[i := (cs_tasks st ! i)\<lparr>ct_status := x\<rparr>]\<rparr>"

text \<open>The callback is called: without an aggregate it processes at once, otherwise it chains behind
  the last task of the aggregate.\<close>

definition chain_arrive :: "string \<Rightarrow> chain_state \<Rightarrow> chain_state" where
  "chain_arrive content st =
     (case peekAggregateId content of
        None \<Rightarrow> st\<lparr>cs_tasks := cs_tasks st @ [\<lparr>ct_aggregate = None, ct_prior = None, ct_status = Running\<rparr>]\<rparr>
      | Some a \<Rightarrow>
          st\<lparr>cs_tasks := cs_tasks st @
               [\<lparr>ct_aggregate = Some a, ct_prior = jm_get (cs_chains st) a, ct_status = Waiting\<rparr>],
             cs_chains := jm_set a (length (cs_tasks st)) (cs_chains st)\<rparr>)"

text \<open>\<^verbatim>\<open>prior.then(process)\<close> starts the processing when the prior promise has resolved.\<close>

definition can_start :: "nat \<Rightarrow> chain_state \<Rightarrow> bool" where
  "can_start i st \<longleftrightarrow> i < length (cs_tasks st) \<and> ct_status (cs_tasks st ! i) = Waiting \<and>
     (case ct_prior (cs_tasks st ! i) of None \<Rightarrow> True | Some p \<Rightarrow> task_done st p)"

definition chain_start :: "nat \<Rightarrow> chain_state \<Rightarrow> chain_state" where
  "chain_start i st = set_status i Running st"

text \<open>\<^verbatim>\<open>_processDelivery\<close> never throws, so the promise resolves when it returns.\<close>

definition chain_finish :: "nat \<Rightarrow> chain_state \<Rightarrow> chain_state" where
  "chain_finish i st = set_status i Finished st"

text \<open>After \<^verbatim>\<open>await next\<close>: the entry is removed if this task is still the last.\<close>

definition chain_cleanup :: "nat \<Rightarrow> chain_state \<Rightarrow> chain_state" where
  "chain_cleanup i st =
     (let st1 = set_status i Cleaned st in
      (case ct_aggregate (cs_tasks st ! i) of
         None \<Rightarrow> st1
       | Some a \<Rightarrow> if jm_get (cs_chains st1) a = Some i
                  then st1\<lparr>cs_chains := jm_delete a (cs_chains st1)\<rparr> else st1))"

inductive chain_step :: "chain_state \<Rightarrow> chain_state \<Rightarrow> bool" where
  arrive: "chain_step st (chain_arrive content st)"
| start: "can_start i st \<Longrightarrow> chain_step st (chain_start i st)"
| finish: "i < length (cs_tasks st) \<Longrightarrow> ct_status (cs_tasks st ! i) = Running \<Longrightarrow>
    chain_step st (chain_finish i st)"
| cleanup: "i < length (cs_tasks st) \<Longrightarrow> ct_status (cs_tasks st ! i) = Finished \<Longrightarrow>
    chain_step st (chain_cleanup i st)"

definition no_tasks :: chain_state where
  "no_tasks = \<lparr>cs_chains = [], cs_tasks = []\<rparr>"

inductive chain_reachable :: "chain_state \<Rightarrow> bool" where
  init: "chain_reachable no_tasks"
| step: "chain_reachable st \<Longrightarrow> chain_step st st' \<Longrightarrow> chain_reachable st'"

inductive_cases chain_stepE: "chain_step st st'"

section \<open>The invariant\<close>

abbreviation agg :: "chain_state \<Rightarrow> nat \<Rightarrow> string option" where
  "agg st i \<equiv> ct_aggregate (cs_tasks st ! i)"

abbreviation status :: "chain_state \<Rightarrow> nat \<Rightarrow> task_status" where
  "status st i \<equiv> ct_status (cs_tasks st ! i)"

abbreviation ntasks :: "chain_state \<Rightarrow> nat" where
  "ntasks st \<equiv> length (cs_tasks st)"

text \<open>Behind a task that is not done, the tasks of its aggregate wait; and each waits for one at or
  behind it.\<close>

definition chain_ordered :: "chain_state \<Rightarrow> bool" where
  "chain_ordered st \<longleftrightarrow>
     (\<forall>a i j. i < j \<longrightarrow> j < ntasks st \<longrightarrow> agg st i = Some a \<longrightarrow> agg st j = Some a \<longrightarrow> \<not> task_done st i \<longrightarrow>
        status st j = Waiting \<and> (\<exists>p. ct_prior (cs_tasks st ! j) = Some p \<and> i \<le> p \<and> p < j \<and> agg st p = Some a))"

text \<open>The map holds the last task of an aggregate until it is cleaned up.\<close>

definition chain_last :: "chain_state \<Rightarrow> bool" where
  "chain_last st \<longleftrightarrow>
     (\<forall>a i. jm_get (cs_chains st) a = Some i \<longrightarrow>
        i < ntasks st \<and> agg st i = Some a \<and> status st i \<noteq> Cleaned \<and>
        (\<forall>j < ntasks st. agg st j = Some a \<longrightarrow> j \<le> i)) \<and>
     (\<forall>a i. jm_get (cs_chains st) a = None \<longrightarrow> i < ntasks st \<longrightarrow> agg st i = Some a \<longrightarrow> task_done st i)"

lemma nth_set_status:
  "cs_tasks (set_status i x st) ! j =
     (if j = i \<and> i < ntasks st then (cs_tasks st ! i)\<lparr>ct_status := x\<rparr> else cs_tasks st ! j)"
  by (cases "i < ntasks st") (auto simp: set_status_def nth_list_update list_update_beyond)

lemma set_status_simps [simp]:
  "ntasks (set_status i x st) = ntasks st" "agg (set_status i x st) j = agg st j"
  "ct_prior (cs_tasks (set_status i x st) ! j) = ct_prior (cs_tasks st ! j)"
  "cs_chains (set_status i x st) = cs_chains st"
  unfolding nth_set_status by (simp_all add: set_status_def)

lemma status_set_status:
  "i < ntasks st \<Longrightarrow> status (set_status i x st) j = (if j = i then x else status st j)"
  by (simp add: nth_set_status)

lemma task_done_set_status:
  "i < ntasks st \<Longrightarrow> task_done (set_status i x st) j \<longleftrightarrow>
     (if j = i then x = Finished \<or> x = Cleaned else task_done st j)"
  by (simp add: task_done_def status_set_status)

lemma chain_orderedD:
  assumes "chain_ordered st" and "i < j" and "j < ntasks st" and "agg st i = Some a" and "agg st j = Some a"
    and "\<not> task_done st i"
  shows "status st j = Waiting"
    and "\<exists>p. ct_prior (cs_tasks st ! j) = Some p \<and> i \<le> p \<and> p < j \<and> agg st p = Some a"
  using assms unfolding chain_ordered_def by blast+

lemma start_predecessors_done:
  assumes "chain_ordered st" and "can_start j st" and "i < j" and "agg st i = Some a" and "agg st j = Some a"
  shows "task_done st i"
proof (rule ccontr)
  assume nd: "\<not> task_done st i"
  have j: "j < ntasks st" using assms(2) by (simp add: can_start_def)
  from chain_orderedD(2) [OF assms(1,3) j assms(4,5) nd] obtain p
    where p: "ct_prior (cs_tasks st ! j) = Some p" "i \<le> p" "p < j" "agg st p = Some a" by blast
  then have dp: "task_done st p" using assms(2) by (simp add: can_start_def)
  with nd have "i < p" using p(2) by (cases "i = p") auto
  from chain_orderedD(1) [OF assms(1) this _ assms(4) p(4) nd] p(3) j have "status st p = Waiting" by simp
  with dp show False by (simp add: task_done_def)
qed

lemma ordered_start: "chain_ordered st \<Longrightarrow> can_start i st \<Longrightarrow> chain_ordered (chain_start i st)"
  unfolding chain_start_def
proof -
  assume ord: "chain_ordered st" and can: "can_start i st"
  then have i: "i < ntasks st" "status st i = Waiting" by (simp_all add: can_start_def)
  show "chain_ordered (set_status i Running st)"
    unfolding chain_ordered_def set_status_simps
  proof (intro allI impI)
    fix a k j
    assume kj: "k < j" "j < ntasks st" "agg st k = Some a" "agg st j = Some a"
      and nd: "\<not> task_done (set_status i Running st) k"
    have ndk: "\<not> task_done st k"
    proof (cases "k = i")
      case True
      with i show ?thesis by (simp add: task_done_def)
    next
      case False
      with nd i show ?thesis by (simp add: task_done_set_status)
    qed
    have "j \<noteq> i" using start_predecessors_done [OF ord can] kj ndk by blast
    then show "status (set_status i Running st) j = Waiting \<and>
        (\<exists>p. ct_prior (cs_tasks st ! j) = Some p \<and> k \<le> p \<and> p < j \<and> agg st p = Some a)"
      using chain_orderedD [OF ord kj ndk] i by (simp add: status_set_status)
  qed
qed

lemma ordered_done:
  assumes "chain_ordered st" and "i < ntasks st" and "status st i \<noteq> Waiting" and "x = Finished \<or> x = Cleaned"
  shows "chain_ordered (set_status i x st)"
  unfolding chain_ordered_def set_status_simps
proof (intro allI impI)
  fix a k j
  assume kj: "k < j" "j < ntasks st" "agg st k = Some a" "agg st j = Some a"
    and nd: "\<not> task_done (set_status i x st) k"
  have ndk: "\<not> task_done st k" using nd assms by (auto simp: task_done_set_status split: if_splits)
  note o = chain_orderedD [OF assms(1) kj ndk]
  then have "j \<noteq> i" using assms(3) by auto
  with o assms(2) show "status (set_status i x st) j = Waiting \<and>
      (\<exists>p. ct_prior (cs_tasks st ! j) = Some p \<and> k \<le> p \<and> p < j \<and> agg st p = Some a)"
    by (simp add: status_set_status)
qed

lemma ordered_chains [simp]: "chain_ordered (st\<lparr>cs_chains := m\<rparr>) = chain_ordered st"
  by (simp add: chain_ordered_def task_done_def)

lemma ordered_arrive:
  assumes ord: "chain_ordered st" and last: "chain_last st"
  shows "chain_ordered (chain_arrive content st)"
proof -
  let ?st = "chain_arrive content st" and ?n = "ntasks st"
  have old: "cs_tasks ?st ! i = cs_tasks st ! i" if "i < ?n" for i
    using that by (simp add: chain_arrive_def nth_append split: option.splits)
  have new: "ntasks ?st = Suc ?n" "agg ?st ?n = peekAggregateId content"
    by (simp_all add: chain_arrive_def split: option.splits)
  have chained: "status ?st ?n = Waiting \<and> ct_prior (cs_tasks ?st ! ?n) = jm_get (cs_chains st) a"
    if "agg ?st ?n = Some a" for a
    using that by (auto simp: chain_arrive_def split: option.splits)
  show ?thesis unfolding chain_ordered_def
  proof (intro allI impI)
    fix a i j
    assume ij: "i < j" "j < ntasks ?st" "agg ?st i = Some a" "agg ?st j = Some a" and nd: "\<not> task_done ?st i"
    then have i: "i < ?n" "agg st i = Some a" "\<not> task_done st i"
      using new old [of i] by (auto simp: task_done_def)
    show "status ?st j = Waiting \<and>
        (\<exists>p. ct_prior (cs_tasks ?st ! j) = Some p \<and> i \<le> p \<and> p < j \<and> agg ?st p = Some a)"
    proof (cases "j < ?n")
      case True
      with chain_orderedD [OF ord ij(1) True i(2) _ i(3)] ij old [of j] obtain p
        where "status st j = Waiting" "ct_prior (cs_tasks st ! j) = Some p" "i \<le> p" "p < j" "agg st p = Some a"
        by auto
      with True old [of j] old [of p] show ?thesis by auto
    next
      case False
      with ij new have j: "j = ?n" by auto
      then obtain p where p: "jm_get (cs_chains st) a = Some p"
        using last i unfolding chain_last_def by (cases "jm_get (cs_chains st) a") auto
      with last i have "p < ?n" "agg st p = Some a" "i \<le> p" unfolding chain_last_def by auto
      with p j ij(4) chained [of a] old [of p] show ?thesis by auto
    qed
  qed
qed

lemma last_arrive:
  assumes "chain_last st"
  shows "chain_last (chain_arrive content st)"
proof (cases "peekAggregateId content")
  case None
  with assms show ?thesis
    by (auto simp: chain_last_def chain_arrive_def nth_append task_done_def less_Suc_eq)
next
  case (Some b)
  with assms show ?thesis
    by (auto simp: chain_last_def chain_arrive_def nth_append task_done_def less_Suc_eq)
qed

lemma last_set_status:
  assumes "chain_last st" and "i < ntasks st" and "x = Finished \<or> (x = Running \<and> \<not> task_done st i)"
  shows "chain_last (set_status i x st)"
  using assms by (auto simp: chain_last_def status_set_status task_done_set_status)

lemma last_cleanup:
  assumes ord: "chain_ordered st" and last: "chain_last st" and i: "i < ntasks st" "status st i = Finished"
  shows "chain_last (chain_cleanup i st)"
proof -
  have dn: "task_done st j" if "agg st i = Some a" "agg st j = Some a" "j \<le> i" for a j
  proof (cases "j = i")
    case False
    with that have "j < i" by simp
    with chain_orderedD(1) [OF ord this i(1) that(2,1)] i(2) show ?thesis by auto
  qed (use i in \<open>simp add: task_done_def\<close>)
  have same: "a = b" if "jm_get (cs_chains st) a = Some i" "jm_get (cs_chains st) b = Some i" for a b
    using last that unfolding chain_last_def by (metis option.inject)
  show ?thesis
    using last i dn same unfolding chain_last_def chain_cleanup_def Let_def
    by (auto simp: status_set_status task_done_set_status task_done_def split: option.splits)
qed

lemma chain_invariant: "chain_reachable st \<Longrightarrow> chain_ordered st \<and> chain_last st"
proof (induction rule: chain_reachable.induct)
  case init
  then show ?case by (simp add: no_tasks_def chain_ordered_def chain_last_def)
next
  case (step st st')
  from step.hyps(2) show ?case
  proof (cases rule: chain_step.cases)
    case (arrive content)
    with step.IH show ?thesis by (simp add: ordered_arrive last_arrive)
  next
    case (start i)
    then have "i < ntasks st" "\<not> task_done st i" by (auto simp: can_start_def task_done_def)
    with start step.IH show ?thesis
      by (simp add: ordered_start) (simp add: chain_start_def last_set_status)
  next
    case (finish i)
    with step.IH show ?thesis by (simp add: chain_finish_def ordered_done last_set_status)
  next
    case (cleanup i)
    have "chain_ordered (chain_cleanup i st)"
      using cleanup step.IH ordered_done [of st i Cleaned]
      by (auto simp: chain_cleanup_def Let_def split: option.splits)
    with cleanup step.IH show ?thesis by (simp add: last_cleanup)
  qed
qed

section \<open>Properties\<close>

text \<open>C18: Deliveries of one aggregate are processed one at a time and in order. In every state the
  consumer callbacks can reach, two deliveries of the same aggregate are never processed at the same
  time, a delivery has started only if every earlier one of its aggregate is finished, and the map
  of chains keeps no entry for an aggregate all of whose deliveries are cleaned up.\<close>
theorem rabbit_aggregate_serialized:
  assumes "chain_reachable st" and "i < j" and "j < length (cs_tasks st)"
    and "ct_aggregate (cs_tasks st ! i) = Some a" and "ct_aggregate (cs_tasks st ! j) = Some a"
  shows "\<not> (ct_status (cs_tasks st ! i) = Running \<and> ct_status (cs_tasks st ! j) = Running) \<and>
    (ct_status (cs_tasks st ! j) \<noteq> Waiting \<longrightarrow> task_done st i) \<and>
    ((\<forall>t \<in> set (cs_tasks st). ct_aggregate t = Some a \<longrightarrow> ct_status t = Cleaned) \<longrightarrow>
       jm_get (cs_chains st) a = None)"
proof -
  from chain_invariant [OF assms(1)] have ord: "chain_ordered st" and last: "chain_last st" by simp_all
  have "\<not> task_done st i \<Longrightarrow> status st j = Waiting" by (rule chain_orderedD(1) [OF ord assms(2-5)])
  moreover have "jm_get (cs_chains st) a = Some k \<Longrightarrow>
      \<exists>t \<in> set (cs_tasks st). ct_aggregate t = Some a \<and> ct_status t \<noteq> Cleaned" for k
    using last unfolding chain_last_def by (metis nth_mem)
  ultimately show ?thesis
    by (cases "jm_get (cs_chains st) a") (auto simp: task_done_def)
qed

definition sample_delivery :: string where
  "sample_delivery = or_else (json_text (JObj [(''name'', JStr ''E''),
     (''metadata'', JObj [(''aggregateId'', JStr ''a1'')])])) []"

theorem rabbit_aggregate_serialized_witness:
  "let st = chain_start 0 (chain_arrive sample_delivery (chain_arrive sample_delivery no_tasks)) in
   ct_status (cs_tasks st ! 0) = Running \<and> ct_status (cs_tasks st ! 1) \<noteq> Running \<and> \<not> can_start 1 st"
proof -
  let ?st2 = "chain_arrive sample_delivery (chain_arrive sample_delivery no_tasks)"
  let ?st = "chain_start 0 ?st2"
  have e: "can_start 0 ?st2" "ntasks ?st = 2" "agg ?st 0 = Some ''a1''" "agg ?st 1 = Some ''a1''"
      "status ?st 0 = Running" "\<not> can_start 1 ?st"
    by code_simp+
  have "chain_reachable ?st"
    by (rule chain_reachable.step [OF chain_reachable.step [OF chain_reachable.step
          [OF chain_reachable.init chain_step.arrive] chain_step.arrive] chain_step.start [OF e(1)]])
  from rabbit_aggregate_serialized [OF this, of 0 1 "''a1''"] e show ?thesis by (simp add: Let_def)
qed

section \<open>What a dispatched event becomes\<close>

lemma event_of_js_aggregateId:
  assumes "event_of_js v = Some ev"
  shows "\<not> nullish v"
    and "(if nullish (js_prop v ''metadata'') then None
          else (case js_prop (js_prop v ''metadata'') ''aggregateId'' of JUndef \<Rightarrow> None | a \<Rightarrow> Some (js_string a))) =
         map_option id_string (meta_get md_aggregateId ev)"
proof -
  show "\<not> nullish v" using assms by (auto simp: event_of_js_def nullish_def)
  let ?m = "js_prop v ''metadata''" and ?a = "js_prop (js_prop v ''metadata'') ''aggregateId''"
  have str: "(case a of JUndef \<Rightarrow> None | a \<Rightarrow> Some (js_string a)) = map_option id_string i"
    if "get_opt_id a = Some i" for a i
    using that by (cases a) (auto simp: js_string_def)
  show "(if nullish ?m then None else (case ?a of JUndef \<Rightarrow> None | a \<Rightarrow> Some (js_string a))) =
      map_option id_string (meta_get md_aggregateId ev)"
  proof (cases "?m = JUndef")
    case True
    with assms have "ev_metadata ev = None"
      by (auto simp: event_of_js_def Option.bind_eq_Some_conv)
    with True show ?thesis by (simp add: nullish_def)
  next
    case False
    then have "(case ?m of JUndef \<Rightarrow> Some x | m \<Rightarrow> Option.bind (metadata_of_js m) g) = Option.bind (metadata_of_js ?m) g"
      for x :: event and g by (cases ?m) simp_all
    with assms obtain md where md: "metadata_of_js ?m = Some md" "ev_metadata ev = Some md"
      by (auto simp: event_of_js_def Option.bind_eq_Some_conv)
    then have "get_opt_id ?a = Some (md_aggregateId md)"
      by (auto simp: metadata_of_js_def Option.bind_eq_Some_conv)
    moreover have "\<not> nullish ?m" using md(1) by (auto simp: nullish_def metadata_of_js_def)
    ultimately show ?thesis using str md(2) by simp
  qed
qed

lemma dispatched_text:
  assumes "event_text ev = Inr content" and "json_clean (ev_payload ev)"
  obtains v where "json_parse content = Some v" and "event_of_js v = Some ev" and "\<not> nullish v"
proof -
  from event_text_roundtrip [OF assms] obtain v where "json_parse content = Some v" "event_of_js v = Some ev"
    by (auto simp: Option.bind_eq_Some_conv)
  with that event_of_js_aggregateId(1) show ?thesis by blast
qed

text \<open>A payload that is undefined leaves no member in the text.\<close>

lemma undefined_payload_omitted:
  "event_text \<lparr>ev_name = ''E'', ev_payload = JUndef, ev_metadata = None\<rparr> =
     Inr (or_else (json_text (JObj [(''name'', JStr ''E'')])) [])"
  by code_simp

text \<open>C21: A dispatched event arrives unchanged. When \<^verbatim>\<open>dispatch\<close> of the RabbitMQ bus
  returns, a message with the event's name as routing key and its id as message id was published
  whose text, when it is delivered, gives every handler an object that stands for exactly the
  dispatched event, metadata included, provided the payload is one JSON can carry and is not
  undefined; and it is serialized with the deliveries of the event's aggregate. (An undefined
  payload is left out of the text, where the specification wants null: lemma
  undefined_payload_omitted.)\<close>
theorem rabbit_wire_roundtrip:
  fixes s :: "('w, 'b) rabbit"
  assumes "rabbit_dispatch cfg am ev s = (Inr (), s')" and "json_clean (ev_payload ev)"
    and "ev_payload ev \<noteq> JUndef"
  shows "\<exists>ch content v b. rb_channel s = Some ch \<and>
    am_publish am ch \<lparr>pb_exchange = rc_exchange cfg, pb_routingKey = ev_name ev, pb_content = content,
      pb_messageId = event_id ev, pb_headers = []\<rparr> (rb_broker s) = (Inr (), b) \<and>
    event_of_js v = Some ev \<and>
    (\<forall>t :: ('w, 'b) rabbit. fst (rabbit_handleMessage (ev_name ev) content t) =
       (case fst (run_all (event_handlers t (ev_name ev)) v (rb_world t)) of Inl e \<Rightarrow> Inl e | Inr _ \<Rightarrow> Inr False)) \<and>
    peekAggregateId content = map_option id_string (meta_get md_aggregateId ev)"
proof -
  from assms(1) obtain ch where ch: "rb_channel s = Some ch" and "rb_connected s"
    by (auto simp: rabbit_dispatch_def split: if_splits option.splits)
  with assms(1) obtain content where content: "event_text ev = Inr content"
    by (cases "event_text ev") (auto simp: rabbit_dispatch_def lift_result_def bind_act_def)
  let ?p = "\<lparr>pb_exchange = rc_exchange cfg, pb_routingKey = ev_name ev, pb_content = content,
      pb_messageId = event_id ev, pb_headers = []\<rparr>"
  have "then_act (on_broker (am_publish am ch ?p)) (on_broker (am_waitForConfirms am ch)) s = (Inr (), s')"
    using assms(1) ch content \<open>rb_connected s\<close> by (simp add: rabbit_dispatch_def lift_result_def bind_act_def)
  then obtain b where b: "am_publish am ch ?p (rb_broker s) = (Inr (), b)"
    by (auto simp: then_act_def bind_act_split on_broker_def split: prod.splits)
  from dispatched_text [OF content assms(2)] obtain v
    where v: "json_parse content = Some v" "event_of_js v = Some ev" "\<not> nullish v" by blast
  have "peekAggregateId content = map_option id_string (meta_get md_aggregateId ev)"
    using event_of_js_aggregateId [OF v(2)] v by (auto simp: peekAggregateId_def)
  moreover have "fst (rabbit_handleMessage (ev_name ev) content t) =
       (case fst (run_all (event_handlers t (ev_name ev)) v (rb_world t)) of Inl e \<Rightarrow> Inl e | Inr _ \<Rightarrow> Inr False)"
    for t :: "('w, 'b) rabbit"
    using v(1) by (simp add: rabbit_handleMessage_def event_handlers_def split: prod.splits)
  ultimately show ?thesis using ch b v(2) by blast
qed

definition sample_event :: event where
  "sample_event = \<lparr>ev_name = ''E'', ev_payload = JObj [(''amount'', JNum (- 5))], ev_metadata = Some
     \<lparr>md_eventId = ''e1'', md_timestamp = 1700, md_correlationId = ''c'', md_causationId = ''k'',
      md_userId = None, md_version = Some 2, md_aggregateName = Some ''Account'', md_aggregateId = Some (IDNum 7),
      md_sequenceNumber = Some 1, md_traceparent = None, md_tracestate = None\<rparr>\<rparr>"

theorem rabbit_wire_roundtrip_witness:
  "fst (rabbit_dispatch sample_rabbit (queue_amqp ''dlx'') sample_event (sample_bus sample_broker)) = Inr () \<and>
   (\<exists>content v. event_of_js v = Some sample_event \<and> peekAggregateId content = Some ''7'')"
proof -
  let ?o = "rabbit_dispatch sample_rabbit (queue_amqp ''dlx'') sample_event (sample_bus sample_broker)"
  have f: "fst ?o = Inr ()" by code_simp
  then have r: "?o = (Inr (), snd ?o)" by (metis prod.collapse)
  have c: "json_clean (ev_payload sample_event)" by code_simp
  have "map_option id_string (meta_get md_aggregateId sample_event) = Some ''7''" by code_simp
  with rabbit_wire_roundtrip [OF r c] f show ?thesis by (auto simp: sample_event_def)
qed

end
