(* ===== verification/Kafka.thy ===== *)
theory Kafka
  imports Broker
begin

text \<open>
  \<^verbatim>\<open>KafkaEventBus\<close> (\<^verbatim>\<open>adapters/kafka/src/kafka-event-bus.ts\<close>): topics and
  their provisioning, connecting and subscribing, the consumer callback with its retry counter and
  dead-letter topic, registration, publishing, the warmup round trip and closing. The client library
  \<^verbatim>\<open>kafkajs\<close> is a record of operations on a broker state \<open>'b\<close>; producers and consumers
  are handles. A call runs to completion: the promise that deduplicates overlapping
  \<^verbatim>\<open>connect()\<close> calls is the flag \<open>kk_connecting\<close>.
\<close>

section \<open>Configuration and state\<close>

record kafka_config =
  kc_clientId :: string
  kc_topicPrefix :: "string option"
  kc_topicPartitions :: "int option"
  kc_replicationFactor :: "int option"
  kc_dlqTopicSuffix :: "string option"
  kc_warmupOnConnect :: bool
  kc_warmupTimeoutMs :: "int option"
  kc_maxRetries :: "int option"
  kc_partitionKeyStrategy :: "(event \<Rightarrow> string option) option"

record kafka_location =
  lc_topic :: string
  lc_partition :: int
  lc_offset :: nat

record kafka_record =
  kr_topic :: string
  kr_key :: "string option"
  kr_value :: string
  kr_headers :: "(string \<times> string) list"

record topic_spec =
  tp_topic :: string
  tp_numPartitions :: int
  tp_replicationFactor :: "int option"

record 'b kafka_api =
  ka_newProducer :: "('b, nat) action"
  ka_newConsumer :: "('b, nat) action"
  ka_connectProducer :: "nat \<Rightarrow> ('b, unit) action"
  ka_connectConsumer :: "nat \<Rightarrow> ('b, unit) action"
  ka_subscribe :: "nat \<Rightarrow> string \<Rightarrow> ('b, unit) action"
  ka_run :: "nat \<Rightarrow> ('b, unit) action"
  ka_stop :: "nat \<Rightarrow> ('b, unit) action"
  ka_disconnectProducer :: "nat \<Rightarrow> ('b, unit) action"
  ka_disconnectConsumer :: "nat \<Rightarrow> ('b, unit) action"
  ka_adminConnect :: "('b, unit) action"
  ka_createTopics :: "topic_spec list \<Rightarrow> ('b, unit) action"
  ka_adminDisconnect :: "('b, unit) action"
  ka_send :: "nat \<Rightarrow> kafka_record \<Rightarrow> ('b, unit) action"
  ka_commitOffset :: "nat \<Rightarrow> string \<Rightarrow> int \<Rightarrow> nat \<Rightarrow> ('b, unit) action"

record ('w, 'b) kafka =
  kk_producer :: "nat option"
  kk_consumer :: "nat option"
  kk_connected :: bool
  kk_closed :: bool
  kk_connecting :: bool
  kk_warmedUp :: bool
  kk_handlers :: "(string, 'w bhandler list) jmap"
  kk_subscribedTopics :: "string list"
  kk_deliveryCounts :: "(string, int) jmap"
  kk_provisionedTopics :: "string list"
  kk_log :: "handler_failure list"
  kk_world :: 'w
  kk_broker :: 'b

definition on_kafka :: "('b, 'a) action \<Rightarrow> (('w, 'b) kafka, 'a) action" where
  "on_kafka m s = (case m (kk_broker s) of (r, b) \<Rightarrow> (r, s\<lparr>kk_broker := b\<rparr>))"

definition upd_kafka :: "(('w, 'b) kafka \<Rightarrow> ('w, 'b) kafka) \<Rightarrow> (('w, 'b) kafka, unit) action" where
  "upd_kafka f s = (Inr (), f s)"

lemma upd_kafka_then [act]: "then_act (upd_kafka f) k s = k (f s)"
  by (simp add: then_act_def bind_act_def upd_kafka_def)

section \<open>Topics and keys\<close>

definition topicName :: "kafka_config \<Rightarrow> string \<Rightarrow> string" where
  "topicName cfg eventName = or_else (kc_topicPrefix cfg) [] @ eventName"

text \<open>The event name the consumer callback derives from a topic.\<close>

definition topic_event :: "kafka_config \<Rightarrow> string \<Rightarrow> string" where
  "topic_event cfg topic =
     (let prefix = or_else (kc_topicPrefix cfg) [] in
      if starts_with topic prefix then drop (length prefix) topic else topic)"

lemma topic_event_topicName [simp]: "topic_event cfg (topicName cfg n) = n"
  by (simp add: topic_event_def topicName_def starts_with_def Let_def)

definition warmupEventName :: "kafka_config \<Rightarrow> string" where
  "warmupEventName cfg = ''__noddde_warmup_'' @ kc_clientId cfg"

definition resolvePartitionKey :: "kafka_config \<Rightarrow> event \<Rightarrow> string option" where
  "resolvePartitionKey cfg ev =
     (case kc_partitionKeyStrategy cfg of
        Some strategy \<Rightarrow> strategy ev
      | None \<Rightarrow> map_option id_string (meta_get md_aggregateId ev))"

text \<open>\<^verbatim>\<open>Set.add\<close>\<close>

definition add_topic :: "string \<Rightarrow> string list \<Rightarrow> string list" where
  "add_topic x xs = (if x \<in> set xs then xs else xs @ [x])"

lemma set_add_topic [simp]: "set (add_topic x xs) = insert x (set xs)"
  by (auto simp: add_topic_def)

text \<open>\<^verbatim>\<open>admin.connect()\<close>, then \<^verbatim>\<open>createTopics\<close> with
  \<^verbatim>\<open>admin.disconnect()\<close> in a finally block.\<close>

definition create_topics :: "'b kafka_api \<Rightarrow> topic_spec list \<Rightarrow> (('w, 'b) kafka, unit) action" where
  "create_topics ka topics =
     then_act (on_kafka (ka_adminConnect ka))
              (finally_act (on_kafka (ka_createTopics ka topics)) (on_kafka (ka_adminDisconnect ka)))"

definition provisionTopics :: "kafka_config \<Rightarrow> 'b kafka_api \<Rightarrow> string list \<Rightarrow> (('w, 'b) kafka, unit) action" where
  "provisionTopics cfg ka topics s =
     (let pending = filter (\<lambda>t. t \<notin> set (kk_provisionedTopics s)) topics in
      if pending = [] then (Inr (), s)
      else then_act (create_topics ka (map (\<lambda>t. \<lparr>tp_topic = t, tp_numPartitions = or_else (kc_topicPartitions cfg) 3,
                                               tp_replicationFactor = kc_replicationFactor cfg\<rparr>) pending))
             (upd_kafka (\<lambda>s. s\<lparr>kk_provisionedTopics := fold add_topic pending (kk_provisionedTopics s)\<rparr>)) s)"

text \<open>\<open>waiters\<close> is the internal handler that resolves the waiting round trips.\<close>

definition provisionWarmupTopic ::
  "kafka_config \<Rightarrow> 'b kafka_api \<Rightarrow> 'w bhandler \<Rightarrow> (('w, 'b) kafka, unit) action" where
  "provisionWarmupTopic cfg ka waiters =
     (let topic = topicName cfg (warmupEventName cfg) in
      then_act (create_topics ka [\<lparr>tp_topic = topic, tp_numPartitions = 1, tp_replicationFactor = None\<rparr>])
        (upd_kafka (\<lambda>s. s\<lparr>kk_provisionedTopics := add_topic topic (kk_provisionedTopics s),
           kk_handlers := jm_set (warmupEventName cfg)
             (or_else (jm_get (kk_handlers s) (warmupEventName cfg)) [] @ [waiters]) (kk_handlers s)\<rparr>)))"

section \<open>Connecting\<close>

text \<open>Starting the fetch loop; the wait for its first fetch, at most 30 seconds, has no effect on
  the bus.\<close>

definition runConsumerLoop :: "'b kafka_api \<Rightarrow> (('w, 'b) kafka, unit) action" where
  "runConsumerLoop ka s =
     (case kk_consumer s of None \<Rightarrow> (Inl TypeError, s) | Some c \<Rightarrow> on_kafka (ka_run ka c) s)"

definition subscribe_topic :: "kafka_config \<Rightarrow> 'b kafka_api \<Rightarrow> string \<Rightarrow> (('w, 'b) kafka, unit) action" where
  "subscribe_topic cfg ka eventName s =
     (let topic = topicName cfg eventName in
      if topic \<in> set (kk_subscribedTopics s) then (Inr (), s)
      else (case kk_consumer s of
         None \<Rightarrow> (Inl TypeError, s)
       | Some c \<Rightarrow> then_act (on_kafka (ka_subscribe ka c topic))
            (upd_kafka (\<lambda>s. s\<lparr>kk_subscribedTopics := add_topic topic (kk_subscribedTopics s)\<rparr>)) s))"

text \<open>\<open>roundTrip\<close> is \<^verbatim>\<open>_performWarmupRoundTrip()\<close>, whose timers are below.\<close>

definition kafka_warmup ::
  "kafka_config \<Rightarrow> 'b kafka_api \<Rightarrow> 'w bhandler \<Rightarrow> (('w, 'b) kafka, unit) action \<Rightarrow> (('w, 'b) kafka, unit) action" where
  "kafka_warmup cfg ka waiters roundTrip s =
     (if kk_closed s \<or> \<not> kk_connected s then (Inl (NotConnected ''KafkaEventBus''), s)
      else if kk_warmedUp s then (Inr (), s)
      else then_act
             (\<lambda>s. let topic = topicName cfg (warmupEventName cfg) in
                if topic \<in> set (kk_subscribedTopics s) then (Inr (), s)
                else (case kk_consumer s of
                   None \<Rightarrow> (Inl TypeError, s)
                 | Some c \<Rightarrow>
                     then_act (on_kafka (ka_stop ka c))
                    (then_act (provisionWarmupTopic cfg ka waiters)
                    (then_act (on_kafka (ka_subscribe ka c topic))
                    (then_act (upd_kafka (\<lambda>s. s\<lparr>kk_subscribedTopics := add_topic topic (kk_subscribedTopics s)\<rparr>))
                              (runConsumerLoop ka)))) s))
             (then_act roundTrip (upd_kafka (\<lambda>s. s\<lparr>kk_warmedUp := True\<rparr>))) s)"

definition connect_clients :: "'b kafka_api \<Rightarrow> (('w, 'b) kafka, unit) action" where
  "connect_clients ka =
     bind_act (on_kafka (ka_newProducer ka)) (\<lambda>p.
     then_act (upd_kafka (\<lambda>s. s\<lparr>kk_producer := Some p\<rparr>))
    (bind_act (on_kafka (ka_newConsumer ka)) (\<lambda>c.
     then_act (upd_kafka (\<lambda>s. s\<lparr>kk_consumer := Some c\<rparr>))
    (then_act (on_kafka (ka_connectProducer ka p))
              (on_kafka (ka_connectConsumer ka c))))))"

definition provision_handlers :: "kafka_config \<Rightarrow> 'b kafka_api \<Rightarrow> (('w, 'b) kafka, unit) action" where
  "provision_handlers cfg ka s =
     provisionTopics cfg ka
       (map (topicName cfg) (filter (\<lambda>n. n \<noteq> warmupEventName cfg) (map fst (kk_handlers s)))) s"

definition subscribe_handlers :: "kafka_config \<Rightarrow> 'b kafka_api \<Rightarrow> (('w, 'b) kafka, unit) action" where
  "subscribe_handlers cfg ka s = for_each (subscribe_topic cfg ka) (map fst (kk_handlers s)) s"

definition kafka_connect ::
  "kafka_config \<Rightarrow> 'b kafka_api \<Rightarrow> 'w bhandler \<Rightarrow> (('w, 'b) kafka, unit) action \<Rightarrow> (('w, 'b) kafka, unit) action" where
  "kafka_connect cfg ka waiters roundTrip s =
     (if kk_connected s then (Inr (), s)
      else finally_act
             (then_act (connect_clients ka)
             (then_act (if kc_warmupOnConnect cfg then provisionWarmupTopic cfg ka waiters else ret ())
             (then_act (provision_handlers cfg ka)
             (then_act (subscribe_handlers cfg ka)
             (then_act (runConsumerLoop ka)
             (then_act (upd_kafka (\<lambda>s. s\<lparr>kk_connected := True\<rparr>))
                       (if kc_warmupOnConnect cfg then kafka_warmup cfg ka waiters roundTrip else ret ())))))))
             (upd_kafka (\<lambda>s. s\<lparr>kk_connecting := False\<rparr>)) (s\<lparr>kk_connecting := True\<rparr>))"

section \<open>Registration, publication and close\<close>

definition kafka_on :: "kafka_config \<Rightarrow> string \<Rightarrow> 'w bhandler \<Rightarrow> (('w, 'b) kafka, unit) action" where
  "kafka_on cfg eventName handler s =
     (if kk_closed s then (Inl (BusClosed ''KafkaEventBus''), s)
      else if (kk_connected s \<or> kk_connecting s) \<and> topicName cfg eventName \<notin> set (kk_subscribedTopics s)
      then (Inl (ConfigError ''KafkaEventBus'' eventName), s)
      else (Inr (), s\<lparr>kk_handlers := jm_set eventName
              (or_else (jm_get (kk_handlers s) eventName) [] @ [handler]) (kk_handlers s)\<rparr>))"

definition kafka_dispatch :: "kafka_config \<Rightarrow> 'b kafka_api \<Rightarrow> event \<Rightarrow> (('w, 'b) kafka, unit) action" where
  "kafka_dispatch cfg ka ev s =
     (if kk_closed s \<or> \<not> kk_connected s then (Inl (NotConnected ''KafkaEventBus''), s)
      else (case kk_producer s of
         None \<Rightarrow> (Inl (NotConnected ''KafkaEventBus''), s)
       | Some p \<Rightarrow> bind_act (lift_result (event_text ev)) (\<lambda>value.
           on_kafka (ka_send ka p
             \<lparr>kr_topic = topicName cfg (ev_name ev), kr_key = resolvePartitionKey cfg ev, kr_value = value,
              kr_headers = [(''content-type'', ''application/vnd.noddde.event+json; version=1'')]\<rparr>)) s))"

definition kafka_close :: "'b kafka_api \<Rightarrow> (('w, 'b) kafka, unit) action" where
  "kafka_close ka s =
     (if kk_closed s then (Inr (), s)
      else then_act
             (\<lambda>s. case kk_consumer s of None \<Rightarrow> (Inr (), s)
                | Some c \<Rightarrow> then_act (on_kafka (ka_stop ka c))
                             (then_act (on_kafka (ka_disconnectConsumer ka c))
                                       (upd_kafka (\<lambda>s. s\<lparr>kk_consumer := None\<rparr>))) s)
          (then_act
             (\<lambda>s. case kk_producer s of None \<Rightarrow> (Inr (), s)
                | Some p \<Rightarrow> then_act (on_kafka (ka_disconnectProducer ka p))
                                     (upd_kafka (\<lambda>s. s\<lparr>kk_producer := None\<rparr>)) s)
             (upd_kafka (\<lambda>s. s\<lparr>kk_handlers := [], kk_subscribedTopics := []\<rparr>)))
          (s\<lparr>kk_closed := True, kk_connected := False\<rparr>))"

section \<open>Messages\<close>

definition offset_key :: "kafka_location \<Rightarrow> string" where
  "offset_key l = lc_topic l @ '':'' @ int_string (lc_partition l) @ '':'' @ nat_string (lc_offset l)"

definition dlq_topic :: "kafka_config \<Rightarrow> string \<Rightarrow> string" where
  "dlq_topic cfg topic = topic @ or_else (kc_dlqTopicSuffix cfg) ''.dlq''"

text \<open>The headers that carry the error's message and the time are left out.\<close>

definition parkToDlq ::
  "kafka_config \<Rightarrow> 'b kafka_api \<Rightarrow> kafka_location \<Rightarrow> string \<Rightarrow> int \<Rightarrow> (('w, 'b) kafka, unit) action" where
  "parkToDlq cfg ka l rawValue attempts =
     then_act (provisionTopics cfg ka [dlq_topic cfg (lc_topic l)])
       (\<lambda>s. case kk_producer s of
          None \<Rightarrow> (Inl TypeError, s)
        | Some p \<Rightarrow> on_kafka (ka_send ka p
            \<lparr>kr_topic = dlq_topic cfg (lc_topic l), kr_key = None, kr_value = rawValue,
             kr_headers = [(''content-type'', ''application/vnd.noddde.event+json; version=1''),
               (''x-noddde-dlq-attempts'', int_string attempts),
               (''x-noddde-dlq-original-topic'', lc_topic l),
               (''x-noddde-dlq-original-partition'', int_string (lc_partition l)),
               (''x-noddde-dlq-original-offset'', nat_string (lc_offset l))]\<rparr>) s)"

text \<open>\<^verbatim>\<open>_markRetriable\<close>: only an \<^verbatim>\<open>Error\<close> object can carry the
  property. What is thrown to the client library without it takes the consumer down for good.\<close>

definition is_error_instance :: "error \<Rightarrow> bool" where
  "is_error_instance e =
     (case e of UndefinedReason \<Rightarrow> False | ThrownValue _ \<Rightarrow> False | NeverSettles \<Rightarrow> False | _ \<Rightarrow> True)"

definition retriable :: "error \<Rightarrow> bool" where
  "retriable e = (case e of Retriable _ \<Rightarrow> True | _ \<Rightarrow> False)"

definition markRetriable :: "error \<Rightarrow> error" where
  "markRetriable e = (if is_error_instance e \<and> \<not> retriable e then Retriable e else e)"

lemma retriable_mark: "is_error_instance e \<Longrightarrow> retriable (markRetriable e)"
  by (simp add: markRetriable_def retriable_def)

text \<open>\<^verbatim>\<open>_handleMessage\<close>. The loop over the rejections reads \<^verbatim>\<open>event.name\<close>, which
  throws out of the method when the message is the JSON text \<^verbatim>\<open>null\<close>.\<close>

definition retry_or_park ::
  "kafka_config \<Rightarrow> 'b kafka_api \<Rightarrow> kafka_location \<Rightarrow> string \<Rightarrow> error \<Rightarrow> (('w, 'b) kafka, unit) action" where
  "retry_or_park cfg ka l rawValue firstRejection s =
     (let k = offset_key l;
          maxRetries = or_else (kc_maxRetries cfg) 5;
          attempt = or_else (jm_get (kk_deliveryCounts s) k) 0 + 1;
          s1 = s\<lparr>kk_deliveryCounts := jm_set k attempt (kk_deliveryCounts s)\<rparr>
      in if attempt \<le> maxRetries then (Inl (markRetriable firstRejection), s1)
         else (case parkToDlq cfg ka l rawValue attempt s1 of
                 (Inl _, s2) \<Rightarrow> (Inl (markRetriable firstRejection), s2)
               | (Inr _, s2) \<Rightarrow> (Inr (), s2\<lparr>kk_deliveryCounts := jm_delete k (kk_deliveryCounts s2)\<rparr>)))"

definition kafka_handleMessage ::
  "kafka_config \<Rightarrow> 'b kafka_api \<Rightarrow> string \<Rightarrow> string \<Rightarrow> kafka_location option \<Rightarrow> (('w, 'b) kafka, unit) action" where
  "kafka_handleMessage cfg ka eventName rawValue location s =
     (case json_parse rawValue of
        None \<Rightarrow> (case location of None \<Rightarrow> (Inr (), s) | Some l \<Rightarrow> swallow (parkToDlq cfg ka l rawValue 1) s)
      | Some v \<Rightarrow>
          (let handlers = or_else (jm_get (kk_handlers s) eventName) [] in
           (case settle_all handlers v (kk_world s) of
              (results, w) \<Rightarrow>
                (case report_rejections (zip handlers results) v None of
                   (firstRejection, lg) \<Rightarrow>
                     (let s1 = s\<lparr>kk_world := w, kk_log := kk_log s @ lg\<rparr> in
                      (case firstRejection of
                         Inl e \<Rightarrow> (Inl e, s1)
                       | Inr None \<Rightarrow> (Inr (), s1)
                       | Inr (Some e) \<Rightarrow>
                           (case location of
                              None \<Rightarrow> (Inl e, s1)
                            | Some l \<Rightarrow> retry_or_park cfg ka l rawValue e s1)))))))"

text \<open>On a message other than \<^verbatim>\<open>null\<close>, in terms of the run of all handlers.\<close>

lemma kafka_handleMessage_run:
  assumes "json_parse raw = Some v" and "\<not> nullish v"
    and "run_all (or_else (jm_get (kk_handlers s) ev) []) v (kk_world s) = (r, lg, w)"
  defines "s1 \<equiv> s\<lparr>kk_world := w, kk_log := kk_log s @ lg\<rparr>"
  shows "kafka_handleMessage cfg ka ev raw (Some l) s =
    (case r of Inr _ \<Rightarrow> (Inr (), s1) | Inl e \<Rightarrow> retry_or_park cfg ka l raw e s1)"
proof -
  let ?hs = "or_else (jm_get (kk_handlers s) ev) []"
  obtain rs w' where st: "settle_all ?hs v (kk_world s) = (rs, w')" by (cases "settle_all ?hs v (kk_world s)")
  then have "length rs = length ?hs" using settle_all_length [of ?hs v "kk_world s"] by simp
  from report_rejections_first [OF assms(2) this, of None] obtain lg' where
    rep: "report_rejections (zip ?hs rs) v None = (Inr (first_reason rs), lg')"
    by (cases "report_rejections (zip ?hs rs) v None") auto
  show ?thesis
    using assms(1,3) st rep
    by (auto simp: kafka_handleMessage_def run_all_def s1_def Let_def split: option.splits)
qed

text \<open>The callback given to \<^verbatim>\<open>consumer.run\<close>.\<close>

definition eachMessage ::
  "kafka_config \<Rightarrow> 'b kafka_api \<Rightarrow> nat \<Rightarrow> kafka_location \<Rightarrow> string option \<Rightarrow> (('w, 'b) kafka, unit) action" where
  "eachMessage cfg ka consumer l value =
     (case value of
        None \<Rightarrow> ret ()
      | Some rawValue \<Rightarrow>
          then_act (kafka_handleMessage cfg ka (topic_event cfg (lc_topic l)) rawValue (Some l))
         (then_act (on_kafka (ka_commitOffset ka consumer (lc_topic l) (lc_partition l) (lc_offset l + 1)))
                   (upd_kafka (\<lambda>s. s\<lparr>kk_deliveryCounts := jm_delete (offset_key l) (kk_deliveryCounts s)\<rparr>))))"

section \<open>The warmup round trip\<close>

text \<open>
  \<^verbatim>\<open>_performWarmupRoundTrip\<close>: its variables, and the three callbacks that touch them.
  \<open>wr_result\<close> is how the promise was settled, \<open>wr_sent\<close> how often a warmup event was dispatched.
\<close>

record warm_round =
  wr_settled :: bool
  wr_waiting :: bool
  wr_interval :: bool
  wr_timeout :: bool
  wr_result :: "(string + unit) option"
  wr_sent :: nat

definition warm_start :: warm_round where
  "warm_start = \<lparr>wr_settled = False, wr_waiting = True, wr_interval = True, wr_timeout = True,
     wr_result = None, wr_sent = 1\<rparr>"

definition warm_finish :: "warm_round \<Rightarrow> warm_round" where
  "warm_finish r =
     (if wr_settled r then r
      else r\<lparr>wr_settled := True, wr_waiting := False, wr_interval := False, wr_timeout := False,
             wr_result := Some (Inr ())\<rparr>)"

definition warm_timeout :: "warm_round \<Rightarrow> warm_round" where
  "warm_timeout r =
     (if wr_settled r then r
      else r\<lparr>wr_settled := True, wr_waiting := False, wr_interval := False, wr_timeout := False,
             wr_result := Some (Inl ''timeout'')\<rparr>)"

definition warm_tick :: "warm_round \<Rightarrow> warm_round" where
  "warm_tick r = r\<lparr>wr_sent := wr_sent r + 1\<rparr>"

text \<open>A timer callback runs only while its timer is set; the waiter is called only while it is in
  the set of waiters.\<close>

inductive warm_step :: "warm_round \<Rightarrow> warm_round \<Rightarrow> bool" where
  observed: "wr_waiting r \<Longrightarrow> warm_step r (warm_finish r)"
| timeout: "wr_timeout r \<Longrightarrow> warm_step r (warm_timeout r)"
| tick: "wr_interval r \<Longrightarrow> warm_step r (warm_tick r)"

inductive warm_reachable :: "warm_round \<Rightarrow> bool" where
  init: "warm_reachable warm_start"
| step: "warm_reachable r \<Longrightarrow> warm_step r r' \<Longrightarrow> warm_reachable r'"

lemma warm_round_settles_once:
  assumes "warm_reachable r"
  shows "(wr_settled r \<longleftrightarrow> wr_result r \<noteq> None) \<and>
    (wr_settled r \<longleftrightarrow> \<not> wr_waiting r) \<and> (wr_settled r \<longleftrightarrow> \<not> wr_interval r) \<and> (wr_settled r \<longleftrightarrow> \<not> wr_timeout r)"
  using assms
proof (induction rule: warm_reachable.induct)
  case init
  then show ?case by (simp add: warm_start_def)
next
  case (step r r')
  from step.hyps(2) step.IH show ?case
    by (cases rule: warm_step.cases) (auto simp: warm_finish_def warm_timeout_def warm_tick_def)
qed

text \<open>Once settled, no callback of the round trip runs any more.\<close>

lemma warm_round_stops: "warm_reachable r \<Longrightarrow> wr_settled r \<Longrightarrow> \<not> warm_step r r'"
  using warm_round_settles_once [of r] by (auto elim: warm_step.cases)

section \<open>A partition is worked off\<close>

text \<open>
  What the bus relies on of a partition: committing the offset behind the first uncommitted message
  moves on to the next one, an uncommitted message is fetched again, and what is sent to the
  dead-letter topic is stored. The administration calls succeed and change neither.
\<close>

definition partition_laws ::
  "'b kafka_api \<Rightarrow> nat \<Rightarrow> nat \<Rightarrow> string \<Rightarrow> int \<Rightarrow> string \<Rightarrow> ('b \<Rightarrow> (nat \<times> string) list) \<Rightarrow> ('b \<Rightarrow> string list) \<Rightarrow> bool" where
  "partition_laws ka c p topic part dlq ready dead \<longleftrightarrow>
     (\<forall>b off raw q. ready b = (off, raw) # q \<longrightarrow>
        (\<exists>b'. ka_commitOffset ka c topic part (off + 1) b = (Inr (), b') \<and> ready b' = q \<and> dead b' = dead b)) \<and>
     (\<forall>b r. kr_topic r = dlq \<longrightarrow>
        (\<exists>b'. ka_send ka p r b = (Inr (), b') \<and> ready b' = ready b \<and> dead b' = dead b @ [kr_value r])) \<and>
     (\<forall>b. \<exists>b'. ka_adminConnect ka b = (Inr (), b') \<and> ready b' = ready b \<and> dead b' = dead b) \<and>
     (\<forall>b ts. \<exists>b'. ka_createTopics ka ts b = (Inr (), b') \<and> ready b' = ready b \<and> dead b' = dead b) \<and>
     (\<forall>b. \<exists>b'. ka_adminDisconnect ka b = (Inr (), b') \<and> ready b' = ready b \<and> dead b' = dead b)"

lemma partition_lawsD:
  assumes "partition_laws ka c p topic part dlq ready dead"
  shows "ready b = (off, raw) # q \<Longrightarrow>
      \<exists>b'. ka_commitOffset ka c topic part (off + 1) b = (Inr (), b') \<and> ready b' = q \<and> dead b' = dead b"
    and "kr_topic r = dlq \<Longrightarrow>
      \<exists>b'. ka_send ka p r b = (Inr (), b') \<and> ready b' = ready b \<and> dead b' = dead b @ [kr_value r]"
    and "\<exists>b'. ka_adminConnect ka b = (Inr (), b') \<and> ready b' = ready b \<and> dead b' = dead b"
    and "\<exists>b'. ka_createTopics ka ts b = (Inr (), b') \<and> ready b' = ready b \<and> dead b' = dead b"
    and "\<exists>b'. ka_adminDisconnect ka b = (Inr (), b') \<and> ready b' = ready b \<and> dead b' = dead b"
  using assms unfolding partition_laws_def by blast+

lemma provision_lawful:
  assumes laws: "partition_laws ka c p topic part dlq ready dead"
  shows "\<exists>b ts. provisionTopics cfg ka topics s = (Inr (), s\<lparr>kk_broker := b, kk_provisionedTopics := ts\<rparr>) \<and>
    ready b = ready (kk_broker s) \<and> dead b = dead (kk_broker s)"
proof -
  let ?pending = "filter (\<lambda>t. t \<notin> set (kk_provisionedTopics s)) topics"
  let ?specs = "map (\<lambda>t. \<lparr>tp_topic = t, tp_numPartitions = or_else (kc_topicPartitions cfg) 3,
                        tp_replicationFactor = kc_replicationFactor cfg\<rparr>) ?pending"
  obtain b1 where b1: "ka_adminConnect ka (kk_broker s) = (Inr (), b1)" "ready b1 = ready (kk_broker s)"
      "dead b1 = dead (kk_broker s)" using partition_lawsD(3) [OF laws] by blast
  obtain b2 where b2: "ka_createTopics ka ?specs b1 = (Inr (), b2)" "ready b2 = ready b1" "dead b2 = dead b1"
    using partition_lawsD(4) [OF laws] by blast
  obtain b3 where b3: "ka_adminDisconnect ka b2 = (Inr (), b3)" "ready b3 = ready b2" "dead b3 = dead b2"
    using partition_lawsD(5) [OF laws] by blast
  show ?thesis
  proof (cases "?pending = []")
    case True
    then show ?thesis
      by (intro exI [of _ "kk_broker s"] exI [of _ "kk_provisionedTopics s"]) (simp add: provisionTopics_def)
  next
    case False
    then have "provisionTopics cfg ka topics s =
        (Inr (), s\<lparr>kk_broker := b3, kk_provisionedTopics := fold add_topic ?pending (kk_provisionedTopics s)\<rparr>)"
      using b1(1) b2(1) b3(1)
      by (simp add: provisionTopics_def create_topics_def on_kafka_def then_act_def bind_act_def finally_act_def
          upd_kafka_def del: filter_empty_conv)
    with b1 b2 b3 show ?thesis
      by (intro exI [of _ b3] exI [of _ "fold add_topic ?pending (kk_provisionedTopics s)"]) simp
  qed
qed

lemma park_lawful:
  assumes laws: "partition_laws ka c p topic part (dlq_topic cfg topic) ready dead"
    and "kk_producer s = Some p" and "lc_topic l = topic"
  shows "\<exists>b ts. parkToDlq cfg ka l raw n s = (Inr (), s\<lparr>kk_broker := b, kk_provisionedTopics := ts\<rparr>) \<and>
    ready b = ready (kk_broker s) \<and> dead b = dead (kk_broker s) @ [raw]"
proof -
  obtain b ts where b: "provisionTopics cfg ka [dlq_topic cfg (lc_topic l)] s =
      (Inr (), s\<lparr>kk_broker := b, kk_provisionedTopics := ts\<rparr>)" "ready b = ready (kk_broker s)" "dead b = dead (kk_broker s)"
    using provision_lawful [OF laws] by blast
  let ?r = "\<lparr>kr_topic = dlq_topic cfg (lc_topic l), kr_key = None, kr_value = raw,
             kr_headers = [(''content-type'', ''application/vnd.noddde.event+json; version=1''),
               (''x-noddde-dlq-attempts'', int_string n),
               (''x-noddde-dlq-original-topic'', lc_topic l),
               (''x-noddde-dlq-original-partition'', int_string (lc_partition l)),
               (''x-noddde-dlq-original-offset'', nat_string (lc_offset l))]\<rparr>"
  have "kr_topic ?r = dlq_topic cfg topic" using assms(3) by simp
  then obtain b' where b': "ka_send ka p ?r b = (Inr (), b')" "ready b' = ready b" "dead b' = dead b @ [kr_value ?r]"
    using partition_lawsD(2) [OF laws] by blast
  have "parkToDlq cfg ka l raw n s = (Inr (), s\<lparr>kk_broker := b', kk_provisionedTopics := ts\<rparr>)"
    using b(1) b'(1) assms(2) by (simp add: parkToDlq_def then_act_def bind_act_def on_kafka_def)
  with b b' show ?thesis by (intro exI conjI) simp_all
qed

definition kafka_event_handlers :: "('w, 'b) kafka \<Rightarrow> string \<Rightarrow> 'w bhandler list" where
  "kafka_event_handlers s eventName = or_else (jm_get (kk_handlers s) eventName) []"

text \<open>
  The running consumer, as \<^verbatim>\<open>kafkajs\<close> documents it and the source relies on it: the bus together
  with a flag that the consumer is down. Messages of a partition are handed over one at a time; an
  error from the callback that is marked retriable restarts the consumer, which fetches the
  uncommitted message again (the bus sets \<^verbatim>\<open>restartOnFailure\<close>); any other error leaves it
  down, and then nothing is fetched any more.
\<close>

definition kafka_deliver ::
  "kafka_config \<Rightarrow> 'b kafka_api \<Rightarrow> nat \<Rightarrow> string \<Rightarrow> int \<Rightarrow> nat \<times> string \<Rightarrow>
   ('w, 'b) kafka \<times> bool \<Rightarrow> ('w, 'b) kafka \<times> bool" where
  "kafka_deliver cfg ka c topic part m sd =
     (case eachMessage cfg ka c \<lparr>lc_topic = topic, lc_partition = part, lc_offset = fst m\<rparr> (Some (snd m)) (fst sd) of
        (r, s') \<Rightarrow> (s', snd sd \<or> (case r of Inl e \<Rightarrow> \<not> retriable e | Inr _ \<Rightarrow> False)))"

definition fetched :: "('b \<Rightarrow> (nat \<times> string) list) \<Rightarrow> ('w, 'b) kafka \<times> bool \<Rightarrow> (nat \<times> string) list" where
  "fetched ready sd = (if snd sd then [] else ready (kk_broker (fst sd)))"

text \<open>The JSON text \<^verbatim>\<open>null\<close>, which parses but is no event.\<close>

definition null_message :: "string \<Rightarrow> bool" where
  "null_message raw \<longleftrightarrow> (case json_parse raw of None \<Rightarrow> False | Some v \<Rightarrow> nullish v)"

text \<open>The handlers that can be redelivered to: they reject with \<^verbatim>\<open>Error\<close> objects only (or
  with \<^verbatim>\<open>undefined\<close>, which counts as success).\<close>

definition rejects_with_errors :: "'w bhandler list \<Rightarrow> bool" where
  "rejects_with_errors hs \<longleftrightarrow>
     (\<forall>h \<in> set hs. \<forall>v w e. fst (bh_run h v w) = Inl e \<longrightarrow> e = UndefinedReason \<or> is_error_instance e)"

definition partition_key :: "string \<Rightarrow> int \<Rightarrow> nat \<times> string \<Rightarrow> string" where
  "partition_key topic part m = offset_key \<lparr>lc_topic = topic, lc_partition = part, lc_offset = fst m\<rparr>"

text \<open>A message that does not parse is parked at once.\<close>

definition parked :: "nat \<times> string \<Rightarrow> bool \<Rightarrow> string list" where
  "parked m ok = (if ok \<and> json_parse (snd m) \<noteq> None then [] else [snd m])"

text \<open>Whatever was done with the message, if no error escapes then its offset is committed.\<close>

lemma each_commits:
  assumes laws: "partition_laws ka c p topic part dlq ready dead"
    and h: "kafka_handleMessage cfg ka (topic_event cfg topic) (snd m)
        (Some \<lparr>lc_topic = topic, lc_partition = part, lc_offset = fst m\<rparr>) s = (Inr (), s1)"
    and rdy: "ready (kk_broker s1) = m # q"
  shows "\<exists>b. kafka_deliver cfg ka c topic part m (s, d) =
      (s1\<lparr>kk_broker := b, kk_deliveryCounts := jm_delete (partition_key topic part m) (kk_deliveryCounts s1)\<rparr>, d) \<and>
    ready b = q \<and> dead b = dead (kk_broker s1)"
proof -
  obtain b where b: "ka_commitOffset ka c topic part (fst m + 1) (kk_broker s1) = (Inr (), b)" "ready b = q"
      "dead b = dead (kk_broker s1)"
    using partition_lawsD(1) [OF laws, of "kk_broker s1" "fst m" "snd m" q] rdy by auto
  have "kafka_deliver cfg ka c topic part m (s, d) =
      (s1\<lparr>kk_broker := b, kk_deliveryCounts := jm_delete (partition_key topic part m) (kk_deliveryCounts s1)\<rparr>, d)"
    using h b(1)
    by (simp add: kafka_deliver_def eachMessage_def then_act_def bind_act_def on_kafka_def upd_kafka_def partition_key_def)
  with b show ?thesis by blast
qed

lemma each_throws:
  assumes "kafka_handleMessage cfg ka (topic_event cfg topic) (snd m)
        (Some \<lparr>lc_topic = topic, lc_partition = part, lc_offset = fst m\<rparr>) s = (Inl e, s1)"
  shows "kafka_deliver cfg ka c topic part m (s, d) = (s1, d \<or> \<not> retriable e)"
  using assms by (simp add: kafka_deliver_def eachMessage_def then_act_def bind_act_def)

text \<open>The three ways a delivery goes.\<close>

lemma kafka_accepted:
  fixes s :: "('w, 'b) kafka"
  assumes laws: "partition_laws ka c p topic part (dlq_topic cfg topic) ready dead" and p: "kk_producer s = Some p"
    and rdy: "ready (kk_broker s) = m # q"
    and ok: "delivery_ok (kafka_event_handlers s (topic_event cfg topic)) (snd m) (kk_world s) = (True, w')"
    and nn: "\<not> null_message (snd m)"
  shows "\<exists>s1 b. kafka_deliver cfg ka c topic part m (s, d) =
      (s1\<lparr>kk_broker := b, kk_deliveryCounts := jm_delete (partition_key topic part m) (kk_deliveryCounts s)\<rparr>, d) \<and>
    ready b = q \<and> dead b = dead (kk_broker s) @ parked m True \<and> kk_world s1 = w' \<and>
    kk_producer s1 = Some p \<and> kk_handlers s1 = kk_handlers s"
proof -
  let ?l = "\<lparr>lc_topic = topic, lc_partition = part, lc_offset = fst m\<rparr>"
  have "\<exists>s1. kafka_handleMessage cfg ka (topic_event cfg topic) (snd m) (Some ?l) s = (Inr (), s1) \<and>
    ready (kk_broker s1) = m # q \<and> dead (kk_broker s1) = dead (kk_broker s) @ parked m True \<and> kk_world s1 = w' \<and>
    kk_producer s1 = Some p \<and> kk_handlers s1 = kk_handlers s \<and> kk_deliveryCounts s1 = kk_deliveryCounts s"
  proof (cases "json_parse (snd m)")
    case None
    then have w: "w' = kk_world s" using ok by (simp add: delivery_ok_def)
    obtain b ts where pk: "parkToDlq cfg ka ?l (snd m) 1 s = (Inr (), s\<lparr>kk_broker := b, kk_provisionedTopics := ts\<rparr>)"
        and bb: "ready b = ready (kk_broker s)" "dead b = dead (kk_broker s) @ [snd m]"
      using park_lawful [OF laws p, of ?l "snd m" 1] by auto
    from pk bb rdy p w None show ?thesis
      by (intro exI [of _ "s\<lparr>kk_broker := b, kk_provisionedTopics := ts\<rparr>"])
         (simp add: kafka_handleMessage_def swallow_def parked_def)
  next
    case (Some v)
    obtain r lg w1 where r: "run_all (kafka_event_handlers s (topic_event cfg topic)) v (kk_world s) = (r, lg, w1)"
      by (cases "run_all (kafka_event_handlers s (topic_event cfg topic)) v (kk_world s)")
    with ok Some have w: "r = Inr ()" "w1 = w'" by (simp_all add: delivery_ok_def)
    have "\<not> nullish v" using nn Some by (simp add: null_message_def)
    from kafka_handleMessage_run [OF Some this r [unfolded kafka_event_handlers_def]] w have
      "kafka_handleMessage cfg ka (topic_event cfg topic) (snd m) (Some ?l) s =
         (Inr (), s\<lparr>kk_world := w', kk_log := kk_log s @ lg\<rparr>)" by simp
    with Some rdy p show ?thesis
      by (intro exI [of _ "s\<lparr>kk_world := w', kk_log := kk_log s @ lg\<rparr>"]) (simp add: parked_def)
  qed
  then obtain s1 where h: "kafka_handleMessage cfg ka (topic_event cfg topic) (snd m) (Some ?l) s = (Inr (), s1)"
    and s1: "ready (kk_broker s1) = m # q" "dead (kk_broker s1) = dead (kk_broker s) @ parked m True" "kk_world s1 = w'"
      "kk_producer s1 = Some p" "kk_handlers s1 = kk_handlers s" "kk_deliveryCounts s1 = kk_deliveryCounts s" by blast
  from each_commits [OF laws h s1(1), of d] s1 show ?thesis by metis
qed

lemma kafka_refused:
  fixes s :: "('w, 'b) kafka"
  assumes laws: "partition_laws ka c p topic part (dlq_topic cfg topic) ready dead" and p: "kk_producer s = Some p"
    and rdy: "ready (kk_broker s) = m # q"
    and ok: "delivery_ok (kafka_event_handlers s (topic_event cfg topic)) (snd m) (kk_world s) = (False, w')"
    and nn: "\<not> null_message (snd m)"
    and errors: "rejects_with_errors (kafka_event_handlers s (topic_event cfg topic))"
  defines "attempt \<equiv> or_else (jm_get (kk_deliveryCounts s) (partition_key topic part m)) 0 + 1"
  shows "let s' = fst (kafka_deliver cfg ka c topic part m (s, d)); k = partition_key topic part m in
    snd (kafka_deliver cfg ka c topic part m (s, d)) = d \<and> kk_world s' = w' \<and> kk_producer s' = Some p \<and> kk_handlers s' = kk_handlers s \<and>
    (if attempt \<le> or_else (kc_maxRetries cfg) 5
     then ready (kk_broker s') = m # q \<and> dead (kk_broker s') = dead (kk_broker s) \<and>
       jm_get (kk_deliveryCounts s') = (jm_get (kk_deliveryCounts s))(k \<mapsto> attempt)
     else ready (kk_broker s') = q \<and> dead (kk_broker s') = dead (kk_broker s) @ [snd m] \<and>
       jm_get (kk_deliveryCounts s') = (jm_get (kk_deliveryCounts s))(k := None))"
proof -
  let ?l = "\<lparr>lc_topic = topic, lc_partition = part, lc_offset = fst m\<rparr>"
  let ?k = "partition_key topic part m"
  have key: "offset_key ?l = ?k" by (simp add: partition_key_def)
  obtain v where v: "json_parse (snd m) = Some v" using ok by (cases "json_parse (snd m)") (auto simp: delivery_ok_def)
  obtain r lg w1 where r: "run_all (kafka_event_handlers s (topic_event cfg topic)) v (kk_world s) = (r, lg, w1)"
    by (cases "run_all (kafka_event_handlers s (topic_event cfg topic)) v (kk_world s)")
  with ok v have w: "w1 = w'" "r \<noteq> Inr ()" by (simp_all add: delivery_ok_def)
  then obtain e where e: "r = Inl e" by (cases r) auto
  have nv: "\<not> nullish v" using nn v by (simp add: null_message_def)
  have "first_reason (fst (settle_all (kafka_event_handlers s (topic_event cfg topic)) v (kk_world s))) = Some e"
    using run_all_outcome [OF nv, of "kafka_event_handlers s (topic_event cfg topic)" "kk_world s"] r e
    by (auto split: option.splits)
  from first_reason_rejected [OF this] errors have "is_error_instance e"
    unfolding rejects_with_errors_def by blast
  then have mark: "retriable (markRetriable e)" by (rule retriable_mark)
  let ?s1 = "s\<lparr>kk_world := w', kk_log := kk_log s @ lg\<rparr>"
  let ?s2 = "?s1\<lparr>kk_deliveryCounts := jm_set ?k attempt (kk_deliveryCounts s)\<rparr>"
  have h: "kafka_handleMessage cfg ka (topic_event cfg topic) (snd m) (Some ?l) s = retry_or_park cfg ka ?l (snd m) e ?s1"
    using kafka_handleMessage_run [OF v nv r [unfolded kafka_event_handlers_def]] e w by simp
  show ?thesis
  proof (cases "attempt \<le> or_else (kc_maxRetries cfg) 5")
    case True
    then have "retry_or_park cfg ka ?l (snd m) e ?s1 = (Inl (markRetriable e), ?s2)"
      by (simp add: retry_or_park_def key attempt_def Let_def)
    with h mark have "kafka_deliver cfg ka c topic part m (s, d) = (?s2, d)" by (simp add: each_throws)
    with True rdy p show ?thesis by (simp add: Let_def fun_eq_iff)
  next
    case False
    have "kk_producer ?s2 = Some p" using p by simp
    from park_lawful [OF laws this, of ?l "snd m" attempt] obtain b ts where
      pk: "parkToDlq cfg ka ?l (snd m) attempt ?s2 = (Inr (), ?s2\<lparr>kk_broker := b, kk_provisionedTopics := ts\<rparr>)"
      "ready b = ready (kk_broker s)" "dead b = dead (kk_broker s) @ [snd m]" by auto
    let ?s3 = "?s2\<lparr>kk_broker := b, kk_provisionedTopics := ts,
        kk_deliveryCounts := jm_delete ?k (jm_set ?k attempt (kk_deliveryCounts s))\<rparr>"
    have "retry_or_park cfg ka ?l (snd m) e ?s1 = (Inr (), ?s3)"
      using False pk(1) by (simp add: retry_or_park_def key attempt_def Let_def)
    with h have h3: "kafka_handleMessage cfg ka (topic_event cfg topic) (snd m) (Some ?l) s = (Inr (), ?s3)" by simp
    have "ready (kk_broker ?s3) = m # q" using pk(2) rdy by simp
    from each_commits [OF laws h3 this, of d] obtain b' where "kafka_deliver cfg ka c topic part m (s, d) =
        (?s3\<lparr>kk_broker := b', kk_deliveryCounts := jm_delete ?k (kk_deliveryCounts ?s3)\<rparr>, d)"
        "ready b' = q" "dead b' = dead (kk_broker ?s3)" by blast
    with False pk p show ?thesis by (simp add: Let_def fun_eq_iff)
  qed
qed

text \<open>A rejection that is no \<^verbatim>\<open>Error\<close> object is not marked, and takes the consumer down: whatever
  is still in the partition is not fetched any more.\<close>

lemma kafka_unmarked_rejection_stops:
  fixes s :: "('w, 'b) kafka"
  assumes "json_parse (snd m) = Some v" and "\<not> nullish v"
    and "fst (run_all (kafka_event_handlers s (topic_event cfg topic)) v (kk_world s)) = Inl (ThrownValue x)"
    and "or_else (jm_get (kk_deliveryCounts s) (partition_key topic part m)) 0 + 1 \<le> or_else (kc_maxRetries cfg) 5"
  shows "\<exists>s'. kafka_deliver cfg ka c topic part m (s, d) = (s', True) \<and> kk_broker s' = kk_broker s \<and>
    pump (fetched ready) deliver n (s', True) = (s', True)"
proof -
  obtain lg w where r: "run_all (kafka_event_handlers s (topic_event cfg topic)) v (kk_world s) =
      (Inl (ThrownValue x), lg, w)"
    using assms(3) by (cases "run_all (kafka_event_handlers s (topic_event cfg topic)) v (kk_world s)") auto
  have unmarked: "markRetriable (ThrownValue x) = ThrownValue x" "\<not> retriable (ThrownValue x)"
    by (simp_all add: markRetriable_def is_error_instance_def retriable_def)
  let ?l = "\<lparr>lc_topic = topic, lc_partition = part, lc_offset = fst m\<rparr>"
  obtain s' where h: "kafka_handleMessage cfg ka (topic_event cfg topic) (snd m) (Some ?l) s = (Inl (ThrownValue x), s')"
      and b: "kk_broker s' = kk_broker s"
    using kafka_handleMessage_run [OF assms(1,2) r [unfolded kafka_event_handlers_def], of cfg ka ?l] assms(4)
    by (simp add: retry_or_park_def Let_def unmarked partition_key_def)
  from each_throws [OF h, of c d] unmarked(2) have "kafka_deliver cfg ka c topic part m (s, d) = (s', True)" by simp
  moreover have "pump (fetched ready) deliver n (s', True) = (s', True)" by (cases n) (simp_all add: fetched_def)
  ultimately show ?thesis using b by blast
qed

text \<open>So does a rejection of the message \<^verbatim>\<open>null\<close>, however often it is retried.\<close>

lemma kafka_null_rejection_stops:
  assumes "json_parse (snd m) = Some JNull" and "kafka_event_handlers s (topic_event cfg topic) = [h]"
    and "fst (bh_run h JNull (kk_world s)) = Inl e"
  shows "snd (kafka_deliver cfg ka c topic part m (s, d))"
proof -
  obtain w where "bh_run h JNull (kk_world s) = (Inl e, w)"
    using assms(3) by (cases "bh_run h JNull (kk_world s)") auto
  with assms(1,2) have "\<exists>s'. kafka_handleMessage cfg ka (topic_event cfg topic) (snd m)
      (Some \<lparr>lc_topic = topic, lc_partition = part, lc_offset = fst m\<rparr>) s = (Inl TypeError, s')"
    by (simp add: kafka_handleMessage_def kafka_event_handlers_def nullish_def Let_def)
  then show ?thesis using each_throws [of cfg ka topic m part s TypeError _ c d] by (auto simp: retriable_def)
qed

text \<open>The contract of \<open>redelivery\<close>, for handlers that reject with \<^verbatim>\<open>Error\<close> objects and
  messages other than \<^verbatim>\<open>null\<close>.\<close>

lemma kafka_redelivery:
  fixes s0 :: "('w, 'b) kafka"
  assumes laws: "partition_laws ka c p topic part (dlq_topic cfg topic) ready dead"
    and mr: "or_else (kc_maxRetries cfg) 5 = int mr"
    and none: "\<forall>m \<in> Q. k0 (partition_key topic part m) = None"
    and errors: "rejects_with_errors (kafka_event_handlers s0 (topic_event cfg topic))"
  shows "redelivery (kafka_deliver cfg ka c topic part) (fetched ready) (\<lambda>s. dead (kk_broker (fst s)))
    parked (\<lambda>s. kk_world (fst s)) (\<lambda>s. jm_get (kk_deliveryCounts (fst s))) k0
    (\<lambda>m n k. or_else (k (partition_key topic part m)) 0 + int n = int mr + 1 \<and> 0 < n \<and>
             k(partition_key topic part m := None) = k0)
    (\<lambda>m. delivery_ok (kafka_event_handlers s0 (topic_event cfg topic)) (snd m))
    (\<lambda>s. \<not> snd s \<and> (\<forall>m \<in> set (ready (kk_broker (fst s))). \<not> null_message (snd m)) \<and>
         kk_producer (fst s) = Some p \<and> kafka_event_handlers (fst s) (topic_event cfg topic) =
                                  kafka_event_handlers s0 (topic_event cfg topic)) (mr + 1) Q"
    (is "redelivery ?deliver _ _ _ _ _ _ _ _ ?inv _ _")
proof -
  let ?hs = "\<lambda>s. kafka_event_handlers s (topic_event cfg topic)"
  have acc: "\<exists>s1 b. ?deliver m (s, d) =
        (s1\<lparr>kk_broker := b, kk_deliveryCounts := jm_delete (partition_key topic part m) (kk_deliveryCounts s)\<rparr>, False) \<and>
      ready b = q \<and> dead b = dead (kk_broker s) @ parked m True \<and> kk_world s1 = w' \<and>
      kk_producer s1 = Some p \<and> kk_handlers s1 = kk_handlers s"
    if "?inv (s, d)" "ready (kk_broker s) = m # q" "delivery_ok (?hs s0) (snd m) (kk_world s) = (True, w')" for s d m q w'
    using kafka_accepted [where d = d, OF laws _ that(2)] that by simp
  have ref: "let s' = fst (?deliver m (s, d)); k = partition_key topic part m;
        attempt = or_else (jm_get (kk_deliveryCounts s) k) 0 + 1 in
      \<not> snd (?deliver m (s, d)) \<and> kk_world s' = w' \<and> kk_producer s' = Some p \<and> kk_handlers s' = kk_handlers s \<and>
      (if attempt \<le> int mr
       then ready (kk_broker s') = m # q \<and> dead (kk_broker s') = dead (kk_broker s) \<and>
         jm_get (kk_deliveryCounts s') = (jm_get (kk_deliveryCounts s))(k \<mapsto> attempt)
       else ready (kk_broker s') = q \<and> dead (kk_broker s') = dead (kk_broker s) @ [snd m] \<and>
         jm_get (kk_deliveryCounts s') = (jm_get (kk_deliveryCounts s))(k := None))"
    if "?inv (s, d)" "ready (kk_broker s) = m # q" "delivery_ok (?hs s0) (snd m) (kk_world s) = (False, w')" for s d m q w'
    using that(1) kafka_refused [where d = d, OF laws _ that(2)] that errors mr by (simp add: Let_def cong: if_cong)
  show ?thesis
  proof (unfold_locales, goal_cases)
    case (1 m)
    with none show ?case by (auto simp: fun_eq_iff)
  next
    case (2 sd m q)
    obtain s d where sd: "sd = (s, d)" by (cases sd)
    with 2 have i: "?inv (s, d)" "ready (kk_broker s) = m # q" by (simp_all add: fetched_def)
    obtain b w' where w: "delivery_ok (?hs s0) (snd m) (kk_world s) = (b, w')"
      by (cases "delivery_ok (?hs s0) (snd m) (kk_world s)")
    show ?case
    proof (cases b)
      case True
      with acc [OF i] w i show ?thesis by (auto simp: sd kafka_event_handlers_def)
    next
      case False
      with ref [OF i] w i show ?thesis
        by (auto simp: sd Let_def kafka_event_handlers_def split: if_splits)
    qed
  next
    case (3 sd m q n w')
    obtain s d where sd: "sd = (s, d)" by (cases sd)
    with 3 have i: "?inv (s, d)" "ready (kk_broker s) = m # q" by (simp_all add: fetched_def)
    from acc [OF i, of w'] 3 show ?case by (auto simp: sd fun_eq_iff fetched_def)
  next
    case (4 sd m q n w')
    obtain s d where sd: "sd = (s, d)" by (cases sd)
    with 4 have i: "?inv (s, d)" "ready (kk_broker s) = m # q" by (simp_all add: fetched_def)
    have "or_else (jm_get (kk_deliveryCounts s) (partition_key topic part m)) 0 + 1 \<le> int mr \<longleftrightarrow> 0 < n"
      using 4(3) by (auto simp: sd)
    with ref [OF i, of w'] 4 show ?case
      by (cases "n = 0") (auto simp: sd parked_def fun_upd_upd Let_def fetched_def)
  next
    case (5 s m q)
    then show ?case by simp
  qed
qed

text \<open>C16: A Kafka partition is worked off. Let \<open>mr\<close> be the retry limit (5 when none is configured),
  let the partition and the dead-letter topic behave as documented, let no message be the JSON text
  \<^verbatim>\<open>null\<close>, and let the handlers of the event reject with \<^verbatim>\<open>Error\<close> objects only
  (only those are marked retriable; the consumer restarts after a retriable error and is down for
  good after any other). Then \<open>mr + 2\<close> deliveries per message are enough to commit every offset of
  the partition, and the consumer is still running: each message that parses is given to its
  handlers until they accept it, at most \<open>mr + 1\<close> times, in partition order; exactly the messages
  they never accepted and those that do not parse are in the dead-letter topic, once each, in order
  and unmodified; and no retry counter is left behind.\<close>
theorem kafka_partition_drains:
  fixes s :: "('w, 'b) kafka"
  assumes "partition_laws ka c p topic part (dlq_topic cfg topic) ready dead"
    and "or_else (kc_maxRetries cfg) 5 = int mr"
    and "kk_producer s = Some p" and "ready (kk_broker s) = q"
    and "\<forall>m \<in> set q. jm_get (kk_deliveryCounts s) (partition_key topic part m) = None"
    and "\<forall>m \<in> set q. \<not> null_message (snd m)"
    and "rejects_with_errors (kafka_event_handlers s (topic_event cfg topic))"
    and "work_off (mr + 1) (\<lambda>m. delivery_ok (kafka_event_handlers s (topic_event cfg topic)) (snd m))
      parked q (kk_world s) = (ds, w')"
    and "(s', down) = pump (fetched ready) (kafka_deliver cfg ka c topic part) ((mr + 2) * length q) (s, False)"
  shows "\<not> down \<and> ready (kk_broker s') = [] \<and> dead (kk_broker s') = dead (kk_broker s) @ ds \<and>
    kk_world s' = w' \<and> jm_get (kk_deliveryCounts s') = jm_get (kk_deliveryCounts s)"
proof -
  note rd = kafka_redelivery [OF assms(1,2,5,7)]
  have "redelivery.settled_as (fetched ready) (\<lambda>s. dead (kk_broker (fst s))) (\<lambda>s. kk_world (fst s))
      (\<lambda>s. jm_get (kk_deliveryCounts (fst s))) (jm_get (kk_deliveryCounts s))
      (\<lambda>sd. \<not> snd sd \<and> (\<forall>m \<in> set (ready (kk_broker (fst sd))). \<not> null_message (snd m)) \<and>
         kk_producer (fst sd) = Some p \<and> kafka_event_handlers (fst sd) (topic_event cfg topic) =
                                  kafka_event_handlers s (topic_event cfg topic)) (s, False) [] ds w' (s', down)"
    using redelivery.queue_drains [OF rd, of "(s, False)" q ds w'] assms(3,4,6,8,9)
    by (simp add: fetched_def)
  then show ?thesis by (simp add: redelivery.settled_as_def [OF rd] fetched_def split: if_splits)
qed

record partition_broker =
  pa_ready :: "(nat \<times> string) list"
  pa_dead :: "string list"
  pa_sent :: "kafka_record list"
  pa_subscriptions :: "nat \<Rightarrow> string set"
  pa_next :: nat

definition partition_api :: "string \<Rightarrow> partition_broker kafka_api" where
  "partition_api dlq =
     \<lparr>ka_newProducer = ret 0,
      ka_newConsumer = (\<lambda>b. (Inr (pa_next b), b\<lparr>pa_next := pa_next b + 1,
        pa_subscriptions := (pa_subscriptions b)(pa_next b := {})\<rparr>)),
      ka_connectProducer = (\<lambda>_. ret ()), ka_connectConsumer = (\<lambda>_. ret ()),
      ka_subscribe = (\<lambda>c t b. (Inr (), b\<lparr>pa_subscriptions := (pa_subscriptions b)(c := insert t (pa_subscriptions b c))\<rparr>)),
      ka_run = (\<lambda>_. ret ()), ka_stop = (\<lambda>_. ret ()), ka_disconnectProducer = (\<lambda>_. ret ()),
      ka_disconnectConsumer = (\<lambda>_. ret ()), ka_adminConnect = ret (), ka_createTopics = (\<lambda>_. ret ()),
      ka_adminDisconnect = ret (),
      ka_send = (\<lambda>_ r b. (Inr (), if kr_topic r = dlq then b\<lparr>pa_dead := pa_dead b @ [kr_value r]\<rparr>
                                  else b\<lparr>pa_sent := pa_sent b @ [r]\<rparr>)),
      ka_commitOffset = (\<lambda>_ _ _ _ b. (Inr (), b\<lparr>pa_ready := tl (pa_ready b)\<rparr>))\<rparr>"

lemma partition_api_laws: "partition_laws (partition_api dlq) c p topic part dlq pa_ready pa_dead"
  by (simp add: partition_laws_def partition_api_def ret_def)

definition sample_kafka :: kafka_config where
  "sample_kafka = \<lparr>kc_clientId = ''c'', kc_topicPrefix = Some ''app.'', kc_topicPartitions = None,
     kc_replicationFactor = None, kc_dlqTopicSuffix = None, kc_warmupOnConnect = False, kc_warmupTimeoutMs = None,
     kc_maxRetries = Some 1, kc_partitionKeyStrategy = None\<rparr>"

definition kafka_text :: "int \<Rightarrow> string" where
  "kafka_text n = or_else (json_text (JObj [(''name'', JStr ''E''), (''payload'', JNum n)])) []"

definition kafka_picky :: "nat bhandler" where
  "kafka_picky = \<lparr>bh_name = ''picky'',
     bh_run = (\<lambda>v w. (if js_prop v ''payload'' = JNum 1 then Inl (UserError ''one'') else Inr (), w + 1))\<rparr>"

definition kafka_sample_bus :: "(nat, partition_broker) kafka" where
  "kafka_sample_bus = \<lparr>kk_producer = Some 0, kk_consumer = Some 0, kk_connected = True, kk_closed = False,
     kk_connecting = False, kk_warmedUp = False, kk_handlers = [(''E'', [kafka_picky])],
     kk_subscribedTopics = [''app.E''], kk_deliveryCounts = [], kk_provisionedTopics = [], kk_log = [], kk_world = 0,
     kk_broker = \<lparr>pa_ready = [(0, kafka_text 1), (1, ''x''), (2, kafka_text 2)], pa_dead = [], pa_sent = [],
                  pa_subscriptions = (\<lambda>_. {}), pa_next = 1\<rparr>\<rparr>"

lemma sample_errors: "rejects_with_errors (kafka_event_handlers kafka_sample_bus (topic_event sample_kafka ''app.E''))"
proof -
  have "topic_event sample_kafka ''app.E'' = ''E''" by code_simp
  then have "kafka_event_handlers kafka_sample_bus (topic_event sample_kafka ''app.E'') = [kafka_picky]"
    by (simp add: kafka_event_handlers_def kafka_sample_bus_def jm_get_def)
  then show ?thesis
    by (auto simp: rejects_with_errors_def kafka_picky_def is_error_instance_def split: if_splits)
qed

lemma sample_partition_laws:
  "partition_laws (partition_api ''app.E.dlq'') 0 0 ''app.E'' 0 (dlq_topic sample_kafka ''app.E'') pa_ready pa_dead"
  using partition_api_laws [of "''app.E.dlq''" 0 0 "''app.E''" 0] by (simp add: dlq_topic_def sample_kafka_def)

interpretation sample_partition: redelivery "kafka_deliver sample_kafka (partition_api ''app.E.dlq'') 0 ''app.E'' 0"
  "fetched pa_ready" "\<lambda>s. pa_dead (kk_broker (fst s))" parked "\<lambda>s. kk_world (fst s)"
  "\<lambda>s. jm_get (kk_deliveryCounts (fst s))" Map.empty
  "\<lambda>m n k. or_else (k (partition_key ''app.E'' 0 m)) 0 + int n = int 1 + 1 \<and> 0 < n \<and>
     k(partition_key ''app.E'' 0 m := None) = Map.empty"
  "\<lambda>m. delivery_ok (kafka_event_handlers kafka_sample_bus (topic_event sample_kafka ''app.E'')) (snd m)"
  "\<lambda>s. \<not> snd s \<and> (\<forall>m \<in> set (pa_ready (kk_broker (fst s))). \<not> null_message (snd m)) \<and>
     kk_producer (fst s) = Some 0 \<and> kafka_event_handlers (fst s) (topic_event sample_kafka ''app.E'') =
     kafka_event_handlers kafka_sample_bus (topic_event sample_kafka ''app.E'')" "1 + 1" UNIV
  by (rule kafka_redelivery [OF sample_partition_laws _ _ sample_errors]) (simp_all add: sample_kafka_def)

theorem kafka_partition_drains_witness:
  "let (s', down) = pump (fetched pa_ready) (kafka_deliver sample_kafka (partition_api ''app.E.dlq'') 0 ''app.E'' 0)
        9 (kafka_sample_bus, False)
   in \<not> down \<and> pa_ready (kk_broker s') = [] \<and> pa_dead (kk_broker s') = [kafka_text 1, ''x''] \<and> kk_world s' = 3"
proof -
  let ?q = "[(0 :: nat, kafka_text 1), (1, ''x''), (2, kafka_text 2)]"
  have mr: "or_else (kc_maxRetries sample_kafka) 5 = int 1" by (simp add: sample_kafka_def)
  have q: "kk_producer kafka_sample_bus = Some 0" "pa_ready (kk_broker kafka_sample_bus) = ?q"
      "\<forall>m \<in> set ?q. jm_get (kk_deliveryCounts kafka_sample_bus) (partition_key ''app.E'' 0 m) = None"
    by (simp_all add: kafka_sample_bus_def)
  have nn: "\<forall>m \<in> set ?q. \<not> null_message (snd m)" by code_simp
  have w: "work_off (1 + 1) (\<lambda>m. delivery_ok (kafka_event_handlers kafka_sample_bus (topic_event sample_kafka ''app.E'')) (snd m))
      parked ?q (kk_world kafka_sample_bus) = ([kafka_text 1, ''x''], 3)" by code_simp
  have n: "(1 + 2) * length ?q = (9::nat)" by simp
  obtain s' down where run: "(s', down) = pump (fetched pa_ready)
      (kafka_deliver sample_kafka (partition_api ''app.E.dlq'') 0 ''app.E'' 0) 9 (kafka_sample_bus, False)"
    by (metis surj_pair)
  from kafka_partition_drains [OF sample_partition_laws mr q nn sample_errors w run [folded n]] run [symmetric]
  show ?thesis by (simp add: kafka_sample_bus_def)
qed

section \<open>Every handler is subscribed\<close>

text \<open>
  What the bus relies on of consumers: a new consumer has no subscription, a successful
  \<^verbatim>\<open>subscribe\<close> adds one, nothing else changes any. \<open>subs\<close> reads the subscriptions of
  every consumer.
\<close>

definition subscription_laws :: "'b kafka_api \<Rightarrow> ('b \<Rightarrow> nat \<Rightarrow> string set) \<Rightarrow> bool" where
  "subscription_laws ka subs \<longleftrightarrow>
     (\<forall>b c b'. ka_newConsumer ka b = (Inr c, b') \<longrightarrow> subs b' c = {}) \<and>
     (\<forall>c t b b'. ka_subscribe ka c t b = (Inr (), b') \<longrightarrow> subs b' = (subs b)(c := insert t (subs b c))) \<and>
     keeps subs (ka_newProducer ka) \<and> (\<forall>p. keeps subs (ka_connectProducer ka p)) \<and>
     (\<forall>c. keeps subs (ka_connectConsumer ka c)) \<and> (\<forall>c. keeps subs (ka_run ka c)) \<and>
     keeps subs (ka_adminConnect ka) \<and> (\<forall>ts. keeps subs (ka_createTopics ka ts)) \<and> keeps subs (ka_adminDisconnect ka)"

lemma keeps_on_kafka [keeps_intros]: "keeps g m \<Longrightarrow> keeps (\<lambda>s. g (kk_broker s)) (on_kafka m)"
  by (auto simp: keeps_def on_kafka_def split: prod.splits) (metis snd_conv)

text \<open>What connecting reads: the registry, the consumer, the topics noted as subscribed and the real
  subscriptions.\<close>

definition kview :: "('b \<Rightarrow> nat \<Rightarrow> string set) \<Rightarrow> ('w, 'b) kafka \<Rightarrow>
    (string, 'w bhandler list) jmap \<times> nat option \<times> string list \<times> (nat \<Rightarrow> string set)" where
  "kview subs s = (kk_handlers s, kk_consumer s, kk_subscribedTopics s, subs (kk_broker s))"

lemma keeps_kview_on: "keeps subs m \<Longrightarrow> keeps (kview subs) (on_kafka m)"
  by (auto simp: keeps_def kview_def on_kafka_def split: prod.splits) (metis snd_conv)+

lemma keeps_kview_upd: "(\<And>s. kview subs (f s) = kview subs s) \<Longrightarrow> keeps (kview subs) (upd_kafka f)"
  by (simp add: keeps_def upd_kafka_def)

lemma keeps_finally: "keeps f m \<Longrightarrow> keeps f k \<Longrightarrow> keeps f (finally_act m k)"
  by (auto simp: keeps_def finally_act_def split: prod.splits sum.splits) (metis snd_conv)+

lemma keeps_create_topics: "subscription_laws ka subs \<Longrightarrow> keeps (kview subs) (create_topics ka ts)"
  unfolding create_topics_def subscription_laws_def
  by (intro keeps_then keeps_finally keeps_kview_on) simp_all

lemma keeps_provision:
  fixes subs :: "'b \<Rightarrow> nat \<Rightarrow> string set"
  assumes laws: "subscription_laws ka subs"
  shows "keeps (kview subs) (provisionTopics cfg ka topics :: (('w, 'b) kafka, unit) action)"
proof -
  have "kview subs (snd (provisionTopics cfg ka topics s)) = kview subs s" for s :: "('w, 'b) kafka"
  proof (cases "filter (\<lambda>t. t \<notin> set (kk_provisionedTopics s)) topics = []")
    case True
    then show ?thesis by (simp add: provisionTopics_def)
  next
    case False
    have "keeps (kview subs) (then_act (create_topics ka ts)
       (upd_kafka (\<lambda>s :: ('w, 'b) kafka. s\<lparr>kk_provisionedTopics := fold add_topic ps (kk_provisionedTopics s)\<rparr>)))" for ts ps
      by (intro keeps_then keeps_create_topics laws keeps_kview_upd) (simp add: kview_def)
    with False show ?thesis by (simp add: provisionTopics_def keeps_def Let_def del: filter_empty_conv)
  qed
  then show ?thesis by (simp add: keeps_def)
qed

text \<open>The consumer's subscriptions include every topic noted as subscribed.\<close>

definition subscribed_ok :: "('b \<Rightarrow> nat \<Rightarrow> string set) \<Rightarrow> ('w, 'b) kafka \<Rightarrow> bool" where
  "subscribed_ok subs s \<longleftrightarrow>
     (\<exists>c. kk_consumer s = Some c \<and> set (kk_subscribedTopics s) \<subseteq> subs (kk_broker s) c)"

lemma subscribed_ok_cong: "kview subs s = kview subs s' \<Longrightarrow> subscribed_ok subs s = subscribed_ok subs s'"
  by (simp add: kview_def subscribed_ok_def)

lemma subscribe_topic_ok:
  assumes laws: "subscription_laws ka subs" and ok: "subscribed_ok subs s" and run: "subscribe_topic cfg ka n s = (Inr (), s')"
  shows "subscribed_ok subs s' \<and> kk_handlers s' = kk_handlers s \<and>
    set (kk_subscribedTopics s') = insert (topicName cfg n) (set (kk_subscribedTopics s))"
proof (cases "topicName cfg n \<in> set (kk_subscribedTopics s)")
  case True
  with run ok show ?thesis by (auto simp: subscribe_topic_def)
next
  case False
  from ok obtain c where c: "kk_consumer s = Some c" "set (kk_subscribedTopics s) \<subseteq> subs (kk_broker s) c"
    by (auto simp: subscribed_ok_def)
  obtain x b where x: "ka_subscribe ka c (topicName cfg n) (kk_broker s) = (x, b)"
    by (cases "ka_subscribe ka c (topicName cfg n) (kk_broker s)")
  with run False c have "x = Inr ()"
      and s': "s' = s\<lparr>kk_broker := b, kk_subscribedTopics := add_topic (topicName cfg n) (kk_subscribedTopics s)\<rparr>"
    by (cases x; auto simp: subscribe_topic_def then_act_def bind_act_def on_kafka_def upd_kafka_def)+
  with laws x have "subs b = (subs (kk_broker s))(c := insert (topicName cfg n) (subs (kk_broker s) c))"
    unfolding subscription_laws_def by blast
  with c s' show ?thesis by (auto simp: subscribed_ok_def)
qed

lemma subscribe_all_ok:
  assumes laws: "subscription_laws ka subs"
  shows "for_each (subscribe_topic cfg ka) ns s = (Inr (), s') \<Longrightarrow> subscribed_ok subs s \<Longrightarrow>
    subscribed_ok subs s' \<and> kk_handlers s' = kk_handlers s \<and>
    set (kk_subscribedTopics s') = topicName cfg ` set ns \<union> set (kk_subscribedTopics s)"
proof (induction ns arbitrary: s)
  case Nil
  then show ?case by simp
next
  case (Cons n ns)
  then obtain s1 where s1: "subscribe_topic cfg ka n s = (Inr (), s1)" "for_each (subscribe_topic cfg ka) ns s1 = (Inr (), s')"
    by (auto split: prod.splits sum.splits)
  from subscribe_topic_ok [OF laws Cons.prems(2) s1(1)] Cons.IH [OF s1(2)] show ?case by auto
qed

lemma connect_clients_ok:
  assumes laws: "subscription_laws ka subs" and run: "connect_clients ka s = (Inr (), s')"
  shows "\<exists>c. kk_consumer s' = Some c \<and> subs (kk_broker s') c = {} \<and> kk_handlers s' = kk_handlers s \<and>
    kk_subscribedTopics s' = kk_subscribedTopics s"
proof -
  obtain p b1 where p: "ka_newProducer ka (kk_broker s) = (Inr p, b1)"
    using run by (auto simp: connect_clients_def bind_act_split on_kafka_def split: prod.splits)
  let ?s1 = "s\<lparr>kk_broker := b1, kk_producer := Some p\<rparr>"
  obtain c b2 where c: "ka_newConsumer ka b1 = (Inr c, b2)"
    using run p by (auto simp: connect_clients_def bind_act_def then_act_def upd_kafka_def on_kafka_def split: prod.splits sum.splits)
  let ?s2 = "?s1\<lparr>kk_broker := b2, kk_consumer := Some c\<rparr>"
  have rest: "then_act (on_kafka (ka_connectProducer ka p)) (on_kafka (ka_connectConsumer ka c)) ?s2 = (Inr (), s')"
    using run p c by (simp add: connect_clients_def bind_act_def then_act_def upd_kafka_def on_kafka_def)
  have "keeps (kview subs) (then_act (on_kafka (ka_connectProducer ka p)) (on_kafka (ka_connectConsumer ka c)))"
    using laws unfolding subscription_laws_def by (intro keeps_then keeps_kview_on) simp_all
  from keepsD [OF this rest] have "kview subs s' = kview subs ?s2" .
  moreover have "subs b2 c = {}" using laws c unfolding subscription_laws_def by blast
  ultimately show ?thesis by (auto simp: kview_def)
qed

text \<open>The state in which \<^verbatim>\<open>connect()\<close> has subscribed, and what it does to the registry.\<close>

lemma connect_core_ok:
  assumes laws: "subscription_laws ka subs"
    and run: "then_act (provision_handlers cfg ka) (then_act (subscribe_handlers cfg ka)
      (then_act (runConsumerLoop ka) (upd_kafka (\<lambda>s. s\<lparr>kk_connected := True\<rparr>)))) s = (Inr (), s')"
    and ok: "subscribed_ok subs s"
  shows "subscribed_ok subs s' \<and> kk_handlers s' = kk_handlers s \<and> kk_connected s' \<and>
    (\<forall>n \<in> set (map fst (kk_handlers s)). topicName cfg n \<in> set (kk_subscribedTopics s'))"
proof -
  obtain s1 where s1: "provision_handlers cfg ka s = (Inr (), s1)"
    and r1: "then_act (subscribe_handlers cfg ka) (then_act (runConsumerLoop ka)
        (upd_kafka (\<lambda>s. s\<lparr>kk_connected := True\<rparr>))) s1 = (Inr (), s')"
    using run by (auto simp: then_act_def bind_act_split)
  obtain s2 where s2: "subscribe_handlers cfg ka s1 = (Inr (), s2)"
    and r2: "then_act (runConsumerLoop ka) (upd_kafka (\<lambda>s. s\<lparr>kk_connected := True\<rparr>)) s2 = (Inr (), s')"
    using r1 by (auto simp: then_act_def bind_act_split)
  have v1: "kview subs s1 = kview subs s"
    using keeps_provision [OF laws] s1 unfolding provision_handlers_def by (rule keepsD)
  then have "subscribed_ok subs s1" using ok subscribed_ok_cong by blast
  from subscribe_all_ok [OF laws s2 [unfolded subscribe_handlers_def] this]
  have o2: "subscribed_ok subs s2" "kk_handlers s2 = kk_handlers s1"
      "set (kk_subscribedTopics s2) = topicName cfg ` set (map fst (kk_handlers s1)) \<union> set (kk_subscribedTopics s1)" by auto
  then obtain c where c: "kk_consumer s2 = Some c" by (auto simp: subscribed_ok_def)
  obtain s3 where s3: "on_kafka (ka_run ka c) s2 = (Inr (), s3)" and s': "s' = s3\<lparr>kk_connected := True\<rparr>"
    using r2 c by (auto simp: then_act_def bind_act_split runConsumerLoop_def upd_kafka_def)
  have "keeps (kview subs) (on_kafka (ka_run ka c))"
    using laws unfolding subscription_laws_def by (intro keeps_kview_on) simp
  then have "kview subs s3 = kview subs s2" using s3 by (rule keepsD)
  then have v3: "kview subs s' = kview subs s2" by (simp add: s' kview_def)
  then have "subscribed_ok subs s'" using o2(1) subscribed_ok_cong by blast
  with v1 v3 o2 s' show ?thesis by (auto simp: kview_def)
qed

text \<open>C27: No handler's events are lost silently. On a bus that has noted no subscription yet, when
  \<^verbatim>\<open>connect()\<close> succeeds (without the optional warmup) the consumer it keeps is subscribed to
  the topic of every registered handler; and any registrations that succeed afterwards keep that so,
  because \<^verbatim>\<open>on\<close> refuses an event name whose topic is not subscribed.\<close>
theorem kafka_handlers_subscribed:
  assumes "subscription_laws ka subs" and "\<not> kc_warmupOnConnect cfg"
    and "kafka_connect cfg ka waiters roundTrip s = (Inr (), s1)" and "\<not> kk_connected s"
    and "kk_subscribedTopics s = []"
    and "for_each (\<lambda>(n, h). kafka_on cfg n h) regs s1 = (Inr (), s2)"
  shows "\<exists>c. kk_consumer s2 = Some c \<and>
    (\<forall>n. jm_get (kk_handlers s2) n \<noteq> None \<longrightarrow> topicName cfg n \<in> subs (kk_broker s2) c)"
proof -
  let ?s0 = "s\<lparr>kk_connecting := True\<rparr>"
  obtain s' where run: "then_act (connect_clients ka) (then_act (ret ()) (then_act (provision_handlers cfg ka)
      (then_act (subscribe_handlers cfg ka) (then_act (runConsumerLoop ka)
      (then_act (upd_kafka (\<lambda>s. s\<lparr>kk_connected := True\<rparr>)) (ret ())))))) ?s0 = (Inr (), s')"
    and s1: "s1 = s'\<lparr>kk_connecting := False\<rparr>"
    using assms(2-4) by (auto simp: kafka_connect_def finally_act_def upd_kafka_def split: prod.splits sum.splits)
  obtain sa where sa: "connect_clients ka ?s0 = (Inr (), sa)"
    and ra: "then_act (provision_handlers cfg ka) (then_act (subscribe_handlers cfg ka)
      (then_act (runConsumerLoop ka) (upd_kafka (\<lambda>s. s\<lparr>kk_connected := True\<rparr>)))) sa = (Inr (), s')"
    using run by (auto simp: then_act_def bind_act_split ret_def bind_ret_right [unfolded ret_def])
  from connect_clients_ok [OF assms(1) sa] assms(5) have "subscribed_ok subs sa"
    by (auto simp: subscribed_ok_def)
  from connect_core_ok [OF assms(1) ra this] have
    inv: "subscribed_ok subs s1 \<and> kk_connected s1 \<and>
      (\<forall>n. jm_get (kk_handlers s1) n \<noteq> None \<longrightarrow> topicName cfg n \<in> set (kk_subscribedTopics s1))"
    by (auto simp: s1 subscribed_ok_def jm_get_def dest!: map_of_SomeD)
  have "subscribed_ok subs s2 \<and>
      (\<forall>n. jm_get (kk_handlers s2) n \<noteq> None \<longrightarrow> topicName cfg n \<in> set (kk_subscribedTopics s2))"
    using assms(6) inv
  proof (induction regs arbitrary: s1)
    case Nil
    then show ?case by simp
  next
    case (Cons nh regs)
    obtain n h where nh: "nh = (n, h)" by (cases nh)
    with Cons.prems(1) obtain s3 where on: "kafka_on cfg n h s1 = (Inr (), s3)"
        and rest: "for_each (\<lambda>(n, h). kafka_on cfg n h) regs s3 = (Inr (), s2)"
      by (auto split: prod.splits sum.splits)
    then have "topicName cfg n \<in> set (kk_subscribedTopics s1)" using Cons.prems(2)
      by (auto simp: kafka_on_def split: if_splits)
    with on Cons.prems(2) have "subscribed_ok subs s3 \<and> kk_connected s3 \<and>
        (\<forall>n. jm_get (kk_handlers s3) n \<noteq> None \<longrightarrow> topicName cfg n \<in> set (kk_subscribedTopics s3))"
      by (auto simp: kafka_on_def subscribed_ok_def split: if_splits)
    with rest show ?case by (rule Cons.IH)
  qed
  then show ?thesis by (fastforce simp: subscribed_ok_def)
qed

lemma partition_api_subscriptions: "subscription_laws (partition_api dlq) pa_subscriptions"
  by (auto simp: subscription_laws_def partition_api_def keeps_ret)

definition kafka_offline_bus :: "(nat, partition_broker) kafka" where
  "kafka_offline_bus = kafka_sample_bus\<lparr>kk_connected := False, kk_subscribedTopics := [], kk_producer := None, kk_consumer := None\<rparr>"

theorem kafka_handlers_subscribed_witness:
  "let s1 = snd (kafka_connect sample_kafka (partition_api ''d'') kafka_picky (ret ()) kafka_offline_bus);
       s2 = snd (for_each (\<lambda>(n, h). kafka_on sample_kafka n h) [(''E'', kafka_picky)] s1)
   in \<exists>c. kk_consumer s2 = Some c \<and> ''app.E'' \<in> pa_subscriptions (kk_broker s2) c"
proof -
  let ?c = "kafka_connect sample_kafka (partition_api ''d'') kafka_picky (ret ()) kafka_offline_bus"
  let ?f = "for_each (\<lambda>(n, h). kafka_on sample_kafka n h) [(''E'', kafka_picky)] (snd ?c)"
  have "fst ?c = Inr ()" "fst ?f = Inr ()" by code_simp+
  then have c: "?c = (Inr (), snd ?c)" and f: "?f = (Inr (), snd ?f)" by (metis prod.collapse)+
  have s: "\<not> kc_warmupOnConnect sample_kafka" "\<not> kk_connected kafka_offline_bus" "kk_subscribedTopics kafka_offline_bus = []"
    by (simp_all add: sample_kafka_def kafka_offline_bus_def)
  have "jm_has (kk_handlers (snd ?f)) ''E''" by code_simp
  then have "jm_get (kk_handlers (snd ?f)) ''E'' \<noteq> None" by (simp add: jm_has_iff)
  moreover have "topicName sample_kafka ''E'' = ''app.E''" by (simp add: topicName_def sample_kafka_def)
  ultimately show ?thesis
    using kafka_handlers_subscribed [OF partition_api_subscriptions s(1) c s(2,3) f] by (auto simp: Let_def)
qed

text \<open>The premise that no subscription is noted matters: topics noted by an attempt that failed later
  are skipped when \<^verbatim>\<open>connect()\<close> is called again, although it uses a new consumer.\<close>

lemma reconnect_subscribes_nothing:
  assumes laws: "subscription_laws ka subs" and "connect_clients ka s = (Inr (), s1)"
    and "topicName cfg n \<in> set (kk_subscribedTopics s)"
  shows "subscribe_topic cfg ka n s1 = (Inr (), s1) \<and>
    (\<exists>c. kk_consumer s1 = Some c \<and> topicName cfg n \<notin> subs (kk_broker s1) c)"
  using connect_clients_ok [OF laws assms(2)] assms(3) by (auto simp: subscribe_topic_def)

end
