(* ===== verification/Nats.thy ===== *)
theory Nats
  imports Broker
begin

text \<open>
  \<^verbatim>\<open>NatsEventBus\<close> (\<^verbatim>\<open>adapters/nats/src/nats-event-bus.ts\<close>): connecting and the
  stream it ensures, subjects and durable names, registration, publishing, closing, and the
  settlement of a message with its delivery count. The client library \<^verbatim>\<open>nats\<close> is a record
  of operations on a server state \<open>'b\<close>. \<^verbatim>\<open>_js\<close> is set and unset together with
  \<^verbatim>\<open>_nc\<close>.
\<close>

section \<open>Configuration and state\<close>

record nats_config =
  nc_consumerGroup :: string
  nc_streamName :: "string option"
  nc_subjectPrefix :: "string option"
  nc_prefetchCount :: "int option"
  nc_maxRetries :: "int option"
  nc_maxAttempts :: "int option"
  nc_initialDelayMs :: "int option"

record nats_message =
  nm_data :: string
  nm_deliveryCount :: "int option"

text \<open>The options of a subscription; the event name identifies the loop that consumes it.\<close>

record nats_subscription =
  sb_subject :: string
  sb_durable :: string
  sb_deliverGroup :: string
  sb_maxAckPending :: int
  sb_maxDeliver :: "int option"
  sb_eventName :: string

record 'b nats_api =
  na_connect :: "int \<Rightarrow> int \<Rightarrow> ('b, nat) action"
  na_jetstreamManager :: "nat \<Rightarrow> ('b, unit) action"
  na_streamInfo :: "nat \<Rightarrow> string \<Rightarrow> ('b, unit) action"
  na_streamAdd :: "nat \<Rightarrow> string \<Rightarrow> string list \<Rightarrow> ('b, unit) action"
  na_subscribe :: "nat \<Rightarrow> nats_subscription \<Rightarrow> ('b, unit) action"
  na_publish :: "nat \<Rightarrow> string \<Rightarrow> string \<Rightarrow> (string \<times> string) list \<Rightarrow> ('b, unit) action"
  na_isClosed :: "nat \<Rightarrow> 'b \<Rightarrow> bool"
  na_drain :: "nat \<Rightarrow> ('b, unit) action"
  na_ack :: "nats_message \<Rightarrow> ('b, unit) action"
  na_nak :: "nats_message \<Rightarrow> int \<Rightarrow> ('b, unit) action"
  na_term :: "nats_message \<Rightarrow> ('b, unit) action"

record ('w, 'b) nats =
  nt_nc :: "nat option"
  nt_connected :: bool
  nt_closed :: bool
  nt_handlers :: "(string, 'w bhandler list) jmap"
  nt_subscribed :: "string list"
  nt_log :: "handler_failure list"
  nt_world :: 'w
  nt_server :: 'b

definition on_server :: "('b, 'a) action \<Rightarrow> (('w, 'b) nats, 'a) action" where
  "on_server m s = (case m (nt_server s) of (r, b) \<Rightarrow> (r, s\<lparr>nt_server := b\<rparr>))"

section \<open>Subjects, durable names and backoff\<close>

definition subjectFor :: "nats_config \<Rightarrow> string \<Rightarrow> string" where
  "subjectFor cfg eventName = or_else (nc_subjectPrefix cfg) [] @ eventName"

definition dlqSubjectFor :: "nats_config \<Rightarrow> string \<Rightarrow> string" where
  "dlqSubjectFor cfg eventName = or_else (nc_subjectPrefix cfg) [] @ ''dlq.'' @ eventName"

definition computeNakDelayMs :: "int \<Rightarrow> int" where
  "computeNakDelayMs deliveryCount = min (500 * 2 ^ nat (max 0 (deliveryCount - 1))) 30000"

definition ends_with_dot :: "string \<Rightarrow> bool" where
  "ends_with_dot p \<longleftrightarrow> p \<noteq> [] \<and> last p = CHR ''.''"

definition buildSubjectsForStream :: "nats_config \<Rightarrow> error + string list" where
  "buildSubjectsForStream cfg =
     (let prefix = or_else (nc_subjectPrefix cfg) [] in
      if prefix = [] then Inl (ConfigError ''NatsEventBus'' ''subjectPrefix'')
      else (let normalized = (if ends_with_dot prefix then prefix else prefix @ ''.'');
                subject = normalized @ ''>'' in
            if subject = ''>'' \<or> CHR ''*'' \<in> set normalized \<or> CHR ''>'' \<in> set normalized
            then Inl (ConfigError ''NatsEventBus'' subject)
            else Inr [subject]))"

definition is_name_char :: "char \<Rightarrow> bool" where
  "is_name_char c \<longleftrightarrow>
     (let n = of_char c :: nat in
      (48 \<le> n \<and> n \<le> 57) \<or> (65 \<le> n \<and> n \<le> 90) \<or> (97 \<le> n \<and> n \<le> 122) \<or> n = 95 \<or> n = 45)"

definition sanitize :: "string \<Rightarrow> string" where
  "sanitize = map (\<lambda>c. if is_name_char c then c else CHR ''_'')"

definition durable_name :: "nats_config \<Rightarrow> string \<Rightarrow> string" where
  "durable_name cfg eventName = nc_consumerGroup cfg @ ''_'' @ sanitize eventName"

section \<open>Subscriptions and connecting\<close>

definition createSubscriptionForEvent ::
  "nats_config \<Rightarrow> 'b nats_api \<Rightarrow> string \<Rightarrow> bool \<Rightarrow> (('w, 'b) nats, unit) action" where
  "createSubscriptionForEvent cfg na eventName failFast s =
     (case nt_nc s of
        None \<Rightarrow> (Inr (), s)
      | Some nc \<Rightarrow>
          (let sub = on_server (na_subscribe na nc
                 \<lparr>sb_subject = subjectFor cfg eventName, sb_durable = durable_name cfg eventName,
                  sb_deliverGroup = durable_name cfg eventName,
                  sb_maxAckPending = or_else (nc_prefetchCount cfg) 256,
                  sb_maxDeliver = nc_maxRetries cfg, sb_eventName = eventName\<rparr>)
           in if failFast then sub s else swallow sub s))"

text \<open>\<^verbatim>\<open>Set.add\<close>\<close>

definition set_add :: "'a \<Rightarrow> 'a list \<Rightarrow> 'a list" where
  "set_add x xs = (if x \<in> set xs then xs else xs @ [x])"

lemma set_set_add [simp]: "set (set_add x xs) = insert x (set xs)"
  by (auto simp: set_add_def)

definition activateSubscriptions :: "nats_config \<Rightarrow> 'b nats_api \<Rightarrow> (('w, 'b) nats, unit) action" where
  "activateSubscriptions cfg na s =
     for_each (\<lambda>n s. createSubscriptionForEvent cfg na n True (s\<lparr>nt_subscribed := set_add n (nt_subscribed s)\<rparr>))
       (map fst (nt_handlers s)) s"

definition ensureStream :: "nats_config \<Rightarrow> 'b nats_api \<Rightarrow> nat \<Rightarrow> (('w, 'b) nats, unit) action" where
  "ensureStream cfg na nc =
     (case nc_streamName cfg of
        None \<Rightarrow> ret ()
      | Some stream \<Rightarrow>
          if stream = [] then ret ()
          else then_act (on_server (na_jetstreamManager na nc))
                 (catch_act (on_server (na_streamInfo na nc stream))
                    (\<lambda>_. bind_act (lift_result (buildSubjectsForStream cfg))
                           (\<lambda>subjects. on_server (na_streamAdd na nc stream subjects)))))"

definition nats_connect :: "nats_config \<Rightarrow> 'b nats_api \<Rightarrow> (('w, 'b) nats, unit) action" where
  "nats_connect cfg na s =
     (if nt_connected s then (Inr (), s)
      else bind_act (on_server (na_connect na (or_else (nc_maxAttempts cfg) (- 1)) (or_else (nc_initialDelayMs cfg) 2000)))
             (\<lambda>nc s. then_act (ensureStream cfg na nc) (activateSubscriptions cfg na)
                (s\<lparr>nt_nc := Some nc, nt_connected := True\<rparr>)) s)"

section \<open>Registration, publication and close\<close>

definition nats_on :: "nats_config \<Rightarrow> 'b nats_api \<Rightarrow> string \<Rightarrow> 'w bhandler \<Rightarrow> (('w, 'b) nats, unit) action" where
  "nats_on cfg na eventName handler s =
     (if nt_closed s then (Inl (BusClosed ''NatsEventBus''), s)
      else (let s1 = s\<lparr>nt_handlers := jm_set eventName (or_else (jm_get (nt_handlers s) eventName) [] @ [handler]) (nt_handlers s)\<rparr>
            in if nt_connected s1 \<and> nt_nc s1 \<noteq> None \<and> eventName \<notin> set (nt_subscribed s1)
               then createSubscriptionForEvent cfg na eventName False
                      (s1\<lparr>nt_subscribed := set_add eventName (nt_subscribed s1)\<rparr>)
               else (Inr (), s1)))"

definition nats_dispatch :: "nats_config \<Rightarrow> 'b nats_api \<Rightarrow> event \<Rightarrow> (('w, 'b) nats, unit) action" where
  "nats_dispatch cfg na ev s =
     (if \<not> nt_connected s then (Inl (NotConnected ''NatsEventBus''), s)
      else (case nt_nc s of
         None \<Rightarrow> (Inl (NotConnected ''NatsEventBus''), s)
       | Some nc \<Rightarrow> bind_act (lift_result (event_text ev))
           (\<lambda>data. on_server (na_publish na nc (subjectFor cfg (ev_name ev)) data [])) s))"

text \<open>A failing \<^verbatim>\<open>drain\<close> leaves \<^verbatim>\<open>close\<close> before the registry is cleared.\<close>

definition nats_close :: "'b nats_api \<Rightarrow> (('w, 'b) nats, unit) action" where
  "nats_close na s =
     (if nt_closed s then (Inr (), s)
      else (let s1 = s\<lparr>nt_closed := True, nt_connected := False\<rparr>;
                clear = (\<lambda>s. (Inr (), s\<lparr>nt_handlers := [], nt_subscribed := []\<rparr>)) in
            (case nt_nc s1 of
               None \<Rightarrow> clear s1
             | Some nc \<Rightarrow>
                 (let s2 = s1\<lparr>nt_nc := None\<rparr> in
                  if na_isClosed na nc (nt_server s2) then clear s2
                  else then_act (on_server (na_drain na nc)) clear s2))))"

section \<open>Messages\<close>

definition nats_handleMessage :: "string \<Rightarrow> string \<Rightarrow> (('w, 'b) nats, unit) action" where
  "nats_handleMessage eventName messageData s =
     (case json_parse messageData of
        None \<Rightarrow> (Inl TypeError, s)
      | Some v \<Rightarrow>
          (case run_all (or_else (jm_get (nt_handlers s) eventName) []) v (nt_world s) of
             (r, lg, w) \<Rightarrow> (r, s\<lparr>nt_world := w, nt_log := nt_log s @ lg\<rparr>)))"

text \<open>Best effort: without a connection nothing is published, and a failure is only logged.\<close>

definition publishToDeadLetter ::
  "nats_config \<Rightarrow> 'b nats_api \<Rightarrow> string \<Rightarrow> string \<Rightarrow> int \<Rightarrow> (('w, 'b) nats, unit) action" where
  "publishToDeadLetter cfg na eventName raw deliveryCount s =
     (case nt_nc s of
        None \<Rightarrow> (Inr (), s)
      | Some nc \<Rightarrow>
          swallow (on_server (na_publish na nc (dlqSubjectFor cfg eventName) raw
            [(''noddde-original-subject'', subjectFor cfg eventName),
             (''noddde-delivery-count'', int_string deliveryCount)])) s)"

text \<open>The body of the loop of \<^verbatim>\<open>_consumeSubscription\<close>. The parsed event is serialized again
  for \<^verbatim>\<open>_handleMessage\<close>; failing to ack, nak or term is only logged.\<close>

definition consumeMessage ::
  "nats_config \<Rightarrow> 'b nats_api \<Rightarrow> string \<Rightarrow> nats_message \<Rightarrow> ('w, 'b) nats \<Rightarrow> ('w, 'b) nats" where
  "consumeMessage cfg na eventName msg s =
     (case json_parse (nm_data msg) of
        None \<Rightarrow> snd (swallow (on_server (na_term na msg)) s)
      | Some event \<Rightarrow>
          (case nats_handleMessage eventName (or_else (json_text event) []) s of
             (Inr _, s1) \<Rightarrow> snd (swallow (on_server (na_ack na msg)) s1)
           | (Inl e, s1) \<Rightarrow>
               (let deliveryCount = or_else (nm_deliveryCount msg) 1 in
                (case nc_maxRetries cfg of
                   Some maxRetries \<Rightarrow>
                     if maxRetries \<le> deliveryCount
                     then snd (swallow (on_server (na_term na msg))
                            (snd (publishToDeadLetter cfg na eventName (nm_data msg) deliveryCount s1)))
                     else snd (swallow (on_server (na_nak na msg (computeNakDelayMs deliveryCount))) s1)
                 | None \<Rightarrow> snd (swallow (on_server (na_nak na msg (computeNakDelayMs deliveryCount))) s1)))))"

section \<open>A consumer is worked off\<close>

text \<open>
  What the bus relies on of a durable consumer. \<open>ready\<close> are its unsettled messages in stream order,
  the outstanding ones included, and \<open>count\<close> is the delivery count of the first. An acknowledged or
  terminated message is gone; a negatively acknowledged one stays unsettled in its place, and when
  its delay is over it is delivered again with the next count; a publication to the dead-letter
  subject is stored. The server has at most \<^verbatim>\<open>maxAckPending\<close> messages outstanding (the
  bus sets it to \<^verbatim>\<open>prefetchCount\<close>), and a message waiting for its redelivery is one of
  them: so any of the first \<^verbatim>\<open>maxAckPending\<close> unsettled messages may be delivered next,
  which is \<open>serve\<close> with picks below that bound.
\<close>

definition consumer_laws ::
  "'b nats_api \<Rightarrow> nat \<Rightarrow> string \<Rightarrow> ('b \<Rightarrow> string list) \<Rightarrow> ('b \<Rightarrow> int) \<Rightarrow> ('b \<Rightarrow> string list) \<Rightarrow> bool" where
  "consumer_laws na nc dlq ready count dead \<longleftrightarrow>
     (\<forall>b m q c. ready b = m # q \<longrightarrow>
        (\<exists>b'. na_ack na \<lparr>nm_data = m, nm_deliveryCount = c\<rparr> b = (Inr (), b') \<and> ready b' = q \<and> count b' = 1 \<and> dead b' = dead b) \<and>
        (\<exists>b'. na_term na \<lparr>nm_data = m, nm_deliveryCount = c\<rparr> b = (Inr (), b') \<and> ready b' = q \<and> count b' = 1 \<and> dead b' = dead b)) \<and>
     (\<forall>b m q c d. ready b = m # q \<longrightarrow>
        (\<exists>b'. na_nak na \<lparr>nm_data = m, nm_deliveryCount = c\<rparr> d b = (Inr (), b') \<and> ready b' = m # q \<and>
              count b' = count b + 1 \<and> dead b' = dead b)) \<and>
     (\<forall>b raw hdrs.
        (\<exists>b'. na_publish na nc dlq raw hdrs b = (Inr (), b') \<and> ready b' = ready b \<and> count b' = count b \<and>
              dead b' = dead b @ [raw]))"

lemma consumer_ackE:
  assumes "consumer_laws na nc dlq ready count dead" and "ready b = m # q"
  obtains b' where "na_ack na \<lparr>nm_data = m, nm_deliveryCount = c\<rparr> b = (Inr (), b')"
    "ready b' = q" "count b' = 1" "dead b' = dead b"
  using assms unfolding consumer_laws_def by blast

lemma consumer_termE:
  assumes "consumer_laws na nc dlq ready count dead" and "ready b = m # q"
  obtains b' where "na_term na \<lparr>nm_data = m, nm_deliveryCount = c\<rparr> b = (Inr (), b')"
    "ready b' = q" "count b' = 1" "dead b' = dead b"
  using assms unfolding consumer_laws_def by blast

lemma consumer_nakE:
  assumes "consumer_laws na nc dlq ready count dead" and "ready b = m # q"
  obtains b' where "na_nak na \<lparr>nm_data = m, nm_deliveryCount = c\<rparr> d b = (Inr (), b')"
    "ready b' = m # q" "count b' = count b + 1" "dead b' = dead b"
  using assms unfolding consumer_laws_def by blast

lemma consumer_publishE:
  assumes "consumer_laws na nc dlq ready count dead"
  obtains b' where "na_publish na nc dlq raw hdrs b = (Inr (), b')"
    "ready b' = ready b" "count b' = count b" "dead b' = dead b @ [raw]"
  using assms unfolding consumer_laws_def by blast

definition nats_event_handlers :: "('w, 'b) nats \<Rightarrow> string \<Rightarrow> 'w bhandler list" where
  "nats_event_handlers s eventName = or_else (jm_get (nt_handlers s) eventName) []"

text \<open>How the handlers take a message text, which is parsed, written and parsed again.\<close>

definition nats_ok :: "'w bhandler list \<Rightarrow> string \<Rightarrow> 'w \<Rightarrow> bool \<times> 'w" where
  "nats_ok hs data w =
     (case json_parse data of
        None \<Rightarrow> (True, w)
      | Some v \<Rightarrow>
          (case json_parse (or_else (json_text v) []) of
             None \<Rightarrow> (False, w)
           | Some v' \<Rightarrow> (case run_all hs v' w of (r, _, w') \<Rightarrow> (r = Inr (), w'))))"

lemma nats_handleMessage_frame:
  assumes "nats_handleMessage ev data s = (r, s1)"
  shows "nt_server s1 = nt_server s" "nt_nc s1 = nt_nc s" "nt_handlers s1 = nt_handlers s"
  using assms by (auto simp: nats_handleMessage_def split: option.splits prod.splits)

text \<open>A message is settled: gone from the consumer, or refused and counted.\<close>

lemma consume_accepted:
  fixes s :: "('w, 'b) nats"
  assumes laws: "consumer_laws na nc dlq ready count dead" and rdy: "ready (nt_server s) = m # q"
    and ok: "nats_ok (nats_event_handlers s ev) m (nt_world s) = (True, w')"
    and msg: "msg = \<lparr>nm_data = m, nm_deliveryCount = c\<rparr>"
  shows "\<exists>b' s1. consumeMessage cfg na ev msg s = s1\<lparr>nt_server := b'\<rparr> \<and> ready b' = q \<and> count b' = 1 \<and>
    dead b' = dead (nt_server s) \<and> nt_world s1 = w' \<and> nt_nc s1 = nt_nc s \<and> nt_handlers s1 = nt_handlers s"
proof (cases "json_parse m")
  case None
  obtain b' where "na_term na msg (nt_server s) = (Inr (), b')" "ready b' = q" "count b' = 1" "dead b' = dead (nt_server s)"
    unfolding msg by (rule consumer_termE [where c = c, OF laws rdy])
  with None ok msg show ?thesis
    by (intro exI [of _ b'] exI [of _ s]) (simp add: consumeMessage_def on_server_def swallow_def nats_ok_def)
next
  case (Some v)
  then obtain v' where v': "json_parse (or_else (json_text v) []) = Some v'"
    using ok by (auto simp: nats_ok_def split: option.splits)
  obtain r lg w1 where r: "run_all (nats_event_handlers s ev) v' (nt_world s) = (r, lg, w1)"
    by (cases "run_all (nats_event_handlers s ev) v' (nt_world s)")
  then have rr: "r = Inr ()" "w1 = w'" using ok Some v' by (simp_all add: nats_ok_def)
  let ?s1 = "s\<lparr>nt_world := w', nt_log := nt_log s @ lg\<rparr>"
  have h: "nats_handleMessage ev (or_else (json_text v) []) s = (Inr (), ?s1)"
    using v' r rr by (simp add: nats_handleMessage_def nats_event_handlers_def)
  obtain b' where "na_ack na msg (nt_server s) = (Inr (), b')" "ready b' = q" "count b' = 1" "dead b' = dead (nt_server s)"
    unfolding msg by (rule consumer_ackE [where c = c, OF laws rdy])
  with Some h msg show ?thesis
    by (intro exI [of _ b'] exI [of _ ?s1]) (simp add: consumeMessage_def on_server_def swallow_def)
qed

lemma consume_refused:
  fixes s :: "('w, 'b) nats"
  assumes laws: "consumer_laws na nc (dlqSubjectFor cfg ev) ready count dead" and nc: "nt_nc s = Some nc"
    and rdy: "ready (nt_server s) = m # q" and mr: "nc_maxRetries cfg = Some mr"
    and ok: "nats_ok (nats_event_handlers s ev) m (nt_world s) = (False, w')"
    and msg: "msg = \<lparr>nm_data = m, nm_deliveryCount = Some (count (nt_server s))\<rparr>"
  shows "\<exists>b' s1. consumeMessage cfg na ev msg s = s1\<lparr>nt_server := b'\<rparr> \<and>
    (if mr \<le> count (nt_server s)
     then ready b' = q \<and> count b' = 1 \<and> dead b' = dead (nt_server s) @ [m]
     else ready b' = m # q \<and> count b' = count (nt_server s) + 1 \<and> dead b' = dead (nt_server s)) \<and>
    nt_world s1 = w' \<and> nt_nc s1 = nt_nc s \<and> nt_handlers s1 = nt_handlers s"
proof -
  let ?c = "count (nt_server s)"
  obtain v where v: "json_parse m = Some v" using ok by (cases "json_parse m") (auto simp: nats_ok_def)
  obtain r s1 where h: "nats_handleMessage ev (or_else (json_text v) []) s = (r, s1)"
    by (cases "nats_handleMessage ev (or_else (json_text v) []) s")
  note fr = nats_handleMessage_frame [OF h]
  have hw: "isl r \<and> nt_world s1 = w'"
    using ok v h
    by (auto simp: nats_ok_def nats_handleMessage_def nats_event_handlers_def
        split: option.splits prod.splits; metis isl_def old.unit.exhaust sum.exhaust_sel)
  then obtain e where r: "r = Inl e" by (cases r) auto
  show ?thesis
  proof (cases "mr \<le> ?c")
    case True
    let ?hdrs = "[(''noddde-original-subject'', subjectFor cfg ev), (''noddde-delivery-count'', int_string ?c)]"
    obtain b1 where b1: "na_publish na nc (dlqSubjectFor cfg ev) m ?hdrs (nt_server s1) = (Inr (), b1)"
        "ready b1 = ready (nt_server s1)" "count b1 = count (nt_server s1)" "dead b1 = dead (nt_server s1) @ [m]"
      by (rule consumer_publishE [OF laws])
    then have "ready b1 = m # q" using rdy fr by simp
    then obtain b2 where b2: "na_term na msg b1 = (Inr (), b2)" "ready b2 = q" "count b2 = 1" "dead b2 = dead b1"
      unfolding msg by (rule consumer_termE [OF laws])
    have "consumeMessage cfg na ev msg s = s1\<lparr>nt_server := b2\<rparr>"
      using v h r mr True msg b1 b2 fr nc
      by (simp add: consumeMessage_def publishToDeadLetter_def on_server_def swallow_def Let_def)
    with b1 b2 fr hw True show ?thesis by (intro exI [of _ b2] exI [of _ s1]) simp
  next
    case False
    have "ready (nt_server s1) = m # q" using rdy fr by simp
    then obtain b1 where b1: "na_nak na msg (computeNakDelayMs ?c) (nt_server s1) = (Inr (), b1)" "ready b1 = m # q"
        "count b1 = count (nt_server s1) + 1" "dead b1 = dead (nt_server s1)"
      unfolding msg by (rule consumer_nakE [OF laws])
    have "consumeMessage cfg na ev msg s = s1\<lparr>nt_server := b1\<rparr>"
      using v h r mr False msg b1 by (simp add: consumeMessage_def on_server_def swallow_def Let_def)
    with b1 fr hw False show ?thesis by (intro exI [of _ b1] exI [of _ s1]) simp
  qed
qed

definition nats_deliver ::
  "nats_config \<Rightarrow> 'b nats_api \<Rightarrow> string \<Rightarrow> ('b \<Rightarrow> int) \<Rightarrow> string \<Rightarrow> ('w, 'b) nats \<Rightarrow> ('w, 'b) nats" where
  "nats_deliver cfg na ev count m s =
     consumeMessage cfg na ev \<lparr>nm_data = m, nm_deliveryCount = Some (count (nt_server s))\<rparr> s"

lemma nats_redelivery:
  fixes s0 :: "('w, 'b) nats"
  assumes laws: "consumer_laws na nc (dlqSubjectFor cfg ev) ready count dead"
    and mr: "nc_maxRetries cfg = Some (int mr)" "0 < mr"
  shows "redelivery (nats_deliver cfg na ev count) (\<lambda>s. ready (nt_server s)) (\<lambda>s. dead (nt_server s))
    (unless_accepted id) nt_world (\<lambda>s. count (nt_server s)) 1 (\<lambda>m n k. k + int n = int mr + 1 \<and> 0 < n)
    (nats_ok (nats_event_handlers s0 ev))
    (\<lambda>s. nt_nc s = Some nc \<and> nats_event_handlers s ev = nats_event_handlers s0 ev) mr UNIV"
proof (unfold_locales, goal_cases)
  case (1 m)
  with mr show ?case by simp
next
  case (2 s m q)
  obtain b w' where d: "nats_ok (nats_event_handlers s ev) m (nt_world s) = (b, w')"
    by (cases "nats_ok (nats_event_handlers s ev) m (nt_world s)")
  have "nt_nc (nats_deliver cfg na ev count m s) = nt_nc s \<and> nt_handlers (nats_deliver cfg na ev count m s) = nt_handlers s"
  proof (cases b)
    case True
    with d have "nats_ok (nats_event_handlers s ev) m (nt_world s) = (True, w')" by simp
    from consume_accepted [OF laws 2(2) this refl, of cfg "Some (count (nt_server s))"]
    show ?thesis by (auto simp: nats_deliver_def)
  next
    case False
    with d have "nats_ok (nats_event_handlers s ev) m (nt_world s) = (False, w')" by simp
    from consume_refused [OF laws _ 2(2) mr(1) this refl] 2(1) show ?thesis by (auto simp: nats_deliver_def)
  qed
  with 2(1) show ?case by (simp add: nats_event_handlers_def)
next
  case (3 s m q n w')
  then have "nats_ok (nats_event_handlers s ev) m (nt_world s) = (True, w')" by simp
  from consume_accepted [OF laws 3(2) this refl, of cfg "Some (count (nt_server s))"]
  show ?case by (auto simp: nats_deliver_def)
next
  case (4 s m q n w')
  then have "nats_ok (nats_event_handlers s ev) m (nt_world s) = (False, w')" by simp
  from consume_refused [OF laws _ 4(2) mr(1) this refl] 4(1) obtain b' s1 where
    c: "nats_deliver cfg na ev count m s = s1\<lparr>nt_server := b'\<rparr>"
      "if int mr \<le> count (nt_server s)
       then ready b' = q \<and> count b' = 1 \<and> dead b' = dead (nt_server s) @ [m]
       else ready b' = m # q \<and> count b' = count (nt_server s) + 1 \<and> dead b' = dead (nt_server s)"
      "nt_world s1 = w'" by (auto simp: nats_deliver_def)
  have "int mr \<le> count (nt_server s) \<longleftrightarrow> n = 0" using 4(3) by auto
  with c 4(3) show ?case by (cases "n = 0") auto
next
  case (5 s m q)
  then show ?case by simp
qed

text \<open>C17: A NATS consumer is worked off. Let the retry limit be \<open>mr > 0\<close>, let the bus be configured
  with a \<^verbatim>\<open>prefetchCount\<close> of 1 (so that the server, which keeps at most that many messages
  outstanding, delivers nothing before a message waiting for its redelivery), and let the durable
  consumer and the handlers' promises settle as documented. Then \<open>mr + 1\<close> deliveries per message
  empty the consumer, whichever errors the handlers reject with: each message that parses is given
  to its handlers until they accept it, but at most \<open>mr\<close> times, in stream order; exactly the parsing
  messages they never accepted are on the dead-letter subject, once each, in order and with their
  original bytes. A message that does not parse is terminated and leaves no dead letter.\<close>
theorem nats_consumer_drains:
  fixes s :: "('w, 'b) nats"
  assumes "consumer_laws na nc (dlqSubjectFor cfg ev) ready count dead"
    and "nc_maxRetries cfg = Some (int mr)" and "0 < mr" and "nc_prefetchCount cfg = Some 1"
    and "nt_nc s = Some nc" and "ready (nt_server s) = q" and "count (nt_server s) = 1"
    and "work_off mr (nats_ok (nats_event_handlers s ev)) (unless_accepted id) q (nt_world s) = (ds, w')"
    and "\<forall>i \<in> set picks. int i < or_else (nc_prefetchCount cfg) 256" and "length picks = (mr + 1) * length q"
    and "s' = serve (\<lambda>s. ready (nt_server s)) (nats_deliver cfg na ev count) picks s"
  shows "ready (nt_server s') = [] \<and> dead (nt_server s') = dead (nt_server s) @ ds \<and> nt_world s' = w'"
proof -
  note rd = nats_redelivery [OF assms(1-3), where ?s0.0 = s]
  have "s' = pump (\<lambda>s. ready (nt_server s)) (nats_deliver cfg na ev count) ((mr + 1) * length q) s"
    using assms(4,9,10,11) by (simp add: serve_one)
  with redelivery.queue_drains [OF rd _ assms(6) subset_UNIV assms(7,8)] assms(5) show ?thesis
    by (simp add: redelivery.settled_as_def [OF rd])
qed

record consumer_server =
  sv_ready :: "string list"
  sv_count :: int
  sv_dead :: "string list"
  sv_subscriptions :: "nats_subscription list"
  sv_published :: "(string \<times> string) list"

definition consumer_api :: "string \<Rightarrow> consumer_server nats_api" where
  "consumer_api dlq =
     \<lparr>na_connect = (\<lambda>_ _. ret 0), na_jetstreamManager = (\<lambda>_. ret ()), na_streamInfo = (\<lambda>_ _. ret ()),
      na_streamAdd = (\<lambda>_ _ _. ret ()),
      na_subscribe = (\<lambda>_ sub b. (Inr (), b\<lparr>sv_subscriptions := sv_subscriptions b @ [sub]\<rparr>)),
      na_publish = (\<lambda>_ subj raw _ b. (Inr (), if subj = dlq then b\<lparr>sv_dead := sv_dead b @ [raw]\<rparr>
                                           else b\<lparr>sv_published := sv_published b @ [(subj, raw)]\<rparr>)),
      na_isClosed = (\<lambda>_ _. False), na_drain = (\<lambda>_. ret ()),
      na_ack = (\<lambda>_ b. (Inr (), b\<lparr>sv_ready := tl (sv_ready b), sv_count := 1\<rparr>)),
      na_nak = (\<lambda>_ _ b. (Inr (), b\<lparr>sv_count := sv_count b + 1\<rparr>)),
      na_term = (\<lambda>_ b. (Inr (), b\<lparr>sv_ready := tl (sv_ready b), sv_count := 1\<rparr>))\<rparr>"

lemma consumer_api_laws: "consumer_laws (consumer_api dlq) nc dlq sv_ready sv_count sv_dead"
  by (simp add: consumer_laws_def consumer_api_def)

definition sample_nats :: nats_config where
  "sample_nats = \<lparr>nc_consumerGroup = ''svc'', nc_streamName = None, nc_subjectPrefix = Some ''app.'',
     nc_prefetchCount = Some 1, nc_maxRetries = Some 2, nc_maxAttempts = None, nc_initialDelayMs = None\<rparr>"

definition json_sample :: "int \<Rightarrow> string" where
  "json_sample n = or_else (json_text (JObj [(''name'', JStr ''E''), (''payload'', JNum n)])) []"

definition refuse_one :: "nat bhandler" where
  "refuse_one = \<lparr>bh_name = ''refuse_one'',
     bh_run = (\<lambda>v w. (if js_prop v ''payload'' = JNum 1 then Inl (UserError ''one'') else Inr (), w + 1))\<rparr>"

definition nats_sample_bus :: "(nat, consumer_server) nats" where
  "nats_sample_bus = \<lparr>nt_nc = Some 0, nt_connected = True, nt_closed = False,
     nt_handlers = [(''E'', [refuse_one])], nt_subscribed = [''E''], nt_log = [], nt_world = 0,
     nt_server = \<lparr>sv_ready = [json_sample 1, ''not json'', json_sample 2], sv_count = 1, sv_dead = [],
                  sv_subscriptions = [], sv_published = []\<rparr>\<rparr>"

interpretation sample_consumer: redelivery "nats_deliver sample_nats (consumer_api (dlqSubjectFor sample_nats ''E'')) ''E'' sv_count"
  "\<lambda>s. sv_ready (nt_server s)" "\<lambda>s. sv_dead (nt_server s)" "unless_accepted id" nt_world "\<lambda>s. sv_count (nt_server s)" 1
  "\<lambda>m n k. k + int n = int 2 + 1 \<and> 0 < n" "nats_ok (nats_event_handlers nats_sample_bus ''E'')"
  "\<lambda>s. nt_nc s = Some 0 \<and> nats_event_handlers s ''E'' = nats_event_handlers nats_sample_bus ''E''" 2 UNIV
  by (rule nats_redelivery [OF consumer_api_laws]) (simp_all add: sample_nats_def)

theorem nats_consumer_drains_witness:
  "let s' = serve (\<lambda>s. sv_ready (nt_server s))
        (nats_deliver sample_nats (consumer_api (dlqSubjectFor sample_nats ''E'')) ''E'' sv_count)
        (replicate 9 0) nats_sample_bus
   in sv_ready (nt_server s') = [] \<and> sv_dead (nt_server s') = [json_sample 1] \<and> nt_world s' = 3"
proof -
  let ?q = "[json_sample 1, ''not json'', json_sample 2]"
  have cfg: "nc_maxRetries sample_nats = Some (int 2)" "nc_prefetchCount sample_nats = Some 1"
    by (simp_all add: sample_nats_def)
  have q: "nt_nc nats_sample_bus = Some 0" "sv_ready (nt_server nats_sample_bus) = ?q"
      "sv_count (nt_server nats_sample_bus) = 1" by (simp_all add: nats_sample_bus_def)
  have w: "work_off 2 (nats_ok (nats_event_handlers nats_sample_bus ''E'')) (unless_accepted id) ?q (nt_world nats_sample_bus) =
      ([json_sample 1], 3)" by code_simp
  have n: "\<forall>i \<in> set (replicate 9 0). int i < or_else (nc_prefetchCount sample_nats) 256"
      "length (replicate 9 (0 :: nat)) = (2 + 1) * length ?q" by (simp_all add: cfg(2))
  from nats_consumer_drains [OF consumer_api_laws cfg(1) _ cfg(2) q w n refl] show ?thesis
    by (simp add: nats_sample_bus_def Let_def)
qed

section \<open>Subjects\<close>

text \<open>The stream covers what is published. Let a subject filter ending in \<^verbatim>\<open>.>\<close> match
  the subjects that continue it by at least one character. Then, when the bus builds the subjects of
  its stream, every subject it publishes an event to, and every dead-letter subject, is covered by
  the stream if the configured prefix ends with a dot; if it does not, the stream is created for the
  prefix with a dot added while events are published without it, and no event whose name does not
  itself start with a dot is covered.\<close>
lemma nats_stream_covers:
  assumes "buildSubjectsForStream cfg = Inr subjects"
    and "\<And>p subj. covers (p @ ''>'') subj \<longleftrightarrow> (\<exists>t. t \<noteq> [] \<and> subj = p @ t)"
  shows "\<exists>subject. subjects = [subject] \<and>
    (ends_with_dot (or_else (nc_subjectPrefix cfg) []) \<longrightarrow>
       (\<forall>n. n \<noteq> [] \<longrightarrow> covers subject (subjectFor cfg n)) \<and> (\<forall>n. covers subject (dlqSubjectFor cfg n))) \<and>
    (\<not> ends_with_dot (or_else (nc_subjectPrefix cfg) []) \<longrightarrow>
       (\<forall>n. hd (n @ ''x'') \<noteq> CHR ''.'' \<longrightarrow> \<not> covers subject (subjectFor cfg n)))"
proof -
  let ?p = "or_else (nc_subjectPrefix cfg) []"
  let ?n = "if ends_with_dot ?p then ?p else ?p @ ''.''"
  have sub: "subjects = [?n @ ''>'']"
    using assms(1) by (auto simp: buildSubjectsForStream_def Let_def split: if_splits)
  have "\<not> covers (?n @ ''>'') (subjectFor cfg n)" if "\<not> ends_with_dot ?p" "hd (n @ ''x'') \<noteq> CHR ''.''" for n
    using that unfolding assms(2) by (auto simp: subjectFor_def)
  moreover have "covers (?n @ ''>'') (subjectFor cfg n)" if "ends_with_dot ?p" "n \<noteq> []" for n
    using that unfolding assms(2) by (simp add: subjectFor_def)
  moreover have "covers (?n @ ''>'') (dlqSubjectFor cfg n)" if "ends_with_dot ?p" for n
    using that unfolding assms(2) by (simp add: dlqSubjectFor_def)
  ultimately show ?thesis using sub by (intro exI [of _ "?n @ ''>''"]) blast
qed

definition sample_covers :: "string \<Rightarrow> string \<Rightarrow> bool" where
  "sample_covers f subj \<longleftrightarrow> f \<noteq> [] \<and> last f = CHR ''>'' \<and> length f \<le> length subj \<and>
     take (length f - 1) subj = butlast f"

lemma sample_covers_law: "sample_covers (p @ ''>'') subj \<longleftrightarrow> (\<exists>t. t \<noteq> [] \<and> subj = p @ t)"
proof
  assume "sample_covers (p @ ''>'') subj"
  then have "take (length p) subj = p" "length p < length subj" by (simp_all add: sample_covers_def)
  then have "drop (length p) subj \<noteq> [] \<and> subj = p @ drop (length p) subj" by (metis append_take_drop_id drop_eq_Nil linorder_not_less)
  then show "\<exists>t. t \<noteq> [] \<and> subj = p @ t" by blast
qed (auto simp: sample_covers_def Suc_le_eq)

lemma nats_stream_covers_sample:
  "sample_covers ''app.>'' (subjectFor sample_nats ''E'') \<and> buildSubjectsForStream sample_nats = Inr [''app.>''] \<and>
   (let cfg = sample_nats\<lparr>nc_subjectPrefix := Some ''app''\<rparr> in
      buildSubjectsForStream cfg = Inr [''app.>''] \<and> \<not> sample_covers ''app.>'' (subjectFor cfg ''E''))"
proof -
  let ?cfg = "sample_nats\<lparr>nc_subjectPrefix := Some ''app''\<rparr>"
  have b: "buildSubjectsForStream sample_nats = Inr [''app.>'']" "buildSubjectsForStream ?cfg = Inr [''app.>'']"
    by (simp_all add: buildSubjectsForStream_def sample_nats_def ends_with_dot_def)
  have "ends_with_dot (or_else (nc_subjectPrefix sample_nats) [])" "\<not> ends_with_dot (or_else (nc_subjectPrefix ?cfg) [])"
    by (simp_all add: sample_nats_def ends_with_dot_def)
  moreover have "hd (''E'' @ ''x'') \<noteq> CHR ''.''" by simp
  ultimately show ?thesis
    using nats_stream_covers [OF b(1) sample_covers_law] nats_stream_covers [OF b(2) sample_covers_law] b
    unfolding Let_def by blast
qed

text \<open>Two event names that differ only in characters a durable name cannot have share a durable
  consumer.\<close>

lemma durable_collision: "durable_name cfg ''order.placed'' = durable_name cfg ''order_placed''"
  by (simp add: durable_name_def sanitize_def is_name_char_def Let_def)

lemma nak_delay_bounds: "500 \<le> computeNakDelayMs n \<and> computeNakDelayMs n \<le> 30000"
proof -
  have "(1::int) \<le> 2 ^ k" for k :: nat by simp
  then have "500 * 1 \<le> 500 * (2::int) ^ nat (max 0 (n - 1))" by (rule mult_left_mono) simp
  then show ?thesis by (simp add: computeNakDelayMs_def)
qed

lemma nak_delay_mono: "m \<le> n \<Longrightarrow> computeNakDelayMs m \<le> computeNakDelayMs n"
proof -
  assume "m \<le> n"
  then have "nat (max 0 (m - 1)) \<le> nat (max 0 (n - 1))" by auto
  then have "(2::int) ^ nat (max 0 (m - 1)) \<le> 2 ^ nat (max 0 (n - 1))" by (rule power_increasing) simp
  then show ?thesis unfolding computeNakDelayMs_def by (intro min.mono mult_left_mono) simp_all
qed

section \<open>Connecting\<close>

text \<open>Once \<^verbatim>\<open>connect()\<close> has its connection the bus counts as connected, also when the
  stream or a subscription then fails: calling it again does nothing.\<close>

lemma failed_connect_sticks:
  fixes s :: "('w, 'b) nats"
  assumes "nats_connect cfg na s = (Inl e, s')" and "\<not> nt_connected s"
    and "na_connect na (or_else (nc_maxAttempts cfg) (- 1)) (or_else (nc_initialDelayMs cfg) 2000) (nt_server s) = (Inr nc, b)"
  shows "nats_connect cfg na s' = (Inr (), s')"
proof -
  have k: "nt_connected (snd (on_server m s)) = nt_connected s" for m :: "('b, unit) action" and s :: "('w, 'b) nats"
    by (simp add: on_server_def split: prod.splits)
  have k1: "keeps nt_connected (on_server m)" for m :: "('b, unit) action"
    by (auto simp: keeps_def on_server_def split: prod.splits)
  have "keeps nt_connected (ensureStream cfg na nc :: (('w, 'b) nats, unit) action)"
    unfolding ensureStream_def by (cases "nc_streamName cfg") (auto intro!: keeps_intros k1)
  moreover have "nt_connected (snd (createSubscriptionForEvent cfg na n True s)) = nt_connected s" for n and s :: "('w, 'b) nats"
    using k by (simp add: createSubscriptionForEvent_def Let_def split: option.splits)
  then have "keeps nt_connected (\<lambda>s :: ('w, 'b) nats. createSubscriptionForEvent cfg na n True (s\<lparr>nt_subscribed := set_add n (nt_subscribed s)\<rparr>))"
    for n by (simp add: keeps_def)
  then have "keeps nt_connected (for_each (\<lambda>n (s :: ('w, 'b) nats). createSubscriptionForEvent cfg na n True
       (s\<lparr>nt_subscribed := set_add n (nt_subscribed s)\<rparr>)) ns)" for ns by (rule keeps_for_each)
  then have "keeps nt_connected (activateSubscriptions cfg na :: (('w, 'b) nats, unit) action)" by (simp add: keeps_def activateSubscriptions_def)
  ultimately have "keeps nt_connected (then_act (ensureStream cfg na nc) (activateSubscriptions cfg na) :: (('w, 'b) nats, unit) action)"
    by (rule keeps_then)
  moreover have "then_act (ensureStream cfg na nc) (activateSubscriptions cfg na)
      (s\<lparr>nt_server := b, nt_nc := Some nc, nt_connected := True\<rparr>) = (Inl e, s')"
    using assms by (simp add: nats_connect_def bind_act_def on_server_def)
  ultimately have "nt_connected s'" by (auto dest: keepsD)
  then show ?thesis by (simp add: nats_connect_def)
qed

end
