(* ===== verification/Sql.thy ===== *)
theory Sql
  imports Json "HOL-Library.Multiset"
begin

text \<open>
  What the database adapters (\<^verbatim>\<open>packages/adapters/drizzle\<close>, \<^verbatim>\<open>typeorm\<close>,
  \<^verbatim>\<open>prisma\<close>) share: recognising a unique-constraint violation in a driver's error
  (\<^verbatim>\<open>errors.ts\<close>), the affected-row count of an update (\<^verbatim>\<open>rows-affected.ts\<close>), the
  executor of the current transaction, and the insert-or-update of a versioned row. The tables are
  third-party code: \<open>sql_table\<close> is their interface as the adapters call it, and the locale
  \<open>sql_semantics\<close> the documented behaviour of SQL statements the adapters rely on.
\<close>

section \<open>Driver errors\<close>

text \<open>\<^verbatim>\<open>/a|b|.../i.test(message)\<close>, for alternatives without special characters.\<close>

definition matches_i :: "string list \<Rightarrow> string \<Rightarrow> bool" where
  "matches_i alternatives message \<longleftrightarrow>
     list_ex (\<lambda>a. str_includes (map lower_char message) (map lower_char a)) alternatives"

text \<open>\<^verbatim>\<open>error.message\<close>, where it is a string.\<close>

definition error_message :: "error \<Rightarrow> string option" where
  "error_message e = (case e of DriverFailure d \<Rightarrow> de_message d | UserError m \<Rightarrow> Some m | _ \<Rightarrow> None)"

definition sql_code :: "driver_error \<Rightarrow> bool" where
  "sql_code d \<longleftrightarrow> de_code d = Some ''23505'' \<or>
     de_code d = Some ''ER_DUP_ENTRY'' \<or> de_errno d = Some 1062 \<or>
     (case de_code d of Some c \<Rightarrow> starts_with c ''SQLITE_CONSTRAINT'' | None \<Rightarrow> False)"

definition isUniqueViolation :: "error \<Rightarrow> bool" where
  "isUniqueViolation e \<longleftrightarrow>
     (case e of DriverFailure d \<Rightarrow> sql_code d | _ \<Rightarrow> False) \<or>
     matches_i [''UNIQUE constraint failed'', ''unique constraint'', ''Duplicate entry'', ''duplicate key'']
       (or_else (error_message e) [])"

definition hasUniqueViolationCode :: "driver_error \<Rightarrow> bool" where
  "hasUniqueViolationCode d \<longleftrightarrow>
     sql_code d \<or> de_number d = Some 2627 \<or> de_number d = Some 2601"

definition typeorm_isUniqueViolation :: "error \<Rightarrow> bool" where
  "typeorm_isUniqueViolation e \<longleftrightarrow>
     (case e of
        DriverFailure d \<Rightarrow>
          hasUniqueViolationCode d \<or>
          (case de_driverError d of Some d' \<Rightarrow> hasUniqueViolationCode d' | None \<Rightarrow> False) \<or>
          matches_i [''UNIQUE'', ''duplicate'', ''unique'']
            (case de_message d of
               Some m \<Rightarrow> m
             | None \<Rightarrow> or_else (Option.bind (de_driverError d) de_message) [])
      | _ \<Rightarrow> matches_i [''UNIQUE'', ''duplicate'', ''unique''] (or_else (error_message e) []))"

text \<open>\<^verbatim>\<open>error instanceof Error && "code" in error && error.code === "P2002"\<close>\<close>

definition prisma_unique :: "error \<Rightarrow> bool" where
  "prisma_unique e \<longleftrightarrow> (case e of DriverFailure d \<Rightarrow> de_code d = Some ''P2002'' | _ \<Rightarrow> False)"

text \<open>The message tests of the saga stores of Drizzle and TypeORM.\<close>

definition saga_unique_message :: "error \<Rightarrow> bool" where
  "saga_unique_message e \<longleftrightarrow>
     (let message = or_else (error_message e) []
      in str_includes message ''UNIQUE constraint failed'' \<or> str_includes message ''unique constraint'' \<or>
         str_includes message ''Duplicate entry'' \<or> str_includes message ''duplicate key'')"

definition typeorm_saga_unique :: "error \<Rightarrow> bool" where
  "typeorm_saga_unique e \<longleftrightarrow>
     matches_i [''UNIQUE'', ''duplicate'', ''unique''] (or_else (error_message e) [])"

section \<open>The result of an update\<close>

text \<open>The properties under which a driver or an ORM reports the affected rows; \<open>ur_first\<close> is
  \<^verbatim>\<open>result[0].affectedRows\<close>, \<open>ur_affected\<close> TypeORM's.\<close>

record update_result =
  ur_rowsAffected :: "int option"
  ur_changes :: "int option"
  ur_rowCount :: "int option"
  ur_count :: "int option"
  ur_affectedRows :: "int option"
  ur_first :: "int option"
  ur_affected :: "int option"

definition nothing_reported :: update_result where
  "nothing_reported = \<lparr>ur_rowsAffected = None, ur_changes = None, ur_rowCount = None,
     ur_count = None, ur_affectedRows = None, ur_first = None, ur_affected = None\<rparr>"

definition getRowsAffected :: "update_result \<Rightarrow> int" where
  "getRowsAffected r =
     or_else (ur_rowsAffected r) (or_else (ur_changes r) (or_else (ur_rowCount r)
       (or_else (ur_count r) (or_else (ur_affectedRows r) (or_else (ur_first r) 0)))))"

text \<open>The saga store of Drizzle has its own copy of the chain, without \<^verbatim>\<open>count\<close>.\<close>

definition saga_rowsAffected :: "update_result \<Rightarrow> int" where
  "saga_rowsAffected r =
     or_else (ur_rowsAffected r) (or_else (ur_changes r) (or_else (ur_rowCount r)
       (or_else (ur_affectedRows r) (or_else (ur_first r) 0))))"

section \<open>Tables and executors\<close>

text \<open>
  The statements the adapters issue, on an executor: \<^verbatim>\<open>insert(table).values(rows)\<close>,
  \<^verbatim>\<open>createMany\<close>, \<^verbatim>\<open>create\<close>, \<^verbatim>\<open>repo.insert\<close>;
  \<^verbatim>\<open>select().from(table).where(p)\<close>, \<^verbatim>\<open>find\<close>, \<^verbatim>\<open>findMany\<close>, with an
  optional \<^verbatim>\<open>orderBy\<close> key and an optional limit; \<^verbatim>\<open>update(table).set(f).where(p)\<close>,
  \<^verbatim>\<open>updateMany\<close>; \<^verbatim>\<open>delete(table).where(p)\<close>, \<^verbatim>\<open>deleteMany\<close>; and TypeORM's
  \<^verbatim>\<open>repo.save(rows)\<close>.
\<close>

record ('ex, 'r, 'w) sql_table =
  sql_insert :: "'ex \<Rightarrow> 'r list \<Rightarrow> ('w, unit) action"
  sql_select :: "'ex \<Rightarrow> ('r \<Rightarrow> bool) \<Rightarrow> ('r \<Rightarrow> int) option \<Rightarrow> int option \<Rightarrow> ('w, 'r list) action"
  sql_update :: "'ex \<Rightarrow> ('r \<Rightarrow> bool) \<Rightarrow> ('r \<Rightarrow> 'r) \<Rightarrow> ('w, update_result) action"
  sql_delete :: "'ex \<Rightarrow> ('r \<Rightarrow> bool) \<Rightarrow> ('w, unit) action"
  sql_save :: "'ex \<Rightarrow> 'r list \<Rightarrow> ('w, unit) action"

text \<open>A store is built on a database handle; \<^verbatim>\<open>txStore.als.getStore()\<close> is the handle of the
  transaction the call runs in, if there is one.\<close>

record 'ex sql_connection =
  sc_db :: 'ex
  sc_als :: "'ex option"

definition getExecutor :: "'ex sql_connection \<Rightarrow> 'ex" where
  "getExecutor c = or_else (sc_als c) (sc_db c)"

section \<open>Documented behaviour of SQL statements\<close>

text \<open>\<open>key\<close> is unique among the rows of a table.\<close>

definition unique_key :: "('r \<Rightarrow> 'k) \<Rightarrow> 'r multiset \<Rightarrow> bool" where
  "unique_key key M \<longleftrightarrow> (\<forall>k. size (filter_mset (\<lambda>r. key r = k) M) \<le> 1)"

text \<open>
  \<open>rows\<close> reads a table out of the world as the executor sees it, \<open>key\<close> is its unique index,
  \<open>fits\<close> its column constraints, \<open>stored\<close> relates a row as written to the row as kept (generated
  columns, the driver's encoding), \<open>dup\<close> holds of every error the driver reports a unique violation
  with, and \<open>no_row\<close> of the update results that report no affected row. An insert is all or nothing; without \<open>ORDER BY\<close> the order of a
  result is unspecified, and rows with equal sort keys come in any order.
\<close>

locale sql_semantics =
  fixes tb :: "('ex, 'r, 'w) sql_table" and ex :: 'ex
    and rows :: "'w \<Rightarrow> 'r multiset" and key :: "'r \<Rightarrow> 'k"
    and fits :: "'r \<Rightarrow> bool" and stored :: "'r \<Rightarrow> 'r \<Rightarrow> bool"
    and dup :: "error \<Rightarrow> bool" and no_row :: "update_result \<Rightarrow> bool"
  assumes stored_key: "stored r r' \<Longrightarrow> key r' = key r"
    and insert_ok: "list_all fits rs \<Longrightarrow> unique_key key (rows w + mset rs) \<Longrightarrow>
      \<exists>w' rs'. sql_insert tb ex rs w = (Inr (), w') \<and> list_all2 stored rs rs' \<and>
        rows w' = rows w + mset rs'"
    and insert_dup: "list_all fits rs \<Longrightarrow> \<not> unique_key key (rows w + mset rs) \<Longrightarrow>
      \<exists>e w'. sql_insert tb ex rs w = (Inl e, w') \<and> dup e \<and> rows w' = rows w"
    and select_rows: "(case lim of None \<Rightarrow> True | Some n \<Rightarrow> 0 \<le> n) \<Longrightarrow>
      \<exists>rs all. sql_select tb ex p ord lim w = (Inr rs, w) \<and>
        mset all = filter_mset p (rows w) \<and>
        (case ord of None \<Rightarrow> True | Some f \<Rightarrow> sorted (map f all)) \<and>
        rs = (case lim of None \<Rightarrow> all | Some n \<Rightarrow> take (nat n) all)"
    and update_rows: "(\<And>r. key (f r) = key r) \<Longrightarrow>
      \<forall>r \<in># rows w. p r \<longrightarrow> fits (f r) \<Longrightarrow>
      \<exists>w' res g. sql_update tb ex p f w = (Inr res, w') \<and>
        (no_row res \<longleftrightarrow> filter_mset p (rows w) = {#}) \<and> (\<forall>r. stored (f r) (g r)) \<and>
        rows w' = image_mset (\<lambda>r. if p r then g r else r) (rows w)"
    and delete_rows: "\<exists>w'. sql_delete tb ex p w = (Inr (), w') \<and>
        rows w' = filter_mset (\<lambda>r. \<not> p r) (rows w)"
begin

lemma unique_filter:
  assumes "unique_key key (rows w)"
  obtains "filter_mset (\<lambda>r. key r = k) (rows w) = {#}"
    | r where "filter_mset (\<lambda>r. key r = k) (rows w) = {#r#}"
proof -
  have "size (filter_mset (\<lambda>r. key r = k) (rows w)) \<le> 1"
    using assms by (simp add: unique_key_def)
  then consider "size (filter_mset (\<lambda>r. key r = k) (rows w)) = 0"
    | "size (filter_mset (\<lambda>r. key r = k) (rows w)) = 1" by linarith
  then show thesis
    using that size_1_singleton_mset by cases auto
qed

lemma select_all:
  "\<exists>rs. sql_select tb ex p None None w = (Inr rs, w) \<and> mset rs = filter_mset p (rows w)"
  using select_rows [of None p None w] by auto

lemma select_sorted:
  "\<exists>rs. sql_select tb ex p (Some f) None w = (Inr rs, w) \<and> mset rs = filter_mset p (rows w) \<and>
     sorted (map f rs)"
  using select_rows [of None p "Some f" w] by auto

end

lemma size_filter_key: "size (filter_mset (\<lambda>r. key r = k) M) = count (image_mset key M) k"
  by (induction M) auto

lemma unique_key_count: "unique_key key M \<longleftrightarrow> (\<forall>k. count (image_mset key M) k \<le> 1)"
  by (simp add: unique_key_def size_filter_key)

lemma unique_key_add:
  "unique_key key (add_mset r M) \<longleftrightarrow> unique_key key M \<and> (\<forall>x \<in># M. key x \<noteq> key r)"
proof -
  let ?K = "image_mset key M"
  have "(\<forall>k. count (add_mset (key r) ?K) k \<le> 1) \<longleftrightarrow> (\<forall>k. count ?K k \<le> 1) \<and> count ?K (key r) = 0"
    (is "?l \<longleftrightarrow> ?r")
  proof
    assume l: ?l
    have "count ?K k \<le> count (add_mset (key r) ?K) k" for k by simp
    then have "count ?K k \<le> 1" for k using spec [OF l, of k] order_trans by blast
    moreover have "count ?K (key r) = 0" using spec [OF l, of "key r"] by simp
    ultimately show ?r by simp
  qed simp
  also have "count ?K (key r) = 0 \<longleftrightarrow> (\<forall>x \<in># M. key x \<noteq> key r)"
    unfolding count_eq_zero_iff by (simp add: image_iff) metis
  finally show ?thesis by (simp add: unique_key_count)
qed

lemma unique_key_cong:
  "image_mset key M = image_mset key N \<Longrightarrow> unique_key key M \<longleftrightarrow> unique_key key N"
  by (simp add: unique_key_count)

lemma stored_keys:
  assumes "\<And>r r'. stored r r' \<Longrightarrow> key r' = key r" and "list_all2 stored rs rs'"
  shows "image_mset key (mset rs') = image_mset key (mset rs)"
  using assms(2) by (induction rule: list_all2_induct) (auto simp: assms(1))

lemma unique_key_mset: "unique_key key (mset xs) \<longleftrightarrow> distinct (map key xs)"
  using distinct_count_atmost_1 [of "map key xs"]
  by (simp add: unique_key_count count_list_eq_length_filter flip: count_mset mset_map)
    (auto simp: le_Suc_eq count_eq_zero_iff image_iff)

text \<open>TypeORM's \<^verbatim>\<open>save\<close>: the row with the same primary key is overwritten, a new one
  inserted.\<close>

locale sql_upsert = sql_semantics +
  assumes save_row: "fits r \<Longrightarrow> \<exists>w' r'. sql_save tb ex [r] w = (Inr (), w') \<and> stored r r' \<and>
      rows w' = add_mset r' (filter_mset (\<lambda>x. key x \<noteq> key r) (rows w))"

subsection \<open>A table kept as a list\<close>

text \<open>The behaviour above is that of a list of rows; \<open>enc (Some n)\<close> is what a table of \<open>n\<close>
  rows keeps of a new one, \<open>enc None\<close> what it keeps of a changed one.\<close>

definition list_table ::
  "('r \<Rightarrow> 'k) \<Rightarrow> (nat option \<Rightarrow> 'r \<Rightarrow> 'r) \<Rightarrow> error \<Rightarrow> (nat \<Rightarrow> update_result) \<Rightarrow> ('ex, 'r, 'r list) sql_table" where
  "list_table key enc dup_error result =
    \<lparr>sql_insert = (\<lambda>_ rs w.
       if distinct (map key (w @ rs))
       then (Inr (), w @ map (\<lambda>(k, r). enc (Some (length w + k)) r) (enumerate 0 rs)) else (Inl dup_error, w)),
     sql_select = (\<lambda>_ p ord lim w.
       (let found = filter p w;
            all = (case ord of None \<Rightarrow> found | Some f \<Rightarrow> sort_key f found)
        in (Inr (case lim of None \<Rightarrow> all | Some n \<Rightarrow> take (nat n) all), w))),
     sql_update = (\<lambda>_ p f w.
       (Inr (result (length (filter p w))), map (\<lambda>r. if p r then enc None (f r) else r) w)),
     sql_delete = (\<lambda>_ p w. (Inr (), filter (\<lambda>r. \<not> p r) w)),
     sql_save = (\<lambda>_ rs w. (Inr (), fold (\<lambda>r w. enc None r # filter (\<lambda>x. key x \<noteq> key r) w) rs w))\<rparr>"

lemma list_table_semantics:
  fixes key :: "'r \<Rightarrow> 'k"
  assumes "\<And>r r'. stored r r' \<Longrightarrow> key r' = key r" and "\<And>n r. stored r (enc n r)"
    and "dup dup_error" and "\<And>n. no_row (result n) \<longleftrightarrow> n = 0"
  shows "sql_semantics (list_table key enc dup_error result) ex mset key fits stored dup no_row"
proof
  fix rs w :: "'r list" and p lim and ord :: "('r \<Rightarrow> int) option" and r r' and f :: "'r \<Rightarrow> 'r"
  let ?tb = "list_table key enc dup_error result"
  let ?all = "case ord of None \<Rightarrow> filter p w | Some f \<Rightarrow> sort_key f (filter p w)"
  show "stored r r' \<Longrightarrow> key r' = key r" by (rule assms(1))
  show "unique_key key (mset w + mset rs) \<Longrightarrow>
      \<exists>w' rs'. sql_insert ?tb ex rs w = (Inr (), w') \<and> list_all2 stored rs rs' \<and>
        mset w' = mset w + mset rs'"
  proof (intro exI conjI)
    let ?rs = "map (\<lambda>(k, r). enc (Some (length w + k)) r) (enumerate 0 rs)"
    assume "unique_key key (mset w + mset rs)"
    then have "distinct (map key (w @ rs))"
      using unique_key_mset [of key "w @ rs"] by simp
    then show "sql_insert ?tb ex rs w = (Inr (), w @ ?rs)" by (simp add: list_table_def)
    show "list_all2 stored rs ?rs"
      using assms(2) by (simp add: list_all2_conv_all_nth nth_enumerate_eq)
  qed simp
  show "\<not> unique_key key (mset w + mset rs) \<Longrightarrow>
      \<exists>e w'. sql_insert ?tb ex rs w = (Inl e, w') \<and> dup e \<and> mset w' = mset w"
    using unique_key_mset [of key "w @ rs"] assms(3) by (auto simp: list_table_def)
  show "\<exists>rs all. sql_select ?tb ex p ord lim w = (Inr rs, w) \<and>
        mset all = filter_mset p (mset w) \<and>
        (case ord of None \<Rightarrow> True | Some f \<Rightarrow> sorted (map f all)) \<and>
        rs = (case lim of None \<Rightarrow> all | Some n \<Rightarrow> take (nat n) all)"
    by (rule exI [of _ "case lim of None \<Rightarrow> ?all | Some n \<Rightarrow> take (nat n) ?all"], rule exI [of _ ?all])
      (simp add: list_table_def Let_def split: option.split)
  show "\<exists>w' res g. sql_update ?tb ex p f w = (Inr res, w') \<and>
        (no_row res \<longleftrightarrow> filter_mset p (mset w) = {#}) \<and> (\<forall>r. stored (f r) (g r)) \<and>
        mset w' = image_mset (\<lambda>r. if p r then g r else r) (mset w)"
    using assms(2,4)
    by (intro exI [of _ "\<lambda>r. enc None (f r)"] exI)
      (auto simp: list_table_def filter_empty_conv intro: arg_cong [of _ _ mset])
  show "\<exists>w'. sql_delete ?tb ex p w = (Inr (), w') \<and>
        mset w' = filter_mset (\<lambda>r. \<not> p r) (mset w)"
    by (simp add: list_table_def)
qed

lemma list_table_upsert:
  fixes key :: "'r \<Rightarrow> 'k"
  assumes "\<And>r r'. stored r r' \<Longrightarrow> key r' = key r" and "\<And>n r. stored r (enc n r)"
    and "dup dup_error" and "\<And>n. no_row (result n) \<longleftrightarrow> n = 0"
  shows "sql_upsert (list_table key enc dup_error result) ex mset key fits stored dup no_row"
proof (rule sql_upsert.intro)
  show "sql_semantics (list_table key enc dup_error result) ex mset key fits stored dup no_row"
    by (rule list_table_semantics) (fact assms)+
  show "sql_upsert_axioms (list_table key enc dup_error result) ex mset key fits stored"
    by unfold_locales (auto simp: list_table_def intro: assms(2))
qed

section \<open>Writing a versioned row\<close>

text \<open>
  The write every versioned store of the adapters performs: an insert with version 1 when the
  caller expects no row, otherwise an update restricted to the expected version; a unique violation
  or an update of no row is the conflict.
\<close>

definition versioned_write ::
  "('ex, 'r, 'w) sql_table \<Rightarrow> 'ex \<Rightarrow> (error \<Rightarrow> bool) \<Rightarrow> (update_result \<Rightarrow> bool) \<Rightarrow> error \<Rightarrow>
   'r \<Rightarrow> ('r \<Rightarrow> bool) \<Rightarrow> ('r \<Rightarrow> 'r) \<Rightarrow> int \<Rightarrow> ('w, unit) action" where
  "versioned_write tb ex is_dup no_row conflict fresh matching change expectedVersion =
     (if expectedVersion = 0
      then catch_act (sql_insert tb ex [fresh]) (\<lambda>e. if is_dup e then throw conflict else throw e)
      else bind_act (sql_update tb ex matching change)
             (\<lambda>res. if no_row res then throw conflict else ret ()))"

end
