(* ===== verification/Sql_State.thy ===== *)
theory Sql_State
  imports Sql Stores
begin

text \<open>
  The versioned stores of the database adapters: aggregate states, saga states and snapshots of
  \<^verbatim>\<open>drizzle/src/persistence.ts\<close>, \<^verbatim>\<open>typeorm/src/persistence.ts\<close> and
  \<^verbatim>\<open>prisma/src/persistence.ts\<close>. The three tables have the same columns up to the names
  of the first two.
\<close>

record state_row =
  sr_name :: string
  sr_id :: string
  sr_state :: jsval
  sr_version :: int

definition sr_key :: "state_row \<Rightarrow> string \<times> string" where
  "sr_key r = (sr_name r, sr_id r)"

section \<open>Encoding of a state column\<close>

text \<open>\<^verbatim>\<open>JSON.stringify(v)\<close>, \<^verbatim>\<open>undefined\<close> for \<^verbatim>\<open>undefined\<close>.\<close>

definition js_stringify :: "jsval \<Rightarrow> jsval" where
  "js_stringify v = (case json_text v of None \<Rightarrow> JUndef | Some t \<Rightarrow> JStr t)"

definition js_parse :: "string \<Rightarrow> error + jsval" where
  "js_parse s = (case json_parse s of None \<Rightarrow> Inl SyntaxError | Some v \<Rightarrow> Inr v)"

definition encode_state :: "bool \<Rightarrow> jsval \<Rightarrow> jsval" where
  "encode_state nativeJson state = (if nativeJson then state else js_stringify state)"

text \<open>\<^verbatim>\<open>typeof row.state === "string" ? JSON.parse(row.state) : row.state\<close>\<close>

definition decode_state :: "jsval \<Rightarrow> error + jsval" where
  "decode_state v = (case v of JStr s \<Rightarrow> js_parse s | _ \<Rightarrow> Inr v)"

section \<open>Reads\<close>

text \<open>\<^verbatim>\<open>null\<close> when no row matches, otherwise the first row with its state decoded.\<close>

definition read_row :: "(jsval \<Rightarrow> error + jsval) \<Rightarrow> state_row list \<Rightarrow> error + (jsval \<times> int) option" where
  "read_row decode rs =
     (case rs of [] \<Rightarrow> Inr None
      | r # _ \<Rightarrow> (case decode (sr_state r) of Inl e \<Rightarrow> Inl e | Inr st \<Rightarrow> Inr (Some (st, sr_version r))))"

definition sql_state_load ::
  "(jsval \<Rightarrow> error + jsval) \<Rightarrow> ('ex, state_row, 'w) sql_table \<Rightarrow> 'ex \<Rightarrow> string \<Rightarrow> string \<Rightarrow>
   ('w, (jsval \<times> int) option) action" where
  "sql_state_load decode tb ex n i =
     bind_act (sql_select tb ex (\<lambda>r. sr_name r = n \<and> sr_id r = i) None None)
       (\<lambda>rs. lift_result (read_row decode rs))"

definition sql_state_save ::
  "(error \<Rightarrow> bool) \<Rightarrow> (update_result \<Rightarrow> bool) \<Rightarrow> ('ex, state_row, 'w) sql_table \<Rightarrow> 'ex \<Rightarrow> string \<Rightarrow>
   string \<Rightarrow> jsval \<Rightarrow> int \<Rightarrow> ('w, unit) action" where
  "sql_state_save is_dup no_row tb ex n i serialized expectedVersion =
     versioned_write tb ex is_dup no_row (ConcurrencyError n (IDStr i) expectedVersion (-1))
       \<lparr>sr_name = n, sr_id = i, sr_state = serialized, sr_version = 1\<rparr>
       (\<lambda>r. sr_name r = n \<and> sr_id r = i \<and> sr_version r = expectedVersion)
       (\<lambda>r. r\<lparr>sr_state := serialized, sr_version := expectedVersion + 1\<rparr>) expectedVersion"

section \<open>Drizzle\<close>

text \<open>DrizzleStateStoredAggregatePersistence\<close>

definition dz_state_save ::
  "'ex sql_connection \<Rightarrow> ('ex, state_row, 'w) sql_table \<Rightarrow> bool \<Rightarrow> string \<Rightarrow> string \<Rightarrow> jsval \<Rightarrow> int \<Rightarrow>
   ('w, unit) action" where
  "dz_state_save c tb nativeJson aggregateName aggregateId state expectedVersion =
     sql_state_save isUniqueViolation (\<lambda>res. getRowsAffected res = 0) tb (getExecutor c)
       aggregateName aggregateId (encode_state nativeJson state) expectedVersion"

definition dz_state_load ::
  "'ex sql_connection \<Rightarrow> ('ex, state_row, 'w) sql_table \<Rightarrow> string \<Rightarrow> string \<Rightarrow>
   ('w, (jsval \<times> int) option) action" where
  "dz_state_load c tb = sql_state_load decode_state tb (getExecutor c)"

text \<open>DrizzleSagaPersistence: the conflict is recognised by the message alone, and the affected rows
  by a chain of its own.\<close>

definition dz_saga_save ::
  "'ex sql_connection \<Rightarrow> ('ex, state_row, 'w) sql_table \<Rightarrow> bool \<Rightarrow> string \<Rightarrow> string \<Rightarrow> jsval \<Rightarrow> int \<Rightarrow>
   ('w, unit) action" where
  "dz_saga_save c tb nativeJson sagaName sagaId state expectedVersion =
     sql_state_save saga_unique_message (\<lambda>res. saga_rowsAffected res = 0) tb (getExecutor c)
       sagaName sagaId (encode_state nativeJson state) expectedVersion"

definition dz_saga_load ::
  "'ex sql_connection \<Rightarrow> ('ex, state_row, 'w) sql_table \<Rightarrow> string \<Rightarrow> string \<Rightarrow>
   ('w, (jsval \<times> int) option) action" where
  "dz_saga_load c tb = sql_state_load decode_state tb (getExecutor c)"

text \<open>DrizzleSnapshotStore; \<open>tb = None\<close> is a schema without a snapshots table.\<close>

definition snapshot_of :: "jsval \<times> int \<Rightarrow> snapshot" where
  "snapshot_of p = \<lparr>sn_state = fst p, sn_version = snd p, sn_stateVersion = None\<rparr>"

definition dz_snap_load ::
  "'ex sql_connection \<Rightarrow> ('ex, state_row, 'w) sql_table option \<Rightarrow> string \<Rightarrow> string \<Rightarrow>
   ('w, snapshot option) action" where
  "dz_snap_load c tb n i =
     (case tb of None \<Rightarrow> ret None
      | Some table \<Rightarrow>
          bind_act (sql_state_load decode_state table (getExecutor c) n i)
            (\<lambda>p. ret (map_option snapshot_of p)))"

definition dz_snap_save ::
  "'ex sql_connection \<Rightarrow> ('ex, state_row, 'w) sql_table option \<Rightarrow> bool \<Rightarrow> string \<Rightarrow> string \<Rightarrow> snapshot \<Rightarrow>
   ('w, unit) action" where
  "dz_snap_save c tb nativeJson n i snap =
     (case tb of None \<Rightarrow> ret ()
      | Some table \<Rightarrow>
          let executor = getExecutor c;
              serialized =
                (if nativeJson then sn_state snap
                 else case sn_state snap of JStr s \<Rightarrow> JStr s | st \<Rightarrow> js_stringify st);
              here = (\<lambda>r. sr_name r = n \<and> sr_id r = i)
          in bind_act (sql_select table executor here None None)
               (\<lambda>existing.
                  if 0 < length existing
                  then bind_act (sql_update table executor here
                         (\<lambda>r. r\<lparr>sr_state := serialized, sr_version := sn_version snap\<rparr>)) (\<lambda>_. ret ())
                  else sql_insert table executor
                         [\<lparr>sr_name = n, sr_id = i, sr_state = serialized, sr_version = sn_version snap\<rparr>]))"

section \<open>TypeORM\<close>

text \<open>The state column is text: \<^verbatim>\<open>JSON.parse(row.state)\<close>.\<close>

definition decode_text :: "jsval \<Rightarrow> error + jsval" where
  "decode_text v = (case v of JStr s \<Rightarrow> js_parse s | _ \<Rightarrow> Inl SyntaxError)"

text \<open>TypeORMStateStoredAggregatePersistence\<close>

definition to_state_save ::
  "'ex sql_connection \<Rightarrow> ('ex, state_row, 'w) sql_table \<Rightarrow> string \<Rightarrow> string \<Rightarrow> jsval \<Rightarrow> int \<Rightarrow>
   ('w, unit) action" where
  "to_state_save c tb aggregateName aggregateId state expectedVersion =
     sql_state_save typeorm_isUniqueViolation (\<lambda>res. ur_affected res = Some 0) tb (getExecutor c)
       aggregateName aggregateId (js_stringify state) expectedVersion"

definition to_state_load ::
  "'ex sql_connection \<Rightarrow> ('ex, state_row, 'w) sql_table \<Rightarrow> string \<Rightarrow> string \<Rightarrow>
   ('w, (jsval \<times> int) option) action" where
  "to_state_load c tb = sql_state_load decode_text tb (getExecutor c)"

text \<open>TypeORMSagaPersistence. The save is a read followed by an unconditional \<^verbatim>\<open>repo.save\<close>:
  \<open>to_saga_find\<close> is the statement before the first suspension, \<open>to_saga_write\<close> the rest.
  \<^verbatim>\<open>repo.save\<close> of an entity that the read did not find looks the row up once more, and then
  issues an \<^verbatim>\<open>INSERT\<close>, which fails on the primary key when another one was faster, or
  overwrites a row that has appeared: \<open>to_saga_new\<close> is what follows its look-up.\<close>

definition to_saga_find ::
  "'ex sql_connection \<Rightarrow> ('ex, state_row, 'w) sql_table \<Rightarrow> string \<Rightarrow> string \<Rightarrow>
   ('w, state_row option) action" where
  "to_saga_find c tb sagaName sagaId =
     bind_act (sql_select tb (getExecutor c) (\<lambda>r. sr_name r = sagaName \<and> sr_id r = sagaId) None None)
       (\<lambda>rs. ret (case rs of [] \<Rightarrow> None | r # _ \<Rightarrow> Some r))"

definition to_saga_new ::
  "'ex sql_connection \<Rightarrow> ('ex, state_row, 'w) sql_table \<Rightarrow> string \<Rightarrow> string \<Rightarrow> jsval \<Rightarrow>
   state_row list \<Rightarrow> ('w, unit) action" where
  "to_saga_new c tb sagaName sagaId serialized found =
     (let row = \<lparr>sr_name = sagaName, sr_id = sagaId, sr_state = serialized, sr_version = 1\<rparr>
      in if found = [] then sql_insert tb (getExecutor c) [row] else sql_save tb (getExecutor c) [row])"

definition to_saga_error :: "string \<Rightarrow> string \<Rightarrow> int \<Rightarrow> error \<Rightarrow> ('w, unit) action" where
  "to_saga_error sagaName sagaId expectedVersion e =
     (if is_concurrency_error e then throw e
      else if typeorm_saga_unique e
      then throw (ConcurrencyError sagaName (IDStr sagaId) expectedVersion (-1))
      else throw e)"

definition to_saga_write ::
  "'ex sql_connection \<Rightarrow> ('ex, state_row, 'w) sql_table \<Rightarrow> string \<Rightarrow> string \<Rightarrow> jsval \<Rightarrow> int \<Rightarrow>
   state_row option \<Rightarrow> ('w, unit) action" where
  "to_saga_write c tb sagaName sagaId state expectedVersion existing =
     (let serialized = js_stringify state in
      catch_act
        (case existing of
           Some r \<Rightarrow>
             if sr_version r \<noteq> expectedVersion
             then throw (ConcurrencyError sagaName (IDStr sagaId) expectedVersion (sr_version r))
             else sql_save tb (getExecutor c)
                    [r\<lparr>sr_state := serialized, sr_version := expectedVersion + 1\<rparr>]
         | None \<Rightarrow>
             if expectedVersion \<noteq> 0
             then throw (ConcurrencyError sagaName (IDStr sagaId) expectedVersion 0)
             else bind_act (sql_select tb (getExecutor c) (\<lambda>r. sr_name r = sagaName \<and> sr_id r = sagaId) None None)
                    (to_saga_new c tb sagaName sagaId serialized))
        (to_saga_error sagaName sagaId expectedVersion))"

definition to_saga_save ::
  "'ex sql_connection \<Rightarrow> ('ex, state_row, 'w) sql_table \<Rightarrow> string \<Rightarrow> string \<Rightarrow> jsval \<Rightarrow> int \<Rightarrow>
   ('w, unit) action" where
  "to_saga_save c tb sagaName sagaId state expectedVersion =
     bind_act (to_saga_find c tb sagaName sagaId)
       (to_saga_write c tb sagaName sagaId state expectedVersion)"

definition to_saga_load ::
  "'ex sql_connection \<Rightarrow> ('ex, state_row, 'w) sql_table \<Rightarrow> string \<Rightarrow> string \<Rightarrow>
   ('w, (jsval \<times> int) option) action" where
  "to_saga_load c tb = sql_state_load decode_text tb (getExecutor c)"

text \<open>TypeORMSnapshotStore\<close>

definition to_snap_load ::
  "'ex sql_connection \<Rightarrow> ('ex, state_row, 'w) sql_table \<Rightarrow> string \<Rightarrow> string \<Rightarrow>
   ('w, snapshot option) action" where
  "to_snap_load c tb n i =
     bind_act (sql_state_load decode_text tb (getExecutor c) n i)
       (\<lambda>p. ret (map_option snapshot_of p))"

definition to_snap_save ::
  "'ex sql_connection \<Rightarrow> ('ex, state_row, 'w) sql_table \<Rightarrow> string \<Rightarrow> string \<Rightarrow> snapshot \<Rightarrow>
   ('w, unit) action" where
  "to_snap_save c tb n i snap =
     (let serialized = js_stringify (sn_state snap) in
      bind_act (to_saga_find c tb n i)
        (\<lambda>existing. case existing of
            Some r \<Rightarrow> sql_save tb (getExecutor c)
                       [r\<lparr>sr_state := serialized, sr_version := sn_version snap\<rparr>]
          | None \<Rightarrow> sql_save tb (getExecutor c)
                      [\<lparr>sr_name = n, sr_id = i, sr_state = serialized, sr_version = sn_version snap\<rparr>]))"

section \<open>Prisma\<close>

text \<open>PrismaStateStoredAggregatePersistence and PrismaSagaPersistence\<close>

definition pr_state_save ::
  "'ex sql_connection \<Rightarrow> ('ex, state_row, 'w) sql_table \<Rightarrow> string \<Rightarrow> string \<Rightarrow> jsval \<Rightarrow> int \<Rightarrow>
   ('w, unit) action" where
  "pr_state_save c tb aggregateName aggregateId state expectedVersion =
     sql_state_save prisma_unique (\<lambda>res. ur_count res = Some 0) tb (getExecutor c)
       aggregateName aggregateId (js_stringify state) expectedVersion"

definition pr_state_load ::
  "'ex sql_connection \<Rightarrow> ('ex, state_row, 'w) sql_table \<Rightarrow> string \<Rightarrow> string \<Rightarrow>
   ('w, (jsval \<times> int) option) action" where
  "pr_state_load c tb = sql_state_load decode_text tb (getExecutor c)"

definition pr_saga_save ::
  "'ex sql_connection \<Rightarrow> ('ex, state_row, 'w) sql_table \<Rightarrow> string \<Rightarrow> string \<Rightarrow> jsval \<Rightarrow> int \<Rightarrow>
   ('w, unit) action" where
  "pr_saga_save c tb sagaName sagaId state expectedVersion =
     sql_state_save prisma_unique (\<lambda>res. ur_count res = Some 0) tb (getExecutor c)
       sagaName sagaId (js_stringify state) expectedVersion"

definition pr_saga_load ::
  "'ex sql_connection \<Rightarrow> ('ex, state_row, 'w) sql_table \<Rightarrow> string \<Rightarrow> string \<Rightarrow>
   ('w, (jsval \<times> int) option) action" where
  "pr_saga_load c tb = sql_state_load decode_text tb (getExecutor c)"

text \<open>PrismaSnapshotStore\<close>

definition pr_snap_load ::
  "'ex sql_connection \<Rightarrow> ('ex, state_row, 'w) sql_table \<Rightarrow> string \<Rightarrow> string \<Rightarrow>
   ('w, snapshot option) action" where
  "pr_snap_load c tb n i =
     bind_act (sql_state_load decode_text tb (getExecutor c) n i)
       (\<lambda>p. ret (map_option snapshot_of p))"

definition pr_snap_save ::
  "'ex sql_connection \<Rightarrow> ('ex, state_row, 'w) sql_table \<Rightarrow> string \<Rightarrow> string \<Rightarrow> snapshot \<Rightarrow>
   ('w, unit) action" where
  "pr_snap_save c tb n i snap =
     (let executor = getExecutor c; serialized = js_stringify (sn_state snap);
          here = (\<lambda>r. sr_name r = n \<and> sr_id r = i)
      in bind_act (sql_select tb executor here None None)
           (\<lambda>existing.
              if existing \<noteq> []
              then bind_act (sql_update tb executor here
                     (\<lambda>r. r\<lparr>sr_state := serialized, sr_version := sn_version snap\<rparr>)) (\<lambda>_. ret ())
              else sql_insert tb executor
                     [\<lparr>sr_name = n, sr_id = i, sr_state = serialized, sr_version = sn_version snap\<rparr>]))"

section \<open>The tables\<close>

text \<open>
  The state column is \<^verbatim>\<open>NOT NULL\<close>; a text column keeps its text, a JSON column what JSON can
  express of the value. A row is read as a cell once its key is unique.
\<close>

definition sr_fits :: "state_row \<Rightarrow> bool" where
  "sr_fits r \<longleftrightarrow> sr_state r \<noteq> JUndef \<and> sr_state r \<noteq> JNull"

definition sr_stored :: "state_row \<Rightarrow> state_row \<Rightarrow> bool" where
  "sr_stored r r' \<longleftrightarrow> r' = r\<lparr>sr_state := json_norm (sr_state r)\<rparr>"

definition state_cell ::
  "(jsval \<Rightarrow> error + jsval) \<Rightarrow> state_row multiset \<Rightarrow> string \<times> string \<Rightarrow> (jsval \<times> int) option" where
  "state_cell decode M k =
     (let rs = filter_mset (\<lambda>r. sr_key r = k) M
      in if rs = {#} then None
         else let r = the_elem (set_mset rs) in Some (projr (decode (sr_state r)), sr_version r))"

text \<open>The invariant of a table of states: one row per instance, with a positive version and a
  readable state.\<close>

definition state_ok :: "(jsval \<Rightarrow> error + jsval) \<Rightarrow> state_row multiset \<Rightarrow> bool" where
  "state_ok decode M \<longleftrightarrow> unique_key sr_key M \<and>
     (\<forall>r \<in># M. 0 < sr_version r \<and> (\<exists>st. decode (sr_state r) = Inr st))"

lemma state_cell_none: "filter_mset (\<lambda>r. sr_key r = k) M = {#} \<Longrightarrow> state_cell decode M k = None"
  by (simp add: state_cell_def)

lemma state_cell_some:
  "filter_mset (\<lambda>r. sr_key r = k) M = {#r#} \<Longrightarrow> decode (sr_state r) = Inr st \<Longrightarrow>
     state_cell decode M k = Some (st, sr_version r)"
  by (simp add: state_cell_def)

text \<open>Replacing the row of one instance.\<close>

lemma state_ok_add:
  assumes "state_ok decode M" and "filter_mset (\<lambda>r. sr_key r = sr_key x) M = {#}"
    and "decode (sr_state x) = Inr st" and "0 < sr_version x"
  shows "state_ok decode (add_mset x M)"
    and "state_cell decode (add_mset x M) = (state_cell decode M)(sr_key x \<mapsto> (st, sr_version x))"
proof -
  have "\<forall>y \<in># M. sr_key y \<noteq> sr_key x"
    using assms(2) by auto
  with assms show "state_ok decode (add_mset x M)" by (auto simp: state_ok_def unique_key_add)
  show "state_cell decode (add_mset x M) = (state_cell decode M)(sr_key x \<mapsto> (st, sr_version x))"
  proof
    fix k
    show "state_cell decode (add_mset x M) k =
        ((state_cell decode M)(sr_key x \<mapsto> (st, sr_version x))) k"
      using assms(2,3) state_cell_some [of "sr_key x" "add_mset x M" x decode st]
      by (auto simp: state_cell_def)
  qed
qed

lemma split_row:
  assumes "filter_mset (\<lambda>r. sr_key r = k) M = {#r#}"
  obtains N where "M = add_mset r N" "filter_mset (\<lambda>r. sr_key r = k) N = {#}" "sr_key r = k"
proof -
  have "r \<in># filter_mset (\<lambda>r. sr_key r = k) M" using assms by simp
  then have r: "r \<in># M" "sr_key r = k" by simp_all
  then obtain N where M: "M = add_mset r N" by (metis insert_DiffM)
  with assms r(2) have "filter_mset (\<lambda>r. sr_key r = k) N = {#}" by simp
  with M r(2) show thesis using that by blast
qed

lemma image_mset_unmatched:
  "filter_mset p M = {#} \<Longrightarrow> image_mset (\<lambda>r. if p r then g r else r) M = M"
  by (induction M) (auto split: if_splits)

locale sql_state_store =
  sql_semantics tb ex rows sr_key sr_fits sr_stored dup no_row
  for tb :: "('ex, state_row, 'w) sql_table" and ex :: 'ex and rows :: "'w \<Rightarrow> state_row multiset"
    and dup :: "error \<Rightarrow> bool" and no_row :: "update_result \<Rightarrow> bool" +
  fixes encode :: "jsval \<Rightarrow> jsval" and decode :: "jsval \<Rightarrow> error + jsval"
    and storable :: "jsval \<Rightarrow> bool"
  assumes codec: "storable st \<Longrightarrow> decode (json_norm (encode st)) = Inr st"
    and encode_fits: "storable st \<Longrightarrow> encode st \<noteq> JUndef \<and> encode st \<noteq> JNull"
begin

abbreviation here :: "string \<Rightarrow> string \<Rightarrow> 'w \<Rightarrow> state_row multiset" where
  "here n i w \<equiv> filter_mset (\<lambda>r. sr_key r = (n, i)) (rows w)"

lemma here_filter: "filter_mset (\<lambda>r. sr_name r = n \<and> sr_id r = i) (rows w) = here n i w"
  by (simp add: sr_key_def)

text \<open>What the cell of an instance looks like in a good table.\<close>

lemma cell_cases:
  assumes "state_ok decode (rows w)"
  obtains (absent) "here n i w = {#}" "state_cell decode (rows w) (n, i) = None"
    | (present) r st where "here n i w = {#r#}" "decode (sr_state r) = Inr st" "0 < sr_version r"
        "state_cell decode (rows w) (n, i) = Some (st, sr_version r)"
proof -
  have u: "unique_key sr_key (rows w)" using assms by (simp add: state_ok_def)
  show thesis
  proof (rule unique_filter [OF u, of "(n, i)"])
    assume h: "here n i w = {#}"
    show thesis by (rule absent [OF h state_cell_none [OF h]])
  next
    fix r assume h: "here n i w = {#r#}"
    then have "r \<in># here n i w" by simp
    then have "r \<in># rows w" by simp
    with assms obtain st where "decode (sr_state r) = Inr st" "0 < sr_version r"
      by (auto simp: state_ok_def)
    then show thesis by (intro present [OF h _ _ state_cell_some [OF h]])
  qed
qed

lemma load_correct:
  assumes "state_ok decode (rows w)"
  shows "sql_state_load decode tb ex n i w = (Inr (state_cell decode (rows w) (n, i)), w)"
proof -
  obtain rs where rs: "sql_select tb ex (\<lambda>r. sr_name r = n \<and> sr_id r = i) None None w = (Inr rs, w)"
    "mset rs = here n i w"
    using select_all [of "\<lambda>r. sr_name r = n \<and> sr_id r = i" w] here_filter by auto
  show ?thesis
    using assms
  proof (cases rule: cell_cases [of w n i])
    case absent
    with rs show ?thesis by (simp add: sql_state_load_def read_row_def act)
  next
    case (present r st)
    with rs have "rs = [r]" by simp
    with present rs show ?thesis by (simp add: sql_state_load_def read_row_def act)
  qed
qed

lemma save_insert:
  assumes "state_ok decode (rows w)" and "storable st" and "here n i w = {#}"
  shows "\<exists>w'. sql_state_save dup no_row tb ex n i (encode st) 0 w = (Inr (), w') \<and>
    state_ok decode (rows w') \<and>
    state_cell decode (rows w') = (state_cell decode (rows w))((n, i) \<mapsto> (st, 1))"
proof -
  let ?r = "\<lparr>sr_name = n, sr_id = i, sr_state = encode st, sr_version = 1\<rparr>"
  have key: "sr_key ?r = (n, i)" by (simp add: sr_key_def)
  have "\<forall>y \<in># rows w. sr_key y \<noteq> (n, i)" using assms(3) by auto
  with assms(1) key have "unique_key sr_key (rows w + mset [?r])"
    by (simp add: unique_key_add state_ok_def)
  then obtain w' rs' where ins: "sql_insert tb ex [?r] w = (Inr (), w')"
      "list_all2 sr_stored [?r] rs'" "rows w' = rows w + mset rs'"
    using insert_ok [of "[?r]" w] encode_fits [OF assms(2)] by (auto simp: sr_fits_def)
  let ?x = "?r\<lparr>sr_state := json_norm (encode st)\<rparr>"
  have rs': "rs' = [?x]" using ins(2) by (auto simp: list_all2_Cons1 sr_stored_def)
  have xk: "sr_key ?x = (n, i)" by (simp add: sr_key_def)
  note new = state_ok_add [OF assms(1), of ?x st]
  show ?thesis
    using new(1,2) assms(3) codec [OF assms(2)] ins rs' xk
    by (simp add: sql_state_save_def versioned_write_def act)
qed

lemma save_insert_refused:
  assumes "state_ok decode (rows w)" and "storable st" and "here n i w = {#r#}"
  shows "\<exists>w'. sql_state_save dup no_row tb ex n i (encode st) 0 w =
      (Inl (ConcurrencyError n (IDStr i) 0 (-1)), w') \<and> rows w' = rows w"
proof -
  let ?r = "\<lparr>sr_name = n, sr_id = i, sr_state = encode st, sr_version = 1\<rparr>"
  have key: "sr_key ?r = (n, i)" by (simp add: sr_key_def)
  have "r \<in># here n i w" using assms(3) by simp
  with key have "\<not> unique_key sr_key (rows w + mset [?r])"
    by (auto simp: unique_key_add)
  then obtain e w' where "sql_insert tb ex [?r] w = (Inl e, w')" "dup e" "rows w' = rows w"
    using insert_dup [of "[?r]" w] encode_fits [OF assms(2)] by (auto simp: sr_fits_def)
  then show ?thesis by (simp add: sql_state_save_def versioned_write_def act)
qed

lemma save_update:
  assumes "storable st" and "v \<noteq> 0"
  obtains w' where "filter_mset (\<lambda>r. sr_version r = v) (here n i w) = {#}"
      "sql_state_save dup no_row tb ex n i (encode st) v w =
        (Inl (ConcurrencyError n (IDStr i) v (-1)), w')" "rows w' = rows w"
    | w' g where "filter_mset (\<lambda>r. sr_version r = v) (here n i w) \<noteq> {#}"
      "sql_state_save dup no_row tb ex n i (encode st) v w = (Inr (), w')"
      "\<And>r. g r = r\<lparr>sr_state := json_norm (encode st), sr_version := v + 1\<rparr>"
      "rows w' = image_mset (\<lambda>r. if sr_name r = n \<and> sr_id r = i \<and> sr_version r = v then g r else r) (rows w)"
proof -
  let ?p = "\<lambda>r. sr_name r = n \<and> sr_id r = i \<and> sr_version r = v"
  let ?f = "\<lambda>r. r\<lparr>sr_state := encode st, sr_version := v + 1\<rparr>"
  have p: "filter_mset ?p M = filter_mset (\<lambda>r. sr_version r = v) (filter_mset (\<lambda>r. sr_key r = (n, i)) M)" for M
    by (induction M) (auto simp: sr_key_def)
  have "\<And>r. sr_key (?f r) = sr_key r" "\<forall>r \<in># rows w. ?p r \<longrightarrow> sr_fits (?f r)"
    using encode_fits [OF assms(1)] by (simp_all add: sr_key_def sr_fits_def)
  from update_rows [where f = ?f and p = ?p and w = w, OF this] obtain w' res g where u: "sql_update tb ex ?p ?f w = (Inr res, w')"
      "no_row res \<longleftrightarrow> filter_mset ?p (rows w) = {#}" "\<forall>r. sr_stored (?f r) (g r)"
      "rows w' = image_mset (\<lambda>r. if ?p r then g r else r) (rows w)"
    by blast
  have g: "g r = r\<lparr>sr_state := json_norm (encode st), sr_version := v + 1\<rparr>" for r
    using u(3) by (simp add: sr_stored_def)
  show thesis
  proof (cases "filter_mset ?p (rows w) = {#}")
    case True
    with u that(1) p assms(2) show thesis
      by (simp add: sql_state_save_def versioned_write_def act image_mset_unmatched)
  next
    case False
    then have "\<not> no_row res" using u(2) by simp
    then have saved: "sql_state_save dup no_row tb ex n i (encode st) v w = (Inr (), w')"
      using u(1) assms(2) by (simp add: sql_state_save_def versioned_write_def act)
    have "filter_mset (\<lambda>r. sr_version r = v) (here n i w) \<noteq> {#}"
      using False unfolding p .
    from that(2) [OF this saved g u(4)] show thesis .
  qed
qed

lemma save_correct:
  assumes "state_ok decode (rows w)" and "storable st"
    and "v = current_version (state_cell decode (rows w) (n, i))"
  shows "\<exists>w'. sql_state_save dup no_row tb ex n i (encode st) v w = (Inr (), w') \<and>
    state_ok decode (rows w') \<and>
    state_cell decode (rows w') = (state_cell decode (rows w))((n, i) \<mapsto> (st, v + 1))"
  using assms(1)
proof (cases rule: cell_cases [of w n i])
  case absent
  with assms(3) have "v = 0" by (simp add: current_version_def)
  with save_insert [OF assms(1,2) absent(1)] show ?thesis by simp
next
  case (present r st0)
  with assms(3) have v: "v = sr_version r" "v \<noteq> 0" by (simp_all add: current_version_def)
  obtain N where N: "rows w = add_mset r N" "filter_mset (\<lambda>r. sr_key r = (n, i)) N = {#}"
      "sr_key r = (n, i)"
    using split_row [OF present(1)] .
  show ?thesis
  proof (rule save_update [OF assms(2) v(2), of n i w])
    assume "filter_mset (\<lambda>r. sr_version r = v) (here n i w) = {#}"
    with present(1) v show ?thesis by simp
  next
    fix w' g
    assume u: "sql_state_save dup no_row tb ex n i (encode st) v w = (Inr (), w')"
      "\<And>r. g r = r\<lparr>sr_state := json_norm (encode st), sr_version := v + 1\<rparr>"
      "rows w' = image_mset (\<lambda>r. if sr_name r = n \<and> sr_id r = i \<and> sr_version r = v then g r else r) (rows w)"
    have "image_mset (\<lambda>r. if sr_name r = n \<and> sr_id r = i \<and> sr_version r = v then g r else r) N = N"
      by (rule image_mset_unmatched) (use N(2) in \<open>auto simp: sr_key_def\<close>)
    with u(3) N v have w': "rows w' = add_mset (g r) N" by (simp add: sr_key_def)
    have gk: "sr_key (g r) = (n, i)" using N(3) by (simp add: u(2) sr_key_def)
    have gs: "decode (sr_state (g r)) = Inr st" "0 < sr_version (g r)" "sr_version (g r) = v + 1"
      using codec [OF assms(2)] v present(3) by (simp_all add: u(2))
    have okN: "state_ok decode N"
      using assms(1) N(1) by (auto simp: state_ok_def unique_key_add)
    note old = state_ok_add [OF okN, of r st0]
    note new = state_ok_add [OF okN, of "g r" st]
    from new old N gk gs w' u(1) present(2,3) show ?thesis by simp
  qed
qed

lemma save_refused:
  assumes "state_ok decode (rows w)" and "storable st"
    and "v \<noteq> current_version (state_cell decode (rows w) (n, i))"
  shows "\<exists>w'. sql_state_save dup no_row tb ex n i (encode st) v w =
      (Inl (ConcurrencyError n (IDStr i) v (-1)), w') \<and> rows w' = rows w"
proof (cases "v = 0")
  case True
  show ?thesis
    using assms(1)
  proof (cases rule: cell_cases [of w n i])
    case absent
    with assms(3) True show ?thesis by (simp add: current_version_def)
  next
    case (present r st0)
    with save_insert_refused [OF assms(1,2)] True show ?thesis by simp
  qed
next
  case False
  have "filter_mset (\<lambda>r. sr_version r = v) (here n i w) = {#}"
    using assms(1)
  proof (cases rule: cell_cases [of w n i])
    case absent
    then show ?thesis by (simp only: filter_empty_mset)
  next
    case (present r st0)
    with assms(3) show ?thesis by (simp add: current_version_def)
  qed
  then show ?thesis
    using save_update [OF assms(2) False, of n i w] by metis
qed

sublocale optimistic_state_store "sql_state_load decode tb ex"
  "\<lambda>n i st. sql_state_save dup no_row tb ex n i (encode st)"
  "\<lambda>w. state_cell decode (rows w)" Pair IDStr "\<lambda>w. state_ok decode (rows w)" storable
proof
  fix w n i st v
  show "state_ok decode (rows w) \<Longrightarrow>
      sql_state_load decode tb ex n i w = (Inr (state_cell decode (rows w) (n, i)), w)"
    by (rule load_correct)
  show "state_ok decode (rows w) \<Longrightarrow> storable st \<Longrightarrow>
      v = current_version (state_cell decode (rows w) (n, i)) \<Longrightarrow>
      \<exists>w'. sql_state_save dup no_row tb ex n i (encode st) v w = (Inr (), w') \<and>
        state_ok decode (rows w') \<and>
        state_cell decode (rows w') = (state_cell decode (rows w))((n, i) \<mapsto> (st, v + 1))"
    by (rule save_correct)
  show "state_ok decode (rows w) \<Longrightarrow> storable st \<Longrightarrow>
      v \<noteq> current_version (state_cell decode (rows w) (n, i)) \<Longrightarrow>
      \<exists>a w'. sql_state_save dup no_row tb ex n i (encode st) v w =
          (Inl (ConcurrencyError n (IDStr i) v a), w') \<and>
        state_ok decode (rows w') \<and> state_cell decode (rows w') = state_cell decode (rows w)"
    using save_refused [of w st v n i] by fastforce
qed

lemmas table_history = state_history and table_no_lost_update = no_lost_update
  and table_saved_is_loaded = saved_is_loaded

end

section \<open>The codecs\<close>

text \<open>The states the columns carry: JSON values without anything JSON drops, and in a JSON column
  neither \<^verbatim>\<open>null\<close> nor a string.\<close>

definition storable_state :: "bool \<Rightarrow> jsval \<Rightarrow> bool" where
  "storable_state nativeJson st \<longleftrightarrow> json_clean st \<and> st \<noteq> JUndef \<and>
     (nativeJson \<longrightarrow> st \<noteq> JNull \<and> (case st of JStr _ \<Rightarrow> False | _ \<Rightarrow> True))"

lemma js_stringify_parse:
  assumes "json_clean st" and "st \<noteq> JUndef"
  obtains t where "js_stringify st = JStr t" "js_parse t = Inr st"
proof -
  obtain t where t: "json_text st = Some t" using assms(2) by (cases "json_text st") auto
  then have "json_parse t = Some st" using json_parse_text [OF t] assms(1) by (simp add: json_clean_def)
  with t that show thesis by (simp add: js_stringify_def js_parse_def)
qed

lemma state_codec:
  assumes "storable_state nativeJson st"
  shows "decode_state (json_norm (encode_state nativeJson st)) = Inr st"
    and "encode_state nativeJson st \<noteq> JUndef \<and> encode_state nativeJson st \<noteq> JNull"
proof -
  obtain t where "js_stringify st = JStr t" "js_parse t = Inr st"
    using js_stringify_parse [of st] assms by (auto simp: storable_state_def)
  then show "decode_state (json_norm (encode_state nativeJson st)) = Inr st"
    and "encode_state nativeJson st \<noteq> JUndef \<and> encode_state nativeJson st \<noteq> JNull"
    using assms by (auto simp: storable_state_def encode_state_def decode_state_def json_clean_def
        split: jsval.splits)
qed

lemma text_codec:
  assumes "storable_state False st"
  shows "decode_text (json_norm (js_stringify st)) = Inr st"
    and "js_stringify st \<noteq> JUndef \<and> js_stringify st \<noteq> JNull"
proof -
  obtain t where "js_stringify st = JStr t" "js_parse t = Inr st"
    using js_stringify_parse [of st] assms by (auto simp: storable_state_def)
  then show "decode_text (json_norm (js_stringify st)) = Inr st"
    and "js_stringify st \<noteq> JUndef \<and> js_stringify st \<noteq> JNull"
    by (simp_all add: decode_text_def)
qed

lemmas state_store = sql_state_store.intro [OF _ sql_state_store_axioms.intro]

text \<open>A driver for the stores of one adapter.\<close>

abbreviation state_driver ::
  "('ex, state_row, 'w) sql_table \<Rightarrow> 'ex \<Rightarrow> ('w \<Rightarrow> state_row multiset) \<Rightarrow> (error \<Rightarrow> bool) \<Rightarrow>
   (update_result \<Rightarrow> bool) \<Rightarrow> bool" where
  "state_driver tb ex rows dup no_row \<equiv> sql_semantics tb ex rows sr_key sr_fits sr_stored dup no_row"

lemma drizzle_store:
  "state_driver tb ex rows dup no_row \<Longrightarrow>
     sql_state_store tb ex rows dup no_row (encode_state nj) decode_state (storable_state nj)"
  by (rule state_store) (use state_codec in blast)+

lemma text_store:
  "state_driver tb ex rows dup no_row \<Longrightarrow>
     sql_state_store tb ex rows dup no_row js_stringify decode_text (storable_state False)"
  by (rule state_store) (use text_codec in blast)+

subsection \<open>A concrete driver\<close>

text \<open>better-sqlite3: a constraint code, and \<^verbatim>\<open>changes\<close> on the result of an update.\<close>

definition sqlite_error :: error where
  "sqlite_error = DriverFailure (DriverError (Some ''SQLITE_CONSTRAINT_PRIMARYKEY'') None None
     (Some ''UNIQUE constraint failed: noddde_aggregate_states'') None)"

definition sqlite_states :: "(unit, state_row, state_row list) sql_table" where
  "sqlite_states = list_table sr_key (\<lambda>_ r. r\<lparr>sr_state := json_norm (sr_state r)\<rparr>) sqlite_error
     (\<lambda>n. nothing_reported\<lparr>ur_changes := Some (int n)\<rparr>)"

definition base_connection :: "unit sql_connection" where
  "base_connection = \<lparr>sc_db = (), sc_als = None\<rparr>"

lemma sqlite_driver:
  "state_driver sqlite_states ex mset isUniqueViolation (\<lambda>res. getRowsAffected res = 0)"
  unfolding sqlite_states_def
  by (rule list_table_semantics)
    (auto simp: sr_stored_def sr_key_def sqlite_error_def isUniqueViolation_def sql_code_def
      starts_with_def getRowsAffected_def nothing_reported_def)

interpretation sqlite: sql_state_store sqlite_states "()" mset isUniqueViolation
  "\<lambda>res. getRowsAffected res = 0" "encode_state False" decode_state "storable_state False"
  by (rule drizzle_store [OF sqlite_driver])

section \<open>Properties\<close>

text \<open>C20: The Drizzle state store does what the in-memory store does. On any driver with the
  documented behaviour of SQL, starting from a table and an in-memory store that agree on one
  instance, any run of saves of storable states with any expected versions and any outcomes leaves
  the two stores loading the same state and version for that instance; the other rows of the table
  keep their state and version. A save takes effect exactly when its expected version is the
  current one, so no update is lost. A state is storable when it is a value JSON can carry other
  than undefined and, with native JSON columns, neither null nor a string.\<close>
theorem dz_state_as_memory:
  assumes "state_driver tb (getExecutor c) rows isUniqueViolation (\<lambda>res. getRowsAffected res = 0)"
    and "state_ok decode_state (rows w)"
    and "state_cell decode_state (rows w) (n, i) = ss_cell store (instance_key n (IDStr i))"
    and "\<forall>(st, v) \<in> set reqs. storable_state nativeJson st"
    and "w' = fold (\<lambda>(st, v). effect (dz_state_save c tb nativeJson n i st v)) reqs w"
  shows "fst (dz_state_load c tb n i w') =
      Inr (ss_cell (fold (\<lambda>(st, v). effect (ss_save n (IDStr i) st v None)) reqs store)
             (instance_key n (IDStr i))) \<and>
    (\<forall>k. k = (n, i) \<or> state_cell decode_state (rows w') k = state_cell decode_state (rows w) k)"
proof -
  note store = drizzle_store [OF assms(1), of nativeJson]
  note history = sql_state_store.table_history [OF store assms(2,4), of n i]
  have w': "w' = fold (\<lambda>(st, v). effect (sql_state_save isUniqueViolation
      (\<lambda>res. getRowsAffected res = 0) tb (getExecutor c) n i (encode_state nativeJson st) v)) reqs w"
    by (simp add: assms(5) dz_state_save_def)
  have "fst (dz_state_load c tb n i w') =
      Inr (ss_cell (fold (\<lambda>(st, v). effect (ss_save n (IDStr i) st v None)) reqs store)
             (instance_key n (IDStr i)))"
    using history [of "(n, i)"] sql_state_store.load_correct [OF store, of w' n i] assms(3)
      mem_ss.optimistic.state_history
        [where w = store and reqs = reqs and n = n and i = "IDStr i" and k = "instance_key n (IDStr i)"]
    by (simp add: w' dz_state_load_def)
  with history show ?thesis by (simp add: w')
qed

text \<open>Three saves: the first and the third are accepted, the second is stale.\<close>

definition sample_saves :: "(jsval \<times> int) list" where
  "sample_saves = [(JObj [(''balance'', JNum 5)], 0), (JStr ''lost'', 0), (JArr [JNull, JNum 7], 1)]"

theorem dz_state_as_memory_witness:
  "fst (dz_state_load base_connection sqlite_states ''Account'' ''7''
      (fold (\<lambda>(st, v). effect (dz_state_save base_connection sqlite_states False ''Account'' ''7'' st v))
         sample_saves [])) = Inr (Some (JArr [JNull, JNum 7], 2))"
proof -
  have mem: "ss_cell (fold (\<lambda>(st, v). effect (ss_save ''Account'' (IDStr ''7'') st v None)) sample_saves [])
      (instance_key ''Account'' (IDStr ''7'')) = Some (JArr [JNull, JNum 7], 2)"
    by code_simp
  have "\<forall>(st, v) \<in> set sample_saves. storable_state False st"
    by (simp add: sample_saves_def storable_state_def json_clean_def)
  then show ?thesis
    using dz_state_as_memory [of sqlite_states base_connection mset "[]" "''Account''" "''7''" "[]"
        sample_saves False, OF sqlite_driver _ _ _ refl] mem
    by (simp add: state_ok_def unique_key_def state_cell_def ss_cell_def)
qed

text \<open>The same contract on the stores of the other two ORMs, and on the sagas of Prisma: of two saves
  with one expected version the second is refused and the first is what a reader sees.\<close>

lemma to_state_no_lost_update:
  assumes "state_driver tb (getExecutor c) rows typeorm_isUniqueViolation (\<lambda>res. ur_affected res = Some 0)"
    and "state_ok decode_text (rows w)" and "storable_state False st" and "storable_state False st'"
    and "to_state_save c tb n i st v w = (Inr (), w')"
  shows "\<exists>a w''. to_state_save c tb n i st' v w' = (Inl (ConcurrencyError n (IDStr i) v a), w'') \<and>
    to_state_load c tb n i w'' = (Inr (Some (st, v + 1)), w'')"
  using sql_state_store.table_no_lost_update [OF text_store [OF assms(1)] assms(2-4)] assms(5)
  by (simp add: to_state_save_def to_state_load_def)

lemma pr_state_no_lost_update:
  assumes "state_driver tb (getExecutor c) rows prisma_unique (\<lambda>res. ur_count res = Some 0)"
    and "state_ok decode_text (rows w)" and "storable_state False st" and "storable_state False st'"
    and "pr_state_save c tb n i st v w = (Inr (), w')"
  shows "\<exists>a w''. pr_state_save c tb n i st' v w' = (Inl (ConcurrencyError n (IDStr i) v a), w'') \<and>
    pr_state_load c tb n i w'' = (Inr (Some (st, v + 1)), w'')"
  using sql_state_store.table_no_lost_update [OF text_store [OF assms(1)] assms(2-4)] assms(5)
  by (simp add: pr_state_save_def pr_state_load_def)

lemma pr_saga_as_state: "pr_saga_save = pr_state_save" "pr_saga_load = pr_state_load"
  by (simp_all add: fun_eq_iff pr_saga_save_def pr_state_save_def pr_saga_load_def pr_state_load_def)

text \<open>The saga store of Drizzle meets the contract on a driver whose unique violations carry one of
  the four English messages and whose results carry one of the five fields it reads.\<close>

lemma dz_saga_no_lost_update:
  assumes "state_driver tb (getExecutor c) rows saga_unique_message (\<lambda>res. saga_rowsAffected res = 0)"
    and "state_ok decode_state (rows w)" and "storable_state nj st" and "storable_state nj st'"
    and "dz_saga_save c tb nj n i st v w = (Inr (), w')"
  shows "\<exists>a w''. dz_saga_save c tb nj n i st' v w' = (Inl (ConcurrencyError n (IDStr i) v a), w'') \<and>
    dz_saga_load c tb n i w'' = (Inr (Some (st, v + 1)), w'')"
  using sql_state_store.table_no_lost_update [OF drizzle_store [OF assms(1)] assms(2-4)] assms(5)
  by (simp add: dz_saga_save_def dz_saga_load_def)

section \<open>The sagas of Drizzle on a driver that reports a count\<close>

text \<open>\<^verbatim>\<open>postgres-js\<close> reports the affected rows as \<^verbatim>\<open>count\<close> only.\<close>

definition count_only :: "('ex, 'r, 'w) sql_table \<Rightarrow> 'ex \<Rightarrow> bool" where
  "count_only tb ex \<longleftrightarrow> (\<forall>p f w res w'. sql_update tb ex p f w = (Inr res, w') \<longrightarrow>
     (\<exists>n. res = nothing_reported\<lparr>ur_count := Some n\<rparr>))"

text \<open>C26: A false conflict in the Drizzle saga store. On a driver that reports the affected rows as
  count (drizzle-orm/postgres-js), updating a saga at its current version makes the state store's
  save succeed, while the saga store's save performs the same update and then throws a
  ConcurrencyError: the row holds the new state although the caller is told the save lost a race.\<close>
theorem dz_saga_false_conflict:
  assumes "state_driver tb (getExecutor c) rows isUniqueViolation (\<lambda>res. getRowsAffected res = 0)"
    and "count_only tb (getExecutor c)" and "state_ok decode_state (rows w)"
    and "state_cell decode_state (rows w) (n, i) = Some (st0, v)" and "v \<noteq> 0"
    and "storable_state nativeJson st"
  shows "\<exists>w'. dz_state_save c tb nativeJson n i st v w = (Inr (), w') \<and>
    dz_saga_save c tb nativeJson n i st v w = (Inl (ConcurrencyError n (IDStr i) v (-1)), w') \<and>
    state_cell decode_state (rows w') (n, i) = Some (st, v + 1)"
proof -
  have "v = current_version (state_cell decode_state (rows w) (n, i))"
    using assms(4) by (simp add: current_version_def)
  from sql_state_store.save_correct [OF drizzle_store [OF assms(1)] assms(3,6) this]
  obtain w' where w': "dz_state_save c tb nativeJson n i st v w = (Inr (), w')"
      "state_cell decode_state (rows w') (n, i) = Some (st, v + 1)"
    by (auto simp: dz_state_save_def)
  let ?p = "\<lambda>r. sr_name r = n \<and> sr_id r = i \<and> sr_version r = v"
  let ?f = "\<lambda>r. r\<lparr>sr_state := encode_state nativeJson st, sr_version := v + 1\<rparr>"
  obtain u w1 where u: "sql_update tb (getExecutor c) ?p ?f w = (u, w1)" by fastforce
  with w'(1) assms(5) obtain res where res: "u = Inr res" "w1 = w'"
    by (cases u) (auto simp: dz_state_save_def sql_state_save_def versioned_write_def act split: if_splits)
  with u assms(2) obtain k where "res = nothing_reported\<lparr>ur_count := Some k\<rparr>"
    unfolding count_only_def by blast
  then have "saga_rowsAffected res = 0" by (simp add: saga_rowsAffected_def nothing_reported_def)
  with u res have "dz_saga_save c tb nativeJson n i st v w =
      (Inl (ConcurrencyError n (IDStr i) v (-1)), w')"
    using assms(5) by (simp add: dz_saga_save_def sql_state_save_def versioned_write_def act)
  with w' show ?thesis by blast
qed

definition postgres_error :: error where
  "postgres_error = DriverFailure (DriverError (Some ''23505'') None None
     (Some ''doppelter Schluesselwert verletzt Unique-Constraint'') None)"

definition postgres_states :: "(unit, state_row, state_row list) sql_table" where
  "postgres_states = list_table sr_key (\<lambda>_ r. r\<lparr>sr_state := json_norm (sr_state r)\<rparr>) postgres_error
     (\<lambda>n. nothing_reported\<lparr>ur_count := Some (int n)\<rparr>)"

lemma postgres_driver:
  "state_driver postgres_states ex mset isUniqueViolation (\<lambda>res. getRowsAffected res = 0)"
  unfolding postgres_states_def
  by (rule list_table_semantics)
    (auto simp: sr_stored_def sr_key_def postgres_error_def isUniqueViolation_def sql_code_def
      getRowsAffected_def nothing_reported_def)

definition saga_table :: "state_row list" where
  "saga_table = [\<lparr>sr_name = ''Order'', sr_id = ''1'', sr_state = JStr ''{}'', sr_version = 3\<rparr>]"

theorem dz_saga_false_conflict_witness:
  "\<exists>w'. dz_state_save base_connection postgres_states False ''Order'' ''1'' (JNum 9) 3 saga_table = (Inr (), w') \<and>
    dz_saga_save base_connection postgres_states False ''Order'' ''1'' (JNum 9) 3 saga_table =
      (Inl (ConcurrencyError ''Order'' (IDStr ''1'') 3 (-1)), w') \<and>
    state_cell decode_state (mset w') (''Order'', ''1'') = Some (JNum 9, 4)"
proof -
  have dec: "decode_state (JStr ''{}'') = Inr (JObj [])" by code_simp
  have ok: "state_ok decode_state (mset saga_table)"
    using dec by (simp add: state_ok_def saga_table_def unique_key_def)
  have cell: "state_cell decode_state (mset saga_table) (''Order'', ''1'') = Some (JObj [], 3)"
    using dec by (simp add: state_cell_def saga_table_def sr_key_def)
  have "count_only postgres_states ()"
    by (auto simp: count_only_def postgres_states_def list_table_def)
  with dz_saga_false_conflict [of postgres_states base_connection mset saga_table "''Order''" "''1''"
      "JObj []" 3 False "JNum 9", OF postgres_driver _ ok cell]
  show ?thesis by (simp add: storable_state_def json_clean_def)
qed

text \<open>The localized message of that driver is not recognised by the saga store either: the racing
  creation of a saga surfaces as the driver's error instead of a ConcurrencyError.\<close>

lemma dz_saga_localized_conflict:
  "saga_unique_message postgres_error = False \<and> isUniqueViolation postgres_error"
  by code_simp

section \<open>The sagas of TypeORM\<close>

locale sql_saga_store =
  sql_upsert tb "getExecutor c" rows sr_key sr_fits sr_stored dup no_row
  for tb :: "('ex, state_row, 'w) sql_table" and c :: "'ex sql_connection"
    and rows :: "'w \<Rightarrow> state_row multiset" and dup :: "error \<Rightarrow> bool"
    and no_row :: "update_result \<Rightarrow> bool"
begin

lemma saga_table: "sql_state_store tb (getExecutor c) rows dup no_row js_stringify decode_text (storable_state False)"
  by (rule text_store) unfold_locales

lemma saga_find:
  assumes "state_ok decode_text (rows w)"
  obtains (absent) "to_saga_find c tb n i w = (Inr None, w)" "state_cell decode_text (rows w) (n, i) = None"
    | (present) r st where "to_saga_find c tb n i w = (Inr (Some r), w)" "sr_key r = (n, i)"
        "0 < sr_version r" "state_cell decode_text (rows w) (n, i) = Some (st, sr_version r)"
proof -
  let ?here = "filter_mset (\<lambda>r. sr_key r = (n, i)) (rows w)"
  obtain rs where sel: "sql_select tb (getExecutor c) (\<lambda>r. sr_name r = n \<and> sr_id r = i) None None w = (Inr rs, w)"
    and "mset rs = filter_mset (\<lambda>r. sr_name r = n \<and> sr_id r = i) (rows w)"
    using select_all by blast
  then have rs: "mset rs = ?here" by (simp add: sr_key_def)
  show thesis
  proof (rule sql_state_store.cell_cases [OF saga_table assms, of n i])
    assume "?here = {#}" and c: "state_cell decode_text (rows w) (n, i) = None"
    with rs sel have "to_saga_find c tb n i w = (Inr None, w)" by (simp add: to_saga_find_def act)
    from absent [OF this c] show thesis .
  next
    fix r st
    assume h: "?here = {#r#}" and v: "0 < sr_version r"
      and c: "state_cell decode_text (rows w) (n, i) = Some (st, sr_version r)"
    with rs have "rs = [r]" by simp
    with sel have f: "to_saga_find c tb n i w = (Inr (Some r), w)" by (simp add: to_saga_find_def act)
    have "r \<in># ?here" using h by simp
    then have "sr_key r = (n, i)" by simp
    from present [OF f this v c] show thesis .
  qed
qed

text \<open>The write overwrites whatever row the table holds by then.\<close>

lemma saga_write:
  assumes "state_ok decode_text (rows w)" and "storable_state False st" and "0 \<le> v"
    and "case existing of None \<Rightarrow> v = 0 | Some r \<Rightarrow> sr_key r = (n, i) \<and> sr_version r = v"
  shows "\<exists>w'. to_saga_write c tb n i st v existing w = (Inr (), w') \<and> state_ok decode_text (rows w') \<and>
    state_cell decode_text (rows w') = (state_cell decode_text (rows w))((n, i) \<mapsto> (st, v + 1))"
proof -
  let ?r = "case existing of
      None \<Rightarrow> \<lparr>sr_name = n, sr_id = i, sr_state = js_stringify st, sr_version = 1\<rparr>
    | Some r \<Rightarrow> r\<lparr>sr_state := js_stringify st, sr_version := v + 1\<rparr>"
  have r: "sr_key ?r = (n, i)" "sr_state ?r = js_stringify st" "sr_version ?r = v + 1"
    using assms(4) by (auto simp: sr_key_def split: option.splits)
  then have fit: "sr_fits ?r" using text_codec [OF assms(2)] by (simp add: sr_fits_def)
  from save_row [OF this, of w] obtain w1 where s: "sql_save tb (getExecutor c) [?r] w = (Inr (), w1)"
    and w1: "rows w1 = add_mset (?r\<lparr>sr_state := json_norm (sr_state ?r)\<rparr>)
      (filter_mset (\<lambda>x. sr_key x \<noteq> (n, i)) (rows w))"
    unfolding sr_stored_def r(1) by blast
  obtain w' where "to_saga_write c tb n i st v existing w = (Inr (), w')"
    and w': "rows w' = add_mset (?r\<lparr>sr_state := json_norm (sr_state ?r)\<rparr>)
      (filter_mset (\<lambda>x. sr_key x \<noteq> (n, i)) (rows w))"
  proof (cases existing)
    case (Some x)
    with s assms(4) have "to_saga_write c tb n i st v existing w = (Inr (), w1)"
      by (simp add: to_saga_write_def act)
    from that [OF this w1] show thesis .
  next
    case None
    obtain found where sel: "sql_select tb (getExecutor c) (\<lambda>r. sr_name r = n \<and> sr_id r = i) None None w = (Inr found, w)"
      and found: "mset found = filter_mset (\<lambda>r. sr_name r = n \<and> sr_id r = i) (rows w)"
      using select_all by blast
    show thesis
    proof (cases "found = []")
      case False
      with s sel None assms(4) have "to_saga_write c tb n i st v existing w = (Inr (), w1)"
        by (simp add: to_saga_write_def to_saga_new_def act Let_def)
      from that [OF this w1] show thesis .
    next
      case True
      have none: "\<forall>x \<in># rows w. sr_key x \<noteq> (n, i)"
      proof -
        from True found have "filter_mset (\<lambda>x. sr_name x = n \<and> sr_id x = i) (rows w) = {#}" by simp
        then have "set_mset (filter_mset (\<lambda>x. sr_name x = n \<and> sr_id x = i) (rows w)) = {}" by simp
        then show ?thesis by (auto simp: sr_key_def)
      qed
      have "unique_key sr_key (rows w + mset [?r])"
        using assms(1) none r(1) by (simp add: unique_key_add state_ok_def)
      from insert_ok [OF _ this] fit obtain w2 where ins: "sql_insert tb (getExecutor c) [?r] w = (Inr (), w2)"
        and w2: "rows w2 = rows w + {#?r\<lparr>sr_state := json_norm (sr_state ?r)\<rparr>#}"
        by (auto simp: sr_stored_def list_all2_Cons1)
      from none have "filter_mset (\<lambda>x. sr_key x \<noteq> (n, i)) (rows w) = rows w" by (simp add: filter_mset_eq_conv)
      with w2 have "rows w2 = add_mset (?r\<lparr>sr_state := json_norm (sr_state ?r)\<rparr>)
          (filter_mset (\<lambda>x. sr_key x \<noteq> (n, i)) (rows w))" by simp
      moreover have "to_saga_write c tb n i st v existing w = (Inr (), w2)"
        using ins sel None True assms(4) by (simp add: to_saga_write_def to_saga_new_def act Let_def)
      ultimately show thesis using that by blast
    qed
  qed
  moreover have "state_ok decode_text (rows w') \<and>
      state_cell decode_text (rows w') = (state_cell decode_text (rows w))((n, i) \<mapsto> (st, v + 1))"
  proof -
    let ?N = "filter_mset (\<lambda>x. sr_key x \<noteq> (n, i)) (rows w)"
    let ?x = "?r\<lparr>sr_state := json_norm (sr_state ?r)\<rparr>"
    have u: "unique_key sr_key (rows w)" using assms(1) by (simp add: state_ok_def)
    have "size (filter_mset (\<lambda>r. sr_key r = k) ?N) \<le> size (filter_mset (\<lambda>r. sr_key r = k) (rows w))" for k
      by (intro size_mset_mono multiset_filter_mono) simp
    then have "unique_key sr_key ?N" using u order_trans unfolding unique_key_def by blast
    with assms(1) have okN: "state_ok decode_text ?N" by (auto simp: state_ok_def)
    have x: "sr_key ?x = (n, i)" "decode_text (sr_state ?x) = Inr st" "0 < sr_version ?x"
        "sr_version ?x = v + 1"
      using r text_codec [OF assms(2)] assms(3) by (simp_all add: sr_key_def)
    have gone: "filter_mset (\<lambda>r. sr_key r = sr_key ?x) ?N = {#}" using x(1) by simp
    have "state_cell decode_text ?N k = state_cell decode_text (rows w) k" if "k \<noteq> (n, i)" for k
    proof -
      have "filter_mset (\<lambda>r. sr_key r = k) ?N = filter_mset (\<lambda>r. sr_key r = k) (rows w)"
        using that by (auto intro!: multiset_eqI)
      then show ?thesis by (simp add: state_cell_def)
    qed
    with state_ok_add [OF okN gone x(2,3)] x(1,4) w' show ?thesis by (auto simp: fun_eq_iff)
  qed
  ultimately show ?thesis by blast
qed

text \<open>Saves that do not overlap meet the contract.\<close>

lemma saga_save_alone:
  assumes "state_ok decode_text (rows w)" and "storable_state False st"
  shows "v = current_version (state_cell decode_text (rows w) (n, i)) \<Longrightarrow>
      \<exists>w'. to_saga_save c tb n i st v w = (Inr (), w') \<and> state_ok decode_text (rows w') \<and>
        state_cell decode_text (rows w') = (state_cell decode_text (rows w))((n, i) \<mapsto> (st, v + 1))"
    and "v \<noteq> current_version (state_cell decode_text (rows w) (n, i)) \<Longrightarrow>
      to_saga_save c tb n i st v w =
        (Inl (ConcurrencyError n (IDStr i) v (current_version (state_cell decode_text (rows w) (n, i)))), w)"
proof -
  show "\<exists>w'. to_saga_save c tb n i st v w = (Inr (), w') \<and> state_ok decode_text (rows w') \<and>
        state_cell decode_text (rows w') = (state_cell decode_text (rows w))((n, i) \<mapsto> (st, v + 1))"
    if v: "v = current_version (state_cell decode_text (rows w) (n, i))"
  proof (rule saga_find [OF assms(1), of n i])
    assume "to_saga_find c tb n i w = (Inr None, w)" "state_cell decode_text (rows w) (n, i) = None"
    with v saga_write [OF assms, where v = v and existing = None and n = n and i = i] show ?thesis
      by (simp add: to_saga_save_def current_version_def act)
  next
    fix r st'
    assume "to_saga_find c tb n i w = (Inr (Some r), w)" "sr_key r = (n, i)" "0 < sr_version r"
      "state_cell decode_text (rows w) (n, i) = Some (st', sr_version r)"
    with v saga_write [OF assms, where v = v and existing = "Some r" and n = n and i = i] show ?thesis
      by (simp add: to_saga_save_def current_version_def act)
  qed
  show "to_saga_save c tb n i st v w =
        (Inl (ConcurrencyError n (IDStr i) v (current_version (state_cell decode_text (rows w) (n, i)))), w)"
    if v: "v \<noteq> current_version (state_cell decode_text (rows w) (n, i))"
    using v by (rule_tac saga_find [OF assms(1), of n i])
      (auto simp: to_saga_save_def to_saga_write_def to_saga_error_def current_version_def act)
qed

sublocale optimistic_state_store "to_saga_load c tb" "to_saga_save c tb"
  "\<lambda>w. state_cell decode_text (rows w)" Pair IDStr "\<lambda>w. state_ok decode_text (rows w)"
  "storable_state False"
proof
  fix w n i st v
  show "state_ok decode_text (rows w) \<Longrightarrow>
      to_saga_load c tb n i w = (Inr (state_cell decode_text (rows w) (n, i)), w)"
    using sql_state_store.load_correct [OF saga_table] by (simp add: to_saga_load_def)
  show "state_ok decode_text (rows w) \<Longrightarrow> storable_state False st \<Longrightarrow>
      v = current_version (state_cell decode_text (rows w) (n, i)) \<Longrightarrow>
      \<exists>w'. to_saga_save c tb n i st v w = (Inr (), w') \<and> state_ok decode_text (rows w') \<and>
        state_cell decode_text (rows w') = (state_cell decode_text (rows w))((n, i) \<mapsto> (st, v + 1))"
    by (rule saga_save_alone(1))
  show "state_ok decode_text (rows w) \<Longrightarrow> storable_state False st \<Longrightarrow>
      v \<noteq> current_version (state_cell decode_text (rows w) (n, i)) \<Longrightarrow>
      \<exists>a w'. to_saga_save c tb n i st v w = (Inl (ConcurrencyError n (IDStr i) v a), w') \<and>
        state_ok decode_text (rows w') \<and> state_cell decode_text (rows w') = state_cell decode_text (rows w)"
    using saga_save_alone(2) by blast
qed

lemmas saga_history = state_history

text \<open>Two saves of an existing saga that both read before either writes both succeed.\<close>

lemma saga_race:
  assumes "state_ok decode_text (rows w)" and "storable_state False st1" and "storable_state False st2"
    and cell: "state_cell decode_text (rows w) (n, i) = Some (st0, v)"
  shows "\<exists>r w1 w2. to_saga_find c tb n i w = (Inr (Some r), w) \<and>
    to_saga_write c tb n i st1 v (Some r) w = (Inr (), w1) \<and>
    to_saga_write c tb n i st2 v (Some r) w1 = (Inr (), w2) \<and>
    to_saga_load c tb n i w2 = (Inr (Some (st2, v + 1)), w2)"
proof -
  obtain r where find: "to_saga_find c tb n i w = (Inr (Some r), w)" and v0: "0 \<le> v"
    and e: "case Some r of None \<Rightarrow> v = 0 | Some r \<Rightarrow> sr_key r = (n, i) \<and> sr_version r = v"
    using cell by (rule_tac saga_find [OF assms(1), of n i]) auto
  from saga_write [OF assms(1,2) v0 e] obtain w1
    where w1: "to_saga_write c tb n i st1 v (Some r) w = (Inr (), w1)" "state_ok decode_text (rows w1)"
    by blast
  from saga_write [OF w1(2) assms(3) v0 e] obtain w2
    where w2: "to_saga_write c tb n i st2 v (Some r) w1 = (Inr (), w2)" "state_ok decode_text (rows w2)"
      "state_cell decode_text (rows w2) = (state_cell decode_text (rows w1))((n, i) \<mapsto> (st2, v + 1))"
    by blast
  from find w1(1) w2 show ?thesis by (auto simp: load_cell)
qed

text \<open>Two saves of a new saga that both reach the \<^verbatim>\<open>INSERT\<close>: the second one's fails on the
  primary key, which is reported as a conflict.\<close>

lemma saga_insert_race:
  assumes "state_ok decode_text (rows w)" and "state_cell decode_text (rows w) (n, i) = None"
    and "\<And>e. dup e \<Longrightarrow> typeorm_saga_unique e \<and> \<not> is_concurrency_error e"
    and "storable_state False st1" and "storable_state False st2"
  shows "\<exists>w1 w2. to_saga_new c tb n i (js_stringify st1) [] w = (Inr (), w1) \<and>
    catch_act (to_saga_new c tb n i (js_stringify st2) []) (to_saga_error n i 0) w1 =
      (Inl (ConcurrencyError n (IDStr i) 0 (-1)), w2) \<and> rows w2 = rows w1"
proof -
  let ?row = "\<lambda>st. \<lparr>sr_name = n, sr_id = i, sr_state = js_stringify st, sr_version = 1\<rparr>"
  have fit: "sr_fits (?row st1)" "sr_fits (?row st2)"
    using text_codec [OF assms(4)] text_codec [OF assms(5)] by (simp_all add: sr_fits_def)
  have none: "\<forall>x \<in># rows w. sr_key x \<noteq> (n, i)"
  proof (rule sql_state_store.cell_cases [OF saga_table assms(1), of n i])
    assume "filter_mset (\<lambda>r. sr_key r = (n, i)) (rows w) = {#}"
    then have "set_mset (filter_mset (\<lambda>r. sr_key r = (n, i)) (rows w)) = {}" by simp
    then show ?thesis by auto
  qed (use assms(2) in simp)
  have "unique_key sr_key (rows w + mset [?row st1])"
    using assms(1) none by (simp add: unique_key_add state_ok_def sr_key_def)
  from insert_ok [OF _ this] fit(1) obtain w1 r where w1: "sql_insert tb (getExecutor c) [?row st1] w = (Inr (), w1)"
    and r: "rows w1 = rows w + {#r#}" "sr_stored (?row st1) r" by (auto simp: list_all2_Cons1)
  from r(2) have "sr_key r = (n, i)" by (auto simp: sr_stored_def sr_key_def)
  with r(1) have "\<not> unique_key sr_key (rows w1 + mset [?row st2])"
    by (auto simp: unique_key_add sr_key_def)
  from insert_dup [OF _ this] fit(2) obtain e w2 where
    "sql_insert tb (getExecutor c) [?row st2] w1 = (Inl e, w2)" "dup e" "rows w2 = rows w1" by auto
  with w1 assms(3) [of e] show ?thesis
    by (auto simp: to_saga_new_def to_saga_error_def act Let_def)
qed

end

text \<open>C25: A lost update in the TypeORM saga store. Two saves of a saga that is already stored, both
  with its current version, that interleave at the await between the read and repo.save both
  succeed, and the state of the first is gone: the write carries no version predicate. (Two racing
  saves of a saga with no row yet are another matter: their INSERTs meet on the primary key.)\<close>
theorem to_saga_lost_update:
  assumes "sql_upsert tb (getExecutor c) rows sr_key sr_fits sr_stored dup no_row"
    and "state_ok decode_text (rows w)"
    and "storable_state False st1" and "storable_state False st2"
    and "state_cell decode_text (rows w) (n, i) = Some (st0, v)"
  shows "\<exists>r w1 w2. to_saga_find c tb n i w = (Inr (Some r), w) \<and>
    to_saga_write c tb n i st1 v (Some r) w = (Inr (), w1) \<and>
    to_saga_write c tb n i st2 v (Some r) w1 = (Inr (), w2) \<and>
    to_saga_load c tb n i w2 = (Inr (Some (st2, v + 1)), w2)"
  using sql_saga_store.saga_race [OF sql_saga_store.intro [OF assms(1)] assms(2-5)] .

definition typeorm_states :: "(unit, state_row, state_row list) sql_table" where
  "typeorm_states = list_table sr_key (\<lambda>_ r. r\<lparr>sr_state := json_norm (sr_state r)\<rparr>) sqlite_error
     (\<lambda>n. nothing_reported\<lparr>ur_affected := Some (int n)\<rparr>)"

lemma typeorm_driver:
  "sql_upsert typeorm_states ex mset sr_key sr_fits sr_stored typeorm_isUniqueViolation
     (\<lambda>res. ur_affected res = Some 0)"
  unfolding typeorm_states_def
  by (rule list_table_upsert)
    (auto simp: sr_stored_def sr_key_def sqlite_error_def typeorm_isUniqueViolation_def
      hasUniqueViolationCode_def sql_code_def starts_with_def nothing_reported_def)

interpretation typeorm_saga: sql_saga_store typeorm_states base_connection mset
  typeorm_isUniqueViolation "\<lambda>res. ur_affected res = Some 0"
  by (rule sql_saga_store.intro [OF typeorm_driver])

theorem to_saga_lost_update_witness:
  "\<exists>r w1 w2. to_saga_find base_connection typeorm_states ''Order'' ''1'' saga_table = (Inr (Some r), saga_table) \<and>
    to_saga_write base_connection typeorm_states ''Order'' ''1'' (JStr ''paid'') 3 (Some r) saga_table = (Inr (), w1) \<and>
    to_saga_write base_connection typeorm_states ''Order'' ''1'' (JStr ''shipped'') 3 (Some r) w1 = (Inr (), w2) \<and>
    to_saga_load base_connection typeorm_states ''Order'' ''1'' w2 = (Inr (Some (JStr ''shipped'', 4)), w2)"
proof -
  have dec: "decode_text (JStr ''{}'') = Inr (JObj [])" by code_simp
  have ok: "state_ok decode_text (mset saga_table)"
    using dec by (simp add: state_ok_def saga_table_def unique_key_def)
  have "state_cell decode_text (mset saga_table) (''Order'', ''1'') = Some (JObj [], 3)"
    using dec by (simp add: state_cell_def saga_table_def sr_key_def)
  with to_saga_lost_update [OF typeorm_driver ok, of "JStr ''paid''" "JStr ''shipped''" "''Order''" "''1''" "JObj []" 3
      base_connection]
  show ?thesis by (simp add: storable_state_def json_clean_def base_connection_def)
qed

section \<open>Snapshots\<close>

text \<open>A saved snapshot is what the next load returns, on every adapter; the Drizzle store writes a
  state that is a string as it is, and then parses it.\<close>

lemma dz_snap_string_lost:
  "fst (dz_snap_load base_connection (Some sqlite_states) ''Cart'' ''1''
     (snd (dz_snap_save base_connection (Some sqlite_states) False ''Cart'' ''1''
        \<lparr>sn_state = JStr ''open'', sn_version = 4, sn_stateVersion = None\<rparr> []))) = Inl SyntaxError \<and>
   fst (to_snap_load base_connection typeorm_states ''Cart'' ''1''
     (snd (to_snap_save base_connection typeorm_states ''Cart'' ''1''
        \<lparr>sn_state = JStr ''open'', sn_version = 4, sn_stateVersion = None\<rparr> []))) =
     Inr (Some \<lparr>sn_state = JStr ''open'', sn_version = 4, sn_stateVersion = None\<rparr>)"
  by code_simp

end
