(* ===== verification/Sql_Events.thy ===== *)
theory Sql_Events
  imports Sql_State
begin

text \<open>
  The event stores of the database adapters (\<^verbatim>\<open>drizzle/src/persistence.ts\<close>,
  \<^verbatim>\<open>typeorm/src/persistence.ts\<close>, \<^verbatim>\<open>prisma/src/persistence.ts\<close>) and their readers of
  the global log (\<^verbatim>\<open>event-reader.ts\<close>). A stream is the set of rows of one instance, ordered by
  sequence number, and concurrency control is the unique index on (aggregate name, aggregate id,
  sequence number).
\<close>

section \<open>Rows\<close>

text \<open>
  A timestamp text without its zone denotes an instant only together with the zone of the process
  that reads it; \<open>Zoneless t\<close> is the text whose fields name the instant \<open>t\<close> in UTC.
\<close>

datatype db_time = Instant int | Zoneless int

definition toDbTimestamp :: "int \<Rightarrow> db_time" where
  "toDbTimestamp d = Zoneless d"

text \<open>\<^verbatim>\<open>new Date(column)\<close> in a process whose local time is \<open>offset\<close> milliseconds ahead of
  UTC.\<close>

fun js_date :: "int \<Rightarrow> db_time \<Rightarrow> int" where
  "js_date offset (Instant t) = t"
| "js_date offset (Zoneless t) = t - offset"

record event_row =
  er_id :: int
  er_aggregateName :: string
  er_aggregateId :: string
  er_sequenceNumber :: int
  er_eventName :: string
  er_payload :: jsval
  er_metadata :: jsval
  er_createdAt :: db_time

definition er_key :: "event_row \<Rightarrow> string \<times> string \<times> int" where
  "er_key r = (er_aggregateName r, er_aggregateId r, er_sequenceNumber r)"

text \<open>\<^verbatim>\<open>xs.map(f)\<close> for an \<open>f\<close> that may throw.\<close>

fun map_result :: "('a \<Rightarrow> error + 'b) \<Rightarrow> 'a list \<Rightarrow> error + 'b list" where
  "map_result f [] = Inr []"
| "map_result f (x # xs) =
     (case f x of Inl e \<Rightarrow> Inl e
      | Inr y \<Rightarrow> (case map_result f xs of Inl e \<Rightarrow> Inl e | Inr ys \<Rightarrow> Inr (y # ys)))"

lemma map_result_Inr: "map_result f xs = Inr ys \<longleftrightarrow> map f xs = map Inr ys"
proof (induction xs arbitrary: ys)
  case (Cons x xs)
  have "map_result f (x # xs) = Inr ys \<longleftrightarrow>
      (\<exists>y zs. f x = Inr y \<and> map_result f xs = Inr zs \<and> ys = y # zs)"
    by (auto split: sum.splits)
  also have "\<dots> \<longleftrightarrow> (\<exists>y zs. f x = Inr y \<and> map f xs = map Inr zs \<and> ys = y # zs)"
    by (simp only: Cons.IH)
  finally show ?case by (cases ys) auto
qed auto

section \<open>Save and load\<close>

text \<open>The rows of a batch have consecutive sequence numbers from \<open>expectedVersion + 1\<close>; one statement
  inserts them.\<close>

definition sql_es_save ::
  "(error \<Rightarrow> bool) \<Rightarrow> (string \<Rightarrow> string \<Rightarrow> int \<Rightarrow> event \<Rightarrow> error + event_row) \<Rightarrow>
   ('ex, event_row, 'w) sql_table \<Rightarrow> 'ex \<Rightarrow> string \<Rightarrow> string \<Rightarrow> event list \<Rightarrow> int \<Rightarrow> ('w, unit) action" where
  "sql_es_save is_dup build tb ex n i events expectedVersion =
     (if length events = 0 then ret ()
      else bind_act (lift_result (map_result
             (\<lambda>(index, event). build n i (expectedVersion + int index + 1) event) (enumerate 0 events)))
        (\<lambda>rs. catch_act (sql_insert tb ex rs)
          (\<lambda>e. if is_dup e then throw (ConcurrencyError n (IDStr i) expectedVersion (-1)) else throw e)))"

definition sql_es_load ::
  "(event_row \<Rightarrow> error + event) \<Rightarrow> ('ex, event_row, 'w) sql_table \<Rightarrow> 'ex \<Rightarrow> string \<Rightarrow> string \<Rightarrow>
   ('w, event list) action" where
  "sql_es_load decode tb ex n i =
     bind_act (sql_select tb ex (\<lambda>r. er_aggregateName r = n \<and> er_aggregateId r = i)
         (Some er_sequenceNumber) None)
       (\<lambda>rs. lift_result (map_result decode rs))"

definition sql_es_loadAfterVersion ::
  "(event_row \<Rightarrow> error + event) \<Rightarrow> ('ex, event_row, 'w) sql_table \<Rightarrow> 'ex \<Rightarrow> string \<Rightarrow> string \<Rightarrow> int \<Rightarrow>
   ('w, event list) action" where
  "sql_es_loadAfterVersion decode tb ex n i afterVersion =
     bind_act (sql_select tb ex (\<lambda>r. er_aggregateName r = n \<and> er_aggregateId r = i \<and>
           afterVersion < er_sequenceNumber r) (Some er_sequenceNumber) None)
       (\<lambda>rs. lift_result (map_result decode rs))"

section \<open>Drizzle\<close>

definition event_time :: "int \<Rightarrow> event \<Rightarrow> int" where
  "event_time now e = (case ev_metadata e of None \<Rightarrow> now | Some m \<Rightarrow> md_timestamp m)"

text \<open>The metadata object, if it can be serialised.\<close>

definition metadata_value :: "event \<Rightarrow> error + jsval option" where
  "metadata_value e = (case ev_metadata e of None \<Rightarrow> Inr None
     | Some m \<Rightarrow> (case metadata_js m of Inl x \<Rightarrow> Inl x | Inr v \<Rightarrow> Inr (Some v)))"

definition dz_event_row ::
  "bool \<Rightarrow> int \<Rightarrow> string \<Rightarrow> string \<Rightarrow> int \<Rightarrow> event \<Rightarrow> error + event_row" where
  "dz_event_row nativeJson now n i sequenceNumber event =
     (case metadata_value event of
        Inl e \<Rightarrow> Inl e
      | Inr m \<Rightarrow> Inr \<lparr>er_id = 0, er_aggregateName = n, er_aggregateId = i,
          er_sequenceNumber = sequenceNumber, er_eventName = ev_name event,
          er_payload = encode_state nativeJson (ev_payload event),
          er_metadata = encode_state nativeJson (or_else m JNull),
          er_createdAt = toDbTimestamp (event_time now event)\<rparr>)"

text \<open>A metadata object is taken to have the shape of \<^verbatim>\<open>EventMetadata\<close>; another is refused
  here, where the source casts.\<close>

definition with_metadata :: "event_row \<Rightarrow> jsval \<Rightarrow> jsval \<Rightarrow> error + event" where
  "with_metadata row payload meta =
     (if nullish meta then Inr \<lparr>ev_name = er_eventName row, ev_payload = payload, ev_metadata = None\<rparr>
      else case metadata_of_js meta of
          None \<Rightarrow> Inl TypeError
        | Some m \<Rightarrow> Inr \<lparr>ev_name = er_eventName row, ev_payload = payload, ev_metadata = Some m\<rparr>)"

definition deserializeEvent :: "event_row \<Rightarrow> error + event" where
  "deserializeEvent row =
     (case decode_state (er_payload row) of
        Inl e \<Rightarrow> Inl e
      | Inr payload \<Rightarrow>
          if nullish (er_metadata row) then with_metadata row payload JNull
          else (case decode_state (er_metadata row) of
                  Inl e \<Rightarrow> Inl e
                | Inr meta \<Rightarrow> with_metadata row payload meta))"

text \<open>DrizzleEventSourcedAggregatePersistence\<close>

definition dz_es_save ::
  "'ex sql_connection \<Rightarrow> ('ex, event_row, 'w) sql_table \<Rightarrow> bool \<Rightarrow> int \<Rightarrow> string \<Rightarrow> string \<Rightarrow> event list \<Rightarrow>
   int \<Rightarrow> ('w, unit) action" where
  "dz_es_save c tb nativeJson now =
     sql_es_save isUniqueViolation (dz_event_row nativeJson now) tb (getExecutor c)"

definition dz_es_load ::
  "'ex sql_connection \<Rightarrow> ('ex, event_row, 'w) sql_table \<Rightarrow> string \<Rightarrow> string \<Rightarrow> ('w, event list) action" where
  "dz_es_load c tb = sql_es_load deserializeEvent tb (getExecutor c)"

definition dz_es_loadAfterVersion ::
  "'ex sql_connection \<Rightarrow> ('ex, event_row, 'w) sql_table \<Rightarrow> string \<Rightarrow> string \<Rightarrow> int \<Rightarrow>
   ('w, event list) action" where
  "dz_es_loadAfterVersion c tb = sql_es_loadAfterVersion deserializeEvent tb (getExecutor c)"

section \<open>TypeORM and Prisma\<close>

text \<open>Both write text, and \<^verbatim>\<open>null\<close> for absent metadata; a \<^verbatim>\<open>repo.save\<close> of entities
  without an id is an insert.\<close>

definition text_event_row ::
  "int \<Rightarrow> string \<Rightarrow> string \<Rightarrow> int \<Rightarrow> event \<Rightarrow> error + event_row" where
  "text_event_row now n i sequenceNumber event =
     (case metadata_value event of
        Inl e \<Rightarrow> Inl e
      | Inr m \<Rightarrow> Inr \<lparr>er_id = 0, er_aggregateName = n, er_aggregateId = i,
          er_sequenceNumber = sequenceNumber, er_eventName = ev_name event,
          er_payload = js_stringify (ev_payload event),
          er_metadata = (case m of None \<Rightarrow> JNull | Some v \<Rightarrow> js_stringify v),
          er_createdAt = Instant (event_time now event)\<rparr>)"

text \<open>\<^verbatim>\<open>...(row.metadata ? { metadata: JSON.parse(row.metadata) } : {})\<close>\<close>

definition text_event :: "event_row \<Rightarrow> error + event" where
  "text_event row =
     (case decode_text (er_payload row) of
        Inl e \<Rightarrow> Inl e
      | Inr payload \<Rightarrow>
          if nullish (er_metadata row) \<or> er_metadata row = JStr []
          then with_metadata row payload JNull
          else (case decode_text (er_metadata row) of
                  Inl e \<Rightarrow> Inl e
                | Inr meta \<Rightarrow> with_metadata row payload meta))"

definition to_es_save ::
  "'ex sql_connection \<Rightarrow> ('ex, event_row, 'w) sql_table \<Rightarrow> int \<Rightarrow> string \<Rightarrow> string \<Rightarrow> event list \<Rightarrow>
   int \<Rightarrow> ('w, unit) action" where
  "to_es_save c tb now =
     sql_es_save typeorm_isUniqueViolation (text_event_row now) tb (getExecutor c)"

definition to_es_load ::
  "'ex sql_connection \<Rightarrow> ('ex, event_row, 'w) sql_table \<Rightarrow> string \<Rightarrow> string \<Rightarrow> ('w, event list) action" where
  "to_es_load c tb = sql_es_load text_event tb (getExecutor c)"

definition to_es_loadAfterVersion ::
  "'ex sql_connection \<Rightarrow> ('ex, event_row, 'w) sql_table \<Rightarrow> string \<Rightarrow> string \<Rightarrow> int \<Rightarrow>
   ('w, event list) action" where
  "to_es_loadAfterVersion c tb = sql_es_loadAfterVersion text_event tb (getExecutor c)"

definition pr_es_save ::
  "'ex sql_connection \<Rightarrow> ('ex, event_row, 'w) sql_table \<Rightarrow> int \<Rightarrow> string \<Rightarrow> string \<Rightarrow> event list \<Rightarrow>
   int \<Rightarrow> ('w, unit) action" where
  "pr_es_save c tb now = sql_es_save prisma_unique (text_event_row now) tb (getExecutor c)"

definition pr_es_load ::
  "'ex sql_connection \<Rightarrow> ('ex, event_row, 'w) sql_table \<Rightarrow> string \<Rightarrow> string \<Rightarrow> ('w, event list) action" where
  "pr_es_load c tb = sql_es_load text_event tb (getExecutor c)"

definition pr_es_loadAfterVersion ::
  "'ex sql_connection \<Rightarrow> ('ex, event_row, 'w) sql_table \<Rightarrow> string \<Rightarrow> string \<Rightarrow> int \<Rightarrow>
   ('w, event list) action" where
  "pr_es_loadAfterVersion c tb = sql_es_loadAfterVersion text_event tb (getExecutor c)"

section \<open>The table\<close>

definition er_fits :: "event_row \<Rightarrow> bool" where
  "er_fits r \<longleftrightarrow> er_payload r \<noteq> JUndef \<and> er_payload r \<noteq> JNull"

text \<open>The database assigns the id; the text of a timestamp column is the driver's.\<close>

definition er_stored :: "event_row \<Rightarrow> event_row \<Rightarrow> bool" where
  "er_stored r r' \<longleftrightarrow> r'\<lparr>er_id := er_id r, er_createdAt := er_createdAt r\<rparr> =
     r\<lparr>er_payload := json_norm (er_payload r), er_metadata := json_norm (er_metadata r)\<rparr>"

text \<open>The rows of one instance hold the events \<open>evs\<close> under the sequence numbers 1, 2, ...\<close>

definition holds_stream ::
  "(event_row \<Rightarrow> error + event) \<Rightarrow> event_row multiset \<Rightarrow> string \<Rightarrow> string \<Rightarrow> event list \<Rightarrow> bool" where
  "holds_stream decode M n i evs \<longleftrightarrow>
     (\<exists>rs. mset rs = filter_mset (\<lambda>r. er_aggregateName r = n \<and> er_aggregateId r = i) M \<and>
       map er_sequenceNumber rs = map int [1..<Suc (length evs)] \<and> map decode rs = map Inr evs)"

lemma er_stored_same:
  assumes "er_stored r r'"
  shows "er_key r' = er_key r" "er_aggregateName r' = er_aggregateName r"
    "er_aggregateId r' = er_aggregateId r" "er_sequenceNumber r' = er_sequenceNumber r"
    "er_eventName r' = er_eventName r" "er_payload r' = json_norm (er_payload r)"
    "er_metadata r' = json_norm (er_metadata r)"
  using assms by (cases r; cases r'; auto simp: er_stored_def er_key_def)+

lemma sorted_by_unique:
  assumes "mset xs = mset ys" and "sorted (map f xs)" and "sorted (map f ys)" and "distinct (map f ys)"
  shows "xs = ys"
proof -
  have "map f xs = map f ys"
    using assms(1-3) by (metis mset_map properties_for_sort sorted_sort_id)
  moreover have "inj_on f (set xs \<union> set ys)"
    using assms(1,4) by (metis distinct_map mset_eq_setD sup.idem)
  ultimately show ?thesis by (rule map_inj_on)
qed

lemma sequence_positions:
  assumes "map f rs = map int [1..<Suc n]"
  shows "sorted (map f rs)" "distinct (map f rs)" "length rs = n"
    "k < n \<Longrightarrow> f (rs ! k) = int k + 1" "f ` set rs = int ` {1..n}"
proof -
  show n: "length rs = n" using arg_cong [OF assms, of length] by simp
  show "sorted (map f rs)" unfolding assms by (simp add: sorted_map sorted_wrt_upt del: upt_Suc)
  show "distinct (map f rs)" unfolding assms by (simp add: distinct_map del: upt_Suc)
  show "f ` set rs = int ` {1..n}"
    using arg_cong [OF assms, of set] by (auto simp: atLeastLessThanSuc_atLeastAtMost simp del: upt_Suc)
  show "f (rs ! k) = int k + 1" if "k < n"
  proof -
    have "map f rs ! k = map int [1..<Suc n] ! k" using assms by simp
    with that n show ?thesis by (simp del: upt_Suc)
  qed
qed

lemma filter_after_drop:
  assumes "map f rs = map int [1..<Suc n]"
  shows "filter (\<lambda>r. int v < f r) rs = drop v rs"
proof -
  have pos: "f (rs ! k) = int k + 1" if "k < length rs" for k
    using sequence_positions(3,4) [OF assms] that by simp
  have "filter (\<lambda>r. int v < f r) (take v rs) = []"
    by (auto simp: filter_empty_conv in_set_conv_nth pos)
  moreover have "filter (\<lambda>r. int v < f r) (drop v rs) = drop v rs"
    by (auto simp: filter_id_conv in_set_conv_nth pos)
  ultimately show ?thesis
    by (metis append_take_drop_id filter_append append_Nil)
qed

lemma unique_key_plus:
  assumes "unique_key key M" and "distinct (map key rs)" and "\<forall>x \<in># M. key x \<notin> key ` set rs"
  shows "unique_key key (M + mset rs)"
  using assms by (induction rs) (auto simp: unique_key_add image_iff)

section \<open>A stream in a table\<close>

text \<open>A run of requests in which no expected version is negative or larger than the length of the
  stream it meets: the versions callers obtain from an earlier load.\<close>

fun never_ahead :: "nat \<Rightarrow> (event list \<times> int) list \<Rightarrow> bool" where
  "never_ahead n [] \<longleftrightarrow> True"
| "never_ahead n ((evs, v) # rs) \<longleftrightarrow>
     0 \<le> v \<and> v \<le> int n \<and> never_ahead (if v = int n then n + length evs else n) rs"

locale sql_event_store =
  sql_semantics tb ex rows er_key er_fits er_stored dup no_row
  for tb :: "('ex, event_row, 'w) sql_table" and ex :: 'ex and rows :: "'w \<Rightarrow> event_row multiset"
    and dup :: "error \<Rightarrow> bool" and no_row :: "update_result \<Rightarrow> bool" +
  fixes build :: "string \<Rightarrow> string \<Rightarrow> int \<Rightarrow> event \<Rightarrow> error + event_row"
    and decode :: "event_row \<Rightarrow> error + event" and writable :: "event \<Rightarrow> bool"
  assumes built: "writable e \<Longrightarrow> \<exists>r. build n i s e = Inr r \<and> er_key r = (n, i, s) \<and> er_fits r \<and>
      (\<forall>r'. er_stored r r' \<longrightarrow> decode r' = Inr e)"
begin

abbreviation stream :: "'w \<Rightarrow> string \<Rightarrow> string \<Rightarrow> event list \<Rightarrow> bool" where
  "stream w \<equiv> holds_stream decode (rows w)"

lemma load_stream:
  assumes "stream w n i evs"
  shows "sql_es_load decode tb ex n i w = (Inr evs, w)"
proof -
  obtain rs where rs: "mset rs = filter_mset (\<lambda>r. er_aggregateName r = n \<and> er_aggregateId r = i) (rows w)"
      "map er_sequenceNumber rs = map int [1..<Suc (length evs)]" "map decode rs = map Inr evs"
    using assms by (auto simp: holds_stream_def)
  obtain xs where xs: "sql_select tb ex (\<lambda>r. er_aggregateName r = n \<and> er_aggregateId r = i)
        (Some er_sequenceNumber) None w = (Inr xs, w)"
      "mset xs = filter_mset (\<lambda>r. er_aggregateName r = n \<and> er_aggregateId r = i) (rows w)"
      "sorted (map er_sequenceNumber xs)"
    using select_sorted by blast
  have "xs = rs"
    by (rule sorted_by_unique [where f = er_sequenceNumber])
      (use xs rs sequence_positions [OF rs(2)] in simp_all)
  with xs(1) rs(3) show ?thesis by (simp add: sql_es_load_def act map_result_Inr [THEN iffD2])
qed

lemma load_tail:
  assumes "stream w n i evs"
  shows "sql_es_loadAfterVersion decode tb ex n i (int v) w = (Inr (drop v evs), w)"
proof -
  let ?p = "\<lambda>r. er_aggregateName r = n \<and> er_aggregateId r = i"
  let ?q = "\<lambda>r. er_aggregateName r = n \<and> er_aggregateId r = i \<and> int v < er_sequenceNumber r"
  obtain rs where rs: "mset rs = filter_mset ?p (rows w)"
      "map er_sequenceNumber rs = map int [1..<Suc (length evs)]" "map decode rs = map Inr evs"
    using assms by (auto simp: holds_stream_def)
  obtain xs where xs: "sql_select tb ex ?q (Some er_sequenceNumber) None w = (Inr xs, w)"
      "mset xs = filter_mset ?q (rows w)" "sorted (map er_sequenceNumber xs)"
    using select_sorted by blast
  have "filter_mset ?q (rows w) = filter_mset (\<lambda>r. int v < er_sequenceNumber r) (mset rs)"
    unfolding rs(1) by (auto intro!: multiset_eqI)
  also have "\<dots> = mset (drop v rs)"
    using filter_after_drop [OF rs(2), of v] by (metis mset_filter)
  finally have "mset xs = mset (drop v rs)" using xs(2) by simp
  moreover have "sorted (map er_sequenceNumber (drop v rs))" "distinct (map er_sequenceNumber (drop v rs))"
    using sequence_positions(1,2) [OF rs(2)] by (simp_all flip: drop_map)
  ultimately have "xs = drop v rs"
    using xs(3) sorted_by_unique [of xs "drop v rs" er_sequenceNumber] by blast
  moreover have "map decode (drop v rs) = map Inr (drop v evs)"
    using rs(3) by (simp flip: drop_map)
  ultimately show ?thesis using xs(1)
    by (simp add: sql_es_loadAfterVersion_def act map_result_Inr [THEN iffD2])
qed

lemma rows_built:
  assumes "list_all writable evs"
  obtains rs where
    "map_result (\<lambda>(index, event). build n i (v + int index + 1) event) (enumerate 0 evs) = Inr rs"
    "map er_key rs = map (\<lambda>k. (n, i, v + int k + 1)) [0..<length evs]" "list_all er_fits rs"
    "\<forall>rs'. list_all2 er_stored rs rs' \<longrightarrow> map decode rs' = map Inr evs"
proof -
  define R where "R s e = projr (build n i s e)" for s e
  have R: "build n i s e = Inr (R s e) \<and> er_key (R s e) = (n, i, s) \<and> er_fits (R s e) \<and>
      (\<forall>r'. er_stored (R s e) r' \<longrightarrow> decode r' = Inr e)" if "writable e" for s e
    using built [OF that, of n i s] by (auto simp: R_def)
  define rs where "rs = map (\<lambda>k. R (v + int k + 1) (evs ! k)) [0..<length evs]"
  have w: "writable (evs ! k)" if "k < length evs" for k
    using assms that by (simp add: list_all_length)
  have "map (\<lambda>(index, event). build n i (v + int index + 1) event) (enumerate 0 evs) = map Inr rs"
    by (rule nth_equalityI) (simp_all add: rs_def nth_enumerate_eq R [OF w])
  then have 1: "map_result (\<lambda>(index, event). build n i (v + int index + 1) event) (enumerate 0 evs) = Inr rs"
    by (simp add: map_result_Inr)
  have 2: "map er_key rs = map (\<lambda>k. (n, i, v + int k + 1)) [0..<length evs]"
    by (simp add: rs_def R [OF w])
  have 3: "list_all er_fits rs"
    by (simp add: rs_def list_all_length R [OF w])
  have "map decode rs' = map Inr evs" if "list_all2 er_stored rs rs'" for rs'
  proof (rule nth_equalityI)
    show "length (map decode rs') = length (map Inr evs)"
      using list_all2_lengthD [OF that] by (simp add: rs_def)
    fix k assume "k < length (map decode rs')"
    then have k: "k < length evs" "k < length rs'"
      using list_all2_lengthD [OF that] by (simp_all add: rs_def)
    moreover have "er_stored (rs ! k) (rs' ! k)" using list_all2_nthD2 [OF that k(2)] .
    ultimately show "map decode rs' ! k = map Inr evs ! k"
      using R [OF w] by (simp add: rs_def)
  qed
  with 1 2 3 show thesis using that by blast
qed

lemma stream_bound:
  assumes "stream w n i evs" and "r \<in># rows w" and "er_aggregateName r = n" and "er_aggregateId r = i"
  shows "1 \<le> er_sequenceNumber r" "er_sequenceNumber r \<le> int (length evs)"
proof -
  obtain rs where rs: "mset rs = filter_mset (\<lambda>r. er_aggregateName r = n \<and> er_aggregateId r = i) (rows w)"
      "map er_sequenceNumber rs = map int [1..<Suc (length evs)]"
    using assms(1) by (auto simp: holds_stream_def)
  have "r \<in># mset rs" using assms(2-4) rs(1) by simp
  then have "er_sequenceNumber r \<in> int ` {1..length evs}"
    using sequence_positions(5) [OF rs(2)] by auto
  then show "1 \<le> er_sequenceNumber r" "er_sequenceNumber r \<le> int (length evs)" by auto
qed

lemma save_appends:
  assumes "stream w n i evs0" and "unique_key er_key (rows w)" and "list_all writable evs"
  shows "\<exists>w'. sql_es_save dup build tb ex n i evs (int (length evs0)) w = (Inr (), w') \<and>
    stream w' n i (evs0 @ evs) \<and> unique_key er_key (rows w')"
proof (cases "evs = []")
  case True
  with assms show ?thesis by (simp add: sql_es_save_def act)
next
  case False
  let ?l = "int (length evs0)"
  obtain rs where rs:
    "map_result (\<lambda>(index, event). build n i (?l + int index + 1) event) (enumerate 0 evs) = Inr rs"
    "map er_key rs = map (\<lambda>k. (n, i, ?l + int k + 1)) [0..<length evs]" "list_all er_fits rs"
    "\<forall>rs'. list_all2 er_stored rs rs' \<longrightarrow> map decode rs' = map Inr evs"
    using rows_built [OF assms(3), where n = n and i = i and v = ?l] .
  have keys: "er_key ` set rs = (\<lambda>k. (n, i, ?l + int k + 1)) ` {0..<length evs}"
    using arg_cong [OF rs(2), of set] by simp
  have "unique_key er_key (rows w + mset rs)"
  proof (rule unique_key_plus [OF assms(2)])
    show "distinct (map er_key rs)" unfolding rs(2) by (simp add: distinct_map inj_on_def)
    show "\<forall>x \<in># rows w. er_key x \<notin> er_key ` set rs"
    proof
      fix x assume "x \<in># rows w"
      then show "er_key x \<notin> er_key ` set rs"
        using stream_bound(2) [OF assms(1), of x] unfolding keys by (auto simp: er_key_def)
    qed
  qed
  from insert_ok [OF rs(3) this] obtain w' rs' where ins: "sql_insert tb ex rs w = (Inr (), w')"
      "list_all2 er_stored rs rs'" "rows w' = rows w + mset rs'"
    by blast
  have keys': "map er_key rs' = map er_key rs"
    using ins(2) by (induction rule: list_all2_induct) (simp_all add: er_stored_same)
  have "image_mset er_key (rows w') = image_mset er_key (rows w + mset rs)"
    using keys' by (simp add: ins(3) flip: mset_map)
  then have uniq: "unique_key er_key (rows w')"
    using \<open>unique_key er_key (rows w + mset rs)\<close> unique_key_cong by blast
  have here: "er_aggregateName r = n \<and> er_aggregateId r = i" if "r \<in> set rs'" for r
  proof -
    have "er_key r \<in> er_key ` set rs'" using that by simp
    also have "\<dots> = (\<lambda>k. (n, i, ?l + int k + 1)) ` {0..<length evs}"
      using arg_cong [OF keys', of set] keys by simp
    finally show ?thesis by (auto simp: er_key_def)
  qed
  have "map er_sequenceNumber rs' = map (\<lambda>k. snd (snd k)) (map er_key rs')"
    by (simp add: er_key_def)
  also have "\<dots> = map (\<lambda>k. ?l + int k + 1) [0..<length evs]"
    unfolding keys' rs(2) by simp
  finally have seq: "map er_sequenceNumber rs' = map (\<lambda>k. ?l + int k + 1) [0..<length evs]" .
  obtain old where old: "mset old = filter_mset (\<lambda>r. er_aggregateName r = n \<and> er_aggregateId r = i) (rows w)"
      "map er_sequenceNumber old = map int [1..<Suc (length evs0)]" "map decode old = map Inr evs0"
    using assms(1) by (auto simp: holds_stream_def)
  have "stream w' n i (evs0 @ evs)"
    unfolding holds_stream_def
  proof (intro exI conjI)
    show "mset (old @ rs') = filter_mset (\<lambda>r. er_aggregateName r = n \<and> er_aggregateId r = i) (rows w')"
    proof -
      have "filter (\<lambda>r. er_aggregateName r = n \<and> er_aggregateId r = i) rs' = rs'"
        by (simp add: filter_id_conv here)
      then have "filter_mset (\<lambda>r. er_aggregateName r = n \<and> er_aggregateId r = i) (mset rs') = mset rs'"
        by (metis mset_filter)
      with old(1) ins(3) show ?thesis by simp
    qed
    show "map decode (old @ rs') = map Inr (evs0 @ evs)"
      using old(3) rs(4) ins(2) by simp
    show "map er_sequenceNumber (old @ rs') = map int [1..<Suc (length (evs0 @ evs))]"
    proof (rule nth_equalityI)
      fix k assume "k < length (map er_sequenceNumber (old @ rs'))"
      then show "map er_sequenceNumber (old @ rs') ! k = map int [1..<Suc (length (evs0 @ evs))] ! k"
        unfolding map_append old(2) seq by (auto simp: nth_append simp del: upt_Suc)
    next
      have "length old = length evs0" "length rs' = length evs"
        using sequence_positions(3) [OF old(2)] arg_cong [OF seq, of length] by simp_all
      then show "length (map er_sequenceNumber (old @ rs')) =
          length (map int [1..<Suc (length (evs0 @ evs))])"
        by (simp del: upt_Suc)
    qed
  qed
  with ins(1) rs(1) uniq False show ?thesis by (simp add: sql_es_save_def act)
qed

lemma save_conflicts:
  assumes "stream w n i evs0" and "evs \<noteq> []" and "list_all writable evs"
    and "0 \<le> v" and "v < int (length evs0)"
  shows "\<exists>w'. sql_es_save dup build tb ex n i evs v w = (Inl (ConcurrencyError n (IDStr i) v (-1)), w') \<and>
    rows w' = rows w"
proof -
  obtain rs where rs:
    "map_result (\<lambda>(index, event). build n i (v + int index + 1) event) (enumerate 0 evs) = Inr rs"
    "map er_key rs = map (\<lambda>k. (n, i, v + int k + 1)) [0..<length evs]" "list_all er_fits rs"
    using rows_built [OF assms(3)] by metis
  obtain old where old: "mset old = filter_mset (\<lambda>r. er_aggregateName r = n \<and> er_aggregateId r = i) (rows w)"
      "map er_sequenceNumber old = map int [1..<Suc (length evs0)]"
    using assms(1) by (auto simp: holds_stream_def)
  let ?x = "old ! nat v"
  have "nat v < length old" using assms(4,5) sequence_positions(3) [OF old(2)] by linarith
  then have "?x \<in># mset old" by simp
  then have x: "?x \<in># rows w" "er_key ?x = (n, i, v + 1)"
    using old(1) sequence_positions(4) [OF old(2), of "nat v"] assms(4,5)
    by (auto simp: er_key_def)
  have "er_key ?x \<in> er_key ` set rs"
    using assms(2) arg_cong [OF rs(2), of set] x(2) by force
  then obtain y where y: "y \<in> set rs" "er_key y = er_key ?x" by auto
  have "\<not> unique_key er_key (rows w + mset rs)"
  proof
    assume u: "unique_key er_key (rows w + mset rs)"
    obtain M where M: "rows w = add_mset ?x M" using x(1) by (metis insert_DiffM)
    with u have "unique_key er_key (add_mset ?x (M + mset rs))" by simp
    then show False using y unfolding unique_key_add by auto
  qed
  from insert_dup [OF rs(3) this] obtain e w' where "sql_insert tb ex rs w = (Inl e, w')" "dup e"
      "rows w' = rows w"
    by blast
  with rs(1) assms(2) show ?thesis by (simp add: sql_es_save_def act)
qed

text \<open>Any run of saves none of which expects a version the stream has not reached.\<close>

lemma run_history:
  assumes "stream w n i evs0" and "unique_key er_key (rows w)"
    and "\<forall>(evs, v) \<in> set reqs. list_all writable evs" and "never_ahead (length evs0) reqs"
  shows "stream (fold (\<lambda>(evs, v). effect (sql_es_save dup build tb ex n i evs v)) reqs w) n i
    (evs0 @ concat (accepted (length evs0) reqs))"
  using assms
proof (induction reqs arbitrary: w evs0)
  case Nil
  then show ?case by simp
next
  case (Cons r reqs)
  obtain evs v where r: "r = (evs, v)" by (cases r)
  with Cons.prems have w: "list_all writable evs" "\<forall>(evs, v) \<in> set reqs. list_all writable evs"
    and v: "0 \<le> v" "v \<le> int (length evs0)"
    and rest: "never_ahead (if v = int (length evs0) then length evs0 + length evs else length evs0) reqs"
    by auto
  show ?case
  proof (cases "v = int (length evs0)")
    case True
    from save_appends [OF Cons.prems(1,2) w(1)] obtain w'
      where w': "sql_es_save dup build tb ex n i evs v w = (Inr (), w')"
        "stream w' n i (evs0 @ evs)" "unique_key er_key (rows w')"
      using True by blast
    from Cons.IH [OF w'(2,3) w(2)] rest True w'(1) r show ?thesis by (simp add: effect_def)
  next
    case stale: False
    have "\<exists>w'. effect (sql_es_save dup build tb ex n i evs v) w = w' \<and> rows w' = rows w"
    proof (cases "evs = []")
      case True
      then show ?thesis by (simp add: effect_def sql_es_save_def act)
    next
      case False
      then show ?thesis
        using save_conflicts [OF Cons.prems(1) False w(1) v(1)] v(2) stale by (auto simp: effect_def)
    qed
    then obtain w' where w': "effect (sql_es_save dup build tb ex n i evs v) w = w'" "rows w' = rows w"
      by blast
    with Cons.prems(1,2) have "stream w' n i evs0" "unique_key er_key (rows w')" by simp_all
    from Cons.IH [OF this w(2)] rest stale w'(1) r show ?thesis by simp
  qed
qed

end

section \<open>The codecs\<close>

definition writable_event :: "bool \<Rightarrow> event \<Rightarrow> bool" where
  "writable_event nativeJson e \<longleftrightarrow> storable_state nativeJson (ev_payload e) \<and> \<not> isl (metadata_value e)"

lemma metadata_value_cases:
  assumes "\<not> isl (metadata_value e)"
  obtains (none) "ev_metadata e = None" "metadata_value e = Inr None"
    | (some) m v where "ev_metadata e = Some m" "metadata_js m = Inr v" "metadata_value e = Inr (Some v)"
        "metadata_of_js v = Some m" "json_clean v" "v \<noteq> JUndef" "\<not> nullish v" "\<forall>s. v \<noteq> JStr s"
proof (cases "ev_metadata e")
  case None
  then show thesis using none by (simp add: metadata_value_def)
next
  case (Some m)
  with assms obtain v where v: "metadata_js m = Inr v" by (cases "metadata_js m") (auto simp: metadata_value_def)
  then have "\<exists>kvs. v = JObj kvs" by (auto simp: metadata_js_def split: sum.splits)
  with Some v metadata_js_roundtrip [OF v] show thesis
    using some [OF Some v] by (auto simp: metadata_value_def json_clean_def nullish_def)
qed

lemma metadata_codec:
  assumes "metadata_of_js v = Some m" "json_clean v" "v \<noteq> JUndef" "\<not> nullish v" "\<forall>s. v \<noteq> JStr s"
  shows "decode_state (json_norm (encode_state nj v)) = Inr v" "\<not> nullish (json_norm (encode_state nj v))"
    "decode_text (json_norm (js_stringify v)) = Inr v" "\<not> nullish (json_norm (js_stringify v))"
    "json_norm (js_stringify v) \<noteq> JStr []"
proof -
  have s: "storable_state nj v" "storable_state False v"
    using assms(2-5) by (auto simp: storable_state_def nullish_def split: jsval.splits)
  then show "decode_state (json_norm (encode_state nj v)) = Inr v" "decode_text (json_norm (js_stringify v)) = Inr v"
    by (simp_all add: state_codec text_codec)
  obtain t where t: "js_stringify v = JStr t" "js_parse t = Inr v"
    using js_stringify_parse [OF assms(2,3)] .
  have "js_parse [] \<noteq> Inr v" by code_simp
  with t show "json_norm (js_stringify v) \<noteq> JStr []" "\<not> nullish (json_norm (js_stringify v))"
    by (auto simp: nullish_def)
  show "\<not> nullish (json_norm (encode_state nj v))"
    using t assms(2,4) by (simp add: encode_state_def json_clean_def nullish_def)
qed

lemma dz_built:
  assumes "writable_event nj e"
  shows "\<exists>r. dz_event_row nj now n i s e = Inr r \<and> er_key r = (n, i, s) \<and> er_fits r \<and>
    (\<forall>r'. er_stored r r' \<longrightarrow> deserializeEvent r' = Inr e)"
proof -
  have p: "storable_state nj (ev_payload e)" and m: "\<not> isl (metadata_value e)"
    using assms by (simp_all add: writable_event_def)
  note pay = state_codec [OF p]
  from m show ?thesis
  proof (cases rule: metadata_value_cases)
    case none
    have "decode_state (json_norm (encode_state nj JNull)) = Inr JNull \<or>
        nullish (json_norm (encode_state nj JNull))"
      by (cases nj) (auto simp: encode_state_def nullish_def intro: state_codec [of False JNull, unfolded encode_state_def storable_state_def json_clean_def, simplified])
    then show ?thesis
      using none pay
      by (auto simp: dz_event_row_def er_key_def er_fits_def er_stored_same deserializeEvent_def
          with_metadata_def nullish_def)
  next
    case (some md v)
    with pay metadata_codec(1,2) [OF some(4-8), of nj] show ?thesis
      by (auto simp: dz_event_row_def er_key_def er_fits_def er_stored_same deserializeEvent_def
          with_metadata_def)
  qed
qed

lemma text_built:
  assumes "writable_event False e"
  shows "\<exists>r. text_event_row now n i s e = Inr r \<and> er_key r = (n, i, s) \<and> er_fits r \<and>
    (\<forall>r'. er_stored r r' \<longrightarrow> text_event r' = Inr e)"
proof -
  have p: "storable_state False (ev_payload e)" and m: "\<not> isl (metadata_value e)"
    using assms by (simp_all add: writable_event_def)
  note pay = text_codec [OF p]
  from m show ?thesis
  proof (cases rule: metadata_value_cases)
    case none
    with pay show ?thesis
      by (auto simp: text_event_row_def er_key_def er_fits_def er_stored_same text_event_def
          with_metadata_def nullish_def)
  next
    case (some md v)
    with pay metadata_codec(3-5) [OF some(4-8)] show ?thesis
      by (auto simp: text_event_row_def er_key_def er_fits_def er_stored_same text_event_def
          with_metadata_def)
  qed
qed

abbreviation event_driver ::
  "('ex, event_row, 'w) sql_table \<Rightarrow> 'ex \<Rightarrow> ('w \<Rightarrow> event_row multiset) \<Rightarrow> (error \<Rightarrow> bool) \<Rightarrow>
   (update_result \<Rightarrow> bool) \<Rightarrow> bool" where
  "event_driver tb ex rows dup no_row \<equiv> sql_semantics tb ex rows er_key er_fits er_stored dup no_row"

lemmas event_store = sql_event_store.intro [OF _ sql_event_store_axioms.intro]

lemma drizzle_events:
  "event_driver tb ex rows dup no_row \<Longrightarrow>
     sql_event_store tb ex rows dup no_row (dz_event_row nj now) deserializeEvent (writable_event nj)"
  by (rule event_store) (assumption, rule dz_built)

lemma text_events:
  "event_driver tb ex rows dup no_row \<Longrightarrow>
     sql_event_store tb ex rows dup no_row (text_event_row now) text_event (writable_event False)"
  by (rule event_store) (assumption, rule text_built)

subsection \<open>A concrete driver\<close>

definition sqlite_events :: "(unit, event_row, event_row list) sql_table" where
  "sqlite_events = list_table er_key
     (\<lambda>k r. r\<lparr>er_id := (case k of None \<Rightarrow> er_id r | Some k \<Rightarrow> int k + 1),
              er_payload := json_norm (er_payload r), er_metadata := json_norm (er_metadata r)\<rparr>)
     sqlite_error (\<lambda>n. nothing_reported\<lparr>ur_changes := Some (int n)\<rparr>)"

lemma sqlite_event_driver:
  "event_driver sqlite_events ex mset isUniqueViolation (\<lambda>res. getRowsAffected res = 0)"
  unfolding sqlite_events_def
proof (rule list_table_semantics)
  show "er_stored r r' \<Longrightarrow> er_key r' = er_key r" for r r' by (rule er_stored_same)
qed (auto simp: er_stored_def sqlite_error_def isUniqueViolation_def sql_code_def starts_with_def
    getRowsAffected_def nothing_reported_def)

interpretation sqlite_log: sql_event_store sqlite_events "()" mset isUniqueViolation
  "\<lambda>res. getRowsAffected res = 0" "dz_event_row False 0" deserializeEvent "writable_event False"
  by (rule drizzle_events [OF sqlite_event_driver])

section \<open>Properties\<close>


definition sample_batches :: "(event list \<times> int) list" where
  "sample_batches = [([plain_event ''Opened'', plain_event ''Credited''], 0), ([plain_event ''Stale''], 1),
     ([plain_event ''Closed''], 2)]"


text \<open>The same laws on the other two ORMs.\<close>

lemma to_es_history:
  assumes "event_driver tb (getExecutor c) rows typeorm_isUniqueViolation no_row"
    and "unique_key er_key (rows w)" and "holds_stream text_event (rows w) n i evs0"
    and "\<forall>(evs, v) \<in> set reqs. list_all (writable_event False) evs" and "never_ahead (length evs0) reqs"
    and "w' = fold (\<lambda>(evs, v). effect (to_es_save c tb now n i evs v)) reqs w"
  shows "fst (to_es_load c tb n i w') = Inr (evs0 @ concat (accepted (length evs0) reqs))"
  using sql_event_store.run_history [OF text_events [OF assms(1)] assms(3,2,4,5), of now]
    sql_event_store.load_stream [OF text_events [OF assms(1)], of w' n i]
  by (simp add: assms(6) to_es_save_def to_es_load_def)

lemma pr_es_history:
  assumes "event_driver tb (getExecutor c) rows prisma_unique no_row"
    and "unique_key er_key (rows w)" and "holds_stream text_event (rows w) n i evs0"
    and "\<forall>(evs, v) \<in> set reqs. list_all (writable_event False) evs" and "never_ahead (length evs0) reqs"
    and "w' = fold (\<lambda>(evs, v). effect (pr_es_save c tb now n i evs v)) reqs w"
  shows "fst (pr_es_load c tb n i w') = Inr (evs0 @ concat (accepted (length evs0) reqs))"
  using sql_event_store.run_history [OF text_events [OF assms(1)] assms(3,2,4,5), of now]
    sql_event_store.load_stream [OF text_events [OF assms(1)], of w' n i]
  by (simp add: assms(6) pr_es_save_def pr_es_load_def)

text \<open>A version the stream has not reached is accepted and leaves a gap, where the in-memory store
  throws a ConcurrencyError.\<close>

lemma dz_es_future_version:
  "fst (dz_es_save base_connection sqlite_events False 0 ''A'' ''1'' [plain_event ''E''] 5 []) = Inr () \<and>
   map er_sequenceNumber (snd (dz_es_save base_connection sqlite_events False 0 ''A'' ''1''
     [plain_event ''E''] 5 [])) = [6] \<and>
   fst (es_save ''A'' (IDStr ''1'') [plain_event ''E''] 5 []) =
     Inl (ConcurrencyError ''A'' (IDStr ''1'') 5 0)"
  by code_simp

text \<open>In a JSON column a payload that is a string comes back as a string, which is then parsed.\<close>

lemma dz_native_string_payload:
  "fst (dz_es_load base_connection sqlite_events ''A'' ''1''
     (snd (dz_es_save base_connection sqlite_events True 0 ''A'' ''1''
        [(plain_event ''E'')\<lparr>ev_payload := JStr ''hello''\<rparr>] 0 []))) = Inl SyntaxError"
  by code_simp

end
