(* ===== verification/Sql_Log.thy ===== *)
theory Sql_Log
  imports Sql_Events
begin

text \<open>
  The readers of the global event log: \<^verbatim>\<open>event-reader.ts\<close> of the Drizzle, TypeORM and Prisma
  adapters. All three page through the events table by its auto-increment id. The loop is a partial
  function; that it returns is part of \<open>log_read_complete\<close>.
\<close>

text \<open>What the rows of one page yield before the first that cannot be decoded, and its error.\<close>

fun yield_rows :: "(event_row \<Rightarrow> error + event) \<Rightarrow> event_row list \<Rightarrow> event list \<times> error option" where
  "yield_rows decode [] = ([], None)"
| "yield_rows decode (r # rs) =
     (case decode r of Inl e \<Rightarrow> ([], Some e)
      | Inr ev \<Rightarrow> (case yield_rows decode rs of (evs, x) \<Rightarrow> (ev # evs, x)))"

text \<open>\<^verbatim>\<open>options?.aggregateName ? ... : ...\<close>: an empty name is no filter.\<close>

definition name_filter :: "event_read_options option \<Rightarrow> event_row \<Rightarrow> bool" where
  "name_filter options r \<longleftrightarrow>
     (case Option.bind options ro_aggregateName of
        None \<Rightarrow> True
      | Some n \<Rightarrow> n = [] \<or> er_aggregateName r = n)"

partial_function (option) read_pages ::
  "(event_row \<Rightarrow> error + event) \<Rightarrow> ('ex, event_row, 'w) sql_table \<Rightarrow> 'ex \<Rightarrow> int \<Rightarrow>
   event_read_options option \<Rightarrow> int \<Rightarrow> 'w \<Rightarrow> (event list \<times> error option \<times> 'w) option" where
  "read_pages decode tb db batchSize options cursor w =
     (case sql_select tb db (\<lambda>r. cursor < er_id r \<and> name_filter options r) (Some er_id)
             (Some batchSize) w of
        (Inl e, w') \<Rightarrow> Some ([], Some e, w')
      | (Inr rows, w') \<Rightarrow>
          if length rows = 0 then Some ([], None, w')
          else (case yield_rows decode rows of
                  (evs, Some e) \<Rightarrow> Some (evs, Some e, w')
                | (evs, None) \<Rightarrow>
                    if int (length rows) < batchSize then Some (evs, None, w')
                    else Option.bind
                           (read_pages decode tb db batchSize options (er_id (last rows)) w')
                           (\<lambda>(more, r). Some (evs @ more, r))))"

definition DEFAULT_BATCH_SIZE :: int where "DEFAULT_BATCH_SIZE = 500"

text \<open>The Drizzle reader's batch size is a constructor parameter with this default; the other two
  readers have it as a constant. All read with the base handle, outside any transaction.\<close>

definition dz_read ::
  "('ex, event_row, 'w) sql_table \<Rightarrow> 'ex \<Rightarrow> int option \<Rightarrow> event_read_options option \<Rightarrow> 'w \<Rightarrow>
   (event list \<times> error option \<times> 'w) option" where
  "dz_read tb db batchSize options =
     read_pages deserializeEvent tb db (or_else batchSize DEFAULT_BATCH_SIZE) options 0"

text \<open>The readers of TypeORM and Prisma decode metadata that is not \<^verbatim>\<open>null\<close>.\<close>

definition reader_event :: "event_row \<Rightarrow> error + event" where
  "reader_event row =
     (case decode_text (er_payload row) of
        Inl e \<Rightarrow> Inl e
      | Inr payload \<Rightarrow>
          if nullish (er_metadata row) then with_metadata row payload JNull
          else (case decode_text (er_metadata row) of
                  Inl e \<Rightarrow> Inl e
                | Inr meta \<Rightarrow> with_metadata row payload meta))"

definition to_read ::
  "('ex, event_row, 'w) sql_table \<Rightarrow> 'ex \<Rightarrow> event_read_options option \<Rightarrow> 'w \<Rightarrow>
   (event list \<times> error option \<times> 'w) option" where
  "to_read tb db options = read_pages reader_event tb db DEFAULT_BATCH_SIZE options 0"

definition pr_read ::
  "('ex, event_row, 'w) sql_table \<Rightarrow> 'ex \<Rightarrow> event_read_options option \<Rightarrow> 'w \<Rightarrow>
   (event list \<times> error option \<times> 'w) option" where
  "pr_read tb db options = read_pages reader_event tb db DEFAULT_BATCH_SIZE options 0"

section \<open>The pages cover the log\<close>

text \<open>\<open>log_rows\<close>: the rows of the log in id order; the ids are those of an auto-increment column.\<close>

definition log_rows :: "event_row multiset \<Rightarrow> event_row list \<Rightarrow> bool" where
  "log_rows M rs \<longleftrightarrow> mset rs = M \<and> sorted (map er_id rs) \<and> distinct (map er_id rs) \<and>
     (\<forall>r \<in> set rs. 0 < er_id r)"

lemma yield_rows_all: "\<forall>r \<in> set rs. decode r = Inr (ev r) \<Longrightarrow> yield_rows decode rs = (map ev rs, None)"
  by (induction rs) auto

lemma filter_after_last:
  assumes "sorted (map er_id rs)" and "distinct (map er_id rs)" and "0 < b" and "b \<le> length rs"
  shows "filter (\<lambda>r. er_id (last (take b rs)) < er_id r) rs = drop b rs"
proof -
  have lt: "er_id (rs ! j) < er_id (rs ! k)" if "j < k" "k < length rs" for j k
  proof -
    have "sorted_wrt (<) (map er_id rs)" using assms(1,2) by (simp add: strict_sorted_iff)
    from sorted_wrt_nth_less [OF this, of j k] that show ?thesis by simp
  qed
  have last: "last (take b rs) = rs ! (b - 1)"
    using assms(3,4) by (subst last_conv_nth) auto
  have le: "er_id (rs ! k) \<le> er_id (rs ! (b - 1))" if "k < b" for k
  proof (cases "k = b - 1")
    case False
    with that assms(4) have "k < b - 1" "b - 1 < length rs" by simp_all
    from lt [OF this] show ?thesis by simp
  qed simp
  have "\<not> er_id (rs ! (b - 1)) < er_id r" if "r \<in> set (take b rs)" for r
  proof -
    from that obtain k where "k < b" "r = rs ! k" using assms(4) by (auto simp: in_set_conv_nth)
    then show ?thesis using le [of k] by simp
  qed
  then have "filter (\<lambda>r. er_id (rs ! (b - 1)) < er_id r) (take b rs) = []"
    by (simp only: filter_empty_conv) blast
  moreover have "filter (\<lambda>r. er_id (rs ! (b - 1)) < er_id r) (drop b rs) = drop b rs"
    using lt [of "b - 1"] assms(3) by (auto simp: filter_id_conv in_set_conv_nth)
  ultimately show ?thesis
    unfolding last by (metis append_Nil append_take_drop_id filter_append)
qed

lemma read_pages_from:
  assumes sem: "sql_semantics tb db rows er_key er_fits er_stored dup no_row"
    and log: "log_rows (rows w) all" and b: "0 < batchSize"
    and dec: "\<forall>r \<in> set all. decode r = Inr (ev r)"
  shows "read_pages decode tb db batchSize options c w =
    Some (map ev (filter (\<lambda>r. c < er_id r \<and> name_filter options r) all), None, w)"
proof (induction "length (filter (\<lambda>r. c < er_id r \<and> name_filter options r) all)" arbitrary: c rule: less_induct)
  case less
  let ?p = "\<lambda>c r. c < er_id r \<and> name_filter options r"
  let ?S = "filter (?p c) all"
  have S: "sorted (map er_id ?S)" "distinct (map er_id ?S)"
    using log by (auto simp: log_rows_def sorted_filter distinct_map_filter)
  obtain rs xs where sel: "sql_select tb db (?p c) (Some er_id) (Some batchSize) w = (Inr rs, w)"
    "mset xs = filter_mset (?p c) (rows w)" "sorted (map er_id xs)" "rs = take (nat batchSize) xs"
    using sql_semantics.select_rows [OF sem, of "Some batchSize" "?p c" "Some er_id" w] b by auto
  have "mset xs = mset ?S" using sel(2) log by (simp add: log_rows_def)
  then have xs: "xs = ?S" using sorted_by_unique [of xs ?S er_id] sel(3) S by blast
  have "\<forall>r \<in> set rs. decode r = Inr (ev r)"
    using dec set_take_subset [of "nat batchSize" ?S] by (auto simp: sel(4) xs)
  then have y: "yield_rows decode rs = (map ev rs, None)" by (rule yield_rows_all)
  show ?case
  proof (cases "rs = [] \<or> int (length rs) < batchSize")
    case True
    then have "rs = ?S" using b by (auto simp: sel(4) xs)
    with True sel(1) y show ?thesis
      by (subst read_pages.simps) auto
  next
    case False
    let ?c = "er_id (last rs)"
    from False b have l: "0 < nat batchSize" "nat batchSize \<le> length ?S"
      by (auto simp: sel(4) xs)
    have rest: "filter (?p ?c) all = drop (nat batchSize) ?S"
    proof -
      have "last rs \<in> set ?S"
        using False set_take_subset [of "nat batchSize" ?S] by (metis last_in_set sel(4) subsetD xs)
      then have "c < ?c" by simp
      then have "filter (?p ?c) all = filter (\<lambda>r. ?c < er_id r) ?S"
        by (auto intro: filter_cong)
      also have "\<dots> = drop (nat batchSize) ?S"
        using filter_after_last [OF S l] by (simp add: sel(4) xs)
      finally show ?thesis .
    qed
    have "length (filter (?p ?c) all) < length ?S" unfolding rest using l by simp
    from less.hyps [OF this] have "read_pages decode tb db batchSize options ?c w =
        Some (map ev (drop (nat batchSize) ?S), None, w)"
      by (simp add: rest)
    with False sel(1) y show ?thesis
      by (subst read_pages.simps) (auto simp: sel(4) xs simp flip: map_append)
  qed
qed

text \<open>The cursor of the options is read nowhere.\<close>

lemma read_pages_options_le:
  assumes "read_pages decode tb db batchSize options c w = Some y"
  shows "\<forall>options' :: event_read_options option. Option.bind options ro_aggregateName = Option.bind options' ro_aggregateName \<longrightarrow>
    read_pages decode tb db batchSize options' c w = Some y"
  using assms
proof (rule read_pages.raw_induct [rotated], goal_cases)
  case (1 rp decode tb db batchSize options c w y)
  show ?case
  proof (intro allI impI)
    fix options' :: "event_read_options option"
    assume o: "Option.bind options ro_aggregateName = Option.bind options' ro_aggregateName"
    then have f: "name_filter options = name_filter options'" by (simp add: name_filter_def fun_eq_iff)
    show "read_pages decode tb db batchSize options' c w = Some y"
      using 1 o by (subst read_pages.simps)
        (auto simp: f bind_eq_Some_conv split: prod.splits sum.splits option.splits if_splits)
  qed
qed

lemma read_pages_options:
  fixes options options' :: "event_read_options option"
  assumes "Option.bind options ro_aggregateName = Option.bind options' ro_aggregateName"
  shows "read_pages decode tb db batchSize options c w = read_pages decode tb db batchSize options' c w"
proof (cases "read_pages decode tb db batchSize options c w")
  case (Some y)
  with read_pages_options_le [OF Some] assms show ?thesis by simp
next
  case None
  have "read_pages decode tb db batchSize options' c w \<noteq> Some y" for y
    using read_pages_options_le [of decode tb db batchSize options' c w y] assms None by auto
  with None show ?thesis by (cases "read_pages decode tb db batchSize options' c w") auto
qed

lemma dz_read_ignores_after:
  "dz_read tb db batchSize (Some \<lparr>ro_aggregateName = n, ro_after = after\<rparr>) w =
     dz_read tb db batchSize (Some \<lparr>ro_aggregateName = n, ro_after = None\<rparr>) w"
  unfolding dz_read_def by (rule read_pages_options) simp

text \<open>C14: The paged Drizzle reader streams the whole log. On a log no writer is appending to, whose
  rows can be decoded, read() without an after cursor returns: for any batch size of at least 1 and
  any page boundary it yields the events of every row exactly once in id order, restricted to the
  rows whose aggregate-name column is the given name when one is given, and then stops. (A given
  after cursor is ignored, which is the lemma dz_read_ignores_after.)\<close>
theorem log_read_complete:
  assumes "event_driver tb db rows dup no_row" and "log_rows (rows w) all"
    and "case batchSize of None \<Rightarrow> True | Some b \<Rightarrow> 0 < b"
    and "\<forall>r \<in> set all. deserializeEvent r = Inr (ev r)"
    and "Option.bind options ro_after = None"
  shows "dz_read tb db batchSize options w = Some (map ev (filter (name_filter options) all), None, w)"
proof -
  have "0 < or_else batchSize DEFAULT_BATCH_SIZE"
    using assms(3) by (auto simp: DEFAULT_BATCH_SIZE_def split: option.splits)
  moreover have "filter (\<lambda>r. 0 < er_id r \<and> name_filter options r) all = filter (name_filter options) all"
    using assms(2) by (auto simp: log_rows_def intro: filter_cong)
  ultimately show ?thesis
    using read_pages_from [OF assms(1,2) _ assms(4), of "or_else batchSize DEFAULT_BATCH_SIZE" options 0]
    by (simp add: dz_read_def)
qed

definition sample_log :: "event_row list" where
  "sample_log = snd (dz_es_save base_connection sqlite_events False 0 ''B'' ''1''
      [plain_event ''Third'', plain_event ''Fourth''] 0
     (snd (dz_es_save base_connection sqlite_events False 0 ''A'' ''1''
        [plain_event ''First'', plain_event ''Second''] 0 [])))"

theorem log_read_complete_witness:
  "dz_read sqlite_events () (Some 2) None sample_log =
     Some (map plain_event [''First'', ''Second'', ''Third'', ''Fourth''], None, sample_log)"
proof -
  have "map er_id sample_log = [1, 2, 3, 4]" by code_simp
  moreover have "list_all (\<lambda>r. 0 < er_id r) sample_log" by code_simp
  ultimately have log: "log_rows (mset sample_log) sample_log"
    by (simp add: log_rows_def list_all_iff)
  have "list_all (\<lambda>r. deserializeEvent r = Inr (plain_event (er_eventName r))) sample_log" by code_simp
  then have dec: "\<forall>r \<in> set sample_log. deserializeEvent r = Inr (plain_event (er_eventName r))"
    by (simp add: list_all_iff)
  have "map er_eventName sample_log = [''First'', ''Second'', ''Third'', ''Fourth'']" by code_simp
  from arg_cong [OF this, of "map plain_event"]
  have "map (\<lambda>r. plain_event (er_eventName r)) sample_log =
      map plain_event [''First'', ''Second'', ''Third'', ''Fourth'']"
    by (simp add: comp_def)
  with log_read_complete [OF sqlite_event_driver log _ dec, where batchSize = "Some 2" and options = None]
  show ?thesis by (simp add: name_filter_def)
qed

text \<open>The other readers, and the order within one aggregate.\<close>

lemma text_read_complete:
  assumes "event_driver tb db rows dup no_row" and "log_rows (rows w) all"
    and "\<forall>r \<in> set all. reader_event r = Inr (ev r)"
  shows "to_read tb db options w = Some (map ev (filter (name_filter options) all), None, w)"
    and "pr_read tb db options w = Some (map ev (filter (name_filter options) all), None, w)"
proof -
  have "filter (\<lambda>r. 0 < er_id r \<and> name_filter options r) all = filter (name_filter options) all"
    using assms(2) by (auto simp: log_rows_def intro: filter_cong)
  then show "to_read tb db options w = Some (map ev (filter (name_filter options) all), None, w)"
    and "pr_read tb db options w = Some (map ev (filter (name_filter options) all), None, w)"
    using read_pages_from [OF assms(1,2) _ assms(3), of DEFAULT_BATCH_SIZE options 0]
    by (simp_all add: to_read_def pr_read_def DEFAULT_BATCH_SIZE_def)
qed

end
