(* ===== verification/Sql_Outbox.thy ===== *)
theory Sql_Outbox
  imports Sql_Events Outbox Idempotency
begin

text \<open>
  The outbox stores (\<^verbatim>\<open>persistence.ts\<close>) and the event idempotency stores
  (\<^verbatim>\<open>event-idempotency.ts\<close>) of the Drizzle, TypeORM and Prisma adapters. \<open>now\<close> is
  \<^verbatim>\<open>new Date()\<close> at the call and \<open>offset\<close> the local time zone of the process.
\<close>

fun db_instant :: "db_time \<Rightarrow> int" where
  "db_instant (Instant t) = t"
| "db_instant (Zoneless t) = t"

section \<open>Outbox rows\<close>

record outbox_row =
  or_id :: string
  or_event :: jsval
  or_eventId :: "string option"
  or_aggregateName :: "string option"
  or_aggregateId :: "string option"
  or_createdAt :: db_time
  or_publishedAt :: "db_time option"

definition created :: "outbox_row \<Rightarrow> int" where
  "created r = db_instant (or_createdAt r)"

text \<open>The row of an entry; \<open>enc\<close> writes the event column, \<open>ts\<close> a timestamp, and \<open>with_id\<close> says
  whether the table has the extracted event id.\<close>

definition outbox_row_of ::
  "(jsval \<Rightarrow> jsval) \<Rightarrow> (int \<Rightarrow> db_time) \<Rightarrow> bool \<Rightarrow> outbox_entry \<Rightarrow> error + outbox_row" where
  "outbox_row_of enc ts with_id e =
     (case event_js (oe_event e) of
        Inl x \<Rightarrow> Inl x
      | Inr v \<Rightarrow> Inr \<lparr>or_id = oe_id e, or_event = enc v,
          or_eventId = (if with_id then event_id (oe_event e) else None),
          or_aggregateName = oe_aggregateName e, or_aggregateId = oe_aggregateId e,
          or_createdAt = ts (oe_createdAt e),
          or_publishedAt = map_option ts (oe_publishedAt e)\<rparr>)"

text \<open>The entry of a row; an event column of another shape than \<^verbatim>\<open>Event\<close> is refused here,
  where the source casts.\<close>

definition entry_of_row ::
  "(jsval \<Rightarrow> error + jsval) \<Rightarrow> int \<Rightarrow> outbox_row \<Rightarrow> error + outbox_entry" where
  "entry_of_row decode offset r =
     (case decode (or_event r) of
        Inl x \<Rightarrow> Inl x
      | Inr v \<Rightarrow> (case event_of_js v of
          None \<Rightarrow> Inl TypeError
        | Some ev \<Rightarrow> Inr \<lparr>oe_id = or_id r, oe_event = ev, oe_aggregateName = or_aggregateName r,
            oe_aggregateId = or_aggregateId r, oe_createdAt = js_date offset (or_createdAt r),
            oe_publishedAt = map_option (js_date offset) (or_publishedAt r)\<rparr>))"

definition sql_outbox_save ::
  "(outbox_entry \<Rightarrow> error + outbox_row) \<Rightarrow> ('ex \<Rightarrow> outbox_row list \<Rightarrow> ('w, unit) action) \<Rightarrow> 'ex \<Rightarrow>
   outbox_entry list \<Rightarrow> ('w, unit) action" where
  "sql_outbox_save row_of write ex entries =
     (if length entries = 0 then ret ()
      else bind_act (lift_result (map_result row_of entries)) (write ex))"

definition sql_outbox_loadUnpublished ::
  "(outbox_row \<Rightarrow> error + outbox_entry) \<Rightarrow> ('ex, outbox_row, 'w) sql_table \<Rightarrow> 'ex \<Rightarrow> int \<Rightarrow>
   ('w, outbox_entry list) action" where
  "sql_outbox_loadUnpublished entry tb ex batchSize =
     bind_act (sql_select tb ex (\<lambda>r. or_publishedAt r = None) (Some created) (Some batchSize))
       (\<lambda>rs. lift_result (map_result entry rs))"

definition sql_outbox_markPublished ::
  "(int \<Rightarrow> db_time) \<Rightarrow> ('ex, outbox_row, 'w) sql_table \<Rightarrow> 'ex \<Rightarrow> int \<Rightarrow> string list \<Rightarrow> ('w, unit) action" where
  "sql_outbox_markPublished ts tb ex now ids =
     (if length ids = 0 then ret ()
      else bind_act (sql_update tb ex (\<lambda>r. or_id r \<in> set ids) (\<lambda>r. r\<lparr>or_publishedAt := Some (ts now)\<rparr>))
             (\<lambda>_. ret ()))"

definition sql_outbox_markPublishedByEventIds ::
  "(int \<Rightarrow> db_time) \<Rightarrow> ('ex, outbox_row, 'w) sql_table \<Rightarrow> 'ex \<Rightarrow> int \<Rightarrow> string list \<Rightarrow> ('w, unit) action" where
  "sql_outbox_markPublishedByEventIds ts tb ex now eventIds =
     (if length eventIds = 0 then ret ()
      else bind_act (sql_update tb ex
               (\<lambda>r. (case or_eventId r of None \<Rightarrow> False | Some i \<Rightarrow> i \<in> set eventIds) \<and>
                    or_publishedAt r = None)
               (\<lambda>r. r\<lparr>or_publishedAt := Some (ts now)\<rparr>))
             (\<lambda>_. ret ()))"

definition sql_outbox_deletePublished ::
  "(int \<Rightarrow> db_time) \<Rightarrow> ('ex, outbox_row, 'w) sql_table \<Rightarrow> 'ex \<Rightarrow> int option \<Rightarrow> ('w, unit) action" where
  "sql_outbox_deletePublished ts tb ex olderThan =
     sql_delete tb ex (\<lambda>r. or_publishedAt r \<noteq> None \<and>
       (case olderThan of None \<Rightarrow> True | Some t \<Rightarrow> created r < db_instant (ts t)))"

section \<open>The three outbox stores\<close>

definition dz_outbox_save ::
  "'ex sql_connection \<Rightarrow> ('ex, outbox_row, 'w) sql_table \<Rightarrow> bool \<Rightarrow> outbox_entry list \<Rightarrow> ('w, unit) action" where
  "dz_outbox_save c tb nativeJson =
     sql_outbox_save (outbox_row_of (encode_state nativeJson) toDbTimestamp True) (sql_insert tb) (getExecutor c)"

definition dz_outbox_loadUnpublished ::
  "'ex sql_connection \<Rightarrow> ('ex, outbox_row, 'w) sql_table \<Rightarrow> int \<Rightarrow> int option \<Rightarrow> ('w, outbox_entry list) action" where
  "dz_outbox_loadUnpublished c tb offset batchSize =
     sql_outbox_loadUnpublished (entry_of_row decode_state offset) tb (getExecutor c) (or_else batchSize 100)"

definition dz_outbox_markPublished ::
  "'ex sql_connection \<Rightarrow> ('ex, outbox_row, 'w) sql_table \<Rightarrow> int \<Rightarrow> string list \<Rightarrow> ('w, unit) action" where
  "dz_outbox_markPublished c tb = sql_outbox_markPublished toDbTimestamp tb (getExecutor c)"

definition dz_outbox_markPublishedByEventIds ::
  "'ex sql_connection \<Rightarrow> ('ex, outbox_row, 'w) sql_table \<Rightarrow> int \<Rightarrow> string list \<Rightarrow> ('w, unit) action" where
  "dz_outbox_markPublishedByEventIds c tb = sql_outbox_markPublishedByEventIds toDbTimestamp tb (getExecutor c)"

definition dz_outbox_deletePublished ::
  "'ex sql_connection \<Rightarrow> ('ex, outbox_row, 'w) sql_table \<Rightarrow> int option \<Rightarrow> ('w, unit) action" where
  "dz_outbox_deletePublished c tb = sql_outbox_deletePublished toDbTimestamp tb (getExecutor c)"

text \<open>TypeORM: \<^verbatim>\<open>repo.save\<close>, no event id column, and a \<open>markPublishedByEventIds\<close> that
  scans the first 10000 unpublished entries.\<close>

definition to_outbox_save ::
  "'ex sql_connection \<Rightarrow> ('ex, outbox_row, 'w) sql_table \<Rightarrow> outbox_entry list \<Rightarrow> ('w, unit) action" where
  "to_outbox_save c tb =
     sql_outbox_save (outbox_row_of js_stringify Instant False) (sql_save tb) (getExecutor c)"

definition to_outbox_loadUnpublished ::
  "'ex sql_connection \<Rightarrow> ('ex, outbox_row, 'w) sql_table \<Rightarrow> int \<Rightarrow> int option \<Rightarrow> ('w, outbox_entry list) action" where
  "to_outbox_loadUnpublished c tb offset batchSize =
     sql_outbox_loadUnpublished (entry_of_row decode_text offset) tb (getExecutor c) (or_else batchSize 100)"

definition to_outbox_markPublished ::
  "'ex sql_connection \<Rightarrow> ('ex, outbox_row, 'w) sql_table \<Rightarrow> int \<Rightarrow> string list \<Rightarrow> ('w, unit) action" where
  "to_outbox_markPublished c tb = sql_outbox_markPublished Instant tb (getExecutor c)"

definition to_outbox_markPublishedByEventIds ::
  "'ex sql_connection \<Rightarrow> ('ex, outbox_row, 'w) sql_table \<Rightarrow> int \<Rightarrow> int \<Rightarrow> string list \<Rightarrow> ('w, unit) action" where
  "to_outbox_markPublishedByEventIds c tb offset now eventIds =
     (if length eventIds = 0 then ret ()
      else bind_act (to_outbox_loadUnpublished c tb offset (Some 10000))
        (\<lambda>unpublished.
           let matchingIds = map oe_id (filter (\<lambda>e. case event_id (oe_event e) of
                  None \<Rightarrow> False | Some i \<Rightarrow> i \<noteq> [] \<and> i \<in> set eventIds) unpublished)
           in if 0 < length matchingIds then to_outbox_markPublished c tb now matchingIds else ret ()))"

definition to_outbox_deletePublished ::
  "'ex sql_connection \<Rightarrow> ('ex, outbox_row, 'w) sql_table \<Rightarrow> int option \<Rightarrow> ('w, unit) action" where
  "to_outbox_deletePublished c tb = sql_outbox_deletePublished Instant tb (getExecutor c)"

definition pr_outbox_save ::
  "'ex sql_connection \<Rightarrow> ('ex, outbox_row, 'w) sql_table \<Rightarrow> outbox_entry list \<Rightarrow> ('w, unit) action" where
  "pr_outbox_save c tb =
     sql_outbox_save (outbox_row_of js_stringify Instant True) (sql_insert tb) (getExecutor c)"

definition pr_outbox_loadUnpublished ::
  "'ex sql_connection \<Rightarrow> ('ex, outbox_row, 'w) sql_table \<Rightarrow> int \<Rightarrow> int option \<Rightarrow> ('w, outbox_entry list) action" where
  "pr_outbox_loadUnpublished c tb offset batchSize =
     sql_outbox_loadUnpublished (entry_of_row decode_text offset) tb (getExecutor c) (or_else batchSize 100)"

definition pr_outbox_markPublished ::
  "'ex sql_connection \<Rightarrow> ('ex, outbox_row, 'w) sql_table \<Rightarrow> int \<Rightarrow> string list \<Rightarrow> ('w, unit) action" where
  "pr_outbox_markPublished c tb = sql_outbox_markPublished Instant tb (getExecutor c)"

definition pr_outbox_markPublishedByEventIds ::
  "'ex sql_connection \<Rightarrow> ('ex, outbox_row, 'w) sql_table \<Rightarrow> int \<Rightarrow> string list \<Rightarrow> ('w, unit) action" where
  "pr_outbox_markPublishedByEventIds c tb = sql_outbox_markPublishedByEventIds Instant tb (getExecutor c)"

definition pr_outbox_deletePublished ::
  "'ex sql_connection \<Rightarrow> ('ex, outbox_row, 'w) sql_table \<Rightarrow> int option \<Rightarrow> ('w, unit) action" where
  "pr_outbox_deletePublished c tb = sql_outbox_deletePublished Instant tb (getExecutor c)"

section \<open>Event idempotency stores\<close>

record dedup_row =
  dr_key :: string
  dr_processedAt :: db_time

definition sql_hasProcessed ::
  "('ex, dedup_row, 'w) sql_table \<Rightarrow> 'ex \<Rightarrow> int option \<Rightarrow> int \<Rightarrow> int \<Rightarrow> string \<Rightarrow> ('w, bool) action" where
  "sql_hasProcessed tb ex ttlMs offset now key =
     bind_act (sql_select tb ex (\<lambda>r. dr_key r = key) None None)
       (\<lambda>rs. case rs of
           [] \<Rightarrow> ret False
         | row # _ \<Rightarrow>
             if (case ttlMs of None \<Rightarrow> False | Some ttl \<Rightarrow> now - js_date offset (dr_processedAt row) > ttl)
             then then_act (sql_delete tb ex (\<lambda>r. dr_key r = key)) (ret False)
             else ret True)"

definition sql_markProcessed ::
  "(error \<Rightarrow> bool) \<Rightarrow> (int \<Rightarrow> db_time) \<Rightarrow> ('ex, dedup_row, 'w) sql_table \<Rightarrow> 'ex \<Rightarrow> int \<Rightarrow> string \<Rightarrow>
   ('w, unit) action" where
  "sql_markProcessed is_dup ts tb ex now key =
     catch_act (sql_insert tb ex [\<lparr>dr_key = key, dr_processedAt = ts now\<rparr>])
       (\<lambda>e. if is_dup e then ret () else throw e)"

definition sql_dedup_removeExpired ::
  "(int \<Rightarrow> db_time) \<Rightarrow> ('ex, dedup_row, 'w) sql_table \<Rightarrow> 'ex \<Rightarrow> int \<Rightarrow> int \<Rightarrow> ('w, unit) action" where
  "sql_dedup_removeExpired ts tb ex now ttlMs =
     (let threshold = ts (now - ttlMs)
      in sql_delete tb ex (\<lambda>r. db_instant (dr_processedAt r) \<le> db_instant threshold))"

definition dz_hasProcessed ::
  "'ex sql_connection \<Rightarrow> ('ex, dedup_row, 'w) sql_table \<Rightarrow> int option \<Rightarrow> int \<Rightarrow> int \<Rightarrow> string \<Rightarrow> ('w, bool) action" where
  "dz_hasProcessed c tb = sql_hasProcessed tb (getExecutor c)"

definition dz_markProcessed ::
  "'ex sql_connection \<Rightarrow> ('ex, dedup_row, 'w) sql_table \<Rightarrow> int \<Rightarrow> string \<Rightarrow> ('w, unit) action" where
  "dz_markProcessed c tb = sql_markProcessed isUniqueViolation toDbTimestamp tb (getExecutor c)"

definition dz_dedup_removeExpired ::
  "'ex sql_connection \<Rightarrow> ('ex, dedup_row, 'w) sql_table \<Rightarrow> int \<Rightarrow> int \<Rightarrow> ('w, unit) action" where
  "dz_dedup_removeExpired c tb = sql_dedup_removeExpired toDbTimestamp tb (getExecutor c)"

definition to_hasProcessed ::
  "'ex sql_connection \<Rightarrow> ('ex, dedup_row, 'w) sql_table \<Rightarrow> int option \<Rightarrow> int \<Rightarrow> int \<Rightarrow> string \<Rightarrow> ('w, bool) action" where
  "to_hasProcessed c tb = sql_hasProcessed tb (getExecutor c)"

definition to_markProcessed ::
  "'ex sql_connection \<Rightarrow> ('ex, dedup_row, 'w) sql_table \<Rightarrow> int \<Rightarrow> string \<Rightarrow> ('w, unit) action" where
  "to_markProcessed c tb = sql_markProcessed typeorm_isUniqueViolation Instant tb (getExecutor c)"

definition to_dedup_removeExpired ::
  "'ex sql_connection \<Rightarrow> ('ex, dedup_row, 'w) sql_table \<Rightarrow> int \<Rightarrow> int \<Rightarrow> ('w, unit) action" where
  "to_dedup_removeExpired c tb = sql_dedup_removeExpired Instant tb (getExecutor c)"

definition pr_hasProcessed ::
  "'ex sql_connection \<Rightarrow> ('ex, dedup_row, 'w) sql_table \<Rightarrow> int option \<Rightarrow> int \<Rightarrow> int \<Rightarrow> string \<Rightarrow> ('w, bool) action" where
  "pr_hasProcessed c tb = sql_hasProcessed tb (getExecutor c)"

definition pr_markProcessed ::
  "'ex sql_connection \<Rightarrow> ('ex, dedup_row, 'w) sql_table \<Rightarrow> int \<Rightarrow> string \<Rightarrow> ('w, unit) action" where
  "pr_markProcessed c tb = sql_markProcessed prisma_unique Instant tb (getExecutor c)"

definition pr_dedup_removeExpired ::
  "'ex sql_connection \<Rightarrow> ('ex, dedup_row, 'w) sql_table \<Rightarrow> int \<Rightarrow> int \<Rightarrow> ('w, unit) action" where
  "pr_dedup_removeExpired c tb = sql_dedup_removeExpired Instant tb (getExecutor c)"

section \<open>The dedup table\<close>

definition dr_fits :: "dedup_row \<Rightarrow> bool" where
  "dr_fits r \<longleftrightarrow> True"

text \<open>The driver may rewrite the text of the timestamp.\<close>

definition dr_stored :: "dedup_row \<Rightarrow> dedup_row \<Rightarrow> bool" where
  "dr_stored r r' \<longleftrightarrow> dr_key r' = dr_key r"

locale sql_dedup_store =
  sql_semantics tb ex rows dr_key dr_fits dr_stored dup no_row
  for tb :: "('ex, dedup_row, 'w) sql_table" and ex :: 'ex and rows :: "'w \<Rightarrow> dedup_row multiset"
    and dup :: "error \<Rightarrow> bool" and no_row :: "update_result \<Rightarrow> bool" +
  fixes ts :: "int \<Rightarrow> db_time" and offset now :: int
begin

definition keys :: "'w \<Rightarrow> string set" where
  "keys w = set_mset (image_mset dr_key (rows w))"

text \<open>Without a time-to-live the table meets the contract of the wrapper; its invariant is the
  primary key.\<close>

sublocale dedup_contract "sql_hasProcessed tb ex None offset now" "sql_markProcessed dup ts tb ex now"
  keys "\<lambda>w. unique_key dr_key (rows w)"
proof
  fix k w
  assume u: "unique_key dr_key (rows w)"
  obtain rs where rs: "sql_select tb ex (\<lambda>r. dr_key r = k) None None w = (Inr rs, w)"
      "mset rs = filter_mset (\<lambda>r. dr_key r = k) (rows w)"
    using select_all by blast
  have "rs = [] \<longleftrightarrow> set rs = {}" by simp
  also have "\<dots> \<longleftrightarrow> k \<notin> keys w"
    using arg_cong [OF rs(2), of set_mset] by (auto simp: keys_def)
  finally have "rs = [] \<longleftrightarrow> k \<notin> keys w" .
  with rs(1) show "sql_hasProcessed tb ex None offset now k w = (Inr (k \<in> keys w), w)"
    by (cases rs) (simp_all add: sql_hasProcessed_def act)
  let ?r = "\<lparr>dr_key = k, dr_processedAt = ts now\<rparr>"
  show "\<exists>w'. sql_markProcessed dup ts tb ex now k w = (Inr (), w') \<and> unique_key dr_key (rows w') \<and>
      keys w' = insert k (keys w)"
  proof (cases "k \<in> keys w")
    case True
    then have "\<not> unique_key dr_key (rows w + mset [?r])"
      by (auto simp: keys_def unique_key_add)
    with insert_dup [of "[?r]" w] obtain e w' where "sql_insert tb ex [?r] w = (Inl e, w')" "dup e"
        "rows w' = rows w"
      by (auto simp: dr_fits_def)
    with True u show ?thesis by (auto simp: sql_markProcessed_def act keys_def)
  next
    case False
    with u have n: "unique_key dr_key (rows w + mset [?r])"
      by (auto simp: keys_def unique_key_add)
    with insert_ok [of "[?r]" w] obtain w' r' where i: "sql_insert tb ex [?r] w = (Inr (), w')"
        "dr_stored ?r r'" "rows w' = add_mset r' (rows w)"
      by (auto simp: dr_fits_def list_all2_Cons1)
    then have "dr_key r' = k" by (simp add: dr_stored_def)
    with i n show ?thesis
      by (auto simp: sql_markProcessed_def act keys_def unique_key_add)
  qed
qed

lemmas absorbed = redelivery_absorbed and failed = failed_not_marked

end

abbreviation dedup_driver ::
  "('ex, dedup_row, 'w) sql_table \<Rightarrow> 'ex \<Rightarrow> ('w \<Rightarrow> dedup_row multiset) \<Rightarrow> (error \<Rightarrow> bool) \<Rightarrow>
   (update_result \<Rightarrow> bool) \<Rightarrow> bool" where
  "dedup_driver tb ex rows dup no_row \<equiv> sql_semantics tb ex rows dr_key dr_fits dr_stored dup no_row"

definition sqlite_dedup :: "(unit, dedup_row, dedup_row list) sql_table" where
  "sqlite_dedup = list_table dr_key (\<lambda>_ r. r) sqlite_error (\<lambda>n. nothing_reported\<lparr>ur_changes := Some (int n)\<rparr>)"

lemma sqlite_dedup_driver:
  "dedup_driver sqlite_dedup ex mset isUniqueViolation (\<lambda>res. getRowsAffected res = 0)"
  unfolding sqlite_dedup_def
  by (rule list_table_semantics)
    (auto simp: dr_stored_def sqlite_error_def isUniqueViolation_def sql_code_def starts_with_def
      getRowsAffected_def nothing_reported_def)

interpretation sqlite_seen: sql_dedup_store sqlite_dedup "()" mset isUniqueViolation
  "\<lambda>res. getRowsAffected res = 0" toDbTimestamp 0 0
  by (rule sql_dedup_store.intro [OF sqlite_dedup_driver])

text \<open>C22: The database-backed dedup store makes redelivery harmless. On any driver with the
  documented behaviour of SQL, a handler wrapped with withIdempotency over the Drizzle event
  idempotency store (without a time-to-live) that succeeds on an event whose key is not in the
  table, and leaves the primary key of the table intact, leaves the key in the table; and from then
  on any number of redeliveries of the event return normally and leave the database as it is,
  whatever handler they are for: even one that would throw or change the world is not run.\<close>
theorem dz_dedup_redelivery:
  assumes "dedup_driver tb (getExecutor c) rows isUniqueViolation no_row"
    and "unique_key dr_key (rows w)" and "unique_key dr_key (rows w1)"
    and "event_id ev = Some k" and "k \<notin># image_mset dr_key (rows w)"
    and "handler ev w = (Inr (), w1)"
  shows "\<exists>w'. withIdempotency handler (dz_hasProcessed c tb None offset now) (dz_markProcessed c tb now)
      None ev w = (Inr (), w') \<and> k \<in># image_mset dr_key (rows w') \<and>
    (\<forall>handler'. for_each
      (withIdempotency handler' (dz_hasProcessed c tb None offset now) (dz_markProcessed c tb now) None)
      (replicate m ev) w' = (Inr (), w'))"
proof -
  note store = sql_dedup_store.intro [OF assms(1)]
  have "k \<notin> sql_dedup_store.keys rows w"
    using assms(5) by (simp add: sql_dedup_store.keys_def [OF store])
  from sql_dedup_store.absorbed [where w = w and ?w1.0 = w1 and handler = handler and offset = offset
      and now = now and ts = toDbTimestamp and n = m, OF store assms(2,3,4) this assms(6)]
  show ?thesis by (simp add: dz_hasProcessed_def dz_markProcessed_def sql_dedup_store.keys_def [OF store])
qed

definition note_effect :: "event \<Rightarrow> (dedup_row list, unit) action" where
  "note_effect ev w = (Inr (), w @ [\<lparr>dr_key = ''effect'', dr_processedAt = Zoneless 0\<rparr>])"

theorem dz_dedup_redelivery_witness:
  "\<exists>w'. withIdempotency note_effect (dz_hasProcessed base_connection sqlite_dedup None 0 9)
      (dz_markProcessed base_connection sqlite_dedup 9) None (identified_event ''i1'') [] = (Inr (), w') \<and>
    ''i1'' \<in> dr_key ` set w' \<and>
    for_each (withIdempotency (\<lambda>_. throw (UserError ''run again''))
      (dz_hasProcessed base_connection sqlite_dedup None 0 9)
      (dz_markProcessed base_connection sqlite_dedup 9) None) (replicate 3 (identified_event ''i1'')) w' =
      (Inr (), w')"
proof -
  have u: "unique_key dr_key (mset [])" "unique_key dr_key (mset (snd (note_effect (identified_event ''i1'') [])))"
    by (simp_all add: unique_key_def note_effect_def)
  have k: "event_id (identified_event ''i1'') = Some ''i1''" by (simp add: identified_event_def)
  from dz_dedup_redelivery [OF sqlite_dedup_driver u k, of note_effect base_connection 0 9 3]
  obtain w' where w': "withIdempotency note_effect (dz_hasProcessed base_connection sqlite_dedup None 0 9)
      (dz_markProcessed base_connection sqlite_dedup 9) None (identified_event ''i1'') [] = (Inr (), w')"
    "''i1'' \<in># image_mset dr_key (mset w')"
    and again: "\<forall>handler'. for_each
      (withIdempotency handler' (dz_hasProcessed base_connection sqlite_dedup None 0 9)
        (dz_markProcessed base_connection sqlite_dedup 9) None) (replicate 3 (identified_event ''i1'')) w' = (Inr (), w')"
    by (auto simp: note_effect_def)
  with spec [OF again, of "\<lambda>_. throw (UserError ''run again'')"] show ?thesis by auto
qed

text \<open>With a time-to-live, in a process two hours ahead of UTC on a database that keeps the text: a
  record written a moment ago is read as two hours old and dropped, so the redelivery is handled
  again.\<close>

lemma dz_dedup_zone_expires:
  "fst (dz_hasProcessed base_connection sqlite_dedup (Some 3600000) 7200000 1000
     ''k'' (snd (dz_markProcessed base_connection sqlite_dedup 1000 ''k'' []))) = Inr False \<and>
   fst (to_hasProcessed base_connection sqlite_dedup (Some 3600000) 7200000 1000
     ''k'' (snd (to_markProcessed base_connection sqlite_dedup 1000 ''k'' []))) = Inr True"
  by code_simp

section \<open>The outbox table\<close>

definition or_fits :: "outbox_row \<Rightarrow> bool" where
  "or_fits r \<longleftrightarrow> or_event r \<noteq> JUndef \<and> or_event r \<noteq> JNull"

text \<open>A timestamp column keeps the instant; the text may be the driver's.\<close>

definition or_stored :: "outbox_row \<Rightarrow> outbox_row \<Rightarrow> bool" where
  "or_stored r r' \<longleftrightarrow>
     r'\<lparr>or_createdAt := or_createdAt r, or_publishedAt := or_publishedAt r\<rparr> =
       r\<lparr>or_event := json_norm (or_event r)\<rparr> \<and>
     created r' = created r \<and>
     map_option db_instant (or_publishedAt r') = map_option db_instant (or_publishedAt r)"

definition pending_rows :: "outbox_row multiset \<Rightarrow> outbox_row multiset" where
  "pending_rows M = filter_mset (\<lambda>r. or_publishedAt r = None) M"

abbreviation outbox_driver ::
  "('ex, outbox_row, 'w) sql_table \<Rightarrow> 'ex \<Rightarrow> ('w \<Rightarrow> outbox_row multiset) \<Rightarrow> (error \<Rightarrow> bool) \<Rightarrow>
   (update_result \<Rightarrow> bool) \<Rightarrow> bool" where
  "outbox_driver tb ex rows dup no_row \<equiv> sql_semantics tb ex rows or_id or_fits or_stored dup no_row"

lemma entry_of_row_id: "entry_of_row decode offset r = Inr e \<Longrightarrow> oe_id e = or_id r"
  by (auto simp: entry_of_row_def split: sum.splits option.splits)

lemma filter_mset_update:
  assumes "\<And>r. \<not> P (g r)"
  shows "filter_mset P (image_mset (\<lambda>r. if q r then g r else r) M) = filter_mset (\<lambda>r. \<not> q r) (filter_mset P M)"
  using assms by (induction M) auto

lemma outbox_load:
  assumes "outbox_driver tb ex rows dup no_row" and "0 \<le> b"
    and "\<forall>r \<in># pending_rows (rows w). entry r = Inr (en r)"
  obtains rs where "mset rs = pending_rows (rows w)" "sorted (map created rs)"
    "sql_outbox_loadUnpublished entry tb ex b w = (Inr (map en (take (nat b) rs)), w)"
proof -
  obtain out rs where sel: "sql_select tb ex (\<lambda>r. or_publishedAt r = None) (Some created) (Some b) w = (Inr out, w)"
    "mset rs = pending_rows (rows w)" "sorted (map created rs)" "out = take (nat b) rs"
    using sql_semantics.select_rows [OF assms(1), of "Some b" "\<lambda>r. or_publishedAt r = None" "Some created" w]
      assms(2) by (auto simp: pending_rows_def)
  have "set out \<subseteq> set rs" by (simp add: sel(4) set_take_subset)
  then have "\<forall>r \<in> set out. entry r = Inr (en r)"
    using assms(3) unfolding sel(2) [symmetric] by auto
  then have "map_result entry out = Inr (map en out)" by (simp add: map_result_Inr)
  with sel that show thesis by (simp add: sql_outbox_loadUnpublished_def act)
qed

lemma outbox_mark:
  assumes "outbox_driver tb ex rows dup no_row" and "\<forall>r \<in># rows w. or_fits r"
  shows "\<exists>w'. sql_outbox_markPublished ts tb ex now ids w = (Inr (), w') \<and>
    pending_rows (rows w') = filter_mset (\<lambda>r. or_id r \<notin> set ids) (pending_rows (rows w))"
proof (cases "ids = []")
  case True
  then show ?thesis by (simp add: sql_outbox_markPublished_def act)
next
  case False
  let ?f = "\<lambda>r. r\<lparr>or_publishedAt := Some (ts now)\<rparr>" and ?p = "\<lambda>r. or_id r \<in> set ids"
  have "\<And>r. or_id (?f r) = or_id r" "\<forall>r \<in># rows w. ?p r \<longrightarrow> or_fits (?f r)"
    using assms(2) by (auto simp: or_fits_def)
  from sql_semantics.update_rows [where f = ?f and p = ?p and w = w, OF assms(1) this] obtain w' res g where
    u: "sql_update tb ex ?p ?f w = (Inr res, w')" "\<forall>r. or_stored (?f r) (g r)"
      "rows w' = image_mset (\<lambda>r. if ?p r then g r else r) (rows w)"
    by (elim exE conjE)
  have "or_publishedAt (g r) \<noteq> None" for r
  proof -
    have "map_option db_instant (or_publishedAt (g r)) = map_option db_instant (or_publishedAt (?f r))"
      using u(2) unfolding or_stored_def by blast
    then show ?thesis by auto
  qed
  then have "pending_rows (rows w') = filter_mset (\<lambda>r. \<not> ?p r) (pending_rows (rows w))"
    unfolding pending_rows_def u(3) by (intro filter_mset_update) simp
  with u(1) False show ?thesis by (simp add: sql_outbox_markPublished_def act)
qed

text \<open>C23: A poll of the Drizzle outbox. On any driver with the documented behaviour of SQL, loading a
  batch returns the oldest pending entries in the order of their creation, and marking the loaded
  entries published leaves exactly the other pending entries, each as it was: the relay sees every
  entry until it is marked and never a marked one again.\<close>
theorem dz_outbox_poll:
  assumes "outbox_driver tb (getExecutor c) rows dup no_row"
    and "unique_key or_id (rows w)" and "\<forall>r \<in># rows w. or_fits r"
    and "\<forall>r \<in># pending_rows (rows w). entry_of_row decode_state offset r = Inr (en r)"
    and "0 \<le> or_else batchSize 100"
  shows "\<exists>rs es w'. mset rs = pending_rows (rows w) \<and> sorted (map created rs) \<and>
    es = map en (take (nat (or_else batchSize 100)) rs) \<and>
    dz_outbox_loadUnpublished c tb offset batchSize w = (Inr es, w) \<and>
    dz_outbox_markPublished c tb now (map oe_id es) w = (Inr (), w') \<and>
    pending_rows (rows w') = mset (drop (nat (or_else batchSize 100)) rs)"
proof -
  let ?b = "nat (or_else batchSize 100)"
  obtain rs where rs: "mset rs = pending_rows (rows w)" "sorted (map created rs)"
    "sql_outbox_loadUnpublished (entry_of_row decode_state offset) tb (getExecutor c)
       (or_else batchSize 100) w = (Inr (map en (take ?b rs)), w)"
    using outbox_load [OF assms(1,5,4)] by blast
  have en: "oe_id (en r) = or_id r" if "r \<in> set rs" for r
    using assms(4) that entry_of_row_id unfolding rs(1) [symmetric] set_mset_mset by blast
  have ids: "map oe_id (map en (take ?b rs)) = map or_id (take ?b rs)"
    using en by (auto dest: in_set_takeD)
  have "unique_key or_id (mset rs)"
    unfolding rs(1) pending_rows_def unique_key_def
  proof
    fix k
    have "size (filter_mset (\<lambda>r. or_id r = k) (filter_mset (\<lambda>r. or_publishedAt r = None) (rows w))) \<le>
        size (filter_mset (\<lambda>r. or_id r = k) (rows w))"
      by (intro size_mset_mono multiset_filter_mono) simp
    also have "\<dots> \<le> 1" using assms(2) by (simp add: unique_key_def)
    finally show "size (filter_mset (\<lambda>r. or_id r = k) (filter_mset (\<lambda>r. or_publishedAt r = None) (rows w))) \<le> 1" .
  qed
  then have dist: "distinct (map or_id rs)" by (simp add: unique_key_mset)
  have "filter (\<lambda>r. or_id r \<notin> or_id ` set (take ?b rs)) rs = drop ?b rs"
  proof -
    have "distinct (map or_id (take ?b rs) @ map or_id (drop ?b rs))"
      using dist by (simp flip: map_append)
    then have "filter (\<lambda>r. or_id r \<notin> or_id ` set (take ?b rs)) (drop ?b rs) = drop ?b rs"
      by (auto simp: filter_id_conv)
    moreover have "filter (\<lambda>r. or_id r \<notin> or_id ` set (take ?b rs)) (take ?b rs) = []"
      by (auto simp: filter_empty_conv)
    ultimately show ?thesis by (metis append_Nil append_take_drop_id filter_append)
  qed
  then have "filter_mset (\<lambda>r. or_id r \<notin> set (map or_id (take ?b rs))) (pending_rows (rows w)) = mset (drop ?b rs)"
    unfolding rs(1) [symmetric] by (metis mset_filter set_map)
  with outbox_mark [OF assms(1,3), of toDbTimestamp now "map or_id (take ?b rs)"]
  obtain w' where w': "dz_outbox_markPublished c tb now (map oe_id (map en (take ?b rs))) w = (Inr (), w')"
    "pending_rows (rows w') = mset (drop ?b rs)"
    unfolding ids dz_outbox_markPublished_def by auto
  show ?thesis
    by (intro exI conjI) (fact rs(1,2) refl w' rs(3) [folded dz_outbox_loadUnpublished_def])+
qed

definition sqlite_outbox :: "(unit, outbox_row, outbox_row list) sql_table" where
  "sqlite_outbox = list_table or_id (\<lambda>_ r. r\<lparr>or_event := json_norm (or_event r)\<rparr>) sqlite_error
     (\<lambda>n. nothing_reported\<lparr>ur_changes := Some (int n)\<rparr>)"

lemma sqlite_outbox_driver:
  "outbox_driver sqlite_outbox ex mset isUniqueViolation (\<lambda>res. getRowsAffected res = 0)"
  unfolding sqlite_outbox_def
proof (rule list_table_semantics)
  show "or_id r' = or_id r" if "or_stored r r'" for r r'
    using that unfolding or_stored_def by (metis (no_types, lifting) outbox_row.select_convs(1)
        outbox_row.simps outbox_row.surjective)
qed (auto simp: or_stored_def created_def sqlite_error_def isUniqueViolation_def sql_code_def
    starts_with_def getRowsAffected_def nothing_reported_def)

definition two_pending :: "outbox_row list" where
  "two_pending = snd (dz_outbox_save base_connection sqlite_outbox False
     [sample_entry ''late'' 9, sample_entry ''early'' 4] [])"

theorem dz_outbox_poll_witness:
  "\<exists>rs es w'. mset rs = pending_rows (mset two_pending) \<and> sorted (map created rs) \<and>
    es = map (\<lambda>r. projr (entry_of_row decode_state 0 r)) (take 1 rs) \<and>
    dz_outbox_loadUnpublished base_connection sqlite_outbox 0 (Some 1) two_pending = (Inr es, two_pending) \<and>
    dz_outbox_markPublished base_connection sqlite_outbox 10 (map oe_id es) two_pending = (Inr (), w') \<and>
    pending_rows (mset w') = mset (drop 1 rs)"
proof -
  have "list_all (\<lambda>r. or_fits r \<and> entry_of_row decode_state 0 r =
      Inr (projr (entry_of_row decode_state 0 r))) two_pending"
    by code_simp
  moreover have "distinct (map or_id two_pending)" by code_simp
  ultimately show ?thesis
    using dz_outbox_poll [of sqlite_outbox base_connection mset _ _ two_pending 0
        "\<lambda>r. projr (entry_of_row decode_state 0 r)" "Some 1" 10, OF sqlite_outbox_driver]
    by (simp add: unique_key_mset list_all_iff pending_rows_def)
qed

text \<open>What the limit of TypeORM's \<open>markPublishedByEventIds\<close> means: of a pending list longer than
  10000 only the oldest 10000 can be marked, so an event dispatched by the unit of work beyond them
  stays pending and is published again by the relay.\<close>

lemma to_outbox_mark_limited:
  assumes "outbox_driver tb (getExecutor c) rows dup no_row"
    and "unique_key or_id (rows w)" and "\<forall>r \<in># rows w. or_fits r"
    and "\<forall>r \<in># pending_rows (rows w). entry_of_row decode_text offset r = Inr (en r)"
  shows "\<exists>rs w'. mset rs = pending_rows (rows w) \<and> sorted (map created rs) \<and>
    to_outbox_markPublishedByEventIds c tb offset now eventIds w = (Inr (), w') \<and>
    (\<forall>r \<in> set (drop 10000 rs). or_id r \<in> or_id ` set (take 10000 rs) \<or> r \<in># pending_rows (rows w'))"
proof -
  obtain rs where rs: "mset rs = pending_rows (rows w)" "sorted (map created rs)"
    "sql_outbox_loadUnpublished (entry_of_row decode_text offset) tb (getExecutor c) 10000 w =
       (Inr (map en (take (nat 10000) rs)), w)"
    using outbox_load [OF assms(1) _ assms(4), of 10000] by auto
  have en: "oe_id (en r) = or_id r" if "r \<in> set rs" for r
    using assms(4) that entry_of_row_id unfolding rs(1) [symmetric] set_mset_mset by blast
  let ?match = "\<lambda>e. case event_id (oe_event e) of None \<Rightarrow> False | Some i \<Rightarrow> i \<noteq> [] \<and> i \<in> set eventIds"
  let ?ids = "map oe_id (filter ?match (map en (take 10000 rs)))"
  have sub: "set ?ids \<subseteq> or_id ` set (take 10000 rs)"
    using en by (auto dest: in_set_takeD)
  have "\<exists>w'. to_outbox_markPublishedByEventIds c tb offset now eventIds w = (Inr (), w') \<and>
      (\<forall>r \<in># pending_rows (rows w). or_id r \<in> set ?ids \<or> r \<in># pending_rows (rows w'))"
  proof (cases "eventIds = [] \<or> ?ids = []")
    case True
    then show ?thesis
      using rs(3) by (auto simp: to_outbox_markPublishedByEventIds_def to_outbox_loadUnpublished_def act Let_def)
  next
    case False
    obtain w' where "sql_outbox_markPublished Instant tb (getExecutor c) now ?ids w = (Inr (), w')"
      "pending_rows (rows w') = filter_mset (\<lambda>r. or_id r \<notin> set ?ids) (pending_rows (rows w))"
      using outbox_mark [OF assms(1,3)] by blast
    with False rs(3) show ?thesis
      by (auto simp: to_outbox_markPublishedByEventIds_def to_outbox_loadUnpublished_def
          to_outbox_markPublished_def act Let_def)
  qed
  then obtain w' where w': "to_outbox_markPublishedByEventIds c tb offset now eventIds w = (Inr (), w')"
    "\<And>r. r \<in># pending_rows (rows w) \<Longrightarrow> or_id r \<in> set ?ids \<or> r \<in># pending_rows (rows w')"
    by blast
  have "or_id r \<in> or_id ` set (take 10000 rs) \<or> r \<in># pending_rows (rows w')" if "r \<in> set (drop 10000 rs)" for r
  proof -
    have "r \<in># pending_rows (rows w)" using that rs(1) by (metis in_set_dropD set_mset_mset)
    with w'(2) [of r] sub show ?thesis by blast
  qed
  with rs(1,2) w'(1) show ?thesis by blast
qed

end
