(* ===== verification/Sql_Locks.thy ===== *)
theory Sql_Locks
  imports Messages Hash_Uuid
begin

text \<open>
  The advisory lockers of the database adapters: the per-process \<^verbatim>\<open>KeyedMutex\<close>
  (\<^verbatim>\<open>prisma/src/keyed-mutex.ts\<close>, the same class in \<^verbatim>\<open>typeorm\<close>, the same code
  inlined in \<^verbatim>\<open>drizzle\<close>) and the lockers composed of it and a database session
  (\<^verbatim>\<open>pg/advisory-locker.ts\<close>, \<^verbatim>\<open>mysql/advisory-locker.ts\<close>). The session is a
  parameter. The suspension points of \<^verbatim>\<open>lock\<close> make it a step relation.
\<close>

section \<open>KeyedMutex\<close>

text \<open>
  A gate is one of the promises the mutex creates, numbered in order of creation; the maps
  \<^verbatim>\<open>pending\<close> and \<^verbatim>\<open>release\<close> always have the same keys, so one map from a key to its
  gate stands for both. \<open>km_open\<close> are the gates whose promise is resolved.
\<close>

record keyed_mutex =
  km_pending :: "(string, nat) jmap"
  km_open :: "nat list"
  km_next :: nat

definition new_mutex :: keyed_mutex where
  "new_mutex = \<lparr>km_pending = [], km_open = [], km_next = 0\<rparr>"

text \<open>One pass of the loop of \<^verbatim>\<open>lock\<close>: \<open>Inl g\<close> awaits the gate \<open>g\<close>, \<open>Inr g\<close> returns, the key
  taken with the gate \<open>g\<close>.\<close>

definition km_lock :: "string \<Rightarrow> keyed_mutex \<Rightarrow> (nat + nat) \<times> keyed_mutex" where
  "km_lock key m =
     (case jm_get (km_pending m) key of
        Some current \<Rightarrow> (Inl current, m)
      | None \<Rightarrow> (Inr (km_next m),
          m\<lparr>km_pending := jm_set key (km_next m) (km_pending m), km_next := km_next m + 1\<rparr>))"

definition km_unlock :: "string \<Rightarrow> keyed_mutex \<Rightarrow> keyed_mutex" where
  "km_unlock key m =
     (case jm_get (km_pending m) key of
        None \<Rightarrow> m
      | Some g \<Rightarrow> m\<lparr>km_pending := jm_delete key (km_pending m), km_open := g # km_open m\<rparr>)"

subsection \<open>Interleavings\<close>

text \<open>Callers are numbered; a caller runs \<^verbatim>\<open>lock(key)\<close>, holds the key, and unlocks it once.\<close>

datatype phase = Idle | Waiting string nat | Holding string

record mutex_run =
  mr_mutex :: keyed_mutex
  mr_phase :: "nat \<Rightarrow> phase"

definition mutex_start :: mutex_run where
  "mutex_start = \<lparr>mr_mutex = new_mutex, mr_phase = (\<lambda>_. Idle)\<rparr>"

definition pass :: "nat \<Rightarrow> string \<Rightarrow> mutex_run \<Rightarrow> mutex_run" where
  "pass p key s =
     (case km_lock key (mr_mutex s) of
        (Inl g, m) \<Rightarrow> s\<lparr>mr_mutex := m, mr_phase := (mr_phase s)(p := Waiting key g)\<rparr>
      | (Inr _, m) \<Rightarrow> s\<lparr>mr_mutex := m, mr_phase := (mr_phase s)(p := Holding key)\<rparr>)"

definition leave :: "nat \<Rightarrow> string \<Rightarrow> mutex_run \<Rightarrow> mutex_run" where
  "leave p key s = s\<lparr>mr_mutex := km_unlock key (mr_mutex s), mr_phase := (mr_phase s)(p := Idle)\<rparr>"

inductive mutex_step :: "mutex_run \<Rightarrow> mutex_run \<Rightarrow> bool" where
  call: "mr_phase s p = Idle \<Longrightarrow> mutex_step s (pass p key s)"
| wake: "mr_phase s p = Waiting key g \<Longrightarrow> g \<in> set (km_open (mr_mutex s)) \<Longrightarrow>
    mutex_step s (pass p key s)"
| unlock: "mr_phase s p = Holding key \<Longrightarrow> mutex_step s (leave p key s)"

text \<open>A key is pending exactly while one caller holds it, the gate a caller waits for is resolved or
  still the one of its key, and gates are fresh.\<close>

definition mutex_inv :: "mutex_run \<Rightarrow> bool" where
  "mutex_inv s \<longleftrightarrow>
     (\<forall>p q k. mr_phase s p = Holding k \<longrightarrow> mr_phase s q = Holding k \<longrightarrow> p = q) \<and>
     (\<forall>k. (\<exists>p. mr_phase s p = Holding k) \<longleftrightarrow> jm_get (km_pending (mr_mutex s)) k \<noteq> None) \<and>
     (\<forall>p k g. mr_phase s p = Waiting k g \<longrightarrow>
        g \<in> set (km_open (mr_mutex s)) \<or> jm_get (km_pending (mr_mutex s)) k = Some g)"

lemma mutex_invD:
  assumes "mutex_inv s"
  shows "mr_phase s p = Holding k \<Longrightarrow> mr_phase s q = Holding k \<Longrightarrow> p = q"
    and "(\<exists>p. mr_phase s p = Holding k) \<longleftrightarrow> jm_get (km_pending (mr_mutex s)) k \<noteq> None"
    and "mr_phase s p = Waiting k g \<Longrightarrow>
      g \<in> set (km_open (mr_mutex s)) \<or> jm_get (km_pending (mr_mutex s)) k = Some g"
  using assms unfolding mutex_inv_def by blast+

lemma mutex_inv_start: "mutex_inv mutex_start"
  by (simp add: mutex_inv_def mutex_start_def new_mutex_def)

lemma mutex_inv_pass:
  assumes "mutex_inv s" and p: "\<forall>k. mr_phase s p \<noteq> Holding k"
  shows "mutex_inv (pass p key s)"
proof (cases "jm_get (km_pending (mr_mutex s)) key")
  case None
  then have "\<forall>q. mr_phase s q \<noteq> Holding key" using mutex_invD(2) [OF assms(1)] by metis
  with None assms show ?thesis
    by (simp add: mutex_inv_def pass_def km_lock_def) (metis option.distinct(1) phase.distinct(5) phase.inject(2))
next
  case (Some g)
  with assms show ?thesis
    by (simp add: mutex_inv_def pass_def km_lock_def) (metis phase.distinct(5) phase.inject(1))
qed

lemma mutex_inv_leave:
  assumes "mutex_inv s" and p: "mr_phase s p = Holding key"
  shows "mutex_inv (leave p key s)"
proof -
  obtain g where g: "jm_get (km_pending (mr_mutex s)) key = Some g"
    using mutex_invD(2) [OF assms(1)] p by blast
  note D = mutex_invD [OF assms(1)]
  let ?s = "leave p key s"
  have ph: "mr_phase ?s = (mr_phase s)(p := Idle)" by (simp add: leave_def)
  have pend: "jm_get (km_pending (mr_mutex ?s)) k = (if k = key then None else jm_get (km_pending (mr_mutex s)) k)"
    and opened: "set (km_open (mr_mutex ?s)) = insert g (set (km_open (mr_mutex s)))" for k
    using g by (simp_all add: leave_def km_unlock_def)
  show ?thesis
    unfolding mutex_inv_def
  proof (intro conjI allI impI)
    fix q r k assume "mr_phase ?s q = Holding k" "mr_phase ?s r = Holding k"
    then show "q = r" using D(1) [of q k r] by (simp add: ph split: if_splits)
  next
    fix k
    have "mr_phase ?s q = Holding k \<longleftrightarrow> k \<noteq> key \<and> mr_phase s q = Holding k" for q
    proof (cases "q = p")
      case True
      then show ?thesis using p by (auto simp: ph)
    next
      case False
      then show ?thesis using p D(1) [of p key q] by (auto simp: ph)
    qed
    then have "(\<exists>q. mr_phase ?s q = Holding k) \<longleftrightarrow> k \<noteq> key \<and> (\<exists>q. mr_phase s q = Holding k)" by simp
    then show "(\<exists>q. mr_phase ?s q = Holding k) \<longleftrightarrow> jm_get (km_pending (mr_mutex ?s)) k \<noteq> None"
      using D(2) [of k] by (simp add: pend)
  next
    fix q k h assume "mr_phase ?s q = Waiting k h"
    then have "mr_phase s q = Waiting k h" by (simp add: ph split: if_splits)
    with D(3) [of q k h] g show "h \<in> set (km_open (mr_mutex ?s)) \<or> jm_get (km_pending (mr_mutex ?s)) k = Some h"
      by (auto simp: pend opened)
  qed
qed

lemma mutex_inv_reachable: "mutex_step\<^sup>*\<^sup>* mutex_start s \<Longrightarrow> mutex_inv s"
proof (induction rule: rtranclp_induct)
  case base
  show ?case by (rule mutex_inv_start)
next
  case (step s s')
  from step.hyps(2) step.IH show ?case
    by (cases rule: mutex_step.cases) (auto intro: mutex_inv_pass mutex_inv_leave)
qed

text \<open>C19: The keyed mutex of the advisory lockers. In every state any interleaving of any number of
  callers can reach, a key has at most one holder, and no wake-up is lost: a caller that waits for a
  key can run on at once, or some caller holds the key and will wake it by unlocking.\<close>
theorem keyed_mutex_exclusive:
  assumes "mutex_step\<^sup>*\<^sup>* mutex_start s"
  shows "(mr_phase s p = Holding k \<and> mr_phase s q = Holding k \<longrightarrow> p = q) \<and>
    (\<forall>g. mr_phase s p = Waiting k g \<longrightarrow>
       mutex_step s (pass p k s) \<or> (\<exists>h. mr_phase s h = Holding k))"
proof -
  from mutex_inv_reachable [OF assms] have inv: "mutex_inv s" .
  have "mutex_step s (pass p k s) \<or> (\<exists>h. mr_phase s h = Holding k)" if w: "mr_phase s p = Waiting k g" for g
  proof (cases "g \<in> set (km_open (mr_mutex s))")
    case True
    with w show ?thesis by (blast intro: mutex_step.wake)
  next
    case False
    with w inv show ?thesis unfolding mutex_inv_def by (metis option.distinct(1))
  qed
  with inv show ?thesis unfolding mutex_inv_def by blast
qed

text \<open>Two callers race for one key; the second waits, and takes it once the first has left.\<close>

definition mutex_sample :: mutex_run where
  "mutex_sample = pass 2 ''A:1'' (pass 1 ''A:1'' mutex_start)"

theorem keyed_mutex_exclusive_witness:
  "mr_phase mutex_sample 1 = Holding ''A:1'' \<and> mr_phase mutex_sample 2 = Waiting ''A:1'' 0 \<and>
   (mutex_step mutex_sample (pass 2 ''A:1'' mutex_sample) \<or> (\<exists>h. mr_phase mutex_sample h = Holding ''A:1''))"
proof -
  have first: "mutex_step mutex_start (pass 1 ''A:1'' mutex_start)"
    by (rule mutex_step.call) (simp add: mutex_start_def)
  have "mutex_step (pass 1 ''A:1'' mutex_start) mutex_sample"
    unfolding mutex_sample_def
    by (rule mutex_step.call) (simp add: pass_def km_lock_def mutex_start_def new_mutex_def)
  with first have "mutex_step\<^sup>*\<^sup>* mutex_start mutex_sample" by (meson rtranclp.simps)
  moreover have "mr_phase mutex_sample 1 = Holding ''A:1''" "mr_phase mutex_sample 2 = Waiting ''A:1'' 0"
    by (simp_all add: mutex_sample_def pass_def km_lock_def mutex_start_def new_mutex_def)
  ultimately show ?thesis using keyed_mutex_exclusive [of mutex_sample 2 "''A:1''" 1] by blast
qed

section \<open>The PostgreSQL locker\<close>

text \<open>
  The queries on the pinned session, with their result decoded (\<^verbatim>\<open>acquired === true ||
  acquired === "t"\<close>), and the clock and the timer of the process.
\<close>

record 'w pg_session =
  pg_try_advisory_lock :: "int \<Rightarrow> ('w, bool) action"
  pg_advisory_lock :: "int \<Rightarrow> ('w, unit) action"
  pg_advisory_unlock :: "int \<Rightarrow> ('w, bool) action"
  pg_clock :: "'w \<Rightarrow> int"
  pg_sleep :: "int \<Rightarrow> 'w \<Rightarrow> 'w"

definition lock_hash :: "string \<Rightarrow> int" where
  "lock_hash key = fnv1a64 (map (\<lambda>c. of_nat (of_char c)) key)"

text \<open>The locker's own state is the set \<^verbatim>\<open>_held\<close> of hashes it believes it holds.\<close>

partial_function (option) pg_poll ::
  "'w pg_session \<Rightarrow> string \<Rightarrow> ID \<Rightarrow> int \<Rightarrow> int \<Rightarrow> int set \<Rightarrow> 'w \<Rightarrow> ((error + unit) \<times> int set \<times> 'w) option" where
  "pg_poll d n i timeoutMs deadline held w =
     (case pg_try_advisory_lock d (lock_hash (instance_key n i)) w of
        (Inl e, w') \<Rightarrow> Some (Inl e, held, w')
      | (Inr acquired, w') \<Rightarrow>
          if acquired then Some (Inr (), insert (lock_hash (instance_key n i)) held, w')
          else if deadline \<le> pg_clock d w' then Some (Inl (LockTimeoutError n i timeoutMs), held, w')
          else pg_poll d n i timeoutMs deadline held (pg_sleep d 50 w'))"

definition pg_acquireDb ::
  "'w pg_session \<Rightarrow> string \<Rightarrow> ID \<Rightarrow> int option \<Rightarrow> int set \<Rightarrow> 'w \<Rightarrow> ((error + unit) \<times> int set \<times> 'w) option" where
  "pg_acquireDb d n i timeoutMs held w =
     (let hashKey = lock_hash (instance_key n i) in
      if 0 < or_else timeoutMs 0
      then pg_poll d n i (or_else timeoutMs 0) (pg_clock d w + or_else timeoutMs 0) held w
      else (case pg_advisory_lock d hashKey w of
              (Inl e, w') \<Rightarrow> Some (Inl e, held, w')
            | (Inr _, w') \<Rightarrow> Some (Inr (), insert hashKey held, w')))"

definition pg_releaseDb ::
  "'w pg_session \<Rightarrow> string \<Rightarrow> ID \<Rightarrow> int set \<Rightarrow> 'w \<Rightarrow> (error + unit) \<times> int set \<times> 'w" where
  "pg_releaseDb d n i held w =
     (let hashKey = lock_hash (instance_key n i); believedHeld = hashKey \<in> held
      in case pg_advisory_unlock d hashKey w of
           (Inl e, w') \<Rightarrow> (Inl e, held, w')
         | (Inr ok, w') \<Rightarrow>
             if ok then (Inr (), held - {hashKey}, w')
             else if believedHeld then (Inl (UserError ''not held on this connection''), held, w')
             else (Inr (), held, w'))"

text \<open>\<^verbatim>\<open>acquire\<close> once \<^verbatim>\<open>localMutex.lock\<close> has returned, and \<^verbatim>\<open>release\<close>.\<close>

definition pg_acquire ::
  "'w pg_session \<Rightarrow> string \<Rightarrow> ID \<Rightarrow> int option \<Rightarrow> keyed_mutex \<Rightarrow> int set \<Rightarrow> 'w \<Rightarrow>
   ((error + unit) \<times> keyed_mutex \<times> int set \<times> 'w) option" where
  "pg_acquire d n i timeoutMs m held w =
     (case pg_acquireDb d n i timeoutMs held w of
        None \<Rightarrow> None
      | Some (Inl e, s) \<Rightarrow> Some (Inl e, km_unlock (instance_key n i) m, s)
      | Some (Inr _, s) \<Rightarrow> Some (Inr (), m, s))"

definition pg_release ::
  "'w pg_session \<Rightarrow> string \<Rightarrow> ID \<Rightarrow> keyed_mutex \<Rightarrow> int set \<Rightarrow> 'w \<Rightarrow>
   (error + unit) \<times> keyed_mutex \<times> int set \<times> 'w" where
  "pg_release d n i m held w =
     (case pg_releaseDb d n i held w of (r, s) \<Rightarrow> (r, km_unlock (instance_key n i) m, s))"

text \<open>What the loop needs of time: queries do not turn the clock back, a timer of \<open>ms\<close> milliseconds
  takes at least that long.\<close>

definition time_passes :: "'w pg_session \<Rightarrow> bool" where
  "time_passes d \<longleftrightarrow>
     (\<forall>h w r w'. pg_try_advisory_lock d h w = (r, w') \<longrightarrow> pg_clock d w \<le> pg_clock d w') \<and>
     (\<forall>ms w. 0 \<le> ms \<longrightarrow> pg_clock d w + ms \<le> pg_clock d (pg_sleep d ms w))"

lemma pg_poll_returns:
  assumes "time_passes d"
  shows "\<exists>r held' w'. pg_poll d n i t deadline held w = Some (r, held', w') \<and>
    (case r of Inr _ \<Rightarrow> held' = insert (lock_hash (instance_key n i)) held
     | Inl e \<Rightarrow> held' = held \<and> ((\<exists>h u. pg_try_advisory_lock d h u = (Inl e, w')) \<or>
         e = LockTimeoutError n i t \<and> deadline \<le> pg_clock d w'))"
proof (induction "nat (deadline - pg_clock d w)" arbitrary: w rule: less_induct)
  case less
  let ?h = "lock_hash (instance_key n i)"
  obtain r w1 where attempt: "pg_try_advisory_lock d ?h w = (r, w1)" by (cases "pg_try_advisory_lock d ?h w")
  show ?case
  proof (cases "r = Inr False \<and> pg_clock d w1 < deadline")
    case True
    let ?w = "pg_sleep d 50 w1"
    have "pg_clock d w \<le> pg_clock d w1" "pg_clock d w1 + 50 \<le> pg_clock d ?w"
      using assms attempt by (auto simp: time_passes_def)
    with True have "nat (deadline - pg_clock d ?w) < nat (deadline - pg_clock d w)" by linarith
    from less.hyps [OF this] True attempt show ?thesis
      by (subst pg_poll.simps) simp
  next
    case False
    with attempt show ?thesis
      by (subst pg_poll.simps) (auto split: sum.splits)
  qed
qed

text \<open>C24: Acquiring an advisory lock with a timeout ends and leaks nothing. Once the local mutex is
  taken, the polling loop returns on any session as time passes. It either holds the lock, recorded
  in the locker and with the local mutex still taken, or fails because a query failed or because the
  timeout has elapsed; then the local mutex is free again and its waiters are woken.\<close>
theorem pg_acquire_returns:
  assumes "time_passes d" and "0 < t" and "jm_get (km_pending m) (instance_key n i) = Some g"
  shows "\<exists>r m' held' w'. pg_acquire d n i (Some t) m held w = Some (r, m', held', w') \<and>
    (case r of
       Inr _ \<Rightarrow> held' = insert (lock_hash (instance_key n i)) held \<and> m' = m
     | Inl e \<Rightarrow> held' = held \<and> jm_get (km_pending m') (instance_key n i) = None \<and> g \<in> set (km_open m') \<and>
         ((\<exists>h u. pg_try_advisory_lock d h u = (Inl e, w')) \<or>
          e = LockTimeoutError n i t \<and> pg_clock d w + t \<le> pg_clock d w'))"
proof -
  obtain r held' w' where p: "pg_poll d n i t (pg_clock d w + t) held w = Some (r, held', w')"
    "case r of Inr _ \<Rightarrow> held' = insert (lock_hash (instance_key n i)) held
     | Inl e \<Rightarrow> held' = held \<and> ((\<exists>h u. pg_try_advisory_lock d h u = (Inl e, w')) \<or>
         e = LockTimeoutError n i t \<and> pg_clock d w + t \<le> pg_clock d w')"
    using pg_poll_returns [OF assms(1)] by blast
  have "pg_acquireDb d n i (Some t) held w = Some (r, held', w')"
    using p(1) assms(2) by (simp add: pg_acquireDb_def)
  with p(2) assms(3) show ?thesis
    by (cases r) (auto simp: pg_acquire_def km_unlock_def)
qed

text \<open>A session whose lock another session holds until time 120, on a clock in milliseconds.\<close>

definition busy_session :: "int pg_session" where
  "busy_session = \<lparr>pg_try_advisory_lock = (\<lambda>_ w. (Inr (120 \<le> w), w + 1)),
     pg_advisory_lock = (\<lambda>_ w. (Inr (), max w 120)), pg_advisory_unlock = (\<lambda>_ w. (Inr True, w + 1)),
     pg_clock = id, pg_sleep = (\<lambda>ms w. w + ms)\<rparr>"

definition busy_mutex :: keyed_mutex where
  "busy_mutex = snd (km_lock (instance_key ''A'' (IDStr ''1'')) new_mutex)"

theorem pg_acquire_returns_witness:
  "\<exists>r m' held' w'. pg_acquire busy_session ''A'' (IDStr ''1'') (Some 60) busy_mutex {} 0 =
      Some (r, m', held', w') \<and>
    (case r of
       Inr _ \<Rightarrow> held' = insert (lock_hash (instance_key ''A'' (IDStr ''1''))) {} \<and> m' = busy_mutex
     | Inl e \<Rightarrow> held' = {} \<and> jm_get (km_pending m') (instance_key ''A'' (IDStr ''1'')) = None \<and>
         0 \<in> set (km_open m') \<and>
         ((\<exists>h u. pg_try_advisory_lock busy_session h u = (Inl e, w')) \<or>
          e = LockTimeoutError ''A'' (IDStr ''1'') 60 \<and> pg_clock busy_session 0 + 60 \<le> pg_clock busy_session w'))"
  by (rule pg_acquire_returns)
    (simp_all add: time_passes_def busy_session_def busy_mutex_def km_lock_def new_mutex_def)

text \<open>Releasing frees the local mutex whatever the database answers, and reports a lock that was taken
  on another session, on every attempt until one succeeds.\<close>

lemma pg_release_frees:
  assumes "jm_get (km_pending m) (instance_key n i) = Some g"
  shows "jm_get (km_pending (fst (snd (pg_release d n i m held w)))) (instance_key n i) = None"
  using assms by (cases "pg_releaseDb d n i held w") (simp add: pg_release_def km_unlock_def)

lemma pg_release_wrong_session:
  assumes "lock_hash (instance_key n i) \<in> held" and "pg_advisory_unlock d (lock_hash (instance_key n i)) w = (Inr False, w')"
  shows "pg_releaseDb d n i held w = (Inl (UserError ''not held on this connection''), held, w')"
  using assms by (simp add: pg_releaseDb_def)

section \<open>The MySQL locker\<close>

record 'w mysql_session =
  my_get_lock :: "string \<Rightarrow> int \<Rightarrow> ('w, bool) action"
  my_release_lock :: "string \<Rightarrow> ('w, bool) action"

definition lockName :: "string \<Rightarrow> ID \<Rightarrow> string" where
  "lockName n i = js_take (instance_key n i) 64"

text \<open>\<^verbatim>\<open>timeoutMs ? Math.ceil(timeoutMs / 1000) : -1\<close>\<close>

definition timeoutSec :: "int option \<Rightarrow> int" where
  "timeoutSec timeoutMs = (if or_else timeoutMs 0 \<noteq> 0 then - ((- or_else timeoutMs 0) div 1000) else -1)"

definition mysql_acquireDb ::
  "'w mysql_session \<Rightarrow> string \<Rightarrow> ID \<Rightarrow> int option \<Rightarrow> string set \<Rightarrow> 'w \<Rightarrow> (error + unit) \<times> string set \<times> 'w" where
  "mysql_acquireDb d n i timeoutMs held w =
     (case my_get_lock d (lockName n i) (timeoutSec timeoutMs) w of
        (Inl e, w') \<Rightarrow> (Inl e, held, w')
      | (Inr acquired, w') \<Rightarrow>
          if \<not> acquired then (Inl (LockTimeoutError n i (or_else timeoutMs 0)), held, w')
          else (Inr (), insert (lockName n i) held, w'))"

definition mysql_releaseDb ::
  "'w mysql_session \<Rightarrow> string \<Rightarrow> ID \<Rightarrow> string set \<Rightarrow> 'w \<Rightarrow> (error + unit) \<times> string set \<times> 'w" where
  "mysql_releaseDb d n i held w =
     (case my_release_lock d (lockName n i) w of
        (Inl e, w') \<Rightarrow> (Inl e, held, w')
      | (Inr ok, w') \<Rightarrow>
          if ok then (Inr (), held - {lockName n i}, w')
          else if lockName n i \<in> held then (Inl (UserError ''not held on this connection''), held, w')
          else (Inr (), held, w'))"

definition mysql_acquire ::
  "'w mysql_session \<Rightarrow> string \<Rightarrow> ID \<Rightarrow> int option \<Rightarrow> keyed_mutex \<Rightarrow> string set \<Rightarrow> 'w \<Rightarrow>
   (error + unit) \<times> keyed_mutex \<times> string set \<times> 'w" where
  "mysql_acquire d n i timeoutMs m held w =
     (case mysql_acquireDb d n i timeoutMs held w of
        (Inl e, s) \<Rightarrow> (Inl e, km_unlock (instance_key n i) m, s)
      | (Inr _, s) \<Rightarrow> (Inr (), m, s))"

definition mysql_release ::
  "'w mysql_session \<Rightarrow> string \<Rightarrow> ID \<Rightarrow> keyed_mutex \<Rightarrow> string set \<Rightarrow> 'w \<Rightarrow>
   (error + unit) \<times> keyed_mutex \<times> string set \<times> 'w" where
  "mysql_release d n i m held w =
     (case mysql_releaseDb d n i held w of (r, s) \<Rightarrow> (r, km_unlock (instance_key n i) m, s))"

text \<open>Whole seconds, never fewer milliseconds than asked for; and instances whose keys agree on the
  first 64 characters share one database lock but not the local mutex: with both taken on one
  session, the first release forgets the name for both.\<close>

lemma timeoutSec_bounds:
  assumes "0 < t"
  shows "t \<le> 1000 * timeoutSec (Some t)" "1000 * timeoutSec (Some t) < t + 1000"
  using assms by (auto simp: timeoutSec_def)

lemma mysql_shared_name:
  "lockName (replicate 64 CHR ''x'') (IDStr ''1'') = lockName (replicate 64 CHR ''x'') (IDStr ''2'')"
  by code_simp

end
