(* ===== verification/Sql_Dedicated.thy ===== *)
theory Sql_Dedicated
  imports Sql_State
begin

text \<open>
  State-stored aggregates with a table of their own: \<^verbatim>\<open>dedicated-state-persistence.ts\<close> and
  \<^verbatim>\<open>json-state-mapper.ts\<close> of the Drizzle, TypeORM and Prisma adapters. The table and the
  mapper between states and rows are the caller's; a row is a JavaScript object.
\<close>

type_synonym object_row = "(string, jsval) jmap"

text \<open>\<^verbatim>\<open>{ ...base, ...changes }\<close>\<close>

definition js_spread :: "object_row \<Rightarrow> object_row \<Rightarrow> object_row" where
  "js_spread base changes = fold (\<lambda>(k, v). jm_set k v) changes base"

text \<open>A mapper, with the keys of the identifier and version columns resolved.\<close>

record state_mapper =
  mp_idKey :: string
  mp_versionKey :: string
  mp_toRow :: "jsval \<Rightarrow> object_row"
  mp_fromRow :: "object_row \<Rightarrow> error + jsval"

section \<open>Save and load\<close>

definition dedicated_save ::
  "(error \<Rightarrow> bool) \<Rightarrow> (update_result \<Rightarrow> bool) \<Rightarrow> ('ex, object_row, 'w) sql_table \<Rightarrow> 'ex \<Rightarrow> state_mapper \<Rightarrow>
   string \<Rightarrow> string \<Rightarrow> jsval \<Rightarrow> int \<Rightarrow> ('w, unit) action" where
  "dedicated_save is_dup no_row tb ex mapper aggregateName aggregateId state expectedVersion =
     (let stateRow = mp_toRow mapper state;
          idKey = mp_idKey mapper; versionKey = mp_versionKey mapper
      in versioned_write tb ex is_dup no_row
           (ConcurrencyError aggregateName (IDStr aggregateId) expectedVersion (-1))
           (jm_set versionKey (JNum 1) (jm_set idKey (JStr aggregateId) stateRow))
           (\<lambda>r. jm_get r idKey = Some (JStr aggregateId) \<and> jm_get r versionKey = Some (JNum expectedVersion))
           (\<lambda>r. js_spread r (jm_set versionKey (JNum (expectedVersion + 1)) stateRow))
           expectedVersion)"

definition dedicated_load ::
  "('ex, object_row, 'w) sql_table \<Rightarrow> 'ex \<Rightarrow> state_mapper \<Rightarrow> string \<Rightarrow> ('w, (jsval \<times> jsval) option) action" where
  "dedicated_load tb ex mapper aggregateId =
     (let idKey = mp_idKey mapper; versionKey = mp_versionKey mapper in
      bind_act (sql_select tb ex (\<lambda>r. jm_get r idKey = Some (JStr aggregateId)) None None)
        (\<lambda>rs. case rs of
            [] \<Rightarrow> ret None
          | row # _ \<Rightarrow>
              (let versionValue = or_else (jm_get row versionKey) JUndef;
                   stateRow = jm_delete versionKey (jm_delete idKey row)
               in bind_act (lift_result (mp_fromRow mapper stateRow))
                    (\<lambda>st. ret (Some (st, versionValue))))))"

definition dz_dedicated_save ::
  "'ex sql_connection \<Rightarrow> ('ex, object_row, 'w) sql_table \<Rightarrow> state_mapper \<Rightarrow> string \<Rightarrow> string \<Rightarrow> jsval \<Rightarrow>
   int \<Rightarrow> ('w, unit) action" where
  "dz_dedicated_save c tb mapper =
     dedicated_save isUniqueViolation (\<lambda>res. getRowsAffected res = 0) tb (getExecutor c) mapper"

definition dz_dedicated_load ::
  "'ex sql_connection \<Rightarrow> ('ex, object_row, 'w) sql_table \<Rightarrow> state_mapper \<Rightarrow> string \<Rightarrow> string \<Rightarrow>
   ('w, (jsval \<times> jsval) option) action" where
  "dz_dedicated_load c tb mapper aggregateName = dedicated_load tb (getExecutor c) mapper"

definition to_dedicated_save ::
  "'ex sql_connection \<Rightarrow> ('ex, object_row, 'w) sql_table \<Rightarrow> state_mapper \<Rightarrow> string \<Rightarrow> string \<Rightarrow> jsval \<Rightarrow>
   int \<Rightarrow> ('w, unit) action" where
  "to_dedicated_save c tb mapper =
     dedicated_save typeorm_isUniqueViolation (\<lambda>res. ur_affected res = Some 0) tb (getExecutor c) mapper"

definition to_dedicated_load ::
  "'ex sql_connection \<Rightarrow> ('ex, object_row, 'w) sql_table \<Rightarrow> state_mapper \<Rightarrow> string \<Rightarrow> string \<Rightarrow>
   ('w, (jsval \<times> jsval) option) action" where
  "to_dedicated_load c tb mapper aggregateName = dedicated_load tb (getExecutor c) mapper"

definition pr_dedicated_save ::
  "'ex sql_connection \<Rightarrow> ('ex, object_row, 'w) sql_table \<Rightarrow> state_mapper \<Rightarrow> string \<Rightarrow> string \<Rightarrow> jsval \<Rightarrow>
   int \<Rightarrow> ('w, unit) action" where
  "pr_dedicated_save c tb mapper =
     dedicated_save prisma_unique (\<lambda>res. ur_count res = Some 0) tb (getExecutor c) mapper"

definition pr_dedicated_load ::
  "'ex sql_connection \<Rightarrow> ('ex, object_row, 'w) sql_table \<Rightarrow> state_mapper \<Rightarrow> string \<Rightarrow> string \<Rightarrow>
   ('w, (jsval \<times> jsval) option) action" where
  "pr_dedicated_load c tb mapper aggregateName = dedicated_load tb (getExecutor c) mapper"

section \<open>Columns and JSON mappers\<close>

text \<open>A Drizzle table is the list of its keys with their columns; a column reference outside it is an
  error.\<close>

fun findKeyForColumn :: "(string \<times> 'c) list \<Rightarrow> 'c \<Rightarrow> error + string" where
  "findKeyForColumn [] column = Inl (UserError ''column not found'')"
| "findKeyForColumn ((key, value) # table) column =
     (if value = column then Inr key else findKeyForColumn table column)"

definition json_toRow :: "string \<Rightarrow> jsval \<Rightarrow> object_row" where
  "json_toRow stateField state = [(stateField, js_stringify state)]"

definition json_fromRow :: "string \<Rightarrow> object_row \<Rightarrow> error + jsval" where
  "json_fromRow stateField row = decode_state (or_else (jm_get row stateField) JUndef)"

text \<open>The mapper of TypeORM and Prisma, with its default field names.\<close>

definition jsonStateMapper :: "string option \<Rightarrow> string option \<Rightarrow> string option \<Rightarrow> state_mapper" where
  "jsonStateMapper aggregateIdField versionField stateField =
     \<lparr>mp_idKey = or_else aggregateIdField ''aggregateId'', mp_versionKey = or_else versionField ''version'',
      mp_toRow = json_toRow (or_else stateField ''state''),
      mp_fromRow = json_fromRow (or_else stateField ''state'')\<rparr>"

text \<open>The mapper of Drizzle: columns default to the conventional keys and all three must exist; a state
  column that is no column of the table is addressed by its database name \<open>column_name\<close>.\<close>

definition dz_jsonStateMapper ::
  "('c \<Rightarrow> string) \<Rightarrow> (string \<times> 'c) list \<Rightarrow> 'c option \<Rightarrow> 'c option \<Rightarrow> 'c option \<Rightarrow> error + state_mapper" where
  "dz_jsonStateMapper column_name table idColumn versionColumn stateColumn =
     (let column = (\<lambda>option key. case option of Some col \<Rightarrow> Some col | None \<Rightarrow> map_of table key)
      in case (column idColumn ''aggregateId'', column versionColumn ''version'', column stateColumn ''state'') of
           (Some ic, Some vc, Some sc) \<Rightarrow>
             (let stateKey = (case findKeyForColumn table sc of Inr key \<Rightarrow> key | Inl _ \<Rightarrow> column_name sc)
              in (case (findKeyForColumn table ic, findKeyForColumn table vc) of
                    (Inr idKey, Inr versionKey) \<Rightarrow>
                      Inr \<lparr>mp_idKey = idKey, mp_versionKey = versionKey, mp_toRow = json_toRow stateKey,
                           mp_fromRow = json_fromRow stateKey\<rparr>
                  | (Inl e, _) \<Rightarrow> Inl e
                  | (_, Inl e) \<Rightarrow> Inl e))
         | _ \<Rightarrow> Inl (UserError ''jsonStateMapper: missing required columns''))"

section \<open>Round trip\<close>

lemma jm_delete_filter: "jm_delete k m = filter (\<lambda>kv. fst kv \<noteq> k) m"
  by (simp add: jm_delete_def AList.delete_eq case_prod_unfold eq_commute)

lemma jm_get_append_single:
  "jm_get (row @ [(a, x)]) k = (case jm_get row k of None \<Rightarrow> if k = a then Some x else None | Some v \<Rightarrow> Some v)"
  by (simp add: jm_get_def map_add_def split: option.splits)

lemma strip_columns:
  assumes "jm_get row a = None" and "jm_get row b = None" and "a \<noteq> b"
  shows "jm_delete b (jm_delete a (jm_set b y (jm_set a x row))) = row"
proof -
  have "jm_set b y (jm_set a x row) = row @ [(a, x), (b, y)]"
    using assms jm_set_new [of row a x] jm_set_new [of "row @ [(a, x)]" b y]
    by (simp add: jm_get_append_single)
  moreover have "\<forall>kv \<in> set row. fst kv \<noteq> a \<and> fst kv \<noteq> b"
    using assms(1,2) by (force simp: jm_get_def map_of_eq_None_iff)
  ultimately show ?thesis by (simp add: jm_delete_filter filter_id_conv)
qed

lemma json_mapper_roundtrip:
  "json_clean st \<Longrightarrow> st \<noteq> JUndef \<Longrightarrow> json_fromRow f (json_toRow f st) = Inr st"
  by (rule js_stringify_parse [of st])
    (simp_all add: json_fromRow_def json_toRow_def jm_get_def decode_state_def)

text \<open>A created aggregate is loaded with version 1 and the state the mapper reads back.\<close>

lemma dedicated_create_load:
  assumes sem: "sql_semantics tb ex rows (\<lambda>r. jm_get r (mp_idKey mapper)) fits (=) dup no_row"
    and "unique_key (\<lambda>r. jm_get r (mp_idKey mapper)) (rows w)"
    and fresh: "\<forall>r \<in># rows w. jm_get r (mp_idKey mapper) \<noteq> Some (JStr i)"
    and keys: "mp_idKey mapper \<noteq> mp_versionKey mapper" "jm_get (mp_toRow mapper st) (mp_idKey mapper) = None"
      "jm_get (mp_toRow mapper st) (mp_versionKey mapper) = None"
    and "mp_fromRow mapper (mp_toRow mapper st) = Inr st"
    and "fits (jm_set (mp_versionKey mapper) (JNum 1) (jm_set (mp_idKey mapper) (JStr i) (mp_toRow mapper st)))"
  shows "\<exists>w'. dedicated_save dup no_row tb ex mapper n i st 0 w = (Inr (), w') \<and>
    dedicated_load tb ex mapper i w' = (Inr (Some (st, JNum 1)), w')"
proof -
  let ?key = "\<lambda>r. jm_get r (mp_idKey mapper)"
  let ?r = "jm_set (mp_versionKey mapper) (JNum 1) (jm_set (mp_idKey mapper) (JStr i) (mp_toRow mapper st))"
  have k: "?key ?r = Some (JStr i)" using keys(1) by simp
  have "unique_key ?key (rows w + mset [?r])"
    using assms(2) fresh k by (simp add: unique_key_add)
  with sql_semantics.insert_ok [OF sem, of "[?r]" w] assms(8) obtain w'
    where w': "sql_insert tb ex [?r] w = (Inr (), w')" "rows w' = add_mset ?r (rows w)"
    by (auto simp: list_all2_Cons1)
  obtain rs where rs: "sql_select tb ex (\<lambda>r. ?key r = Some (JStr i)) None None w' = (Inr rs, w')"
      "mset rs = filter_mset (\<lambda>r. ?key r = Some (JStr i)) (rows w')"
    using sql_semantics.select_all [OF sem] by blast
  have "filter_mset (\<lambda>r. ?key r = Some (JStr i)) (rows w) = {#}" using fresh by auto
  with w'(2) k rs(2) have "rs = [?r]" by simp
  with rs(1) w'(1) assms(7) strip_columns [OF keys(2,3,1)] show ?thesis
    by (simp add: dedicated_save_def dedicated_load_def versioned_write_def act Let_def)
qed

end
