(* ===== verification/Sql_Units.thy ===== *)
theory Sql_Units
  imports Unit_Of_Work
begin

text \<open>
  The commit of the Drizzle unit of work (\<^verbatim>\<open>drizzle/src/unit-of-work.ts\<close>). On an asynchronous
  driver it is \<^const>\<open>tx_commit\<close> over the client's \<^verbatim>\<open>db.transaction\<close>; on the synchronous
  SQLite driver it issues \<^verbatim>\<open>BEGIN\<close>, \<^verbatim>\<open>COMMIT\<close> and \<^verbatim>\<open>ROLLBACK\<close> itself, on the one
  connection all units of work share.
\<close>

text \<open>\<^verbatim>\<open>useSqlStatements\<close>: the handle has a \<^verbatim>\<open>run\<close> method.\<close>

record 'w drizzle_db =
  db_run :: "(string \<Rightarrow> ('w, unit) action) option"
  db_transaction_fn :: "('w, unit) action \<Rightarrow> ('w, unit) action"

definition sql_statements :: "(string \<Rightarrow> ('w, unit) action) \<Rightarrow> ('w, unit) action \<Rightarrow> ('w, unit) action" where
  "sql_statements run body =
     then_act (run ''BEGIN'')
       (catch_act (then_act body (run ''COMMIT''))
         (\<lambda>e. then_act (swallow (run ''ROLLBACK'')) (throw e)))"

definition drizzle_commit :: "'w drizzle_db \<Rightarrow> ('w uow \<times> 'w, event list) action" where
  "drizzle_commit db =
     (case db_run db of
        Some run \<Rightarrow> tx_commit (sql_statements run)
      | None \<Rightarrow> tx_commit (db_transaction_fn db))"

text \<open>
  What SQLite documents of the three statements: \<open>tables\<close> are the committed and uncommitted rows the
  connection sees, \<open>saved\<close> the rows at the \<^verbatim>\<open>BEGIN\<close> of the open transaction. A failing
  \<^verbatim>\<open>COMMIT\<close> leaves the transaction open; a second \<^verbatim>\<open>BEGIN\<close> is refused.
\<close>

locale sqlite_transactions =
  fixes run :: "string \<Rightarrow> ('w, unit) action" and tables :: "'w \<Rightarrow> 't" and saved :: "'w \<Rightarrow> 't option"
  assumes begin_opens: "saved w = None \<Longrightarrow>
      (\<exists>w'. run ''BEGIN'' w = (Inr (), w') \<and> saved w' = Some (tables w) \<and> tables w' = tables w)"
    and begin_nested: "saved w \<noteq> None \<Longrightarrow> \<exists>e. run ''BEGIN'' w = (Inl e, w)"
    and commit_closes: "saved w \<noteq> None \<Longrightarrow> run ''COMMIT'' w = (r, w') \<Longrightarrow>
      tables w' = tables w \<and> saved w' = (case r of Inl _ \<Rightarrow> saved w | Inr _ \<Rightarrow> None)"
    and rollback_restores: "saved w = Some t \<Longrightarrow>
      \<exists>w'. run ''ROLLBACK'' w = (Inr (), w') \<and> tables w' = t \<and> saved w' = None"
begin

text \<open>A body that neither opens nor closes a transaction.\<close>

definition plain :: "('w, unit) action \<Rightarrow> bool" where
  "plain body \<longleftrightarrow> keeps saved body"

lemma statements_atomic:
  assumes "saved w = None" and "plain body" and "sql_statements run body w = (r, w')"
  shows "saved w' = None \<and>
    (case r of
       Inl _ \<Rightarrow> tables w' = tables w
     | Inr _ \<Rightarrow> \<exists>w1 w2. tables w1 = tables w \<and> body w1 = (Inr (), w2) \<and> tables w' = tables w2)"
proof -
  obtain w1 where b: "run ''BEGIN'' w = (Inr (), w1)" "saved w1 = Some (tables w)" "tables w1 = tables w"
    using begin_opens [OF assms(1)] by blast
  obtain rb w2 where body: "body w1 = (rb, w2)" by (cases "body w1")
  have s2: "saved w2 = Some (tables w)"
    using keepsD [OF assms(2) [unfolded plain_def] body] b(2) by simp
  obtain rc w3 where c: "run ''COMMIT'' w2 = (rc, w3)" by (cases "run ''COMMIT'' w2")
  have c': "tables w3 = tables w2" "saved w3 = (case rc of Inl _ \<Rightarrow> saved w2 | Inr _ \<Rightarrow> None)"
    using commit_closes [OF _ c] s2 by auto
  show ?thesis
  proof (cases rb)
    case (Inl e)
    obtain w4 where "run ''ROLLBACK'' w2 = (Inr (), w4)" "tables w4 = tables w" "saved w4 = None"
      using rollback_restores [OF s2] by blast
    with Inl b body assms(3) show ?thesis by (auto simp: sql_statements_def act)
  next
    case rb: (Inr x)
    show ?thesis
    proof (cases rc)
      case (Inl e)
      then have "saved w3 = Some (tables w)" using c'(2) s2 by simp
      then obtain w4 where "run ''ROLLBACK'' w3 = (Inr (), w4)" "tables w4 = tables w" "saved w4 = None"
        using rollback_restores by blast
      with Inl rb b body c assms(3) show ?thesis by (auto simp: sql_statements_def act)
    next
      case (Inr y)
      with rb b(1) body c assms(3) have "r = Inr ()" "w' = w3" by (simp_all add: sql_statements_def act)
      moreover from rb body have "body w1 = (Inr (), w2)" by simp
      ultimately show ?thesis using Inr c' b(3) by (intro conjI) (simp, simp, blast)
    qed
  qed
qed

end

text \<open>A connection: the rows, and the rows at the open transaction's start.\<close>

definition sqlite_run :: "string \<Rightarrow> ('t \<times> 't option, unit) action" where
  "sqlite_run stmt w =
     (if stmt = ''BEGIN'' then
        (case snd w of None \<Rightarrow> (Inr (), (fst w, Some (fst w)))
         | Some _ \<Rightarrow> (Inl (UserError ''cannot start a transaction within a transaction''), w))
      else if stmt = ''COMMIT'' then
        (case snd w of None \<Rightarrow> (Inl (UserError ''no transaction is active''), w)
         | Some _ \<Rightarrow> (Inr (), (fst w, None)))
      else
        (case snd w of None \<Rightarrow> (Inl (UserError ''no transaction is active''), w)
         | Some t \<Rightarrow> (Inr (), (t, None))))"

interpretation sqlite_connection: sqlite_transactions sqlite_run fst snd
  by unfold_locales (auto simp: sqlite_run_def split: option.splits sum.splits)

text \<open>C6: The commit of the Drizzle unit of work on SQLite is atomic and leaves no transaction open. If
  the enlisted operations issue no transaction statements, a commit that fails, whether in an
  operation or in COMMIT itself, leaves the tables as they were, one that succeeds leaves what the
  operations made of them and returns the deferred events, and in both cases the connection has no
  open transaction, so the next unit of work can begin its own.\<close>
theorem drizzle_commit_atomic:
  fixes run :: "string \<Rightarrow> ('w, unit) action" and tables :: "'w \<Rightarrow> 't" and saved :: "'w \<Rightarrow> 't option"
  assumes "sqlite_transactions run tables saved" and "db_run db = Some run"
    and "saved w = None" and "\<not> u_completed u" and "\<forall>op \<in> set (u_operations u). keeps saved op"
    and "drizzle_commit db (u, w) = (r, (u', w'))"
  shows "saved w' = None \<and> u_completed u' \<and>
    (case r of
       Inl _ \<Rightarrow> tables w' = tables w
     | Inr evs \<Rightarrow> evs = u_pendingEvents u \<and>
         (\<exists>w1 w2. tables w1 = tables w \<and> run_operations (u_operations u) w1 = (Inr (), w2) \<and>
            tables w' = tables w2))"
proof -
  have "saved (snd (for_each (\<lambda>op. op) ops s)) = saved s" if "\<forall>op \<in> set ops. keeps saved op" for ops s
    using that
  proof (induction ops arbitrary: s)
    case Nil
    then show ?case by simp
  next
    case (Cons op ops)
    obtain x s1 where op: "op s = (x, s1)" by (cases "op s")
    then have "saved s1 = saved s" using Cons.prems keepsD [of saved op] by simp
    with op Cons.IH [of s1] Cons.prems show ?case by (cases x) simp_all
  qed
  with assms(5) have "keeps saved (run_operations (u_operations u))"
    by (simp add: keeps_def run_operations_def)
  then have plain: "sqlite_transactions.plain saved (run_operations (u_operations u))"
    by (simp add: sqlite_transactions.plain_def [OF assms(1)])
  obtain r1 w1 where s: "sql_statements run (run_operations (u_operations u)) w = (r1, w1)"
    by (cases "sql_statements run (run_operations (u_operations u)) w")
  have "u_completed u'" "w' = w1"
      "r = (case r1 of Inl e \<Rightarrow> Inl e | Inr _ \<Rightarrow> Inr (u_pendingEvents u))"
    using s assms(2,4,6) by (auto simp: drizzle_commit_def tx_commit_def uow_defs split: sum.splits)
  with sqlite_transactions.statements_atomic [OF assms(1,3) plain s] show ?thesis
    by (cases r1) simp_all
qed

definition sqlite_put :: "int \<Rightarrow> (int list \<times> int list option, unit) action" where
  "sqlite_put x w = (Inr (), (fst w @ [x], snd w))"

definition sqlite_db :: "(int list \<times> int list option) drizzle_db" where
  "sqlite_db = \<lparr>db_run = Some sqlite_run, db_transaction_fn = id\<rparr>"

theorem drizzle_commit_atomic_witness:
  "snd (snd (drizzle_commit sqlite_db
     (createInMemoryUnitOfWork\<lparr>u_operations := [sqlite_put 1, failing ''db'']\<rparr>, ([7], None)))) = ([7], None)"
proof -
  let ?u = "createInMemoryUnitOfWork\<lparr>u_operations := [sqlite_put 1, failing ''db'']\<rparr>"
  obtain r u' w' where c: "drizzle_commit sqlite_db (?u, ([7], None)) = (r, (u', w'))"
    using prod_cases3 by blast
  have "fst (drizzle_commit sqlite_db (?u, ([7], None))) = Inl (UserError ''db'')" by code_simp
  with c have r: "r = Inl (UserError ''db'')" by simp
  have "fst w' = [7] \<and> snd w' = None"
    using drizzle_commit_atomic [OF sqlite_connection.sqlite_transactions_axioms, of sqlite_db "([7], None)" ?u r u' w'] c
    by (simp add: r sqlite_db_def keeps_def sqlite_put_def failing_def)
  with c show ?thesis by (simp add: prod_eq_iff)
qed

end
