(* ===== verification/Sql_Sync.thy ===== *)
theory Sql_Sync
  imports Sql_Units
begin

text \<open>
  \<^verbatim>\<open>SyncCommitMutex\<close> of \<^verbatim>\<open>drizzle/src/unit-of-work.ts\<close>: commits on the one connection of
  a synchronous driver queue behind one another. A call of \<^verbatim>\<open>run\<close> takes the promise at the end of
  the queue and leaves its own there; ticket \<open>k\<close> is the \<open>k\<close>-th call, and \<open>0\<close> stands for the promise
  the queue starts with. The relation interleaves any number of commits on one connection.
\<close>

datatype sync_phase = NotCalled | Queued | Running | Settled

record 'w sync_state =
  sy_queue :: nat
  sy_released :: "nat list"
  sy_phase :: "nat \<Rightarrow> sync_phase"
  sy_conn :: 'w

definition sync_start :: "'w \<Rightarrow> 'w sync_state" where
  "sync_start w = \<lparr>sy_queue = 0, sy_released = [0], sy_phase = \<lambda>_. NotCalled, sy_conn = w\<rparr>"

text \<open>\<^verbatim>\<open>previous = queue; queue = new Promise\<close>\<close>

definition sync_enter :: "'w sync_state \<Rightarrow> 'w sync_state" where
  "sync_enter s = s\<lparr>sy_queue := Suc (sy_queue s), sy_phase := (sy_phase s)(Suc (sy_queue s) := Queued)\<rparr>"

text \<open>\<^verbatim>\<open>finally { release(); }\<close>\<close>

definition sync_release :: "nat \<Rightarrow> 'w \<Rightarrow> 'w sync_state \<Rightarrow> 'w sync_state" where
  "sync_release k w s = s\<lparr>sy_released := k # sy_released s, sy_phase := (sy_phase s)(k := Settled), sy_conn := w\<rparr>"

text \<open>What ends a commit: \<^verbatim>\<open>COMMIT\<close>; or \<^verbatim>\<open>ROLLBACK\<close>, its own failure swallowed, after a failed
  \<^verbatim>\<open>COMMIT\<close> or a failed operation.\<close>

inductive closes :: "(string \<Rightarrow> ('w, unit) action) \<Rightarrow> 'w \<Rightarrow> 'w \<Rightarrow> bool" for run where
  committed: "run ''COMMIT'' w = (Inr (), w') \<Longrightarrow> closes run w w'"
| commit_failed: "run ''COMMIT'' w = (Inl e, w1) \<Longrightarrow> swallow (run ''ROLLBACK'') w1 = (Inr (), w') \<Longrightarrow> closes run w w'"
| operation_failed: "swallow (run ''ROLLBACK'') w = (Inr (), w') \<Longrightarrow> closes run w w'"

text \<open>An operation of the running commit may do anything to the connection but begin or end a
  transaction.\<close>

inductive sync_step ::
  "(string \<Rightarrow> ('w, unit) action) \<Rightarrow> ('w \<Rightarrow> 't option) \<Rightarrow> 'w sync_state \<Rightarrow> 'w sync_state \<Rightarrow> bool"
  for run saved where
  enter: "sync_step run saved s (sync_enter s)"
| begin_ok: "sy_phase s k = Queued \<Longrightarrow> k - 1 \<in> set (sy_released s) \<Longrightarrow> run ''BEGIN'' (sy_conn s) = (Inr (), w) \<Longrightarrow>
    sync_step run saved s (s\<lparr>sy_phase := (sy_phase s)(k := Running), sy_conn := w\<rparr>)"
| begin_failed: "sy_phase s k = Queued \<Longrightarrow> k - 1 \<in> set (sy_released s) \<Longrightarrow> run ''BEGIN'' (sy_conn s) = (Inl e, w) \<Longrightarrow>
    sync_step run saved s (sync_release k w s)"
| operation: "sy_phase s k = Running \<Longrightarrow> saved w = saved (sy_conn s) \<Longrightarrow> sync_step run saved s (s\<lparr>sy_conn := w\<rparr>)"
| settle: "sy_phase s k = Running \<Longrightarrow> closes run (sy_conn s) w \<Longrightarrow> sync_step run saved s (sync_release k w s)"

definition sync_inv :: "('w \<Rightarrow> 't option) \<Rightarrow> 'w sync_state \<Rightarrow> bool" where
  "sync_inv saved s \<longleftrightarrow>
     (\<forall>k. sy_phase s k = NotCalled \<longleftrightarrow> k = 0 \<or> sy_queue s < k) \<and>
     (\<forall>k. k \<in> set (sy_released s) \<longleftrightarrow> k = 0 \<or> sy_phase s k = Settled) \<and>
     (\<forall>k j. sy_phase s k = Running \<or> sy_phase s k = Settled \<longrightarrow> 0 < j \<longrightarrow> j < k \<longrightarrow> sy_phase s j = Settled) \<and>
     ((\<forall>k. sy_phase s k \<noteq> Running) \<longrightarrow> saved (sy_conn s) = None) \<and>
     (\<forall>k. sy_phase s k = Running \<longrightarrow> saved (sy_conn s) \<noteq> None)"

lemma sync_invD:
  assumes "sync_inv saved s"
  shows "sy_phase s k = NotCalled \<longleftrightarrow> k = 0 \<or> sy_queue s < k"
    and "k \<in> set (sy_released s) \<longleftrightarrow> k = 0 \<or> sy_phase s k = Settled"
    and "sy_phase s k = Running \<or> sy_phase s k = Settled \<Longrightarrow> 0 < j \<Longrightarrow> j < k \<Longrightarrow> sy_phase s j = Settled"
    and "(\<And>k. sy_phase s k \<noteq> Running) \<Longrightarrow> saved (sy_conn s) = None"
    and "sy_phase s k = Running \<Longrightarrow> saved (sy_conn s) \<noteq> None"
  using assms unfolding sync_inv_def by blast+

lemma sync_invI:
  assumes "\<And>k. sy_phase s k = NotCalled \<longleftrightarrow> k = 0 \<or> sy_queue s < k"
    and "\<And>k. k \<in> set (sy_released s) \<longleftrightarrow> k = 0 \<or> sy_phase s k = Settled"
    and "\<And>k j. sy_phase s k = Running \<or> sy_phase s k = Settled \<Longrightarrow> 0 < j \<Longrightarrow> j < k \<Longrightarrow> sy_phase s j = Settled"
    and "(\<And>k. sy_phase s k \<noteq> Running) \<Longrightarrow> saved (sy_conn s) = None"
    and "\<And>k. sy_phase s k = Running \<Longrightarrow> saved (sy_conn s) \<noteq> None"
  shows "sync_inv saved s"
  unfolding sync_inv_def using assms by (intro conjI allI impI) (assumption | blast)+

lemma one_running:
  assumes "sync_inv saved s" and "sy_phase s p = Running" and "sy_phase s q = Running"
  shows "p = q"
proof -
  have "p \<noteq> 0" "q \<noteq> 0" using assms sync_invD(1) [OF assms(1)] by (metis sync_phase.distinct(3))+
  with assms sync_invD(3) [OF assms(1)] show ?thesis
    by (metis gr0I linorder_neqE_nat sync_phase.distinct(11))
qed

text \<open>A queued commit whose predecessor has settled finds no one running.\<close>

lemma ready_alone:
  assumes "sync_inv saved s" and "sy_phase s k = Queued" and "k - 1 \<in> set (sy_released s)"
  shows "sy_phase s j \<noteq> Running" and "0 < j \<Longrightarrow> j < k \<Longrightarrow> sy_phase s j = Settled" and "0 < k"
proof -
  note D = sync_invD [OF assms(1)]
  show k: "0 < k" using D(1) [of k] assms(2) by (cases k) auto
  have prev: "k = 1 \<or> sy_phase s (k - 1) = Settled" using D(2) [of "k - 1"] assms(3) k by auto
  show below: "sy_phase s j = Settled" if "0 < j" "j < k" for j
    using prev that D(3) [of "k - 1" j] by (cases "j = k - 1") auto
  show "sy_phase s j \<noteq> Running"
  proof
    assume run: "sy_phase s j = Running"
    then have "0 < j" using D(1) [of j] by (cases j) auto
    with run below have "\<not> j < k" by force
    moreover have "j \<noteq> k" using run assms(2) by auto
    ultimately have "sy_phase s k = Settled" using D(3) [of j k] run k by auto
    with assms(2) show False by simp
  qed
qed

lemma sync_inv_start: "saved w = None \<Longrightarrow> sync_inv saved (sync_start w)"
  by (auto simp: sync_inv_def sync_start_def)

lemma sync_inv_conn: "saved w = saved (sy_conn s) \<Longrightarrow> sync_inv saved (s\<lparr>sy_conn := w\<rparr>) \<longleftrightarrow> sync_inv saved s"
  unfolding sync_inv_def by simp

lemma sync_inv_enter:
  assumes "sync_inv saved s"
  shows "sync_inv saved (sync_enter s)"
proof -
  note D = sync_invD [OF assms]
  have new: "sy_phase s (Suc (sy_queue s)) = NotCalled" using D(1) by simp
  show ?thesis
  proof (rule sync_invI)
    show "sy_phase (sync_enter s) k = NotCalled \<longleftrightarrow> k = 0 \<or> sy_queue (sync_enter s) < k" for k
      using D(1) [of k] by (cases "k = Suc (sy_queue s)") (auto simp: sync_enter_def)
    show "k \<in> set (sy_released (sync_enter s)) \<longleftrightarrow> k = 0 \<or> sy_phase (sync_enter s) k = Settled" for k
      using D(2) [of k] new by (cases "k = Suc (sy_queue s)") (auto simp: sync_enter_def)
    show "sy_phase (sync_enter s) i = Settled"
      if "sy_phase (sync_enter s) k = Running \<or> sy_phase (sync_enter s) k = Settled" "0 < i" "i < k" for i k
    proof -
      have k: "k \<noteq> Suc (sy_queue s)" "sy_phase s k = Running \<or> sy_phase s k = Settled"
        using that(1) by (auto simp: sync_enter_def split: if_splits)
      then have "k \<le> sy_queue s" using D(1) [of k] by auto
      with that D(3) [OF k(2) that(2,3)] show ?thesis by (simp add: sync_enter_def)
    qed
    show "saved (sy_conn (sync_enter s)) = None" if "\<And>k. sy_phase (sync_enter s) k \<noteq> Running"
    proof -
      have "sy_phase s k \<noteq> Running" for k
        using that [of k] new by (cases "k = Suc (sy_queue s)") (auto simp: sync_enter_def)
      then show ?thesis using D(4) by (simp add: sync_enter_def)
    qed
    show "saved (sy_conn (sync_enter s)) \<noteq> None" if "sy_phase (sync_enter s) k = Running" for k
      using that D(5) [of k] by (cases "k = Suc (sy_queue s)") (auto simp: sync_enter_def)
  qed
qed

lemma sync_inv_begin:
  assumes "sync_inv saved s" and "sy_phase s k = Queued" and "k - 1 \<in> set (sy_released s)" and "saved w \<noteq> None"
  shows "sync_inv saved (s\<lparr>sy_phase := (sy_phase s)(k := Running), sy_conn := w\<rparr>)" (is "sync_inv saved ?t")
proof -
  note D = sync_invD [OF assms(1)]
  note ready = ready_alone [OF assms(1-3)]
  show ?thesis
  proof (rule sync_invI)
    show "sy_phase ?t j = NotCalled \<longleftrightarrow> j = 0 \<or> sy_queue ?t < j" for j
      using D(1) [of j] assms(2) by (cases "j = k") auto
    show "j \<in> set (sy_released ?t) \<longleftrightarrow> j = 0 \<or> sy_phase ?t j = Settled" for j
      using D(2) [of j] assms(2) by (cases "j = k") (auto simp: ready(3))
    show "sy_phase ?t i = Settled" if "sy_phase ?t j = Running \<or> sy_phase ?t j = Settled" "0 < i" "i < j" for i j
    proof (cases "j = k")
      case True
      with that ready(2) [of i] show ?thesis by simp
    next
      case False
      with that D(3) [of j i] D(3) [of j k] assms(2) ready(3) show ?thesis by (cases "i = k") auto
    qed
    show "saved (sy_conn ?t) = None" if "\<And>j. sy_phase ?t j \<noteq> Running"
      using that [of k] by simp
    show "saved (sy_conn ?t) \<noteq> None" using assms(4) by simp
  qed
qed

context sqlite_transactions begin

lemma closes_saved:
  assumes "closes run w w'" and "saved w \<noteq> None"
  shows "saved w' = None"
  using assms(1)
proof cases
  case committed
  with commit_closes [OF assms(2) this] show ?thesis by simp
next
  case (commit_failed e w1)
  from commit_closes [OF assms(2) commit_failed(1)] assms(2) obtain t where "saved w1 = Some t" by auto
  from rollback_restores [OF this] commit_failed(2) show ?thesis by (auto simp: swallow_def)
next
  case operation_failed
  obtain t where "saved w = Some t" using assms(2) by auto
  from rollback_restores [OF this] operation_failed show ?thesis by (auto simp: swallow_def)
qed

lemma begin_saved: "saved w = None \<Longrightarrow> run ''BEGIN'' w = (r, w') \<Longrightarrow> r = Inr () \<and> saved w' \<noteq> None"
  using begin_opens by (metis Pair_inject option.distinct(1))

lemma sync_inv_release:
  assumes "sync_inv saved s" and "sy_phase s k = Running" and "saved w = None"
  shows "sync_inv saved (sync_release k w s)"
proof -
  note D = sync_invD [OF assms(1)]
  have others: "sy_phase s j \<noteq> Running" if "j \<noteq> k" for j
    using one_running [OF assms(1) _ assms(2)] that by blast
  have k: "0 < k" "k \<le> sy_queue s" using D(1) [of k] assms(2) by (cases k; auto)+
  show ?thesis
  proof (rule sync_invI)
    show "sy_phase (sync_release k w s) j = NotCalled \<longleftrightarrow> j = 0 \<or> sy_queue (sync_release k w s) < j" for j
      using D(1) [of j] k by (cases "j = k") (auto simp: sync_release_def)
    show "j \<in> set (sy_released (sync_release k w s)) \<longleftrightarrow> j = 0 \<or> sy_phase (sync_release k w s) j = Settled" for j
      using D(2) [of j] k by (cases "j = k") (auto simp: sync_release_def)
    show "sy_phase (sync_release k w s) i = Settled"
      if "sy_phase (sync_release k w s) j = Running \<or> sy_phase (sync_release k w s) j = Settled" "0 < i" "i < j" for i j
      using that D(3) [of j i] D(3) [of k i] assms(2) by (cases "j = k"; cases "i = k") (auto simp: sync_release_def)
    show "saved (sy_conn (sync_release k w s)) = None"
      using assms(3) by (simp add: sync_release_def)
    show "saved (sy_conn (sync_release k w s)) \<noteq> None" if "sy_phase (sync_release k w s) j = Running" for j
      using that others [of j] by (cases "j = k") (auto simp: sync_release_def)
  qed
qed

lemma sync_inv_step:
  assumes "sync_step run saved s s'" and "sync_inv saved s"
  shows "sync_inv saved s'"
  using assms(1)
proof cases
  case enter
  show ?thesis unfolding enter by (rule sync_inv_enter [OF assms(2)])
next
  case (begin_ok k w)
  note ready = ready_alone [OF assms(2) begin_ok(2,3)]
  have "saved (sy_conn s) = None" using sync_invD(4) [OF assms(2)] ready(1) by blast
  with begin_saved begin_ok(4) have "saved w \<noteq> None" by blast
  then show ?thesis unfolding begin_ok(1) by (rule sync_inv_begin [OF assms(2) begin_ok(2,3)])
next
  case (begin_failed k e w)
  note ready = ready_alone [OF assms(2) begin_failed(2,3)]
  have "saved (sy_conn s) = None" using sync_invD(4) [OF assms(2)] ready(1) by blast
  with begin_saved begin_failed(4) have False by blast
  then show ?thesis ..
next
  case (operation k w)
  show ?thesis unfolding operation(1) sync_inv_conn [of saved w s, OF operation(3)] by (rule assms(2))
next
  case (settle k w)
  have "saved (sy_conn s) \<noteq> None" using sync_invD(5) [OF assms(2) settle(2)] .
  with closes_saved settle(3) have "saved w = None" by blast
  with sync_inv_release [OF assms(2) settle(2)] settle(1) show ?thesis by simp
qed

lemma sync_inv_reachable:
  assumes "(sync_step run saved)\<^sup>*\<^sup>* (sync_start w) s" and "saved w = None"
  shows "sync_inv saved s"
  using assms(1) by (induction rule: rtranclp_induct) (auto intro: sync_inv_start assms(2) sync_inv_step)

end

text \<open>C7: Commits on one SQLite connection never nest and none is stuck. In every state that any
  interleaving of any number of commits can reach, at most one commit is inside its transaction; a
  commit whose turn has come finds no transaction open, so its BEGIN succeeds; and as long as a
  commit is queued, some commit is running or has its turn.\<close>
theorem sync_commits_never_nest:
  fixes run :: "string \<Rightarrow> ('w, unit) action" and tables :: "'w \<Rightarrow> 't" and saved :: "'w \<Rightarrow> 't option"
  assumes "sqlite_transactions run tables saved" and "saved w = None"
    and "(sync_step run saved)\<^sup>*\<^sup>* (sync_start w) s"
  shows "(sy_phase s p = Running \<and> sy_phase s q = Running \<longrightarrow> p = q) \<and>
    (sy_phase s k = Queued \<and> k - 1 \<in> set (sy_released s) \<longrightarrow> (\<exists>w'. run ''BEGIN'' (sy_conn s) = (Inr (), w'))) \<and>
    (sy_phase s k = Queued \<longrightarrow>
       (\<exists>j. sy_phase s j = Running \<or> sy_phase s j = Queued \<and> j - 1 \<in> set (sy_released s)))"
proof (intro conjI impI)
  have inv: "sync_inv saved s" by (rule sqlite_transactions.sync_inv_reachable [OF assms(1,3,2)])
  note D = sync_invD [OF inv]
  show "p = q" if "sy_phase s p = Running \<and> sy_phase s q = Running"
    using one_running [OF inv] that by blast
  show "\<exists>w'. run ''BEGIN'' (sy_conn s) = (Inr (), w')" if "sy_phase s k = Queued \<and> k - 1 \<in> set (sy_released s)"
  proof -
    have "saved (sy_conn s) = None" using D(4) ready_alone(1) [OF inv] that by blast
    from sqlite_transactions.begin_opens [OF assms(1) this] show ?thesis by blast
  qed
  show "\<exists>j. sy_phase s j = Running \<or> sy_phase s j = Queued \<and> j - 1 \<in> set (sy_released s)"
    if q: "sy_phase s k = Queued"
  proof -
    let ?open = "\<lambda>j. 0 < j \<and> sy_phase s j \<noteq> Settled \<and> sy_phase s j \<noteq> NotCalled"
    have k: "?open k" using q D(1) [of k] by (cases k) auto
    define j where "j = (LEAST j. ?open j)"
    have j: "?open j" "\<And>i. i < j \<Longrightarrow> \<not> ?open i" "j \<le> k"
      unfolding j_def using LeastI [of ?open, OF k] not_less_Least [of _ ?open] Least_le [of ?open, OF k] by blast+
    have "j - 1 \<in> set (sy_released s)"
    proof (cases "j = 1")
      case True
      then show ?thesis using D(2) [of 0] by simp
    next
      case False
      then have "0 < j - 1" "j - 1 < j" using j(1) by auto
      moreover have "sy_phase s (j - 1) \<noteq> NotCalled"
      proof -
        have "k \<le> sy_queue s" using D(1) [of k] q by fastforce
        with D(1) [of "j - 1"] j(3) \<open>0 < j - 1\<close> show ?thesis by auto
      qed
      ultimately have "sy_phase s (j - 1) = Settled" using j(2) by blast
      then show ?thesis using D(2) by blast
    qed
    moreover have "sy_phase s j = Running \<or> sy_phase s j = Queued"
      using j(1) by (cases "sy_phase s j") auto
    ultimately show ?thesis by blast
  qed
qed

text \<open>Two commits enter the queue and the first one begins.\<close>

definition sync_example :: "(int list \<times> int list option) sync_state" where
  "sync_example =
     (let s = sync_enter (sync_enter (sync_start ([7], None))) in
      s\<lparr>sy_phase := (sy_phase s)(1 := Running), sy_conn := ([7], Some [7])\<rparr>)"

lemma sync_example_reachable: "(sync_step sqlite_run snd)\<^sup>*\<^sup>* (sync_start ([7], None)) sync_example"
proof -
  let ?s0 = "sync_start ([7], None) :: (int list \<times> int list option) sync_state"
  let ?s2 = "sync_enter (sync_enter ?s0)"
  have "(sync_step sqlite_run snd)\<^sup>*\<^sup>* ?s0 ?s2"
    by (meson rtranclp.rtrancl_into_rtrancl rtranclp.rtrancl_refl sync_step.enter)
  moreover have "sync_step sqlite_run snd ?s2 (?s2\<lparr>sy_phase := (sy_phase ?s2)(1 := Running), sy_conn := ([7], Some [7])\<rparr>)"
    by (rule begin_ok) (simp_all add: sync_enter_def sync_start_def sqlite_run_def)
  ultimately show ?thesis unfolding sync_example_def Let_def by (rule rtranclp.rtrancl_into_rtrancl)
qed

theorem sync_commits_never_nest_witness:
  "sy_phase sync_example 2 = Queued \<and>
   (\<exists>j. sy_phase sync_example j = Running \<or>
        sy_phase sync_example j = Queued \<and> j - 1 \<in> set (sy_released sync_example))"
proof -
  have queued: "sy_phase sync_example 2 = Queued"
    by (simp add: sync_example_def sync_enter_def sync_start_def)
  have closed: "snd ([7], None :: int list option) = None" by simp
  note all = sync_commits_never_nest [OF sqlite_connection.sqlite_transactions_axioms closed sync_example_reachable]
  show ?thesis using queued all [THEN conjunct2, THEN conjunct2, THEN mp, OF queued] by (rule conjI)
qed

end
