(* ===== verification/Sql_Lockers.thy ===== *)
theory Sql_Lockers
  imports Sql_Locks Sql
begin

text \<open>
  The advisory lockers of the TypeORM and Prisma adapters
  (\<^verbatim>\<open>typeorm/src/{pg,mysql,mssql}/advisory-locker.ts\<close>,
  \<^verbatim>\<open>prisma/src/{pg,mysql}/advisory-locker.ts\<close>) and the public lockers that own the session
  (\<^verbatim>\<open>advisory-locker.ts\<close> of the three adapters). The contract all of them share, that the
  local mutex is left taken exactly by a successful acquire, is a locale.
\<close>

section \<open>TypeORM\<close>

text \<open>\<open>getQueryable\<close> yields the pinned session or fails to connect. The polling loop is the one of
  \<^const>\<open>pg_poll\<close>; what the locker believes to hold is a set of instance keys.\<close>

definition to_pg_acquire ::
  "('w, 'w pg_session) action \<Rightarrow> string \<Rightarrow> ID \<Rightarrow> int option \<Rightarrow> keyed_mutex \<Rightarrow> string set \<Rightarrow> 'w \<Rightarrow>
   ((error + unit) \<times> keyed_mutex \<times> string set \<times> 'w) option" where
  "to_pg_acquire getQueryable n i timeoutMs m held w =
     (let key = instance_key n i; hashKey = lock_hash key in
      case getQueryable w of
        (Inl e, w1) \<Rightarrow> Some (Inl e, km_unlock key m, held, w1)
      | (Inr queryable, w1) \<Rightarrow>
          (case (if 0 < or_else timeoutMs 0
                 then map_option (\<lambda>(r, _, w'). (r, w'))
                        (pg_poll queryable n i (or_else timeoutMs 0)
                           (pg_clock queryable w1 + or_else timeoutMs 0) {} w1)
                 else Some (pg_advisory_lock queryable hashKey w1)) of
             None \<Rightarrow> None
           | Some (Inl e, w2) \<Rightarrow> Some (Inl e, km_unlock key m, held, w2)
           | Some (Inr _, w2) \<Rightarrow> Some (Inr (), m, insert key held, w2)))"

definition to_pg_release ::
  "('w, 'w pg_session) action \<Rightarrow> string \<Rightarrow> ID \<Rightarrow> keyed_mutex \<Rightarrow> string set \<Rightarrow> 'w \<Rightarrow>
   (error + unit) \<times> keyed_mutex \<times> string set \<times> 'w" where
  "to_pg_release getQueryable n i m held w =
     (let key = instance_key n i; hashKey = lock_hash key; believedHeld = key \<in> held in
      case getQueryable w of
        (Inl e, w1) \<Rightarrow> (Inl e, km_unlock key m, held, w1)
      | (Inr queryable, w1) \<Rightarrow>
          (case pg_advisory_unlock queryable hashKey w1 of
             (Inl e, w2) \<Rightarrow> (Inl e, km_unlock key m, held, w2)
           | (Inr ok, w2) \<Rightarrow>
               if ok then (Inr (), km_unlock key m, held - {key}, w2)
               else if believedHeld
               then (Inl (UserError ''not held on this connection''), km_unlock key m, held, w2)
               else (Inr (), km_unlock key m, held, w2)))"

definition to_mysql_acquire ::
  "('w, 'w mysql_session) action \<Rightarrow> string \<Rightarrow> ID \<Rightarrow> int option \<Rightarrow> keyed_mutex \<Rightarrow> string set \<Rightarrow> 'w \<Rightarrow>
   (error + unit) \<times> keyed_mutex \<times> string set \<times> 'w" where
  "to_mysql_acquire getQueryable n i timeoutMs m held w =
     (let key = instance_key n i in
      case getQueryable w of
        (Inl e, w1) \<Rightarrow> (Inl e, km_unlock key m, held, w1)
      | (Inr queryable, w1) \<Rightarrow>
          (case my_get_lock queryable (lockName n i) (timeoutSec timeoutMs) w1 of
             (Inl e, w2) \<Rightarrow> (Inl e, km_unlock key m, held, w2)
           | (Inr acquired, w2) \<Rightarrow>
               if \<not> acquired
               then (Inl (LockTimeoutError n i (or_else timeoutMs 0)), km_unlock key m, held, w2)
               else (Inr (), m, insert key held, w2)))"

definition to_mysql_release ::
  "('w, 'w mysql_session) action \<Rightarrow> string \<Rightarrow> ID \<Rightarrow> keyed_mutex \<Rightarrow> string set \<Rightarrow> 'w \<Rightarrow>
   (error + unit) \<times> keyed_mutex \<times> string set \<times> 'w" where
  "to_mysql_release getQueryable n i m held w =
     (let key = instance_key n i; believedHeld = key \<in> held in
      case getQueryable w of
        (Inl e, w1) \<Rightarrow> (Inl e, km_unlock key m, held, w1)
      | (Inr queryable, w1) \<Rightarrow>
          (case my_release_lock queryable (lockName n i) w1 of
             (Inl e, w2) \<Rightarrow> (Inl e, km_unlock key m, held, w2)
           | (Inr ok, w2) \<Rightarrow>
               if ok then (Inr (), km_unlock key m, held - {key}, w2)
               else if believedHeld
               then (Inl (UserError ''not held on this connection''), km_unlock key m, held, w2)
               else (Inr (), km_unlock key m, held, w2)))"

text \<open>The result of \<^verbatim>\<open>sp_getapplock\<close>, if it is a number.\<close>

record 'w mssql_session =
  ms_getapplock :: "string \<Rightarrow> int \<Rightarrow> ('w, int option) action"
  ms_releaseapplock :: "string \<Rightarrow> ('w, unit) action"

definition mssql_lockName :: "string \<Rightarrow> ID \<Rightarrow> string" where
  "mssql_lockName n i = js_take (instance_key n i) 255"

definition mssql_lockTimeout :: "int option \<Rightarrow> int" where
  "mssql_lockTimeout timeoutMs = (if 0 < or_else timeoutMs 0 then or_else timeoutMs 0 else -1)"

definition mssql_acquire ::
  "('w, 'w mssql_session) action \<Rightarrow> string \<Rightarrow> ID \<Rightarrow> int option \<Rightarrow> keyed_mutex \<Rightarrow> 'w \<Rightarrow>
   (error + unit) \<times> keyed_mutex \<times> 'w" where
  "mssql_acquire getQueryable n i timeoutMs m w =
     (let key = instance_key n i in
      case getQueryable w of
        (Inl e, w1) \<Rightarrow> (Inl e, km_unlock key m, w1)
      | (Inr queryable, w1) \<Rightarrow>
          (case ms_getapplock queryable (mssql_lockName n i) (mssql_lockTimeout timeoutMs) w1 of
             (Inl e, w2) \<Rightarrow> (Inl e, km_unlock key m, w2)
           | (Inr lockResult, w2) \<Rightarrow>
               if (case lockResult of None \<Rightarrow> False | Some k \<Rightarrow> k < 0)
               then (Inl (LockTimeoutError n i (or_else timeoutMs 0)), km_unlock key m, w2)
               else (Inr (), m, w2)))"

definition mssql_release ::
  "('w, 'w mssql_session) action \<Rightarrow> string \<Rightarrow> ID \<Rightarrow> keyed_mutex \<Rightarrow> 'w \<Rightarrow>
   (error + unit) \<times> keyed_mutex \<times> 'w" where
  "mssql_release getQueryable n i m w =
     (let key = instance_key n i in
      case getQueryable w of
        (Inl e, w1) \<Rightarrow> (Inl e, km_unlock key m, w1)
      | (Inr queryable, w1) \<Rightarrow>
          (Inr (), km_unlock key m, snd (swallow (ms_releaseapplock queryable (mssql_lockName n i)) w1)))"

section \<open>Prisma\<close>

text \<open>The Prisma lockers keep hashes and lock names as the Drizzle lockers do and issue the same
  queries, so their database halves are those of \<^theory_text>\<open>Sql_Locks\<close>.\<close>

definition pr_pg_acquireDb ::
  "'w pg_session \<Rightarrow> string \<Rightarrow> ID \<Rightarrow> int option \<Rightarrow> int set \<Rightarrow> 'w \<Rightarrow> ((error + unit) \<times> int set \<times> 'w) option" where
  "pr_pg_acquireDb prisma n i timeoutMs held w = pg_acquireDb prisma n i timeoutMs held w"

definition pr_pg_releaseDb ::
  "'w pg_session \<Rightarrow> string \<Rightarrow> ID \<Rightarrow> int set \<Rightarrow> 'w \<Rightarrow> (error + unit) \<times> int set \<times> 'w" where
  "pr_pg_releaseDb prisma n i held w = pg_releaseDb prisma n i held w"

definition pr_pg_acquire ::
  "'w pg_session \<Rightarrow> string \<Rightarrow> ID \<Rightarrow> int option \<Rightarrow> keyed_mutex \<Rightarrow> int set \<Rightarrow> 'w \<Rightarrow>
   ((error + unit) \<times> keyed_mutex \<times> int set \<times> 'w) option" where
  "pr_pg_acquire prisma n i timeoutMs m held w =
     (case pr_pg_acquireDb prisma n i timeoutMs held w of
        None \<Rightarrow> None
      | Some (Inl e, s) \<Rightarrow> Some (Inl e, km_unlock (instance_key n i) m, s)
      | Some (Inr _, s) \<Rightarrow> Some (Inr (), m, s))"

definition pr_pg_release ::
  "'w pg_session \<Rightarrow> string \<Rightarrow> ID \<Rightarrow> keyed_mutex \<Rightarrow> int set \<Rightarrow> 'w \<Rightarrow>
   (error + unit) \<times> keyed_mutex \<times> int set \<times> 'w" where
  "pr_pg_release prisma n i m held w =
     (case pr_pg_releaseDb prisma n i held w of (r, s) \<Rightarrow> (r, km_unlock (instance_key n i) m, s))"

definition pr_mysql_acquireDb ::
  "'w mysql_session \<Rightarrow> string \<Rightarrow> ID \<Rightarrow> int option \<Rightarrow> string set \<Rightarrow> 'w \<Rightarrow> (error + unit) \<times> string set \<times> 'w" where
  "pr_mysql_acquireDb prisma n i timeoutMs held w = mysql_acquireDb prisma n i timeoutMs held w"

definition pr_mysql_releaseDb ::
  "'w mysql_session \<Rightarrow> string \<Rightarrow> ID \<Rightarrow> string set \<Rightarrow> 'w \<Rightarrow> (error + unit) \<times> string set \<times> 'w" where
  "pr_mysql_releaseDb prisma n i held w = mysql_releaseDb prisma n i held w"

definition pr_mysql_acquire ::
  "'w mysql_session \<Rightarrow> string \<Rightarrow> ID \<Rightarrow> int option \<Rightarrow> keyed_mutex \<Rightarrow> string set \<Rightarrow> 'w \<Rightarrow>
   (error + unit) \<times> keyed_mutex \<times> string set \<times> 'w" where
  "pr_mysql_acquire prisma n i timeoutMs m held w =
     (case pr_mysql_acquireDb prisma n i timeoutMs held w of
        (Inl e, s) \<Rightarrow> (Inl e, km_unlock (instance_key n i) m, s)
      | (Inr _, s) \<Rightarrow> (Inr (), m, s))"

definition pr_mysql_release ::
  "'w mysql_session \<Rightarrow> string \<Rightarrow> ID \<Rightarrow> keyed_mutex \<Rightarrow> string set \<Rightarrow> 'w \<Rightarrow>
   (error + unit) \<times> keyed_mutex \<times> string set \<times> 'w" where
  "pr_mysql_release prisma n i m held w =
     (case pr_mysql_releaseDb prisma n i held w of (r, s) \<Rightarrow> (r, km_unlock (instance_key n i) m, s))"

section \<open>The contract of a dialect locker\<close>

text \<open>\<open>'s\<close> is the locker's other state and the world. An acquire may not return (\<open>None\<close>).\<close>

locale dialect_locker =
  fixes acquire :: "string \<Rightarrow> ID \<Rightarrow> int option \<Rightarrow> keyed_mutex \<Rightarrow> 's \<Rightarrow> ((error + unit) \<times> keyed_mutex \<times> 's) option"
    and release :: "string \<Rightarrow> ID \<Rightarrow> keyed_mutex \<Rightarrow> 's \<Rightarrow> (error + unit) \<times> keyed_mutex \<times> 's"
  assumes acquire_mutex: "acquire n i t m s = Some (r, m', s') \<Longrightarrow>
      m' = (case r of Inl _ \<Rightarrow> km_unlock (instance_key n i) m | Inr _ \<Rightarrow> m)"
    and release_mutex: "release n i m s = (r, m', s') \<Longrightarrow> m' = km_unlock (instance_key n i) m"
begin

text \<open>One use of the lock: take the local mutex, acquire, run the body, release in a \<^verbatim>\<open>finally\<close>
  block.\<close>

definition locked_run ::
  "string \<Rightarrow> ID \<Rightarrow> int option \<Rightarrow> ('s \<Rightarrow> (error + unit) \<times> 's) \<Rightarrow> keyed_mutex \<Rightarrow> 's \<Rightarrow>
   ((error + unit) \<times> keyed_mutex \<times> 's) option" where
  "locked_run n i t body m s =
     (case acquire n i t (snd (km_lock (instance_key n i) m)) s of
        None \<Rightarrow> None
      | Some (Inl e, out) \<Rightarrow> Some (Inl e, out)
      | Some (Inr _, m1, s1) \<Rightarrow>
          (case body s1 of
             (rb, s2) \<Rightarrow> (case release n i m1 s2 of
                (Inl e, out) \<Rightarrow> Some (Inl e, out) | (Inr _, out) \<Rightarrow> Some (rb, out))))"

lemma locked_run_frees:
  assumes "jm_get (km_pending m) (instance_key n i) = None" and "locked_run n i t body m s = Some (r, m', s')"
  shows "km_pending m' = jm_delete (instance_key n i) (jm_set (instance_key n i) (km_next m) (km_pending m))
    \<and> km_next m \<in> set (km_open m')"
proof -
  let ?k = "instance_key n i"
  let ?m = "m\<lparr>km_pending := jm_set ?k (km_next m) (km_pending m), km_next := km_next m + 1\<rparr>"
  have lock: "snd (km_lock ?k m) = ?m" using assms(1) by (simp add: km_lock_def)
  obtain ra ma sa where a: "acquire n i t ?m s = Some (ra, ma, sa)"
    using assms(2) by (auto simp: locked_run_def lock split: option.splits)
  have "m' = km_unlock ?k ?m"
  proof (cases ra)
    case (Inl e)
    with acquire_mutex [OF a] assms(2) a show ?thesis by (simp add: locked_run_def lock)
  next
    case (Inr u)
    obtain rb sb where b: "body sa = (rb, sb)" by (cases "body sa")
    obtain rr mr sr where rel: "release n i ma sb = (rr, mr, sr)" by (cases "release n i ma sb")
    have "ma = ?m" using acquire_mutex [OF a] Inr by simp
    with release_mutex [OF rel] assms(2) a b rel Inr show ?thesis
      by (auto simp: locked_run_def lock split: sum.splits)
  qed
  then show ?thesis by (simp add: km_unlock_def)
qed

text \<open>Afterwards the key is free, and the other keys are as before.\<close>

lemma locked_run_others:
  assumes "jm_get (km_pending m) (instance_key n i) = None" and "locked_run n i t body m s = Some (r, m', s')"
  shows "jm_get (km_pending m') k = jm_get (km_pending m) k"
  using locked_run_frees [OF assms] assms(1) by auto

end

text \<open>\<^verbatim>\<open>Sql_Locks\<close>' lockers and the five above, as instances: \<open>pair\<close> regroups the arguments.\<close>

definition pair :: "('h \<Rightarrow> 'w \<Rightarrow> 'b) \<Rightarrow> 'h \<times> 'w \<Rightarrow> 'b" where
  "pair f s = f (fst s) (snd s)"

interpretation drizzle_pg: dialect_locker "\<lambda>n i t m. pair (pg_acquire d n i t m)" "\<lambda>n i m. pair (pg_release d n i m)" for d
  by unfold_locales
    (auto simp: pair_def pg_acquire_def pg_release_def split: option.splits sum.splits prod.splits)

interpretation drizzle_mysql: dialect_locker "\<lambda>n i t m. Some \<circ> pair (mysql_acquire d n i t m)"
  "\<lambda>n i m. pair (mysql_release d n i m)" for d
  by unfold_locales
    (auto simp: pair_def mysql_acquire_def mysql_release_def split: sum.splits prod.splits)

interpretation prisma_pg: dialect_locker "\<lambda>n i t m. pair (pr_pg_acquire d n i t m)"
  "\<lambda>n i m. pair (pr_pg_release d n i m)" for d
  by unfold_locales
    (auto simp: pair_def pr_pg_acquire_def pr_pg_release_def split: option.splits sum.splits prod.splits)

interpretation prisma_mysql: dialect_locker "\<lambda>n i t m. Some \<circ> pair (pr_mysql_acquire d n i t m)"
  "\<lambda>n i m. pair (pr_mysql_release d n i m)" for d
  by unfold_locales
    (auto simp: pair_def pr_mysql_acquire_def pr_mysql_release_def split: sum.splits prod.splits)

interpretation typeorm_pg: dialect_locker "\<lambda>n i t m. pair (to_pg_acquire q n i t m)"
  "\<lambda>n i m. pair (to_pg_release q n i m)" for q
  by unfold_locales
    (auto simp: pair_def to_pg_acquire_def to_pg_release_def Let_def
      split: option.splits sum.splits prod.splits if_splits)

interpretation typeorm_mysql: dialect_locker "\<lambda>n i t m. Some \<circ> pair (to_mysql_acquire q n i t m)"
  "\<lambda>n i m. pair (to_mysql_release q n i m)" for q
  by unfold_locales
    (auto simp: pair_def to_mysql_acquire_def to_mysql_release_def Let_def
      split: sum.splits prod.splits if_splits)

interpretation typeorm_mssql: dialect_locker "\<lambda>n i t m s. Some (mssql_acquire q n i t m s)"
  "\<lambda>n i m. mssql_release q n i m" for q
  by unfold_locales
    (auto simp: mssql_acquire_def mssql_release_def Let_def split: sum.splits prod.splits if_splits)

section \<open>The session of a locker\<close>

text \<open>TypeORM pins one \<^verbatim>\<open>QueryRunner\<close>; \<open>tl_connecting\<close> is the promise of the first attempt with its
  outcome. \<open>create\<close> is \<^verbatim>\<open>createQueryRunner\<close> followed by \<^verbatim>\<open>connect\<close>.\<close>

record 'q typeorm_locker =
  tl_queryRunner :: "'q option"
  tl_connecting :: "(error + 'q) option"
  tl_closed :: bool

definition new_typeorm_locker :: "'q typeorm_locker" where
  "new_typeorm_locker = \<lparr>tl_queryRunner = None, tl_connecting = None, tl_closed = False\<rparr>"

definition getQueryRunner :: "('w, 'q) action \<Rightarrow> ('q typeorm_locker \<times> 'w, 'q) action" where
  "getQueryRunner create s =
     (case tl_queryRunner (fst s) of
        Some q \<Rightarrow> (Inr q, s)
      | None \<Rightarrow>
          (case tl_connecting (fst s) of
             Some outcome \<Rightarrow> (outcome, s)
           | None \<Rightarrow>
               (case create (snd s) of
                  (Inl e, w) \<Rightarrow> (Inl e, ((fst s)\<lparr>tl_connecting := Some (Inl e)\<rparr>, w))
                | (Inr q, w) \<Rightarrow>
                    (Inr q, ((fst s)\<lparr>tl_queryRunner := Some q, tl_connecting := Some (Inr q)\<rparr>, w)))))"

definition typeorm_close :: "('q \<Rightarrow> ('w, unit) action) \<Rightarrow> ('q typeorm_locker \<times> 'w, unit) action" where
  "typeorm_close release_runner s =
     (if tl_closed (fst s) then (Inr (), s)
      else (case tl_queryRunner (fst s) of
              None \<Rightarrow> (Inr (), ((fst s)\<lparr>tl_closed := True\<rparr>, snd s))
            | Some q \<Rightarrow>
                (case release_runner q (snd s) of
                   (Inl e, w) \<Rightarrow> (Inl e, ((fst s)\<lparr>tl_closed := True\<rparr>, w))
                 | (Inr _, w) \<Rightarrow> (Inr (), ((fst s)\<lparr>tl_closed := True, tl_queryRunner := None\<rparr>, w)))))"

text \<open>All queries of a locker run on one session.\<close>

lemma one_session:
  assumes "getQueryRunner create (st, w) = (Inr q, (st', w'))"
  shows "getQueryRunner create (st', w1) = (Inr q, (st', w1))"
  using assms by (auto simp: getQueryRunner_def split: option.splits sum.splits prod.splits)

text \<open>The first attempt is the only one: when it fails, every later acquire fails with its error
  without trying again, and after \<^verbatim>\<open>close\<close> the released runner is handed out.\<close>

lemma failed_session_sticks:
  assumes "create w = (Inl e, w1)"
  shows "getQueryRunner create (new_typeorm_locker, w) =
      (Inl e, (new_typeorm_locker\<lparr>tl_connecting := Some (Inl e)\<rparr>, w1))"
    and "getQueryRunner create (new_typeorm_locker\<lparr>tl_connecting := Some (Inl e)\<rparr>, w2) =
      (Inl e, (new_typeorm_locker\<lparr>tl_connecting := Some (Inl e)\<rparr>, w2))"
  using assms by (simp_all add: getQueryRunner_def new_typeorm_locker_def)

lemma session_after_close:
  assumes "getQueryRunner create (new_typeorm_locker, w) = (Inr q, (st, w1))"
    and "typeorm_close release_runner (st, w1) = (Inr (), (st', w2))"
  shows "getQueryRunner create (st', w3) = (Inr q, (st', w3))"
  using assms
  by (auto simp: getQueryRunner_def typeorm_close_def new_typeorm_locker_def split: sum.splits prod.splits)

text \<open>Drizzle and Prisma: a connection the locker owns, or none.\<close>

record 'c owned_connection =
  oc_owned :: "'c option"
  oc_closed :: bool

definition owned_close :: "('c \<Rightarrow> ('w, unit) action) \<Rightarrow> ('c owned_connection \<times> 'w, unit) action" where
  "owned_close disconnect s =
     (if oc_closed (fst s) then (Inr (), s)
      else (case oc_owned (fst s) of
              None \<Rightarrow> (Inr (), ((fst s)\<lparr>oc_closed := True\<rparr>, snd s))
            | Some c \<Rightarrow>
                (case disconnect c (snd s) of
                   (Inl e, w) \<Rightarrow> (Inl e, ((fst s)\<lparr>oc_closed := True\<rparr>, w))
                 | (Inr _, w) \<Rightarrow> (Inr (), (\<lparr>oc_owned = None, oc_closed = True\<rparr>, w)))))"

lemma owned_close_once:
  "owned_close disconnect s = (r, (st, w)) \<Longrightarrow> owned_close disconnect (st, w') = (Inr (), (st, w'))"
  by (auto simp: owned_close_def split: if_splits option.splits sum.splits prod.splits)

subsection \<open>Choice of the dialect\<close>

datatype dialect_kind = PostgresKind | MySQLKind | MSSQLKind

definition typeorm_inner :: "string \<Rightarrow> error + dialect_kind" where
  "typeorm_inner dbType =
     (if dbType = ''postgres'' then Inr PostgresKind
      else if dbType = ''mysql'' \<or> dbType = ''mariadb'' then Inr MySQLKind
      else if dbType = ''mssql'' then Inr MSSQLKind
      else Inl (UserError (''Pessimistic locking is not supported with '' @ dbType @
        ''. Use InMemoryAggregateLocker for single-process deployments.'')))"

definition prisma_inner :: "string \<Rightarrow> error + dialect_kind" where
  "prisma_inner dialect =
     (if dialect = ''postgresql'' then Inr PostgresKind
      else if dialect = ''mysql'' \<or> dialect = ''mariadb'' then Inr MySQLKind
      else Inl (UserError (''Pessimistic locking is not supported with '' @ dialect @
        ''. Use InMemoryAggregateLocker for single-process deployments.'')))"

definition drizzle_inner :: "string \<Rightarrow> error + dialect_kind" where
  "drizzle_inner dialect =
     (if dialect = ''pg'' then Inr PostgresKind
      else if dialect = ''mysql'' then Inr MySQLKind
      else Inl (UserError (''Pessimistic locking is not supported with '' @ dialect @
        ''. Use InMemoryAggregateLocker for single-process deployments.'')))"

definition withConnectionLimitOne :: "string \<Rightarrow> string" where
  "withConnectionLimitOne url =
     (if str_includes url ''?connection_limit='' \<or> str_includes url ''&connection_limit='' then url
      else url @ (if str_includes url ''?'' then ''&'' else ''?'') @ ''connection_limit=1'')"

definition prisma_fromUrl ::
  "(string \<Rightarrow> 'c) \<Rightarrow> string \<Rightarrow> string \<Rightarrow> error + dialect_kind \<times> 'c owned_connection" where
  "prisma_fromUrl clientFactory url dialect =
     (let client = clientFactory (withConnectionLimitOne url)
      in case prisma_inner dialect of
           Inl e \<Rightarrow> Inl e
         | Inr kind \<Rightarrow> Inr (kind, \<lparr>oc_owned = Some client, oc_closed = False\<rparr>))"

text \<open>The pinned URL always has a limit, and pinning twice changes nothing.\<close>

lemma pinned_url_has_limit:
  "str_includes (withConnectionLimitOne url) ''?connection_limit='' \<or>
   str_includes (withConnectionLimitOne url) ''&connection_limit=''"
  using includes_suffix [of url "''?connection_limit=''" "''1''"] includes_suffix [of url "''&connection_limit=''" "''1''"]
  by (auto simp: withConnectionLimitOne_def)

lemma pinned_url_idempotent: "withConnectionLimitOne (withConnectionLimitOne url) = withConnectionLimitOne url"
  using pinned_url_has_limit [of url] by (subst withConnectionLimitOne_def) auto

section \<open>Uses of a lock\<close>

text \<open>Using a TypeORM PostgreSQL lock leaves nothing behind. Whatever the connection and the queries
  do, a caller that has taken a free key and acquires with a timeout, on sessions whose clock
  advances, gets an answer; if that is an error, or after a release whatever its outcome, every key
  is as it was and the gate other callers wait on is open.\<close>

lemma typeorm_lock_cycle:
  assumes "\<forall>u d w. getQueryable u = (Inr d, w) \<longrightarrow> time_passes d" and "0 < t"
    and free: "jm_get (km_pending m) (instance_key n i) = None"
  shows "\<exists>r ma ha wa. to_pg_acquire getQueryable n i (Some t) (snd (km_lock (instance_key n i) m)) held w =
      Some (r, ma, ha, wa) \<and>
    (let clean = (\<lambda>m'. (\<forall>k. jm_get (km_pending m') k = jm_get (km_pending m) k) \<and> km_next m \<in> set (km_open m'))
     in case r of
          Inl _ \<Rightarrow> clean ma
        | Inr _ \<Rightarrow> \<forall>hb wb. clean (fst (snd (to_pg_release getQueryable n i ma hb wb))))"
proof -
  let ?k = "instance_key n i" and ?m = "snd (km_lock (instance_key n i) m)"
  have clean: "(\<forall>k. jm_get (km_pending (km_unlock ?k ?m)) k = jm_get (km_pending m) k) \<and>
      km_next m \<in> set (km_open (km_unlock ?k ?m))"
    using free by (simp add: km_lock_def km_unlock_def)
  obtain r ma ha wa where a: "to_pg_acquire getQueryable n i (Some t) ?m held w = Some (r, ma, ha, wa)"
  proof (cases "getQueryable w")
    case (Pair c w1)
    show ?thesis
    proof (cases c)
      case (Inl e)
      with Pair that show ?thesis by (simp add: to_pg_acquire_def)
    next
      case (Inr d)
      then have "time_passes d" using assms(1) Pair by blast
      from pg_poll_returns [OF this, of n i t "pg_clock d w1 + t" "{}" w1]
      obtain r' held' w' where "pg_poll d n i t (pg_clock d w1 + t) {} w1 = Some (r', held', w')" by blast
      with Pair Inr assms(2) that show ?thesis by (cases r') (auto simp: to_pg_acquire_def Let_def)
    qed
  qed
  then have "pair (to_pg_acquire getQueryable n i (Some t) ?m) (held, w) = Some (r, ma, (ha, wa))"
    by (simp add: pair_def)
  note ma = typeorm_pg.acquire_mutex [OF this]
  have rel: "fst (snd (to_pg_release getQueryable n i m1 hb wb)) = km_unlock ?k m1" for m1 hb wb
    using typeorm_pg.release_mutex [where q = getQueryable and n = n and i = i and m = m1 and s = "(hb, wb)"]
    by (simp add: pair_def prod_eq_iff)
  show ?thesis
    using a ma clean rel by (cases r) (auto simp: Let_def)
qed

text \<open>The same from the contract, for any body: a locked run that returns leaves every key as it was.\<close>

lemmas typeorm_mssql_run = typeorm_mssql.locked_run_others
lemmas prisma_pg_run = prisma_pg.locked_run_others
lemmas drizzle_pg_run = drizzle_pg.locked_run_others

text \<open>MSSQL waits without a limit unless the timeout is positive; MySQL rounds up to seconds.\<close>

lemma mssql_lockTimeout_cases:
  "mssql_lockTimeout t = -1 \<or> t = Some (mssql_lockTimeout t) \<and> 0 < mssql_lockTimeout t"
  by (cases t) (auto simp: mssql_lockTimeout_def)

end
