(* ===== verification/Sql_Builders.thy ===== *)
theory Sql_Builders
  imports Sql_Lockers
begin

text \<open>
  How the stores of an adapter are put together: \<^verbatim>\<open>builder.ts\<close> of Drizzle, TypeORM and Prisma
  (\<^verbatim>\<open>create...Adapter\<close>), and the adapter classes of \<^verbatim>\<open>drizzle-adapter.ts\<close>,
  \<^verbatim>\<open>typeorm-adapter.ts\<close> and \<^verbatim>\<open>prisma-adapter.ts\<close>. A store is the table it works on and
  whether its JSON columns are native, which the stores of \<^verbatim>\<open>Sql_State\<close>, \<^verbatim>\<open>Sql_Events\<close> and
  \<^verbatim>\<open>Sql_Outbox\<close> take as an argument. Table definitions are values of a type parameter.
\<close>

section \<open>Drizzle\<close>

datatype drizzle_dialect = PgDialect | MysqlDialect | SqliteDialect

text \<open>The three places where a database instance may name its dialect, in the order of the \<^verbatim>\<open>??\<close>
  chain; an empty name counts as none only after the choice.\<close>

definition inferDialect :: "string option \<Rightarrow> string option \<Rightarrow> string option \<Rightarrow> error + drizzle_dialect" where
  "inferDialect sessionName constructorName plainName =
     (let dialectName = or_else (case sessionName of Some n \<Rightarrow> Some n | None \<Rightarrow>
            (case constructorName of Some n \<Rightarrow> Some n | None \<Rightarrow> plainName)) []
      in if dialectName = [] then Inl (UserError ''Could not infer dialect from Drizzle db instance. Ensure you are passing a valid Drizzle database instance.'')
         else let normalized = map lower_char dialectName
              in if str_includes normalized ''pg'' \<or> str_includes normalized ''postgres'' then Inr PgDialect
                 else if str_includes normalized ''mysql'' then Inr MysqlDialect
                 else if str_includes normalized ''sqlite'' then Inr SqliteDialect
                 else Inl (UserError (''Unrecognized Drizzle dialect: '' @ dialectName @ ''. Supported dialects: pg, mysql, sqlite.'')))"

lemma dialect_names:
  "inferDialect None (Some ''PgDialect'') None = Inr PgDialect"
  "inferDialect None (Some ''MySqlDialect'') None = Inr MysqlDialect"
  "inferDialect None (Some ''SQLiteSyncDialect'') None = Inr SqliteDialect"
  "fst (case inferDialect None (Some ''SingleStoreDialect'') None of Inl e \<Rightarrow> (True, e) | Inr _ \<Rightarrow> (False, TypeError))"
  by code_simp+

record ('t, 'm) drizzle_config =
  dc_eventStore :: 't
  dc_sagaStore :: 't
  dc_stateStore :: "'t option"
  dc_snapshotStore :: "'t option"
  dc_outboxStore :: "'t option"
  dc_aggregateStates :: "(string \<times> 't \<times> 'm) list option"

type_synonym 't store = "'t \<times> bool"

record ('t, 'm) drizzle_stores =
  st_events :: "'t store"
  st_saga :: "'t store"
  st_reader :: 't
  st_state :: "'t store option"
  st_snapshot :: "'t store option"
  st_outbox :: "'t store option"
  st_dedicated :: "(string, 't \<times> 'm) jmap option"

text \<open>Which columns are native JSON: \<^verbatim>\<open>eventsAndOutboxNativeJson\<close> and \<^verbatim>\<open>stateNativeJson\<close>.\<close>

definition events_native :: "drizzle_dialect option \<Rightarrow> bool" where
  "events_native dialect \<longleftrightarrow> dialect = Some PgDialect \<or> dialect = Some MysqlDialect"

definition state_native :: "drizzle_dialect option \<Rightarrow> bool" where
  "state_native dialect \<longleftrightarrow> dialect = Some PgDialect"

definition dedicated_stores :: "(string \<times> 'x) list \<Rightarrow> (string, 'x) jmap" where
  "dedicated_stores aggregateStates = fold (\<lambda>(name, aggConfig) m. jm_set name aggConfig m) aggregateStates []"

definition createDrizzleAdapter ::
  "error + drizzle_dialect \<Rightarrow> ('t, 'm) drizzle_config \<Rightarrow> ('t, 'm) drizzle_stores" where
  "createDrizzleAdapter inferred config =
     (let dialect = (case inferred of Inl _ \<Rightarrow> None | Inr d \<Rightarrow> Some d)
      in \<lparr>st_events = (dc_eventStore config, events_native dialect),
          st_saga = (dc_sagaStore config, state_native dialect),
          st_reader = dc_eventStore config,
          st_state = map_option (\<lambda>t. (t, state_native dialect)) (dc_stateStore config),
          st_snapshot = map_option (\<lambda>t. (t, state_native dialect)) (dc_snapshotStore config),
          st_outbox = map_option (\<lambda>t. (t, events_native dialect)) (dc_outboxStore config),
          st_dedicated = map_option dedicated_stores (dc_aggregateStates config)\<rparr>)"

definition stateStoreFor :: "(string, 'x) jmap \<Rightarrow> string \<Rightarrow> error + 'x" where
  "stateStoreFor dedicatedStores aggregateName =
     (case jm_get dedicatedStores aggregateName of
        None \<Rightarrow> Inl (ConfigError aggregateName ''No dedicated state table configured'')
      | Some store \<Rightarrow> Inr store)"

text \<open>The adapter class: overrides per table, otherwise the schema of the dialect; a database whose
  dialect is unknown is an error here.\<close>

record 't drizzle_tables =
  tb_eventStore :: "'t option"
  tb_stateStore :: "'t option"
  tb_sagaStore :: "'t option"
  tb_snapshotStore :: "'t option"
  tb_outboxStore :: "'t option"

record 't drizzle_schema =
  sm_events :: 't
  sm_aggregateStates :: 't
  sm_sagaStates :: 't
  sm_snapshots :: 't
  sm_outbox :: 't

definition new_DrizzleAdapter ::
  "(drizzle_dialect \<Rightarrow> 't drizzle_schema) \<Rightarrow> error + drizzle_dialect \<Rightarrow> 't drizzle_tables \<Rightarrow>
     error + ('t, 'm) drizzle_stores" where
  "new_DrizzleAdapter getSchemaForDialect inferred tables =
     (case inferred of
        Inl e \<Rightarrow> Inl e
      | Inr dialect \<Rightarrow>
          let schema = getSchemaForDialect dialect;
              eventsJson = events_native (Some dialect);
              stateJson = state_native (Some dialect);
              events = or_else (tb_eventStore tables) (sm_events schema)
          in Inr \<lparr>st_events = (events, eventsJson),
               st_saga = (or_else (tb_sagaStore tables) (sm_sagaStates schema), stateJson),
               st_reader = events,
               st_state = Some (or_else (tb_stateStore tables) (sm_aggregateStates schema), stateJson),
               st_snapshot = Some (or_else (tb_snapshotStore tables) (sm_snapshots schema), stateJson),
               st_outbox = Some (or_else (tb_outboxStore tables) (sm_outbox schema), eventsJson),
               st_dedicated = None\<rparr>)"

text \<open>The class and the factory agree: on the tables of the class the factory makes the same stores, with
  the same encodings.\<close>

lemma adapter_as_builder:
  assumes "new_DrizzleAdapter getSchema (Inr dialect) tables = Inr stores"
  shows "createDrizzleAdapter (Inr dialect)
     \<lparr>dc_eventStore = fst (st_events stores), dc_sagaStore = fst (st_saga stores),
      dc_stateStore = map_option fst (st_state stores), dc_snapshotStore = map_option fst (st_snapshot stores),
      dc_outboxStore = map_option fst (st_outbox stores), dc_aggregateStates = None\<rparr> = stores"
  using assms by (auto simp: new_DrizzleAdapter_def createDrizzleAdapter_def Let_def)

text \<open>Event and reader share one table, and a table written as text is read as text: the stores of one
  kind of column carry the same flag.\<close>

lemma builder_encodings:
  "st_reader (createDrizzleAdapter inferred config) = fst (st_events (createDrizzleAdapter inferred config))"
  "st_outbox (createDrizzleAdapter inferred config) = Some s \<Longrightarrow>
     snd s = snd (st_events (createDrizzleAdapter inferred config))"
  "st_state (createDrizzleAdapter inferred config) = Some s \<Longrightarrow>
     snd s = snd (st_saga (createDrizzleAdapter inferred config))"
  by (auto simp: createDrizzleAdapter_def Let_def)

lemma dedicated_stores_get:
  assumes "distinct (map fst cs)"
  shows "jm_get (dedicated_stores cs) n = map_of cs n"
proof -
  have "jm_get (fold (\<lambda>(name, c) m. jm_set name c m) cs m) n = (case map_of cs n of None \<Rightarrow> jm_get m n | Some c \<Rightarrow> Some c)"
    if "distinct (map fst cs)" for m and cs :: "(string \<times> 'a) list"
    using that
  proof (induction cs arbitrary: m)
    case Nil
    then show ?case by simp
  next
    case (Cons c cs)
    then show ?case
      by (cases c) (auto simp: map_of_eq_None_iff rev_image_eqI split: option.splits)
  qed
  from this [OF assms, of "[]"] show ?thesis by (simp add: dedicated_stores_def split: option.splits)
qed

text \<open>Every configured aggregate has its own table, and no other name has one.\<close>

lemma stateStoreFor_configured:
  assumes "distinct (map fst cs)"
  shows "stateStoreFor (dedicated_stores cs) n = Inr c \<longleftrightarrow> (n, c) \<in> set cs"
proof -
  have "stateStoreFor (dedicated_stores cs) n = Inr c \<longleftrightarrow> map_of cs n = Some c"
    by (simp add: stateStoreFor_def dedicated_stores_get [OF assms] split: option.splits)
  then show ?thesis by (simp add: map_of_eq_Some_iff [OF assms])
qed

section \<open>TypeORM and Prisma\<close>

record 'c adapter_config =
  ac_snapshotStore :: bool
  ac_outboxStore :: bool
  ac_aggregateStates :: "(string \<times> 'c) list option"

text \<open>The stores beside those that are always there.\<close>

record 'c adapter_stores =
  as_snapshotStore :: bool
  as_outboxStore :: bool
  as_dedicated :: "(string, 'c) jmap option"

definition createTypeORMAdapter :: "'c adapter_config option \<Rightarrow> 'c adapter_stores" where
  "createTypeORMAdapter config =
     (case config of
        None \<Rightarrow> \<lparr>as_snapshotStore = False, as_outboxStore = False, as_dedicated = None\<rparr>
      | Some c \<Rightarrow> \<lparr>as_snapshotStore = ac_snapshotStore c, as_outboxStore = ac_outboxStore c,
                   as_dedicated = map_option dedicated_stores (ac_aggregateStates c)\<rparr>)"

text \<open>\<^verbatim>\<open>new TypeORMAdapter(dataSource)\<close>: all stores, and a locker where the database has one.\<close>

definition typeorm_adapter_locker :: "string \<Rightarrow> error + dialect_kind option" where
  "typeorm_adapter_locker dbType =
     (if dbType \<in> set [''postgres'', ''mysql'', ''mariadb'', ''mssql'']
      then (case typeorm_inner dbType of Inl e \<Rightarrow> Inl e | Inr k \<Rightarrow> Inr (Some k)) else Inr None)"

text \<open>The set of lockable databases and the locker agree: the adapter never fails for its database type.\<close>

lemma typeorm_adapter_total: "\<exists>k. typeorm_adapter_locker dbType = Inr k \<and> (k = None \<longleftrightarrow> (\<exists>e. typeorm_inner dbType = Inl e))"
  by (auto simp: typeorm_adapter_locker_def typeorm_inner_def)

text \<open>Prisma looks up the model of every dedicated store on the client; the value is the model name and
  the mapper.\<close>

fun prisma_dedicated ::
  "(string \<Rightarrow> bool) \<Rightarrow> (string \<times> string \<times> 'm) list \<Rightarrow> (string, string \<times> 'm) jmap \<Rightarrow> error + (string, string \<times> 'm) jmap" where
  "prisma_dedicated hasModel [] stores = Inr stores"
| "prisma_dedicated hasModel ((name, model, mapper) # cs) stores =
     (if \<not> hasModel model
      then Inl (ConfigError name (''Prisma model '' @ model @ '' not found on PrismaClient''))
      else prisma_dedicated hasModel cs (jm_set name (model, mapper) stores))"

definition createPrismaAdapter ::
  "(string \<Rightarrow> bool) \<Rightarrow> (string \<times> 'm) adapter_config option \<Rightarrow> error + (string \<times> 'm) adapter_stores" where
  "createPrismaAdapter hasModel config =
     (case config of
        None \<Rightarrow> Inr \<lparr>as_snapshotStore = False, as_outboxStore = False, as_dedicated = None\<rparr>
      | Some c \<Rightarrow>
          (case ac_aggregateStates c of
             None \<Rightarrow> Inr \<lparr>as_snapshotStore = ac_snapshotStore c, as_outboxStore = ac_outboxStore c, as_dedicated = None\<rparr>
           | Some cs \<Rightarrow>
               (case prisma_dedicated hasModel cs [] of
                  Inl e \<Rightarrow> Inl e
                | Inr m \<Rightarrow> Inr \<lparr>as_snapshotStore = ac_snapshotStore c, as_outboxStore = ac_outboxStore c,
                                as_dedicated = Some m\<rparr>)))"

definition prisma_stateStored :: "(string \<Rightarrow> bool) \<Rightarrow> string \<Rightarrow> 'm \<Rightarrow> error + string \<times> 'm" where
  "prisma_stateStored hasModel model mapper =
     (if \<not> hasModel model then Inl (ConfigError model ''not found on PrismaClient'') else Inr (model, mapper))"

text \<open>\<^verbatim>\<open>new PrismaAdapter(prisma, options)\<close>: a locker only for an explicit dialect.\<close>

definition prisma_adapter_locker :: "string option \<Rightarrow> error + dialect_kind option" where
  "prisma_adapter_locker dialect =
     (case dialect of None \<Rightarrow> Inr None
      | Some d \<Rightarrow> if d = [] then Inr None else (case prisma_inner d of Inl e \<Rightarrow> Inl e | Inr k \<Rightarrow> Inr (Some k)))"

text \<open>The dialect is the name of Prisma's provider; the short name of the other adapters is refused.\<close>

lemma prisma_dialect_names:
  "prisma_adapter_locker (Some ''postgresql'') = Inr (Some PostgresKind)"
  "\<exists>e. prisma_adapter_locker (Some ''pg'') = Inl e"
  by (simp_all add: prisma_adapter_locker_def prisma_inner_def)

text \<open>Without missing models Prisma has the dedicated stores of the other adapters; a missing one is
  reported when the adapter is built, not when a command runs.\<close>

lemma prisma_dedicated_ok:
  "(\<forall>(n, model, mapper) \<in> set cs. hasModel model) \<Longrightarrow>
     prisma_dedicated hasModel cs m = Inr (fold (\<lambda>(name, c) m. jm_set name c m) cs m)"
  by (induction cs arbitrary: m) auto

lemma prisma_dedicated_missing:
  "prisma_dedicated hasModel cs m = Inr stores \<Longrightarrow> (n, model, mapper) \<in> set cs \<Longrightarrow> hasModel model"
  by (induction cs arbitrary: m) (auto split: if_splits)

lemma prisma_as_typeorm:
  assumes "\<forall>cs. ac_aggregateStates c = Some cs \<longrightarrow> (\<forall>(n, model, mapper) \<in> set cs. hasModel model)"
  shows "createPrismaAdapter hasModel (Some c) = Inr (createTypeORMAdapter (Some c))"
  using assms
  by (auto simp: createPrismaAdapter_def createTypeORMAdapter_def prisma_dedicated_ok dedicated_stores_def split: option.splits)

end
