(* ===== verification/Harness.thy ===== *)
theory Harness
  imports Saga_Executor Projection Hash_Uuid
begin

text \<open>
  The test harnesses of \<^verbatim>\<open>packages/testing\<close>: Given-When-Then for aggregates
  (\<^verbatim>\<open>aggregate-harness.ts\<close>), sagas (\<^verbatim>\<open>saga-harness.ts\<close>) and projections
  (\<^verbatim>\<open>projection-harness.ts\<close>), the assertions on metadata (\<^verbatim>\<open>metadata-helpers.ts\<close>) and
  the recording dispatch of \<^verbatim>\<open>domain-harness.ts\<close>. What a harness reports is compared with what
  the engine does. The infrastructure a builder hands to the handlers is part of the handlers here.
\<close>

section \<open>Aggregates\<close>

definition evolveAggregate :: "'w aggregate \<Rightarrow> event list \<Rightarrow> jsval option \<Rightarrow> error + jsval" where
  "evolveAggregate aggregate events initialState =
     apply_events (ag_evolve aggregate) events
       (coalesce (or_else initialState JUndef) (ag_initialState aggregate))"

record aggregate_test =
  at_givenEvents :: "event list"
  at_command :: "command option"

record aggregate_test_result =
  ar_events :: "event list"
  ar_state :: jsval
  ar_error :: "error option"

definition testAggregate :: aggregate_test where
  "testAggregate = \<lparr>at_givenEvents = [], at_command = None\<rparr>"

definition at_given :: "event list \<Rightarrow> aggregate_test \<Rightarrow> aggregate_test" where
  "at_given events b = b\<lparr>at_givenEvents := at_givenEvents b @ events\<rparr>"

definition at_when :: "command \<Rightarrow> aggregate_test \<Rightarrow> aggregate_test" where
  "at_when cmd b = b\<lparr>at_command := Some cmd\<rparr>"

text \<open>\<^verbatim>\<open>execute\<close>; the replay of the given events is outside the \<^verbatim>\<open>try\<close>. Calling a handler
  that does not exist, or reading the name of a command that was never set, is a
  \<^verbatim>\<open>TypeError\<close>.\<close>

definition at_execute :: "'w aggregate \<Rightarrow> aggregate_test \<Rightarrow> ('w, aggregate_test_result) action" where
  "at_execute aggregate b =
     bind_act (lift_result (evolveAggregate aggregate (at_givenEvents b) None))
       (\<lambda>priorState. catch_act
          (case at_command b of
             None \<Rightarrow> throw TypeError
           | Some cmd \<Rightarrow>
               (case jm_get (ag_decide aggregate) (cmd_name cmd) of
                  None \<Rightarrow> throw TypeError
                | Some handler \<Rightarrow>
                    bind_act (handler cmd priorState)
                      (\<lambda>rawResult. let events = (case rawResult of One e \<Rightarrow> [e] | Many es \<Rightarrow> es)
                         in bind_act (lift_result (evolveAggregate aggregate events (Some priorState)))
                              (\<lambda>st. ret \<lparr>ar_events = events, ar_state = st, ar_error = None\<rparr>))))
          (\<lambda>err. ret \<lparr>ar_events = [], ar_state = priorState, ar_error = Some err\<rparr>))"

lemma builder_given_accumulates:
  "at_givenEvents (at_given ys (at_given xs b)) = at_givenEvents b @ xs @ ys"
  by (simp add: at_given_def)

lemma builder_scenario:
  "at_when cmd (at_given events testAggregate) = \<lparr>at_givenEvents = events, at_command = Some cmd\<rparr>"
  by (simp add: at_when_def at_given_def testAggregate_def)

section \<open>Sagas\<close>

record saga_test =
  st_state :: "jsval option"
  st_event :: "event option"

record saga_test_result =
  tr_state :: jsval
  tr_commands :: "command list"
  tr_error :: "error option"

definition testSaga :: saga_test where
  "testSaga = \<lparr>st_state = None, st_event = None\<rparr>"

definition st_execute :: "'w saga \<Rightarrow> saga_test \<Rightarrow> ('w, saga_test_result) action" where
  "st_execute saga b =
     (let state = coalesce (or_else (st_state b) JUndef) (sg_initialState saga) in
      catch_act
        (case st_event b of
           None \<Rightarrow> throw TypeError
         | Some ev \<Rightarrow>
             (case jm_get (sg_on saga) (ev_name ev) of
                None \<Rightarrow> throw TypeError
              | Some entry \<Rightarrow>
                  bind_act (se_handle entry ev state)
                    (\<lambda>reaction. ret \<lparr>tr_state = re_state reaction, tr_commands = commands_of reaction,
                       tr_error = None\<rparr>)))
        (\<lambda>err. ret \<lparr>tr_state = state, tr_commands = [], tr_error = Some err\<rparr>))"

section \<open>Projections\<close>

text \<open>
  The harness does not interpret the \<^verbatim>\<open>DeleteView\<close> symbol: it is the view that the next reducer
  receives. \<open>symbol\<close> stands for it where a reducer takes it for a view.
\<close>

fun view_value :: "jsval \<Rightarrow> reduce_result \<Rightarrow> jsval" where
  "view_value symbol (View v) = v"
| "view_value symbol DeleteView = symbol"

fun reduce_all ::
  "jsval \<Rightarrow> (string, projection_handler) jmap \<Rightarrow> event list \<Rightarrow> reduce_result \<Rightarrow> error + reduce_result" where
  "reduce_all symbol on [] currentView = Inr currentView"
| "reduce_all symbol on (ev # evs) currentView =
     (case jm_get on (ev_name ev) of
        None \<Rightarrow> reduce_all symbol on evs currentView
      | Some h \<Rightarrow> (case ph_reduce h ev (view_value symbol currentView) of
                     Inl e \<Rightarrow> Inl e
                   | Inr v \<Rightarrow> reduce_all symbol on evs v))"

definition testProjection ::
  "jsval \<Rightarrow> 'w projection \<Rightarrow> jsval option \<Rightarrow> event list \<Rightarrow> reduce_result \<times> error option" where
  "testProjection symbol projection startView events =
     (let start = View (or_else startView JUndef) in
      case reduce_all symbol (pj_on projection) events start of
        Inr v \<Rightarrow> (v, None)
      | Inl err \<Rightarrow> (start, Some err))"

section \<open>Metadata\<close>

definition stripMetadata :: "event list \<Rightarrow> event list" where
  "stripMetadata events = map (\<lambda>e. e\<lparr>ev_metadata := None\<rparr>) events"

text \<open>\<^verbatim>\<open>/^[0-9a-f]{8}-[0-9a-f]{4}-7[0-9a-f]{3}-[89ab][0-9a-f]{3}-[0-9a-f]{12}$/i\<close>\<close>

definition hex_char :: "char \<Rightarrow> bool" where
  "hex_char c \<longleftrightarrow> c \<in> set ''0123456789abcdefABCDEF''"

definition uuid_v7_pattern :: "(char \<Rightarrow> bool) list" where
  "uuid_v7_pattern =
     replicate 8 hex_char @ [(=) CHR ''-''] @ replicate 4 hex_char @ [(=) CHR ''-''] @
     [(=) CHR ''7''] @ replicate 3 hex_char @ [(=) CHR ''-''] @
     [\<lambda>c. c \<in> set ''89abAB''] @ replicate 3 hex_char @ [(=) CHR ''-''] @ replicate 12 hex_char"

definition is_uuid_v7 :: "string \<Rightarrow> bool" where
  "is_uuid_v7 s \<longleftrightarrow> list_all2 (\<lambda>p c. p c) uuid_v7_pattern s"

text \<open>Timestamps are instants here, so the test of their format has nothing to refuse.\<close>

definition expectValidMetadata :: "event \<Rightarrow> error + unit" where
  "expectValidMetadata event =
     (case ev_metadata event of
        None \<Rightarrow> Inl (UserError ''has no metadata'')
      | Some m \<Rightarrow>
          if \<not> is_uuid_v7 (md_eventId m) then Inl (UserError ''has invalid eventId'')
          else if md_correlationId m = [] then Inl (UserError ''has empty correlationId'')
          else if md_causationId m = [] then Inl (UserError ''has empty causationId'')
          else Inr ())"

definition expectSameCorrelation :: "event list \<Rightarrow> error + unit" where
  "expectSameCorrelation events =
     (case events of
        [] \<Rightarrow> Inr ()
      | e # rest \<Rightarrow>
          (case ev_metadata e of
             None \<Rightarrow> Inl (UserError ''has no correlationId in metadata'')
           | Some m \<Rightarrow>
               if md_correlationId m = [] then Inl (UserError ''has no correlationId in metadata'')
               else if list_all (\<lambda>x. map_option md_correlationId (ev_metadata x) = Some (md_correlationId m)) rest
               then Inr () else Inl (UserError ''has correlationId but expected'')))"

fun expectCausationChain :: "event list \<Rightarrow> error + unit" where
  "expectCausationChain (prev # next # rest) =
     (if map_option md_causationId (ev_metadata next) \<noteq> map_option md_eventId (ev_metadata prev)
      then Inl (UserError ''has causationId but expected'')
      else expectCausationChain (next # rest))"
| "expectCausationChain events = Inr ()"

record metadata_factory_options =
  mf_eventIdGenerator :: "(unit \<Rightarrow> string) option"
  mf_timestampGenerator :: "(unit \<Rightarrow> int) option"
  mf_correlationId :: "string option"
  mf_userId :: "ID option"

record test_metadata_context =
  tm_aggregateName :: string
  tm_aggregateId :: ID
  tm_sequenceNumber :: int
  tm_correlationId :: "string option"
  tm_causationId :: "string option"
  tm_userId :: "ID option"

text \<open>The returned function, on the counter it closes over; 2024-01-01T00:00:00.000Z in
  milliseconds.\<close>

definition createTestMetadataFactory ::
  "metadata_factory_options option \<Rightarrow> test_metadata_context \<Rightarrow> nat \<Rightarrow> event_metadata \<times> nat" where
  "createTestMetadataFactory options ctx counter =
     (let own = Option.bind options mf_eventIdGenerator;
          counter' = (case own of None \<Rightarrow> counter + 1 | Some _ \<Rightarrow> counter)
      in (\<lparr>md_eventId = (case own of None \<Rightarrow> ''evt-'' @ nat_string counter' | Some f \<Rightarrow> f ()),
           md_timestamp = (case Option.bind options mf_timestampGenerator of
               None \<Rightarrow> 1704067200000 | Some f \<Rightarrow> f ()),
           md_correlationId = or_else (tm_correlationId ctx)
               (or_else (Option.bind options mf_correlationId) ''test-correlation-id''),
           md_causationId = or_else (tm_causationId ctx) ''test-causation-id'',
           md_userId = (case tm_userId ctx of Some u \<Rightarrow> Some u | None \<Rightarrow> Option.bind options mf_userId),
           md_version = None,
           md_aggregateName = Some (tm_aggregateName ctx), md_aggregateId = Some (tm_aggregateId ctx),
           md_sequenceNumber = Some (tm_sequenceNumber ctx), md_traceparent = None, md_tracestate = None\<rparr>,
          counter'))"

section \<open>Recording commands\<close>

record domain_spy =
  ds_dispatchedCommands :: "command list"
  ds_unhandledCommands :: "command list"
  ds_commandErrors :: "(command \<times> error) list"

definition isMissingHandlerError :: "error \<Rightarrow> string \<Rightarrow> bool" where
  "isMissingHandlerError e commandName \<longleftrightarrow>
     e = NoHandlerRegistered commandName \<or>
     e = UserError (''No handler registered for command: '' @ commandName)"

definition recordDispatch :: "command \<Rightarrow> ('w, unit) action \<Rightarrow> (domain_spy \<times> 'w, unit) action" where
  "recordDispatch cmd dispatch s =
     catch_act (on_snd dispatch)
       (\<lambda>e (spy, w).
          if isMissingHandlerError e (cmd_name cmd)
          then (Inr (), spy\<lparr>ds_unhandledCommands := ds_unhandledCommands spy @ [cmd]\<rparr>, w)
          else (Inl e, spy\<lparr>ds_commandErrors := ds_commandErrors spy @ [(cmd, e)]\<rparr>, w))
       ((fst s)\<lparr>ds_dispatchedCommands := ds_dispatchedCommands (fst s) @ [cmd]\<rparr>, snd s)"

section \<open>The aggregate harness against the executor\<close>

lemma evolve_initial: "evolveAggregate ag evs None = apply_events (ag_evolve ag) evs (ag_initialState ag)"
  by (simp add: evolveAggregate_def coalesce_def nullish_def)

lemma evolve_from: "\<not> nullish st \<Longrightarrow> evolveAggregate ag evs (Some st) = apply_events (ag_evolve ag) evs st"
  by (simp add: evolveAggregate_def coalesce_def)

lemma strip_names_payloads:
  "stripMetadata xs = stripMetadata ys \<longleftrightarrow>
   map (\<lambda>ev. (ev_name ev, ev_payload ev)) xs = map (\<lambda>ev. (ev_name ev, ev_payload ev)) ys"
proof (induction xs arbitrary: ys)
  case (Cons x xs)
  have "x\<lparr>ev_metadata := None\<rparr> = y\<lparr>ev_metadata := None\<rparr> \<longleftrightarrow> ev_name x = ev_name y \<and> ev_payload x = ev_payload y"
    for y :: event
    by (cases x; cases y) simp
  with Cons show ?case by (cases ys) (simp_all add: stripMetadata_def)
qed (auto simp: stripMetadata_def)

lemma strip_append: "stripMetadata (xs @ ys) = stripMetadata xs @ stripMetadata ys"
  by (simp add: stripMetadata_def)

lemma strip_enriched: "stripMetadata (enriched_events env ag n cmd v evs) = stripMetadata evs"
  unfolding strip_names_payloads enriched_events_def by (rule enrich_names_payloads)

text \<open>The harness and steps 2 to 4 of the executor.\<close>

lemma harness_decides:
  assumes "evolveAggregate ag (at_givenEvents b) None = Inr prior" and "\<not> nullish prior"
    and "at_command b = Some cmd" and "jm_get (ag_decide ag) (cmd_name cmd) = Some h"
  shows "at_execute ag b w =
    (case decide_events ag n cmd prior w of
       (Inr (evs, st), w') \<Rightarrow> (Inr \<lparr>ar_events = evs, ar_state = st, ar_error = None\<rparr>, w')
     | (Inl e, w') \<Rightarrow> (Inr \<lparr>ar_events = [], ar_state = prior, ar_error = Some e\<rparr>, w'))"
proof -
  obtain r w1 where r: "h cmd prior w = (r, w1)" by (cases "h cmd prior w")
  show ?thesis
  proof (cases r)
    case (Inl e)
    with assms r show ?thesis
      by (simp add: at_execute_def decide_events_def bind_act_def catch_act_def lift_result_def ret_def)
  next
    case (Inr result)
    let ?evs = "case result of One e \<Rightarrow> [e] | Many es \<Rightarrow> es"
    show ?thesis
      using assms r Inr
      by (cases "apply_events (ag_evolve ag) ?evs prior")
        (simp_all add: at_execute_def decide_events_def bind_act_def catch_act_def lift_result_def ret_def
          Let_def evolve_from)
  qed
qed

text \<open>C33: The aggregate harness predicts the running system. Take an aggregate without upcasters whose
  instance has the given events in its stream (metadata aside), a valid snapshot and a stored state
  that is not nullish, and the in-memory engine with optimistic concurrency and no enclosing unit
  of work. A scenario that the harness reports as successful, with a handler that leaves the world
  alone and a command whose id, if it has one, is not claimed (a claimed one is skipped), is one
  the engine executes successfully: it appends and publishes the reported events, up to the
  metadata it adds, and loading the instance again, through a snapshot or not, gives the reported
  state.\<close>
theorem harness_predicts_execution:
  assumes "0 \<le> m" and "snapshot_valid ag n (target_of cmd) w" and "unclaimed cmd w"
    and "ag_upcasters ag = None"
    and "stripMetadata (at_givenEvents b) = stripMetadata (stream_of w n (target_of cmd))"
    and "evolveAggregate ag (at_givenEvents b) None = Inr prior" and "\<not> nullish prior"
    and "at_command b = Some cmd"
    and "at_execute ag b w = (Inr res, w)" and "ar_error res = None"
  shows "\<exists>w' so. execute (mem_executor partial (Optimistic m) ss idem env) ctx n ag cmd (None, w) =
      (Inr (), (None, w')) \<and>
    stripMetadata (stream_of w' n (target_of cmd)) = stripMetadata (at_givenEvents b @ ar_events res) \<and>
    stripMetadata (mw_published w') = stripMetadata (mw_published w @ ar_events res) \<and>
    load_aggregate (map_option mem_snapshots ss) (mem_es_persistence partial) ag n (target_of cmd) w' =
      (Inr \<lparr>la_state = ar_state res, la_version = int (length (at_givenEvents b @ ar_events res)),
        la_isEventSourced = True, la_snapshot = so\<rparr>, w')"
proof -
  let ?str = "stream_of w n (target_of cmd)" and ?evs = "ar_events res" and ?st = "ar_state res"
  let ?en = "enriched_events ((env w)\<lparr>en_override := ctx\<rparr>) ag n cmd (int (length ?str)) ?evs"
  obtain h where h: "jm_get (ag_decide ag) (cmd_name cmd) = Some h"
    using assms(6,8,9,10)
    by (cases "jm_get (ag_decide ag) (cmd_name cmd)")
      (auto simp: at_execute_def bind_act_def catch_act_def lift_result_def throw_def ret_def)
  have dec: "decide_events ag n cmd prior w = (Inr (?evs, ?st), w)"
    using harness_decides [OF assms(6,7,8) h, of w n] assms(9,10)
    by (auto split: prod.splits sum.splits)
  note app = decide_events_apply [OF dec]
  have re: "rehydrate ag ?str (ag_initialState ag) = Inr prior"
    using assms(4,6) apply_events_cong [OF assms(5) [unfolded strip_names_payloads]]
    by (simp add: rehydrate_def evolve_initial)
  from mem_implicit [where env = env and ctx = ctx and pt = partial and ss = ss and idem = idem,
      OF assms(1,2) re dec app assms(3) refl] obtain w' where
    w': "execute_implicit (mem_executor partial (Optimistic m) ss idem env) ctx n ag cmd (mem_es_persistence partial) w = (Inr (), w')"
      "es_stream (mw_es w') = (es_stream (mw_es w))(instance_key n (target_of cmd) := ?str @ ?en)"
      "mw_published w' = mw_published w @ ?en" "snapshot_valid ag n (target_of cmd) w'"
    by blast
  have ex: "execute (mem_executor partial (Optimistic m) ss idem env) ctx n ag cmd (None, w) = (Inr (), (None, w'))"
    unfolding execute_def bind_act_def unclaimed_exists [OF assms(3)] using w'(1) by (simp add: lift_result_def)
  have len: "length ?str = length (at_givenEvents b)" "length ?en = length ?evs"
    using arg_cong [OF assms(5), of length] by (simp_all add: stripMetadata_def enriched_events_def)
  have "rehydrate ag (stream_of w' n (target_of cmd)) (ag_initialState ag) = Inr ?st"
    using rehydrate_split [OF re, of ?en] rehydrate_enriched [of ag _ n cmd] app w'(2) by simp
  with mem_load [OF w'(4), of ss partial] w'(2) len obtain so where
    "load_aggregate (map_option mem_snapshots ss) (mem_es_persistence partial) ag n (target_of cmd) w' =
      (Inr \<lparr>la_state = ?st, la_version = int (length (at_givenEvents b @ ?evs)),
        la_isEventSourced = True, la_snapshot = so\<rparr>, w')"
    by auto
  with ex w'(2,3) assms(5) show ?thesis
    by (intro exI [of _ w'] exI [of _ so]) (simp add: strip_append strip_enriched)
qed

definition add_six :: aggregate_test where
  "add_six = at_when (add_command 6 None) (at_given [added 2, added 3, added 4] testAggregate)"

theorem harness_predicts_execution_witness:
  "\<exists>w' so. execute (mem_executor True (Optimistic 0) (Some (everyNEvents 2)) None (\<lambda>_. sample_env)) None
      ''Cnt'' counter_aggregate (add_command 6 None) (None, sample_world) = (Inr (), (None, w')) \<and>
    stripMetadata (stream_of w' ''Cnt'' (IDNum 1)) = [added 2, added 3, added 4, added 6] \<and>
    load_aggregate (Some (mem_snapshots (everyNEvents 2))) (mem_es_persistence True) counter_aggregate ''Cnt''
      (IDNum 1) w' = (Inr \<lparr>la_state = JNum 15, la_version = 4, la_isEventSourced = True, la_snapshot = so\<rparr>, w')"
proof -
  let ?res = "\<lparr>ar_events = [added 6], ar_state = JNum 15, ar_error = None\<rparr>"
  have given: "evolveAggregate counter_aggregate (at_givenEvents add_six) None = Inr (JNum 9)" by code_simp
  have same: "stripMetadata (at_givenEvents add_six) =
      stripMetadata (stream_of sample_world ''Cnt'' (target_of (add_command 6 None)))" by code_simp
  have run: "at_execute counter_aggregate add_six sample_world = (Inr ?res, sample_world)"
    by code_simp
  from harness_predicts_execution [where m = 0 and w = sample_world and n = "''Cnt''" and ss = "Some (everyNEvents 2)"
      and partial = True and idem = None and env = "\<lambda>_. sample_env" and ctx = None,
      OF _ _ sample_decides(4) _ same given _ _ run]
  obtain w' so where w': "execute (mem_executor True (Optimistic 0) (Some (everyNEvents 2)) None (\<lambda>_. sample_env)) None
      ''Cnt'' counter_aggregate (add_command 6 None) (None, sample_world) = (Inr (), (None, w'))"
    "stripMetadata (stream_of w' ''Cnt'' (IDNum 1)) = stripMetadata (at_givenEvents add_six @ [added 6])"
    "load_aggregate (Some (mem_snapshots (everyNEvents 2))) (mem_es_persistence True) counter_aggregate ''Cnt''
      (IDNum 1) w' = (Inr \<lparr>la_state = JNum 15, la_version = int (length (at_givenEvents add_six @ [added 6])),
        la_isEventSourced = True, la_snapshot = so\<rparr>, w')"
    using sample_world_valid
    by (auto simp: nullish_def sample_decides add_six_def at_when_def counter_aggregate_def)
  have "at_givenEvents add_six = [added 2, added 3, added 4]" by code_simp
  with w' show ?thesis by (intro exI [of _ w'] exI [of _ so]) (simp add: stripMetadata_def added_def)
qed

text \<open>Where the harness and the engine part: a state that is \<^verbatim>\<open>null\<close> is replaced by the initial state
  before the new events are applied, and a given event whose handler throws makes \<^verbatim>\<open>execute\<close>
  throw.\<close>

definition closing_aggregate :: "'w aggregate" where
  "closing_aggregate =
     \<lparr>ag_initialState = JNum 0,
      ag_decide = [(''Reopen'', \<lambda>c st w. (Inr (One \<lparr>ev_name = ''Reopened'', ev_payload = JNum 1, ev_metadata = None\<rparr>), w))],
      ag_evolve = [(''Closed'', \<lambda>p st. Inr JNull), (''Reopened'', \<lambda>p st. Inr (JArr [st]))],
      ag_upcasters = None\<rparr>"

definition closed :: event where
  "closed = \<lparr>ev_name = ''Closed'', ev_payload = JNull, ev_metadata = None\<rparr>"

definition reopen :: command where
  "reopen = \<lparr>cmd_name = ''Reopen'', cmd_payload = JNull, cmd_commandId = None, cmd_targetAggregateId = None\<rparr>"

lemma harness_null_state:
  "map_sum id ar_state (fst (at_execute closing_aggregate (at_when reopen (at_given [closed] testAggregate)) ())) =
     Inr (JArr [JNum 0])"
  "map_sum id snd (fst (decide_events closing_aggregate n reopen JNull ())) = Inr (JArr [JNull])"
  by code_simp+

lemma harness_throws_on_given:
  "evolveAggregate ag (at_givenEvents b) None = Inl e \<Longrightarrow> at_execute ag b w = (Inl e, w)"
  by (simp add: at_execute_def act lift_result_def)

section \<open>The saga harness\<close>

text \<open>The harness runs the handler the executor runs, on the same state: what it reports is the state
  the executor saves and the commands it dispatches.\<close>

lemma saga_harness_reaction:
  assumes "jm_get (sg_on saga) (ev_name ev) = Some entry" and "\<not> nullish st"
    and "st_execute saga \<lparr>st_state = Some st, st_event = Some ev\<rparr> w = (Inr res, w1)" and "tr_error res = None"
  shows "react sx sagaName saga ev sagaId entry st v (outer, w) =
    react sx sagaName saga ev sagaId
      (entry\<lparr>se_handle := \<lambda>_ _ _. (Inr \<lparr>re_state = tr_state res, re_commands = ManyCommands (tr_commands res)\<rparr>, w1)\<rparr>)
      st v (outer, w)"
proof -
  obtain re where re: "se_handle entry ev st w = (Inr re, w1)" "res = \<lparr>tr_state = re_state re,
      tr_commands = commands_of re, tr_error = None\<rparr>"
    using assms
    by (cases "se_handle entry ev st w")
      (auto simp: st_execute_def bind_act_def catch_act_def ret_def coalesce_def split: sum.splits)
  have "commands_of \<lparr>re_state = re_state re, re_commands = ManyCommands (commands_of re)\<rparr> = commands_of re"
    by (simp add: commands_of_def)
  with re show ?thesis
    by (simp add: react_def commit_phase_def bind_act_def on_snd_def Let_def
        cong: sum.case_cong prod.case_cong atomicity.case_cong)
qed

section \<open>The projection harness\<close>

text \<open>Reducers that neither delete the view nor make it nullish, and handlers that all find the same
  view.\<close>

definition one_view :: "'w projection \<Rightarrow> ID \<Rightarrow> event \<Rightarrow> bool" where
  "one_view p i ev \<longleftrightarrow>
     (case jm_get (pj_on p) (ev_name ev) of
        None \<Rightarrow> True
      | Some h \<Rightarrow> (\<exists>f. ph_id h = Some f \<and> f ev = Inr i) \<and>
          (\<forall>s v. ph_reduce h ev s = Inr v \<longrightarrow> (\<exists>x. v = View x \<and> \<not> nullish x)))"

lemma projection_harness_step:
  assumes "\<forall>ev \<in> set evs. one_view p i ev" and "view_or_initial (jm_get store (id_string i)) (pj_initialView p) = cur"
  shows "case reduce_all symbol (pj_on p) evs (View cur) of
      Inr r \<Rightarrow> \<exists>store' final. r = View final \<and>
        for_each (deliver (mv_getForContext ctx) p) evs (store, u) = (Inr (), (store', u)) \<and>
        view_or_initial (jm_get store' (id_string i)) (pj_initialView p) = final
    | Inl e \<Rightarrow> \<exists>store'. for_each (deliver (mv_getForContext ctx) p) evs (store, u) = (Inl e, (store', u))"
  using assms
proof (induction evs arbitrary: store cur)
  case Nil
  then show ?case by simp
next
  case (Cons ev evs)
  show ?case
  proof (cases "jm_get (pj_on p) (ev_name ev)")
    case None
    have "\<forall>ev \<in> set evs. one_view p i ev" using Cons.prems(1) by simp
    note IH = Cons.IH [OF this Cons.prems(2)]
    have skip: "for_each (deliver (mv_getForContext ctx) p) (ev # evs) (store, u) =
        for_each (deliver (mv_getForContext ctx) p) evs (store, u)"
      "reduce_all symbol (pj_on p) (ev # evs) (View cur) = reduce_all symbol (pj_on p) evs (View cur)"
      using None by (simp_all add: deliver_def ret_def)
    show ?thesis using IH unfolding skip .
  next
    case (Some h)
    with Cons.prems(1) obtain f where f: "ph_id h = Some f" "f ev = Inr i"
      and v: "\<forall>s v. ph_reduce h ev s = Inr v \<longrightarrow> (\<exists>x. v = View x \<and> \<not> nullish x)"
      by (auto simp: one_view_def)
    note d = deliver_def run_projection_def reduce_into_def mv_getForContext_def on_fst_def mv_load_def mv_save_def
      bind_act_def lift_result_def ret_def
    show ?thesis
    proof (cases "ph_reduce h ev cur")
      case (Inl e)
      with Some f Cons.prems(2) show ?thesis by (simp add: d)
    next
      case (Inr r)
      with v obtain x where x: "r = View x" "\<not> nullish x" by blast
      let ?store = "jm_set (id_string i) x store"
      have "view_or_initial (jm_get ?store (id_string i)) (pj_initialView p) = x"
        using x(2) by (simp add: view_or_initial_def coalesce_def)
      from Cons.IH [OF _ this] Cons.prems(1)
      have "case reduce_all symbol (pj_on p) evs (View x) of
          Inr r \<Rightarrow> \<exists>store' final. r = View final \<and>
            for_each (deliver (mv_getForContext ctx) p) evs (?store, u) = (Inr (), (store', u)) \<and>
            view_or_initial (jm_get store' (id_string i)) (pj_initialView p) = final
        | Inl e \<Rightarrow> \<exists>store'. for_each (deliver (mv_getForContext ctx) p) evs (?store, u) = (Inl e, (store', u))"
        by simp
      note rest = this
      have "deliver (mv_getForContext ctx) p ev (store, u) = (Inr (), (?store, u))"
        using Some f Inr x Cons.prems(2) by (simp add: d)
      then have step: "for_each (deliver (mv_getForContext ctx) p) (ev # evs) (store, u) =
          for_each (deliver (mv_getForContext ctx) p) evs (?store, u)"
        "reduce_all symbol (pj_on p) (ev # evs) (View cur) = reduce_all symbol (pj_on p) evs (View x)"
        using Some Inr x(1) by simp_all
      show ?thesis using rest unfolding step .
    qed
  qed
qed

text \<open>Given the projection's initial view, the harness computes the view the engine stores.\<close>

lemma projection_harness_live:
  assumes "\<forall>ev \<in> set evs. one_view p i ev"
    and "testProjection symbol p (Some (pj_initialView p)) evs = (View final, None)"
  shows "\<exists>store'. for_each (deliver (mv_getForContext ctx) p) evs ([], u) = (Inr (), (store', u)) \<and>
    view_or_initial (jm_get store' (id_string i)) (pj_initialView p) = final"
  using projection_harness_step [OF assms(1), where store = "[]" and cur = "pj_initialView p" and symbol = symbol
      and ctx = ctx and u = u] assms(2)
  by (auto simp: testProjection_def view_or_initial_def Let_def split: sum.splits)

text \<open>Without an explicit initial view the first reducer gets \<^verbatim>\<open>undefined\<close>, where the engine gives it
  the projection's own.\<close>

definition echo_projection :: "'w projection" where
  "echo_projection = \<lparr>pj_on = [(''Closed'', \<lparr>ph_id = Some (\<lambda>_. Inr (IDNum 1)), ph_reduce = (\<lambda>ev v. Inr (View (JArr [v])))\<rparr>)],
     pj_initialView = JNum 0, pj_consistency = None, pj_viewStore = None\<rparr>"

lemma projection_harness_initial:
  "testProjection JNull echo_projection None [closed] = (View (JArr [JUndef]), None)"
  "deliver (mv_getForContext False) echo_projection closed ([], ()) = (Inr (), ([(''1'', JArr [JNum 0])], ()))"
  by code_simp+

section \<open>Enriched events pass the assertions\<close>

definition context_texts_ok :: "metadata_context option \<Rightarrow> bool" where
  "context_texts_ok c \<longleftrightarrow>
     (case c of None \<Rightarrow> True
      | Some ctx \<Rightarrow> ctx_correlationId ctx \<noteq> Some (Some []) \<and> ctx_causationId ctx \<noteq> Some (Some []))"

lemma hex_digit_hex:
  assumes "n < 16"
  shows "hex_char (hex_digit n)"
proof -
  have "list_all (\<lambda>n. hex_char (hex_digit n)) [0..<16]" by code_simp
  with assms show ?thesis by (simp only: list_all_iff atLeast_upt [symmetric] lessThan_iff)
qed

lemma hex_byte_hex: "hex_char (hex_digit (unat b div 16))" "hex_char (hex_digit (unat b mod 16))" for b :: "8 word"
  using byte_bound [of b] by (auto intro!: hex_digit_hex)

lemma hex_bytes_hex: "list_all2 (\<lambda>p c. p c) (replicate n hex_char) s \<longleftrightarrow> length s = n \<and> list_all hex_char s"
  by (auto simp: list_all2_conv_all_nth list_all_length)

lemma concat_hex: "list_all hex_char (concat (map hex_byte bs))"
  by (induction bs) (simp_all add: hex_byte_def hex_byte_hex)

lemma uuidv7_is_uuid_v7:
  assumes "length random = 16"
  shows "is_uuid_v7 (uuidv7 now random)"
proof -
  let ?r6 = "(random ! 6 AND 0x0f) OR 0x70" and ?r8 = "(random ! 8 AND 0x3f) OR 0x80"
  have variant: "hex_digit (unat ?r8 div 16) \<in> set ''89abAB''"
  proof -
    have "set ''89ab'' \<subseteq> set ''89abAB''" by code_simp
    with variant_nibble [of "random ! 8"] show ?thesis by blast
  qed
  have s: "uuidv7 now random =
      concat (map hex_byte [ts_byte now 40, ts_byte now 32, ts_byte now 24, ts_byte now 16]) @ [CHR ''-''] @
      concat (map hex_byte [ts_byte now 8, ts_byte now 0]) @ [CHR ''-''] @ [CHR ''7''] @
      (hex_digit (unat ?r6 mod 16) # hex_byte (random ! 7)) @ [CHR ''-''] @ [hex_digit (unat ?r8 div 16)] @
      (hex_digit (unat ?r8 mod 16) # hex_byte (random ! 9)) @ [CHR ''-''] @
      concat (map hex_byte [random ! 10, random ! 11, random ! 12, random ! 13, random ! 14, random ! 15])"
    unfolding uuidv7_expand [OF assms] by (simp add: hex_byte_def version_nibble)
  show ?thesis
    unfolding is_uuid_v7_def uuid_v7_pattern_def s
    by (intro list_all2_appendI)
      (simp_all only: hex_bytes_hex concat_hex length_hex_bytes variant list_all2_Cons list.rel_inject(1)
        list.pred_inject hex_byte_def hex_byte_hex list.size simp_thms, simp_all)
qed

lemma enriched_metadata:
  assumes "e \<in> set (enrich env evs n i v c r)"
  shows "\<exists>k < length evs. ev_metadata e = Some (build_metadata env
    (merge_context (or_else (en_provider env) empty_context) (or_else (en_override env) empty_context))
    n i v c r k (evs ! k))"
proof -
  obtain k where "k < length evs" "e = enrich env evs n i v c r ! k"
    using assms by (auto simp: in_set_conv_nth)
  then show ?thesis
    by (intro exI [of _ k]) (simp add: enrich_def Let_def nth_enumerate_eq)
qed

lemma merged_text:
  assumes "context_texts_ok a" and "context_texts_ok b"
  shows "read_prop (ctx_correlationId (merge_context (or_else a empty_context) (or_else b empty_context))) \<noteq> Some []"
    and "read_prop (ctx_causationId (merge_context (or_else a empty_context) (or_else b empty_context))) \<noteq> Some []"
  using assms
  by (cases a; cases b;
      auto simp: context_texts_ok_def merge_context_def spread_def read_prop_def empty_context_def split: option.splits)+

text \<open>C38: Events the engine enriches are well formed. With identifiers generated by uuidv7, contexts
  that set no empty correlation or causation id and a non-empty command name, every event of an
  enriched batch passes expectValidMetadata: its event id is a version 7 UUID and its correlation and
  causation ids are present; and the batch passes expectSameCorrelation.\<close>
theorem enriched_metadata_valid:
  assumes "\<forall>k. \<exists>now random. length random = 16 \<and> en_uuid env k = uuidv7 now random"
    and "context_texts_ok (en_provider env)" and "context_texts_ok (en_override env)" and "c \<noteq> []"
  shows "list_all (\<lambda>e. expectValidMetadata e = Inr ()) (enrich env evs n i v c r) \<and>
    expectSameCorrelation (enrich env evs n i v c r) = Inr ()"
proof
  let ?ctx = "merge_context (or_else (en_provider env) empty_context) (or_else (en_override env) empty_context)"
  let ?cor = "or_else (read_prop (ctx_correlationId ?ctx)) (en_uuid env 0)"
  have uuid: "is_uuid_v7 (en_uuid env k)" for k
    using assms(1) uuidv7_is_uuid_v7 by metis
  have "length (en_uuid env 0) = 36"
    using list_all2_lengthD [OF uuid [of 0, unfolded is_uuid_v7_def]] by (simp add: uuid_v7_pattern_def)
  then have cor: "?cor \<noteq> []"
    using merged_text(1) [OF assms(2,3)] by (cases "read_prop (ctx_correlationId ?ctx)") auto
  have cau: "or_else (read_prop (ctx_causationId ?ctx)) c \<noteq> []"
    using merged_text(2) [OF assms(2,3)] assms(4) by (cases "read_prop (ctx_causationId ?ctx)") auto
  have e: "\<exists>m. ev_metadata e = Some m \<and> is_uuid_v7 (md_eventId m) \<and> md_correlationId m = ?cor \<and>
      md_causationId m = or_else (read_prop (ctx_causationId ?ctx)) c"
    if "e \<in> set (enrich env evs n i v c r)" for e
    using enriched_metadata [OF that] uuid by (auto simp: build_metadata_def Let_def)
  show "list_all (\<lambda>e. expectValidMetadata e = Inr ()) (enrich env evs n i v c r)"
    using cor cau e unfolding list_all_iff expectValidMetadata_def by fastforce
  show "expectSameCorrelation (enrich env evs n i v c r) = Inr ()"
  proof (cases "enrich env evs n i v c r")
    case Nil
    then show ?thesis by (simp add: expectSameCorrelation_def)
  next
    case (Cons x xs)
    obtain m where m: "ev_metadata x = Some m" "md_correlationId m = ?cor"
      using e [of x] Cons by auto
    have "map_option md_correlationId (ev_metadata y) = Some ?cor" if "y \<in> set xs" for y
      using e [of y] Cons that by auto
    with m cor Cons show ?thesis by (simp add: expectSameCorrelation_def list_all_iff)
  qed
qed

definition uuid_env :: enrich_env where
  "uuid_env = sample_env\<lparr>en_uuid := \<lambda>k. uuidv7 (int k) (replicate 16 171)\<rparr>"

theorem enriched_metadata_valid_witness:
  "expectSameCorrelation (enrich uuid_env [closed, closed] ''Acc'' (IDNum 3) 5 ''Open'' None) = Inr ()"
proof -
  have "\<forall>k. \<exists>now random. length random = 16 \<and> en_uuid uuid_env k = uuidv7 now random"
    by (auto simp: uuid_env_def intro!: exI [of _ "replicate 16 171"])
  moreover have "context_texts_ok (en_provider uuid_env)" "context_texts_ok (en_override uuid_env)"
    by (simp_all add: uuid_env_def sample_env_def context_texts_ok_def empty_context_def)
  ultimately show ?thesis
    using enriched_metadata_valid [of uuid_env "''Open''"] by simp
qed

section \<open>The recording dispatch\<close>

text \<open>Every dispatched command is recorded; a failure is either a missing handler, which is suppressed,
  or noted and thrown again.\<close>

lemma recordDispatch_outcome:
  "recordDispatch cmd dispatch (spy, w) =
    (let spy' = spy\<lparr>ds_dispatchedCommands := ds_dispatchedCommands spy @ [cmd]\<rparr> in
     case dispatch w of
       (Inr _, w') \<Rightarrow> (Inr (), spy', w')
     | (Inl e, w') \<Rightarrow>
         if isMissingHandlerError e (cmd_name cmd)
         then (Inr (), spy'\<lparr>ds_unhandledCommands := ds_unhandledCommands spy @ [cmd]\<rparr>, w')
         else (Inl e, spy'\<lparr>ds_commandErrors := ds_commandErrors spy @ [(cmd, e)]\<rparr>, w'))"
  by (cases "dispatch w") (auto simp: recordDispatch_def catch_act_def on_snd_def Let_def split: sum.splits)

text \<open>A run of recorded commands: the three lists split the commands by their outcome.\<close>

lemma recordDispatch_run:
  assumes "recordDispatch cmd dispatch (spy, w) = (r, spy', w')"
  shows "length (ds_unhandledCommands spy') + length (ds_commandErrors spy') \<le>
      Suc (length (ds_unhandledCommands spy) + length (ds_commandErrors spy)) \<and>
    ((\<exists>e. r = Inl e) \<longleftrightarrow> length (ds_commandErrors spy') \<noteq> length (ds_commandErrors spy)) \<and>
    ds_dispatchedCommands spy' = ds_dispatchedCommands spy @ [cmd]"
  using assms unfolding recordDispatch_outcome
  by (auto simp: Let_def split: prod.splits sum.splits if_splits)

end
