(* ===== verification/Startup.thy ===== *)
theory Startup
  imports Domain
begin

text \<open>
  The steps of \<^verbatim>\<open>Domain.init\<close> in \<^verbatim>\<open>domain.ts\<close> that \<^verbatim>\<open>Wiring\<close> leaves out: the
  defaulting of the saga, unit-of-work, idempotency and outbox stores, the global snapshots, the
  check of the upcaster chains, the connection of the buses and the collection of components; and
  the whole of \<^verbatim>\<open>_performShutdown\<close> with its one deadline. A factory is its outcome, as in
  \<^verbatim>\<open>Wiring\<close>.
\<close>

section \<open>The first steps\<close>

text \<open>The adapter's \<^verbatim>\<open>init\<close> where it has one, the custom infrastructure, and the buses, which
  may depend on it.\<close>

definition init_infrastructure ::
  "('w, unit) action option option \<Rightarrow> ('w, 'c) action option \<Rightarrow> 'c \<Rightarrow> ('c \<Rightarrow> ('w, 'b) action) option \<Rightarrow> 'b \<Rightarrow>
     ('w, 'c \<times> 'b) action" where
  "init_infrastructure adapterInit infrastructure noInfrastructure buses inMemoryBuses =
     then_act (case adapterInit of Some (Some m) \<Rightarrow> m | _ \<Rightarrow> ret ())
     (bind_act (case infrastructure of None \<Rightarrow> ret noInfrastructure | Some f \<Rightarrow> f) (\<lambda>customInfra.
      bind_act (case buses of None \<Rightarrow> ret inMemoryBuses | Some f \<Rightarrow> f customInfra) (\<lambda>cqrsInfra.
      ret (customInfra, cqrsInfra))))"

text \<open>A failing adapter ends the initialisation before any factory of the user runs.\<close>

lemma init_adapter_first:
  "m w = (Inl e, w') \<Longrightarrow> init_infrastructure (Some (Some m)) infrastructure none buses mem w = (Inl e, w')"
  by (simp add: init_infrastructure_def act)

section \<open>Stores\<close>

text \<open>An explicit factory wins; otherwise what the adapter has.\<close>

definition resolve_store :: "(error + 'a) option \<Rightarrow> 'a option \<Rightarrow> error + 'a option" where
  "resolve_store wired adapted =
     (case wired of
        Some (Inl e) \<Rightarrow> Inl e
      | Some (Inr x) \<Rightarrow> Inr (Some x)
      | None \<Rightarrow> Inr adapted)"

definition resolve_saga_persistence ::
  "string list \<Rightarrow> (error + 'a) option \<Rightarrow> 'a option \<Rightarrow> 'a \<Rightarrow> error + 'a option" where
  "resolve_saga_persistence sagaNames wired adapted fresh =
     (if length sagaNames > 0 then
        (case resolve_store wired adapted of
           Inl e \<Rightarrow> Inl e
         | Inr None \<Rightarrow> Inr (Some fresh)
         | Inr (Some p) \<Rightarrow> Inr (Some p))
      else Inr None)"

definition resolve_uow_factory :: "(error + 'a) option \<Rightarrow> 'a option \<Rightarrow> 'a \<Rightarrow> error + 'a" where
  "resolve_uow_factory wired adapted fresh =
     (case resolve_store wired adapted of
        Inl e \<Rightarrow> Inl e
      | Inr None \<Rightarrow> Inr fresh
      | Inr (Some f) \<Rightarrow> Inr f)"

text \<open>The resolver of a global snapshot wiring answers every aggregate alike.\<close>

definition resolve_global_snapshots ::
  "'w aggregate_wiring option \<Rightarrow> 'w adapter option \<Rightarrow> error + (string \<Rightarrow> 'w snapshot_config option) option" where
  "resolve_global_snapshots wiring adapter =
     (case wiring of
        None \<Rightarrow> Inr None
      | Some aw \<Rightarrow>
          (case aw_snapshots aw of
             None \<Rightarrow> Inr None
           | Some sw \<Rightarrow>
               (case resolve_snapshot_config ''(global)'' sw adapter of
                  Inl e \<Rightarrow> Inl e
                | Inr sc \<Rightarrow> Inr (Some (\<lambda>_. Some sc)))))"

lemma resolve_store_adapter: "resolve_store None adapted = Inr adapted"
  by (simp add: resolve_store_def)

lemma saga_persistence_present:
  assumes "resolve_saga_persistence sagaNames wired adapted fresh = Inr r"
  shows "r = None \<longleftrightarrow> sagaNames = []"
  using assms by (auto simp: resolve_saga_persistence_def split: if_splits sum.splits option.splits)

section \<open>Upcaster chains\<close>

text \<open>A value of the upcaster map as JavaScript may hold it: an array whose elements are functions
  or something else, or no array at all.\<close>

datatype 'f chain_value = ChainArray "'f option list" | NotAnArray

definition valid_chain :: "'f chain_value \<Rightarrow> bool" where
  "valid_chain c = (case c of NotAnArray \<Rightarrow> False | ChainArray steps \<Rightarrow> \<not> list_ex (\<lambda>step. step = None) steps)"

fun check_chains :: "string \<Rightarrow> (string \<times> 'f chain_value) list \<Rightarrow> error + unit" where
  "check_chains aggregateName [] = Inr ()"
| "check_chains aggregateName ((eventName, c) # cs) =
     (if valid_chain c then check_chains aggregateName cs
      else Inl (ConfigError aggregateName (''Invalid upcaster chain for event '' @ eventName)))"

fun validate_upcasters :: "(string \<times> (string \<times> 'f chain_value) list option) list \<Rightarrow> error + unit" where
  "validate_upcasters [] = Inr ()"
| "validate_upcasters ((aggregateName, upcasters) # as) =
     (case upcasters of
        None \<Rightarrow> validate_upcasters as
      | Some chainMap \<Rightarrow>
          (case check_chains aggregateName chainMap of
             Inl e \<Rightarrow> Inl e
           | Inr _ \<Rightarrow> validate_upcasters as))"

lemma check_chains_ok: "check_chains n cs = Inr () \<longleftrightarrow> (\<forall>(e, c) \<in> set cs. valid_chain c)"
  by (induction cs) (auto split: if_splits)

text \<open>Initialisation passes the check exactly when every step of every chain is a function.\<close>

lemma validate_upcasters_ok:
  "validate_upcasters as = Inr () \<longleftrightarrow>
     (\<forall>n chainMap e c. (n, Some chainMap) \<in> set as \<longrightarrow> (e, c) \<in> set chainMap \<longrightarrow> valid_chain c)"
proof (induction as)
  case Nil
  then show ?case by simp
next
  case (Cons a as)
  obtain n u where a: "a = (n, u)" by (cases a)
  show ?case
  proof (cases u)
    case None
    with Cons a show ?thesis by auto
  next
    case (Some chainMap)
    show ?thesis
    proof (cases "check_chains n chainMap")
      case (Inl e)
      then have "\<not> (\<forall>(e, c) \<in> set chainMap. valid_chain c)" using check_chains_ok [of n chainMap] by simp
      with Inl a Some show ?thesis by auto
    next
      case (Inr u')
      then have "\<forall>(e, c) \<in> set chainMap. valid_chain c" using check_chains_ok [of n chainMap] by simp
      with Inr a Some Cons show ?thesis by auto
    qed
  qed
qed

section \<open>Components\<close>

text \<open>A component of the infrastructure, with the optional methods by which \<^verbatim>\<open>isConnectable\<close> and
  \<^verbatim>\<open>isCloseable\<close> recognise it.\<close>

record 'w component =
  cp_connect :: "('w, unit) action option"
  cp_close :: "('w, unit) action option"

definition isConnectable :: "'w component \<Rightarrow> bool" where
  "isConnectable c \<longleftrightarrow> cp_connect c \<noteq> None"

definition isCloseable :: "'w component \<Rightarrow> bool" where
  "isCloseable c \<longleftrightarrow> cp_close c \<noteq> None"

definition connect_buses ::
  "'w component \<Rightarrow> 'w component \<Rightarrow> 'w component \<Rightarrow> ('w, unit) action" where
  "connect_buses commandBus eventBus queryBus =
     for_each (\<lambda>bus. if isConnectable bus then the (cp_connect bus) else ret ()) [commandBus, eventBus, queryBus]"

definition collect_components ::
  "'w component option \<Rightarrow> 'w component list \<Rightarrow> 'w component \<Rightarrow> 'w component \<Rightarrow> 'w component \<Rightarrow>
     'w component option \<Rightarrow> 'w component option \<Rightarrow> 'w component option \<Rightarrow> 'w component list" where
  "collect_components adapter customInfra commandBus eventBus queryBus sagaPersistence outboxStore idempotencyStore =
     (case adapter of None \<Rightarrow> [] | Some a \<Rightarrow> [a]) @ customInfra @ [commandBus, eventBus, queryBus] @
     (case sagaPersistence of None \<Rightarrow> [] | Some p \<Rightarrow> [p]) @
     (case outboxStore of None \<Rightarrow> [] | Some s \<Rightarrow> [s]) @
     (case idempotencyStore of None \<Rightarrow> [] | Some s \<Rightarrow> [s])"

text \<open>A connection failure ends the initialisation; the buses after it are not connected.\<close>

lemma connect_stops_at_failure:
  assumes "cp_connect commandBus = Some m" and "m w = (Inl e, w')"
  shows "connect_buses commandBus eventBus queryBus w = (Inl e, w')"
  using assms by (simp add: connect_buses_def isConnectable_def)

section \<open>Shutdown\<close>

text \<open>Work that goes on while shutdown waits: after how many milliseconds it is done, if ever, and
  what the world looks like after some milliseconds of it.\<close>

record 'w background =
  bg_done :: "'w \<Rightarrow> int option"
  bg_progress :: "int \<Rightarrow> 'w \<Rightarrow> 'w"

text \<open>\<^verbatim>\<open>Promise.race\<close> of the work and a timer for what remains until the deadline; the state is
  the clock and the world.\<close>

definition race_deadline :: "int \<Rightarrow> 'w background \<Rightarrow> int \<times> 'w \<Rightarrow> int \<times> 'w" where
  "race_deadline deadline work s =
     (let remaining = max 0 (deadline - fst s);
          waited = (case bg_done work (snd s) of None \<Rightarrow> remaining | Some t \<Rightarrow> min remaining (max 0 t))
      in (fst s + waited, bg_progress work waited (snd s)))"

definition await_operations :: "int \<Rightarrow> nat \<Rightarrow> 'w background \<Rightarrow> int \<times> 'w \<Rightarrow> int \<times> 'w" where
  "await_operations deadline activeOperations inFlight s =
     (if activeOperations > 0 then race_deadline deadline inFlight s else s)"

definition await_relay :: "int \<Rightarrow> 'w background option \<Rightarrow> int \<times> 'w \<Rightarrow> int \<times> 'w" where
  "await_relay deadline relay s = (case relay of None \<Rightarrow> s | Some drainRelay \<Rightarrow> race_deadline deadline drainRelay s)"

definition performShutdown ::
  "int \<Rightarrow> nat \<Rightarrow> 'w background \<Rightarrow> 'w background option \<Rightarrow> ('w, unit) action \<Rightarrow> 'w component list \<Rightarrow>
     (int \<times> 'w, unit) action" where
  "performShutdown timeoutMs activeOperations inFlight relay closeBus components s =
     (let deadline = fst s + timeoutMs;
          s1 = await_operations deadline activeOperations inFlight s;
          s2 = await_relay deadline relay s1
      in on_snd (close_phase closeBus (map (\<lambda>c. the (cp_close c)) (filter isCloseable components))) s2)"

text \<open>\<^verbatim>\<open>shutdown(options)\<close> with its default; the memoised promise is \<open>begin_shutdown\<close> of the gate.\<close>

definition shutdown_timeout :: "int option \<Rightarrow> int" where
  "shutdown_timeout timeoutMs = (case timeoutMs of None \<Rightarrow> 30000 | Some t \<Rightarrow> t)"

lemma race_deadline_bounds:
  "fst s \<le> fst (race_deadline deadline work s) \<and> fst (race_deadline deadline work s) \<le> max (fst s) deadline"
  by (auto simp: race_deadline_def Let_def split: option.splits)

lemma await_operations_bounds:
  "fst s \<le> fst (await_operations d k work s) \<and> fst (await_operations d k work s) \<le> max (fst s) d"
  using race_deadline_bounds [of s d work] by (auto simp: await_operations_def)

lemma await_relay_bounds:
  "fst s \<le> fst (await_relay d relay s) \<and> fst (await_relay d relay s) \<le> max (fst s) d"
  using race_deadline_bounds [of s d] by (auto simp: await_relay_def split: option.splits)

text \<open>Work that ends in time is waited for, no longer.\<close>

lemma race_deadline_done:
  assumes "bg_done work w = Some t" and "0 \<le> t" and "now + t \<le> deadline"
  shows "race_deadline deadline work (now, w) = (now + t, bg_progress work t w)"
proof -
  have "min (max 0 (deadline - now)) (max 0 t) = t" using assms(2,3) by simp
  then show ?thesis using assms(1) by (simp add: race_deadline_def Let_def)
qed

text \<open>An operation that never ends uses up the deadline of the relay as well.\<close>

lemma stuck_operation_starves_relay:
  assumes "bg_done inFlight w = None" and "0 \<le> timeoutMs" and "0 < k"
  shows "await_relay (now + timeoutMs) (Some relay) (await_operations (now + timeoutMs) k inFlight (now, w)) =
    (now + timeoutMs, bg_progress relay 0 (bg_progress inFlight timeoutMs w))"
  using assms by (auto simp: await_relay_def await_operations_def race_deadline_def Let_def split: option.splits)

text \<open>C34: Shutdown keeps its deadline and closes everything. Whatever the operations in flight and the
  outbox relay do, never ending included, the closing phase starts at most the timeout after the
  call, one budget for both waits; and if the event bus closes, shutdown succeeds and closes every
  closeable component in reverse order of collection, whether or not others fail. Operations that
  end after a ms and a relay that drains in b more are both awaited to their end when a + b is
  within the timeout.\<close>
theorem shutdown_within_deadline:
  assumes "\<And>w. fst (closeBus w) = Inr ()"
  shows "\<exists>now' w2. performShutdown timeoutMs k inFlight relay closeBus components (now, w) =
        (Inr (), (now', foldr (\<lambda>c w. snd (the (cp_close c) w)) (filter isCloseable components) (snd (closeBus w2)))) \<and>
      now \<le> now' \<and> now' \<le> now + max 0 timeoutMs \<and>
      (\<forall>a b r. 0 < k \<longrightarrow> relay = Some r \<longrightarrow> bg_done inFlight w = Some a \<longrightarrow>
         bg_done r (bg_progress inFlight a w) = Some b \<longrightarrow> 0 \<le> a \<longrightarrow> 0 \<le> b \<longrightarrow> a + b \<le> timeoutMs \<longrightarrow>
         now' = now + a + b \<and> w2 = bg_progress r b (bg_progress inFlight a w))"
proof -
  let ?d = "now + timeoutMs"
  let ?s1 = "await_operations ?d k inFlight (now, w)"
  obtain now' w2 where s2: "await_relay ?d relay ?s1 = (now', w2)" by (cases "await_relay ?d relay ?s1")
  let ?closes = "map (\<lambda>c. the (cp_close c)) (filter isCloseable components)"
  obtain w3 where bus: "closeBus w2 = (Inr (), w3)" using assms [of w2] by (cases "closeBus w2") simp
  have "performShutdown timeoutMs k inFlight relay closeBus components (now, w) =
      (Inr (), (now', foldr (\<lambda>c w. snd (the (cp_close c) w)) (filter isCloseable components) w3))"
    using s2 close_phase_all [of closeBus w2 w3 ?closes, OF bus]
    by (simp add: performShutdown_def Let_def on_snd_def foldr_map comp_def)
  moreover have "now \<le> now'" "now' \<le> now + max 0 timeoutMs"
    using await_operations_bounds [of "(now, w)" ?d k inFlight] await_relay_bounds [of ?s1 ?d relay] s2 by auto
  moreover have "now' = now + a + b \<and> w2 = bg_progress r b (bg_progress inFlight a w)"
    if "0 < k" "relay = Some r" "bg_done inFlight w = Some a" "bg_done r (bg_progress inFlight a w) = Some b"
      "0 \<le> a" "0 \<le> b" "a + b \<le> timeoutMs" for a b r
    using that s2 race_deadline_done [of inFlight w a now ?d]
      race_deadline_done [of r "bg_progress inFlight a w" b "now + a" ?d]
    by (simp add: await_operations_def await_relay_def)
  ultimately show ?thesis
    by (intro exI [of _ now'] exI [of _ w2] conjI allI impI) (simp_all add: bus)
qed

text \<open>A world that lists what happened: an operation that ends after 10 ms, a relay that never does,
  and two components of which the one closed first fails.\<close>

definition noted :: "string \<Rightarrow> (string list, unit) action" where
  "noted x w = (Inr (), w @ [x])"

definition sample_inFlight :: "string list background" where
  "sample_inFlight = \<lparr>bg_done = \<lambda>_. Some 10, bg_progress = \<lambda>d w. if 10 \<le> d then w @ [''done''] else w\<rparr>"

definition sample_relay :: "string list background" where
  "sample_relay = \<lparr>bg_done = \<lambda>_. None, bg_progress = \<lambda>_ w. w\<rparr>"

definition sample_components :: "string list component list" where
  "sample_components =
     [\<lparr>cp_connect = None, cp_close = Some (noted ''adapter'')\<rparr>, \<lparr>cp_connect = None, cp_close = None\<rparr>,
      \<lparr>cp_connect = None, cp_close = Some (\<lambda>w. (Inl TypeError, w @ [''store'']))\<rparr>]"

theorem shutdown_within_deadline_witness:
  "fst (performShutdown 30 1 sample_inFlight (Some sample_relay) (noted ''bus'') sample_components (0, [])) = Inr () \<and>
   (\<exists>now'. 0 \<le> now' \<and> now' \<le> 30 \<and>
      fst (snd (performShutdown 30 1 sample_inFlight (Some sample_relay) (noted ''bus'') sample_components (0, []))) = now') \<and>
   snd (snd (performShutdown 30 1 sample_inFlight (Some sample_relay) (noted ''bus'') sample_components (0, []))) =
     [''done'', ''bus'', ''store'', ''adapter'']"
proof -
  have "\<And>w. fst (noted ''bus'' w) = Inr ()" by (simp add: noted_def)
  from shutdown_within_deadline [of "noted ''bus''", OF this, of 30 1 sample_inFlight "Some sample_relay" sample_components 0 "[]"]
  have "fst (performShutdown 30 1 sample_inFlight (Some sample_relay) (noted ''bus'') sample_components (0, [])) = Inr () \<and>
     (\<exists>now'. 0 \<le> now' \<and> now' \<le> 30 \<and>
        fst (snd (performShutdown 30 1 sample_inFlight (Some sample_relay) (noted ''bus'') sample_components (0, []))) = now')"
    by auto
  moreover have "snd (snd (performShutdown 30 1 sample_inFlight (Some sample_relay) (noted ''bus'') sample_components (0, []))) =
     [''done'', ''bus'', ''store'', ''adapter'']"
    by code_simp
  ultimately show ?thesis by blast
qed

end
