(* ===== verification/Cli_Names.thy ===== *)
theory Cli_Names
  imports Prelude
begin

text \<open>
  The naming rules of the generators: \<^verbatim>\<open>packages/cli/src/utils/naming.ts\<close>,
  \<^verbatim>\<open>context.ts\<close> and \<^verbatim>\<open>event-naming.ts\<close>. Names are ASCII: \<^verbatim>\<open>toLowerCase\<close> and
  \<^verbatim>\<open>toUpperCase\<close> change letters only.
\<close>

section \<open>Character classes\<close>

definition ascii_upper :: "char \<Rightarrow> bool" where
  "ascii_upper c \<longleftrightarrow> (let n = of_char c :: nat in 65 \<le> n \<and> n \<le> 90)"

definition ascii_lower :: "char \<Rightarrow> bool" where
  "ascii_lower c \<longleftrightarrow> (let n = of_char c :: nat in 97 \<le> n \<and> n \<le> 122)"

text \<open>\<^verbatim>\<open>\s\<close> and \<^verbatim>\<open>\w\<close>\<close>

definition js_space :: "char \<Rightarrow> bool" where
  "js_space c \<longleftrightarrow> (let n = of_char c :: nat in 9 \<le> n \<and> n \<le> 13 \<or> n = 32 \<or> n = 160)"

definition word_char :: "char \<Rightarrow> bool" where
  "word_char c \<longleftrightarrow> ascii_upper c \<or> ascii_lower c \<or> c = CHR ''_'' \<or> (let n = of_char c :: nat in 48 \<le> n \<and> n \<le> 57)"

section \<open>Words\<close>

text \<open>\<^verbatim>\<open>replace(/([a-z])([A-Z])/g, "$1 $2")\<close> and \<^verbatim>\<open>replace(/([A-Z]+)([A-Z][a-z])/g, "$1 $2")\<close>:
  a match ends in a letter that begins no other match, so every place gets its space.\<close>

fun space_lower_upper :: "string \<Rightarrow> string" where
  "space_lower_upper (a # b # s) =
     (if ascii_lower a \<and> ascii_upper b then a # CHR '' '' # space_lower_upper (b # s)
      else a # space_lower_upper (b # s))"
| "space_lower_upper s = s"

fun space_acronym :: "string \<Rightarrow> string" where
  "space_acronym (a # b # c # s) =
     (if ascii_upper a \<and> ascii_upper b \<and> ascii_lower c then a # CHR '' '' # space_acronym (b # c # s)
      else a # space_acronym (b # c # s))"
| "space_acronym s = s"

text \<open>\<^verbatim>\<open>replace(/[-_]+/g, " ")\<close>; a run of separators becomes one space in the source and as many
  as it has in the model, which \<^verbatim>\<open>split(/\s+/)\<close> does not tell apart.\<close>

definition dashes_to_spaces :: "string \<Rightarrow> string" where
  "dashes_to_spaces s = map (\<lambda>c. if c = CHR ''-'' \<or> c = CHR ''_'' then CHR '' '' else c) s"

text \<open>\<^verbatim>\<open>trim().split(/\s+/).filter((w) => w.length > 0)\<close>\<close>

definition space_words :: "string \<Rightarrow> string list" where
  "space_words s = filter (\<lambda>w. w \<noteq> []) (split_by js_space s)"

definition splitWords :: "string \<Rightarrow> string list" where
  "splitWords input = space_words (dashes_to_spaces (space_acronym (space_lower_upper input)))"

definition capitalised :: "string \<Rightarrow> string" where
  "capitalised w = (case w of [] \<Rightarrow> [] | c # cs \<Rightarrow> upper_char c # map lower_char cs)"

definition toPascalCase :: "string \<Rightarrow> string" where
  "toPascalCase input = concat (map capitalised (splitWords input))"

definition toCamelCase :: "string \<Rightarrow> string" where
  "toCamelCase input = (case toPascalCase input of [] \<Rightarrow> [] | c # cs \<Rightarrow> lower_char c # cs)"

definition toKebabCase :: "string \<Rightarrow> string" where
  "toKebabCase input = join_with ''-'' (map (map lower_char) (splitWords input))"

definition validateName :: "string \<Rightarrow> error + unit" where
  "validateName name =
     (case toPascalCase name of
        [] \<Rightarrow> Inl (UserError (''Invalid name: '' @ name @ '' produces an empty identifier.''))
      | c # cs \<Rightarrow> if ascii_upper c then Inr ()
          else Inl (UserError (''Invalid name: '' @ name @ '' must start with a letter (got '' @ c # cs @ '').'')))"

record template_context =
  tc_name :: string
  tc_camelName :: string
  tc_kebabName :: string

definition buildContext :: "string \<Rightarrow> template_context" where
  "buildContext rawName =
     \<lparr>tc_name = toPascalCase rawName, tc_camelName = toCamelCase rawName, tc_kebabName = toKebabCase rawName\<rparr>"

section \<open>Event names\<close>

definition splitPascal :: "string \<Rightarrow> string list" where
  "splitPascal name = space_words (space_acronym (space_lower_upper name))"

definition vowel :: "char \<Rightarrow> bool" where
  "vowel c \<longleftrightarrow> c \<in> set ''aeiou''"

definition toPastTense :: "string \<Rightarrow> string" where
  "toPastTense verb =
     (let lowered = map lower_char verb; n = length lowered
      in if suffix ''e'' lowered then verb @ ''d''
         else if 3 \<le> n \<and> \<not> vowel (lowered ! (n - 1)) \<and> vowel (lowered ! (n - 2)) \<and> \<not> vowel (lowered ! (n - 3))
         then verb @ [last verb] @ ''ed''
         else verb @ ''ed'')"

definition deriveEventName :: "string \<Rightarrow> string" where
  "deriveEventName commandName =
     (case splitPascal (toPascalCase commandName) of
        [] \<Rightarrow> commandName
      | [w] \<Rightarrow> toPascalCase (toPastTense w)
      | verb # subject \<Rightarrow> concat subject @ toPastTense verb)"

text \<open>The examples of the documentation.\<close>

lemma derived_event_names:
  "deriveEventName ''PlaceBid'' = ''BidPlaced''"
  "deriveEventName ''create-auction'' = ''AuctionCreated''"
  "deriveEventName ''CloseAuction'' = ''AuctionClosed''"
  "deriveEventName ''Submit'' = ''Submitted''"
  by code_simp+

text \<open>The documented \<^verbatim>\<open>"Open" \<rightarrow> "Opened"\<close> is not what the rule for doubled consonants gives.\<close>

lemma open_doubles: "toPastTense ''Open'' = ''Openned''" "deriveEventName ''OpenAccount'' = ''AccountOpenned''"
  by code_simp+

section \<open>Names and directories\<close>

lemma of_lower_char: "(of_char (lower_char c) :: nat) = (let n = of_char c in if 65 \<le> n \<and> n \<le> 90 then n + 32 else n)"
  by (simp add: lower_char_def Let_def)

lemma char_eq_code: "c = d \<longleftrightarrow> (of_char c :: nat) = of_char d"
  by simp

lemma upper_lower_classes:
  "\<not> ascii_upper (lower_char c)"
  "js_space (lower_char c) \<longleftrightarrow> js_space c"
  "lower_char c = CHR ''-'' \<longleftrightarrow> c = CHR ''-''"
  "lower_char c = CHR ''_'' \<longleftrightarrow> c = CHR ''_''"
  "lower_char (lower_char c) = lower_char c"
  "upper_char (lower_char c) = upper_char c"
proof -
  note code = of_lower_char [of c] char_eq_code
  show "\<not> ascii_upper (lower_char c)" by (simp add: ascii_upper_def code Let_def)
  show "js_space (lower_char c) \<longleftrightarrow> js_space c" by (simp add: js_space_def code Let_def)
  show "lower_char c = CHR ''-'' \<longleftrightarrow> c = CHR ''-''" unfolding code by (simp add: Let_def)
  show "lower_char c = CHR ''_'' \<longleftrightarrow> c = CHR ''_''" unfolding code by (simp add: Let_def)
  show "lower_char (lower_char c) = lower_char c" by (simp add: lower_char_def Let_def)
  show "upper_char (lower_char c) = upper_char c" by (simp add: upper_char_def lower_char_def Let_def)
qed

lemma word_chars:
  assumes "w \<in> set (splitWords s)"
  shows "w \<noteq> []" and "c \<in> set w \<Longrightarrow> \<not> js_space c \<and> c \<noteq> CHR ''-'' \<and> c \<noteq> CHR ''_''"
proof -
  show "w \<noteq> []" using assms by (simp add: splitWords_def space_words_def)
  assume "c \<in> set w"
  with assms split_by_pieces [of w js_space _ c]
  have "\<not> js_space c \<and> c \<in> set (dashes_to_spaces (space_acronym (space_lower_upper s)))"
    by (auto simp: splitWords_def space_words_def)
  then show "\<not> js_space c \<and> c \<noteq> CHR ''-'' \<and> c \<noteq> CHR ''_''"
    by (auto simp: dashes_to_spaces_def split: if_splits)
qed

text \<open>A text without capitals gets no spaces from the case rules.\<close>

lemma space_lower_upper_id: "\<forall>c \<in> set s. \<not> ascii_upper c \<Longrightarrow> space_lower_upper s = s"
  by (induction s rule: space_lower_upper.induct) auto

lemma space_acronym_id: "\<forall>c \<in> set s. \<not> ascii_upper c \<Longrightarrow> space_acronym s = s"
  by (induction s rule: space_acronym.induct) auto

lemma join_with_chars: "c \<in> set (join_with d ws) \<Longrightarrow> c \<in> set d \<or> (\<exists>w \<in> set ws. c \<in> set w)"
proof (induction ws)
  case Nil
  then show ?case by simp
next
  case (Cons w ws)
  then show ?case by (cases "ws = []") (auto simp: join_with_Cons)
qed

lemma dashes_join:
  assumes "\<forall>w \<in> set ws. \<forall>c \<in> set w. c \<noteq> CHR ''-'' \<and> c \<noteq> CHR ''_''"
  shows "dashes_to_spaces (join_with ''-'' ws) = join_with '' '' ws"
  using assms
proof (induction ws)
  case Nil
  then show ?case by (simp add: dashes_to_spaces_def)
next
  case (Cons w ws)
  have "map (\<lambda>c. if c = CHR ''-'' \<or> c = CHR ''_'' then CHR '' '' else c) w = w"
    using Cons.prems by (intro map_idI) auto
  then have w: "dashes_to_spaces w = w" by (simp only: dashes_to_spaces_def)
  have app: "dashes_to_spaces (x @ y) = dashes_to_spaces x @ dashes_to_spaces y" for x y
    by (simp add: dashes_to_spaces_def)
  have dash: "dashes_to_spaces ''-'' = '' ''" by code_simp
  have IH: "dashes_to_spaces (join_with ''-'' ws) = join_with '' '' ws" using Cons by auto
  show ?case
  proof (cases "ws = []")
    case True
    then show ?thesis by (simp only: w join_with.simps)
  next
    case False
    show ?thesis unfolding join_with_Cons [OF False] app w dash IH ..
  qed
qed

lemma kebab_words: "splitWords (toKebabCase s) = map (map lower_char) (splitWords s)"
proof -
  let ?ws = "map (map lower_char) (splitWords s)"
  have ws: "\<forall>w \<in> set ?ws. w \<noteq> []"
    "\<forall>w \<in> set ?ws. \<forall>c \<in> set w. \<not> ascii_upper c \<and> \<not> js_space c \<and> c \<noteq> CHR ''-'' \<and> c \<noteq> CHR ''_''"
    using word_chars [of _ s] by (simp_all add: upper_lower_classes)
  have dash: "\<not> ascii_upper (CHR ''-'')" by code_simp
  have "\<not> ascii_upper c" if "c \<in> set (join_with ''-'' ?ws)" for c
  proof -
    from join_with_chars [OF that] have "c = CHR ''-'' \<or> (\<exists>w \<in> set ?ws. c \<in> set w)" by simp
    then show ?thesis using ws(2) dash by blast
  qed
  then have same: "space_acronym (space_lower_upper (toKebabCase s)) = join_with ''-'' ?ws"
    by (simp add: toKebabCase_def space_lower_upper_id space_acronym_id)
  have "dashes_to_spaces (join_with ''-'' ?ws) = join_with '' '' ?ws"
    using dashes_join [of ?ws] ws(2) by blast
  then have "splitWords (toKebabCase s) = space_words (join_with '' '' ?ws)"
    by (simp add: splitWords_def same)
  moreover have "space_words (join_with '' '' ?ws) = ?ws"
  proof (cases "?ws = []")
    case True
    then show ?thesis by (simp add: space_words_def)
  next
    case False
    moreover have "js_space (CHR '' '')" by (simp add: js_space_def Let_def)
    ultimately have "split_by js_space (join_with '' '' ?ws) = ?ws"
      using split_join [of js_space "CHR '' ''" ?ws] ws(2) by blast
    then show ?thesis using ws(1) by (simp add: space_words_def filter_id_conv)
  qed
  ultimately show ?thesis by simp
qed

text \<open>C35: The name of a generated directory determines every name the generators derive. The commands
  that extend an aggregate or a projection know it only by its directory, the kebab-case form of the
  name it was created with; for every name, in whatever case it was given, the context built from
  the directory name is the one built from the name itself, so the class, variable and file names
  they use are those of the existing files.\<close>
theorem context_of_directory: "buildContext (toKebabCase rawName) = buildContext rawName"
proof -
  have "capitalised (map lower_char w) = capitalised w" for w
    by (cases w) (simp_all add: capitalised_def upper_lower_classes)
  then have "toPascalCase (toKebabCase rawName) = toPascalCase rawName"
    by (simp add: toPascalCase_def kebab_words comp_def)
  moreover have "toKebabCase (toKebabCase rawName) = toKebabCase rawName"
    by (simp add: toKebabCase_def [of "toKebabCase rawName"] kebab_words)
      (simp add: toKebabCase_def comp_def upper_lower_classes)
  ultimately show ?thesis by (simp add: buildContext_def toCamelCase_def)
qed

text \<open>Pascal case, in contrast, is not stable: single letters merge into an acronym.\<close>

lemma pascal_not_idempotent: "toPascalCase ''x y'' = ''XY''" "toPascalCase ''XY'' = ''Xy''"
  by code_simp+

lemma validated_name_nonempty: "validateName name = Inr () \<Longrightarrow> toPascalCase name \<noteq> []"
  by (auto simp: validateName_def)

end
