(* ===== verification/Cli_Files.thy ===== *)
theory Cli_Files
  imports Cli_Names
begin

text \<open>
  Edits of source files: \<^verbatim>\<open>packages/cli/src/utils/file-modifier.ts\<close> and
  \<^verbatim>\<open>fs.ts\<close>. The state is the files by path; reading a file that does not exist fails.
  Directories are created as needed and not recorded.
\<close>

type_synonym files = "(string \<times> string) list"

definition newline :: char where
  "newline = CHR 0x0A"

text \<open>A double quote, and a text in double quotes.\<close>

definition dquoted :: "string \<Rightarrow> string" where
  "dquoted s = CHR 0x22 # s @ [CHR 0x22]"

definition readFile :: "string \<Rightarrow> (files, string) action" where
  "readFile path fs = (case jm_get fs path of None \<Rightarrow> (Inl (UserError ''ENOENT''), fs) | Some s \<Rightarrow> (Inr s, fs))"

definition writeFile :: "string \<Rightarrow> string \<Rightarrow> (files, unit) action" where
  "writeFile path content fs = (Inr (), jm_set path content fs)"

text \<open>\<open>access\<close> fails with \<^verbatim>\<open>ENOENT\<close> when the file does not exist.\<close>

definition writeFileIfNotExists :: "string \<Rightarrow> string \<Rightarrow> (files, bool) action" where
  "writeFileIfNotExists path content fs =
     (if jm_has fs path then (Inr False, fs)
      else bind_act (writeFile path content) (\<lambda>_. ret True) fs)"

section \<open>Lines\<close>

abbreviation lines_of :: "string \<Rightarrow> string list" where
  "lines_of s \<equiv> split_by (\<lambda>c. c = newline) s"

abbreviation unlines :: "string list \<Rightarrow> string" where
  "unlines ls \<equiv> join_with [newline] ls"

definition trimStart :: "string \<Rightarrow> string" where
  "trimStart s = dropWhile js_space s"

definition trimEnd :: "string \<Rightarrow> string" where
  "trimEnd s = rev (dropWhile js_space (rev s))"

text \<open>A marker is a text that the line includes or a regular expression it passes.\<close>

datatype marker = TextMarker string | Pattern "string \<Rightarrow> bool"

fun matches_line :: "marker \<Rightarrow> string \<Rightarrow> bool" where
  "matches_line (TextMarker m) l \<longleftrightarrow> str_includes l m"
| "matches_line (Pattern p) l \<longleftrightarrow> p l"

text \<open>\<^verbatim>\<open>line.match(/^(\s*)/)?.[1]\<close>, and the content with that indentation on every line.\<close>

definition indented :: "string \<Rightarrow> string \<Rightarrow> string" where
  "indented markerLine content =
     (let indent = takeWhile js_space markerLine
      in unlines (map (\<lambda>l. if trimEnd (trimStart l) \<noteq> [] then indent @ trimStart l else l) (lines_of content)))"

definition splice_in :: "nat \<Rightarrow> 'a \<Rightarrow> 'a list \<Rightarrow> 'a list" where
  "splice_in i x xs = take i xs @ x # drop i xs"

fun find_index :: "('a \<Rightarrow> bool) \<Rightarrow> 'a list \<Rightarrow> nat option" where
  "find_index P [] = None"
| "find_index P (x # xs) = (if P x then Some 0 else map_option Suc (find_index P xs))"

text \<open>The loop that keeps the last index.\<close>

fun last_index_from :: "nat \<Rightarrow> ('a \<Rightarrow> bool) \<Rightarrow> 'a list \<Rightarrow> nat option \<Rightarrow> nat option" where
  "last_index_from i P [] found = found"
| "last_index_from i P (x # xs) found = last_index_from (Suc i) P xs (if P x then Some i else found)"

definition last_index :: "('a \<Rightarrow> bool) \<Rightarrow> 'a list \<Rightarrow> nat option" where
  "last_index P xs = last_index_from 0 P xs None"

section \<open>Edits of a text\<close>

text \<open>What each operation makes of the content of its file; \<open>None\<close> where it writes nothing.\<close>

definition before_marker :: "marker \<Rightarrow> string \<Rightarrow> bool \<Rightarrow> string \<Rightarrow> (string \<times> bool) option" where
  "before_marker m content fallbackAppend fileContent =
     (let ls = lines_of fileContent
      in case find_index (matches_line m) ls of
           Some i \<Rightarrow> Some (unlines (splice_in i (indented (ls ! i) content) ls), False)
         | None \<Rightarrow>
             if fallbackAppend then Some (trimEnd fileContent @ [newline] @ content @ [newline], True) else None)"

definition after_last_match :: "marker \<Rightarrow> string \<Rightarrow> string \<Rightarrow> string option" where
  "after_last_match m content fileContent =
     (let ls = lines_of fileContent
      in case last_index (matches_line m) ls of
           None \<Rightarrow> None
         | Some i \<Rightarrow> Some (unlines (splice_in (Suc i) (indented (ls ! i) content) ls)))"

definition with_export :: "string \<Rightarrow> string \<Rightarrow> string" where
  "with_export exportLine fileContent = trimEnd fileContent @ [newline] @ exportLine @ [newline]"

definition with_imports :: "string \<Rightarrow> string \<Rightarrow> string" where
  "with_imports importLines fileContent =
     (let ls = lines_of fileContent
      in case last_index (\<lambda>l. starts_with l ''import '') ls of
           None \<Rightarrow> importLines @ [newline] @ fileContent
         | Some i \<Rightarrow> unlines (splice_in (Suc i) importLines ls))"

section \<open>The operations\<close>

definition insertBeforeMarker :: "string \<Rightarrow> marker \<Rightarrow> string \<Rightarrow> bool \<Rightarrow> (files, bool \<times> bool) action" where
  "insertBeforeMarker filePath m content fallbackAppend =
     bind_act (readFile filePath) (\<lambda>fileContent.
       case before_marker m content fallbackAppend fileContent of
         None \<Rightarrow> ret (False, False)
       | Some (s, usedFallback) \<Rightarrow> bind_act (writeFile filePath s) (\<lambda>_. ret (True, usedFallback)))"

definition insertAfterLastMatch :: "string \<Rightarrow> marker \<Rightarrow> string \<Rightarrow> (files, bool) action" where
  "insertAfterLastMatch filePath m content =
     bind_act (readFile filePath) (\<lambda>fileContent.
       case after_last_match m content fileContent of
         None \<Rightarrow> ret False
       | Some s \<Rightarrow> bind_act (writeFile filePath s) (\<lambda>_. ret True))"

definition appendToBarrel :: "string \<Rightarrow> string \<Rightarrow> (files, unit) action" where
  "appendToBarrel filePath exportLine =
     bind_act (readFile filePath) (\<lambda>fileContent. writeFile filePath (with_export exportLine fileContent))"

definition insertImports :: "string \<Rightarrow> string \<Rightarrow> (files, unit) action" where
  "insertImports filePath importLines =
     bind_act (readFile filePath) (\<lambda>fileContent. writeFile filePath (with_imports importLines fileContent))"

definition fileContains :: "string \<Rightarrow> string \<Rightarrow> (files, bool) action" where
  "fileContains filePath search =
     bind_act (readFile filePath) (\<lambda>content. ret (str_includes content search))"

section \<open>What edits keep\<close>

lemma find_index_Some: "find_index P xs = Some i \<Longrightarrow> i < length xs \<and> P (xs ! i)"
  by (induction xs arbitrary: i) (auto split: if_splits)

lemma find_index_None: "find_index P xs = None \<longleftrightarrow> (\<forall>x \<in> set xs. \<not> P x)"
  by (induction xs) auto

lemma last_index_from_Some:
  "last_index_from n P xs found = Some i \<Longrightarrow> found = Some i \<or> (n \<le> i \<and> i < n + length xs \<and> P (xs ! (i - n)))"
proof (induction xs arbitrary: n found)
  case Nil
  then show ?case by simp
next
  case (Cons x xs)
  then have "last_index_from (Suc n) P xs (if P x then Some n else found) = Some i" by simp
  from Cons.IH [OF this] show ?case
    by (auto simp: nth_Cons' Suc_diff_Suc split: if_splits)
qed

lemma last_index_Some: "last_index P xs = Some i \<Longrightarrow> i < length xs \<and> P (xs ! i)"
  unfolding last_index_def using last_index_from_Some [of 0 P xs None i] by simp

lemma last_index_None: "last_index P xs = None \<longleftrightarrow> (\<forall>x \<in> set xs. \<not> P x)"
proof -
  have some: "\<exists>j. last_index_from n P xs (Some k) = Some j" for n k and xs :: "'a list"
    by (induction xs arbitrary: n k) auto
  have "last_index_from n P xs None = None \<longleftrightarrow> (\<forall>x \<in> set xs. \<not> P x)" for n
  proof (induction xs arbitrary: n)
    case Nil
    then show ?case by simp
  next
    case (Cons x xs)
    then show ?case using some [of "Suc n" xs n] by auto
  qed
  then show ?thesis by (simp add: last_index_def)
qed

lemma unlines_lines [simp]: "unlines (lines_of s) = s"
  using join_split [of newline s] by simp

lemma join_with_append:
  "xs \<noteq> [] \<Longrightarrow> ys \<noteq> [] \<Longrightarrow> join_with d (xs @ ys) = join_with d xs @ d @ join_with d ys"
proof (induction xs)
  case Nil
  then show ?case by simp
next
  case (Cons x xs)
  then show ?case by (cases "xs = []") (simp_all add: join_with_Cons)
qed

lemma piece_in_join: "x \<in> set xs \<Longrightarrow> sublist x (join_with d xs)"
proof -
  assume "x \<in> set xs"
  then obtain ys zs where xs: "xs = ys @ x # zs" by (meson split_list)
  have "sublist x (join_with d (x # zs))"
    by (cases "zs = []") (auto simp: join_with_Cons sublist_def intro: exI [of _ "[]"])
  moreover have "sublist (join_with d (x # zs)) (join_with d xs)"
    unfolding xs using sublist_append_leftI [of "join_with d (x # zs)" "join_with d ys @ d"]
    by (cases "ys = []") (simp_all add: join_with_append)
  ultimately show ?thesis by (rule sublist_order.order.trans)
qed

text \<open>A text within one line stays in the file whatever lines are added.\<close>

lemma sublist_lines:
  assumes "sublist x (unlines ls)" and "newline \<notin> set x" and "ls \<noteq> []"
  shows "\<exists>l \<in> set ls. sublist x l"
  using assms(1,3)
proof (induction ls)
  case Nil
  then show ?case by simp
next
  case (Cons l ls)
  show ?case
  proof (cases "ls = []")
    case True
    with Cons show ?thesis by simp
  next
    case False
    with Cons.prems(1) have "sublist x (l @ newline # unlines ls)" by (simp add: join_with_Cons)
    then consider "sublist x l" | "sublist x (newline # unlines ls)"
      | x1 x2 where "x = x1 @ x2" "suffix x1 l" "prefix x2 (newline # unlines ls)"
      by (auto simp: sublist_append)
    then show ?thesis
    proof cases
      case 1
      then show ?thesis by simp
    next
      case 2
      then have "x = [] \<or> sublist x (unlines ls)"
        using assms(2) by (cases x) (auto simp: sublist_Cons_right)
      with Cons.IH False show ?thesis by auto
    next
      case 3
      then have "x2 = []" using assms(2) by (cases x2) auto
      with 3 show ?thesis by (auto intro: suffix_imp_sublist)
    qed
  qed
qed

lemma set_splice_in: "set (splice_in i x xs) = insert x (set xs)"
  by (metis append_take_drop_id insert_is_Un set_append splice_in_def list.set(2) Un_insert_right)

lemma splice_keeps:
  assumes "sublist x s" and "newline \<notin> set x"
  shows "sublist x (unlines (splice_in i y (lines_of s)))"
proof -
  have "sublist x (unlines (lines_of s))" using assms(1) by simp
  from sublist_lines [OF this assms(2)] obtain l where "l \<in> set (lines_of s)" "sublist x l" by auto
  moreover from this have "l \<in> set (splice_in i y (lines_of s))" by (simp add: set_splice_in)
  ultimately show ?thesis using piece_in_join sublist_order.order.trans by blast
qed

lemma before_marker_keeps:
  "before_marker m c False s = Some (s', b) \<Longrightarrow> sublist x s \<Longrightarrow> newline \<notin> set x \<Longrightarrow> sublist x s'"
  by (auto simp: before_marker_def Let_def splice_keeps split: option.splits)

lemma after_last_match_keeps:
  "after_last_match m c s = Some s' \<Longrightarrow> sublist x s \<Longrightarrow> newline \<notin> set x \<Longrightarrow> sublist x s'"
  by (auto simp: after_last_match_def Let_def splice_keeps split: option.splits)

lemma with_imports_keeps:
  assumes "sublist x s" and "newline \<notin> set x"
  shows "sublist x (with_imports c s)"
proof (cases "last_index (\<lambda>l. starts_with l ''import '') (lines_of s)")
  case None
  have "sublist s ((c @ [newline]) @ s)" by (rule sublist_append_leftI)
  with assms(1) None show ?thesis
    unfolding with_imports_def by (simp add: sublist_order.order.trans)
next
  case (Some i)
  then show ?thesis by (simp add: with_imports_def splice_keeps [OF assms])
qed

text \<open>What is inserted at a marker is in the file afterwards: a line of one piece, up to its
  indentation.\<close>

lemma indented_line:
  assumes "newline \<notin> set content" and "sublist x (trimStart content)" and "x \<noteq> []"
    and "\<exists>c \<in> set x. \<not> js_space c"
  shows "sublist x (indented markerLine content)"
proof -
  have "lines_of content = [content]" using assms(1) by (intro split_by_whole) auto
  moreover have "trimEnd (trimStart content) \<noteq> []"
  proof -
    obtain c where c: "c \<in> set x" "\<not> js_space c" using assms(4) by blast
    then have "c \<in> set (trimStart content)" using assms(2) by (auto simp: sublist_def)
    with c show ?thesis by (auto simp: trimEnd_def dropWhile_eq_Nil_conv)
  qed
  ultimately show ?thesis
    using assms(2) sublist_append_leftI [of "trimStart content"] sublist_order.order.trans
    by (fastforce simp: indented_def Let_def)
qed

lemma splice_has: "sublist y (unlines (splice_in i y ls))"
  by (rule piece_in_join) (simp add: set_splice_in)

lemma indented_in_before_marker:
  "before_marker m c False s = Some (s', b) \<Longrightarrow> \<exists>l. sublist (indented l c) s'"
  using splice_has by (auto simp: before_marker_def Let_def split: option.splits)

lemma indented_in_after_last_match:
  "after_last_match m c s = Some s' \<Longrightarrow> \<exists>l. sublist (indented l c) s'"
  using splice_has by (auto simp: after_last_match_def Let_def split: option.splits)

end
