(* ===== verification/Cli_Add.thy ===== *)
theory Cli_Add
  imports Cli_Files
begin

text \<open>
  The generators that extend an existing aggregate or projection:
  \<^verbatim>\<open>packages/cli/src/generators/add-command.ts\<close>, \<^verbatim>\<open>add-query.ts\<close>,
  \<^verbatim>\<open>add-event-handler.ts\<close> and the templates they write. Console output is left out. A path is
  a directory, a slash and a relative path, as \<^verbatim>\<open>path.join\<close> gives for normal paths.
\<close>

definition path_join :: "string \<Rightarrow> string \<Rightarrow> string" where
  "path_join dir rel = dir @ ''/'' @ rel"

definition basename :: "string \<Rightarrow> string" where
  "basename path = last (split_by (\<lambda>c. c = CHR ''/'') path)"

section \<open>Regular expressions\<close>

text \<open>\<^verbatim>\<open>/^\s+\w+: KEYWORD\w+,$/\<close>; each class ends where the next begins, so matching never
  backtracks.\<close>

definition entry_line :: "string \<Rightarrow> string \<Rightarrow> bool" where
  "entry_line keyword l \<longleftrightarrow>
     (let r = dropWhile js_space l; v = dropWhile word_char r; x = drop (length ('': '' @ keyword)) v;
          y = dropWhile word_char x
      in r \<noteq> l \<and> v \<noteq> r \<and> prefix ('': '' @ keyword) v \<and> y \<noteq> x \<and> y = '','')"

text \<open>\<^verbatim>\<open>/^\s+};$/\<close>, \<^verbatim>\<open>/^\s+reduce: on\w+,$/\<close> and \<^verbatim>\<open>/^\s+on:\s*\{$/\<close>\<close>

definition closing_line :: "string \<Rightarrow> bool" where
  "closing_line l \<longleftrightarrow> (let r = dropWhile js_space l in r \<noteq> l \<and> r = ''};'')"

definition reduce_line :: "string \<Rightarrow> bool" where
  "reduce_line l \<longleftrightarrow>
     (let r = dropWhile js_space l; x = drop (length ''reduce: on'') r; y = dropWhile word_char x
      in r \<noteq> l \<and> prefix ''reduce: on'' r \<and> y \<noteq> x \<and> y = '','')"

definition on_line :: "string \<Rightarrow> bool" where
  "on_line l \<longleftrightarrow>
     (let r = dropWhile js_space l
      in r \<noteq> l \<and> prefix ''on:'' r \<and> dropWhile js_space (drop (length ''on:'') r) = ''{'')"

section \<open>Commands\<close>

record add_command_context =
  ac_aggregate :: template_context
  ac_command :: template_context
  ac_eventName :: string
  ac_eventKebabName :: string

definition addCommandPayloadTemplate :: "add_command_context \<Rightarrow> string" where
  "addCommandPayloadTemplate ctx =
     unlines
       [''/** Payload for the '' @ tc_name (ac_command ctx) @ '' command. */'',
        ''export interface '' @ tc_name (ac_command ctx) @ ''Payload {'',
        ''  // TODO: add command payload fields'',
        ''}'', '''']"

definition import_definition :: "string \<Rightarrow> template_context \<Rightarrow> string list" where
  "import_definition handlerType owner =
     [''import type { '' @ handlerType @ '' } from '' @ dquoted ''@noddde/core'' @ '';'',
      ''import type { '' @ tc_name owner @ ''Def } from '' @ dquoted (''../'' @ tc_kebabName owner @ ''.js'') @ '';'',
      '''']"

definition addDeciderTemplate :: "add_command_context \<Rightarrow> string" where
  "addDeciderTemplate ctx =
     unlines
       (import_definition ''InferDecideHandler'' (ac_aggregate ctx) @
       [''/** Decides the '' @ tc_name (ac_command ctx) @ '' command. */'',
        ''export const decide'' @ tc_name (ac_command ctx) @ '': InferDecideHandler<'' @ tc_name (ac_aggregate ctx) @
          ''Def, '' @ dquoted (tc_name (ac_command ctx)) @ ''> = (command, _state) => ({'',
        ''  name: '' @ dquoted (ac_eventName ctx) @ '' as const,'',
        ''  payload: {'',
        ''    id: command.targetAggregateId,'',
        ''    // TODO: map command payload to event payload'',
        ''  },'',
        ''});'', ''''])"

definition addEvolverTemplate :: "add_command_context \<Rightarrow> string" where
  "addEvolverTemplate ctx =
     unlines
       (import_definition ''InferEvolveHandler'' (ac_aggregate ctx) @
       [''/** Evolves state for '' @ ac_eventName ctx @ ''. */'',
        ''export const evolve'' @ ac_eventName ctx @ '': InferEvolveHandler<'' @ tc_name (ac_aggregate ctx) @
          ''Def, '' @ dquoted (ac_eventName ctx) @ ''> = (_payload, state) => ({'',
        ''  ...state,'',
        ''  // TODO: evolve state from event payload'',
        ''});'', ''''])"

definition create_files :: "string \<Rightarrow> (string \<times> string) list \<Rightarrow> (files, unit) action" where
  "create_files dir newFiles =
     for_each (\<lambda>(relativePath, content).
       bind_act (writeFileIfNotExists (path_join dir relativePath) content) (\<lambda>_. ret ())) newFiles"

definition ignore_result :: "('s, 'a) action \<Rightarrow> ('s, unit) action" where
  "ignore_result m = bind_act m (\<lambda>_. ret ())"

definition aggregate_file :: "string \<Rightarrow> string" where
  "aggregate_file aggregateDir = path_join aggregateDir (tc_kebabName (buildContext (basename aggregateDir)) @ ''.ts'')"

definition command_files :: "add_command_context \<Rightarrow> (string \<times> string) list" where
  "command_files ctx =
     [(''commands/'' @ tc_kebabName (ac_command ctx) @ ''.ts'', addCommandPayloadTemplate ctx),
      (''deciders/decide-'' @ tc_kebabName (ac_command ctx) @ ''.ts'', addDeciderTemplate ctx),
      (''evolvers/evolve-'' @ ac_eventKebabName ctx @ ''.ts'', addEvolverTemplate ctx)]"

definition command_barrels :: "string \<Rightarrow> add_command_context \<Rightarrow> (files, unit) action" where
  "command_barrels aggregateDir ctx =
     (let command = ac_command ctx; eventName = ac_eventName ctx in
      then_act (appendToBarrel (path_join aggregateDir ''commands/index.ts'')
        (''export type { '' @ tc_name command @ ''Payload } from '' @ dquoted (''./'' @ tc_kebabName command @ ''.js'') @ '';''))
      (then_act (appendToBarrel (path_join aggregateDir ''deciders/index.ts'')
        (''export { decide'' @ tc_name command @ '' } from '' @ dquoted (''./decide-'' @ tc_kebabName command @ ''.js'') @ '';''))
      (appendToBarrel (path_join aggregateDir ''evolvers/index.ts'')
        (''export { evolve'' @ eventName @ '' } from '' @ dquoted (''./evolve-'' @ ac_eventKebabName ctx @ ''.js'') @ '';''))))"

definition command_imports :: "add_command_context \<Rightarrow> string" where
  "command_imports ctx =
     unlines
       [''import type { '' @ tc_name (ac_command ctx) @ ''Payload } from '' @
          dquoted (''./commands/'' @ tc_kebabName (ac_command ctx) @ ''.js'') @ '';'',
        ''import { decide'' @ tc_name (ac_command ctx) @ '' } from '' @ dquoted ''./deciders/index.js'' @ '';'',
        ''import { evolve'' @ ac_eventName ctx @ '' } from '' @ dquoted ''./evolvers/index.js'' @ '';'']"

definition wire_command :: "string \<Rightarrow> add_command_context \<Rightarrow> (files, unit) action" where
  "wire_command aggDefFile ctx =
     (let name = tc_name (ac_command ctx); eventName = ac_eventName ctx in
      then_act (insertImports aggDefFile (command_imports ctx))
      (then_act (ignore_result (insertBeforeMarker aggDefFile (TextMarker ''// TODO: add more commands'')
        (''  '' @ name @ '': '' @ name @ ''Payload;'') False))
      (then_act (ignore_result (insertBeforeMarker aggDefFile (TextMarker ''// TODO: add more events'')
        (''  '' @ eventName @ '': { id: string };'') False))
      (then_act (ignore_result (insertAfterLastMatch aggDefFile (Pattern (entry_line ''decide''))
        (''    '' @ name @ '': decide'' @ name @ '','')))
      (ignore_result (insertAfterLastMatch aggDefFile (Pattern (entry_line ''evolve''))
        (''    '' @ eventName @ '': evolve'' @ eventName @ '','')))))))"

definition addCommandToAggregate :: "string \<Rightarrow> string \<Rightarrow> string \<Rightarrow> (files, unit) action" where
  "addCommandToAggregate commandName aggregateDir eventName =
     then_act (lift_result (validateName commandName))
     (then_act (lift_result (validateName eventName))
     (let command = buildContext commandName;
          aggregate = buildContext (basename aggregateDir);
          ctx = \<lparr>ac_aggregate = aggregate, ac_command = command, ac_eventName = eventName,
                 ac_eventKebabName = toKebabCase eventName\<rparr>;
          aggDefFile = aggregate_file aggregateDir
      in bind_act (fileContains aggDefFile (tc_name command @ '':''))
           (\<lambda>present. if present then ret ()
              else then_act (create_files aggregateDir (command_files ctx))
                   (then_act (command_barrels aggregateDir ctx) (wire_command aggDefFile ctx)))))"

section \<open>Queries\<close>

record add_query_context =
  aq_projection :: template_context
  aq_query :: template_context

definition addQueryPayloadTemplate :: "add_query_context \<Rightarrow> string" where
  "addQueryPayloadTemplate ctx =
     unlines
       [''/** Payload for the '' @ tc_name (aq_query ctx) @ '' query. */'',
        ''export interface '' @ tc_name (aq_query ctx) @ ''Payload {'',
        ''  id: string;'',
        ''}'', '''']"

definition addQueryHandlerTemplate :: "add_query_context \<Rightarrow> string" where
  "addQueryHandlerTemplate ctx =
     (let projection = aq_projection ctx; query = aq_query ctx in
      unlines
       [''import type { InferProjectionQueryHandler } from '' @ dquoted ''@noddde/core'' @ '';'',
        ''import type { '' @ tc_name projection @ ''ProjectionDef } from '' @
          dquoted (''../'' @ tc_kebabName projection @ ''.js'') @ '';'',
        '''',
        ''/** Handles the '' @ tc_name query @ '' query. */'',
        ''export const handle'' @ tc_name query @ '': InferProjectionQueryHandler<'' @ tc_name projection @
          ''ProjectionDef, '' @ dquoted (tc_name query) @ ''> = async (query, { views }) =>'',
        ''  (await views.load(query.id)) ?? null;'', ''''])"

definition query_entry :: "add_query_context \<Rightarrow> string" where
  "query_entry ctx =
     unlines
       [''  '' @ tc_name (aq_query ctx) @ '': {'',
        ''    payload: '' @ tc_name (aq_query ctx) @ ''Payload;'',
        ''    result: '' @ tc_name (aq_projection ctx) @ ''View | null;'',
        ''  };'']"

definition update_queries :: "string \<Rightarrow> add_query_context \<Rightarrow> (files, unit) action" where
  "update_queries queriesIndex ctx =
     then_act (insertImports queriesIndex
       (''import type { '' @ tc_name (aq_query ctx) @ ''Payload } from '' @
          dquoted (''./'' @ tc_kebabName (aq_query ctx) @ ''.js'') @ '';''))
     (bind_act (fileContains queriesIndex ''payload:'') (\<lambda>queriesHasEntries.
        if queriesHasEntries
        then ignore_result (insertAfterLastMatch queriesIndex (Pattern closing_line) (query_entry ctx))
        else ignore_result (insertBeforeMarker queriesIndex (TextMarker ''}>'') (query_entry ctx) False)))"

definition wire_query :: "string \<Rightarrow> string \<Rightarrow> add_query_context \<Rightarrow> (files, unit) action" where
  "wire_query projectionDir projDefFile ctx =
     (let query = aq_query ctx in
      then_act (appendToBarrel (path_join projectionDir ''query-handlers/index.ts'')
        (''export { handle'' @ tc_name query @ '' } from '' @
           dquoted (''./handle-'' @ tc_kebabName query @ ''.js'') @ '';''))
      (then_act (insertImports projDefFile
        (''import { handle'' @ tc_name query @ '' } from '' @ dquoted ''./query-handlers/index.js'' @ '';''))
      (ignore_result (insertAfterLastMatch projDefFile (Pattern (entry_line ''handle''))
        (''    '' @ tc_name query @ '': handle'' @ tc_name query @ '','')))))"

definition addQueryToProjection :: "string \<Rightarrow> string \<Rightarrow> (files, unit) action" where
  "addQueryToProjection queryName projectionDir =
     then_act (lift_result (validateName queryName))
     (let query = buildContext queryName;
          projection = buildContext (basename projectionDir);
          ctx = \<lparr>aq_projection = projection, aq_query = query\<rparr>;
          projDefFile = path_join projectionDir (tc_kebabName projection @ ''.ts'')
      in bind_act (fileContains projDefFile (tc_name query @ '':'')) (\<lambda>present.
           if present then ret ()
           else then_act (create_files projectionDir
                  [(''queries/'' @ tc_kebabName query @ ''.ts'', addQueryPayloadTemplate ctx),
                   (''query-handlers/handle-'' @ tc_kebabName query @ ''.ts'', addQueryHandlerTemplate ctx)])
                (then_act (update_queries (path_join projectionDir ''queries/index.ts'') ctx)
                (wire_query projectionDir projDefFile ctx))))"

section \<open>Event handlers\<close>

record add_event_handler_context =
  ae_projection :: template_context
  ae_eventName :: string
  ae_eventKebabName :: string

definition addEventHandlerTemplate :: "add_event_handler_context \<Rightarrow> string" where
  "addEventHandlerTemplate ctx =
     (let projection = ae_projection ctx; eventName = ae_eventName ctx in
      unlines
       [''import type { '' @ tc_name projection @ ''View } from '' @ dquoted ''../queries/index.js'' @ '';'',
        '''',
        ''// TODO: once event types are wired in the projection def, replace with:'',
        ''// import type { InferProjectionEventHandler } from '' @ dquoted ''@noddde/core'' @ '';'',
        ''// import type { '' @ tc_name projection @ ''ProjectionDef } from '' @
          dquoted (''../'' @ tc_kebabName projection @ ''.js'') @ '';'',
        ''// export const on'' @ eventName @ '': InferProjectionEventHandler<'' @ tc_name projection @
          ''ProjectionDef, '' @ dquoted eventName @ ''> = { ... };'',
        '''',
        ''/** Reduces a '' @ eventName @ '' event into a view. */'',
        ''export function on'' @ eventName @ ''('',
        ''  event: { name: '' @ dquoted eventName @ ''; payload: Record<string, unknown> },'',
        ''  view: '' @ tc_name projection @ ''View,'',
        ''): '' @ tc_name projection @ ''View {'',
        ''  return {'',
        ''    ...view,'',
        ''    // TODO: update view fields from event payload'',
        ''  };'',
        ''}'', ''''])"

definition wire_event_handler :: "string \<Rightarrow> string \<Rightarrow> (files, unit) action" where
  "wire_event_handler projDefFile eventName =
     bind_act (insertAfterLastMatch projDefFile (Pattern reduce_line)
       (unlines [''  },'', ''    '' @ eventName @ '': {'', ''      reduce: on'' @ eventName @ '','']))
     (\<lambda>insertedAfterExisting.
        if \<not> insertedAfterExisting
        then ignore_result (insertAfterLastMatch projDefFile (Pattern on_line)
               (unlines [''    '' @ eventName @ '': {'', ''      reduce: on'' @ eventName @ '','', ''    },'']))
        else ret ())"

definition addEventHandlerToProjection :: "string \<Rightarrow> string \<Rightarrow> (files, unit) action" where
  "addEventHandlerToProjection eventName projectionDir =
     then_act (lift_result (validateName eventName))
     (let projection = buildContext (basename projectionDir);
          eventKebabName = toKebabCase eventName;
          ctx = \<lparr>ae_projection = projection, ae_eventName = eventName, ae_eventKebabName = eventKebabName\<rparr>;
          projDefFile = path_join projectionDir (tc_kebabName projection @ ''.ts'')
      in bind_act (fileContains projDefFile (''on'' @ eventName)) (\<lambda>present.
           if present then ret ()
           else then_act (create_files projectionDir [(''on-entries/on-'' @ eventKebabName @ ''.ts'', addEventHandlerTemplate ctx)])
                (then_act (appendToBarrel (path_join projectionDir ''on-entries/index.ts'')
                  (''export { on'' @ eventName @ '' } from '' @ dquoted (''./on-'' @ eventKebabName @ ''.js'') @ '';''))
                (then_act (insertImports projDefFile
                  (''import { on'' @ eventName @ '' } from '' @ dquoted ''./on-entries/index.js'' @ '';''))
                (wire_event_handler projDefFile eventName)))))"

section \<open>Texts that survive\<close>

text \<open>A file holds a text; a text of one line that ends in a visible character survives every edit.\<close>

definition holds :: "string \<Rightarrow> string \<Rightarrow> files \<Rightarrow> bool" where
  "holds x p fs \<longleftrightarrow> (\<exists>s. jm_get fs p = Some s \<and> sublist x s)"

definition solid :: "string \<Rightarrow> bool" where
  "solid x \<longleftrightarrow> x \<noteq> [] \<and> newline \<notin> set x \<and> \<not> js_space (last x)"

definition preserves :: "('s \<Rightarrow> bool) \<Rightarrow> ('s, 'a) action \<Rightarrow> bool" where
  "preserves P m \<longleftrightarrow> (\<forall>s. P s \<longrightarrow> P (snd (m s)))"

named_theorems preserving "actions that preserve what files hold"

lemma preservesD: "preserves P m \<Longrightarrow> P s \<Longrightarrow> m s = (r, s') \<Longrightarrow> P s'"
  unfolding preserves_def by (metis snd_conv)

lemma preserves_bind [preserving]:
  assumes "preserves P m" and "\<And>x. preserves P (f x)"
  shows "preserves P (bind_act m f)"
  unfolding preserves_def
proof (intro allI impI)
  fix s
  assume "P s"
  obtain r s1 where m: "m s = (r, s1)" by (cases "m s")
  with \<open>P s\<close> have "P s1" using preservesD [OF assms(1)] by blast
  with m show "P (snd (bind_act m f s))"
    using assms(2) by (cases r) (simp_all add: bind_act_def preserves_def)
qed

lemma preserves_then [preserving]: "preserves P m \<Longrightarrow> preserves P k \<Longrightarrow> preserves P (then_act m k)"
  by (simp add: then_act_def preserves_bind)

lemma preserves_ret [preserving]: "preserves P (ret x)" and preserves_lift [preserving]: "preserves P (lift_result r)"
  by (simp_all add: preserves_def act)

lemma preserves_if [preserving]: "preserves P m \<Longrightarrow> preserves P k \<Longrightarrow> preserves P (if b then m else k)"
  by simp

lemma preserves_ignore [preserving]: "preserves P m \<Longrightarrow> preserves P (ignore_result m)"
  unfolding ignore_result_def by (intro preserving)

lemma preserves_for_each [preserving]:
  assumes "\<And>x. preserves P (g x)"
  shows "preserves P (for_each g xs)"
proof -
  have "P s \<Longrightarrow> P (snd (for_each g xs s))" for s
  proof (induction xs arbitrary: s)
    case Nil
    then show ?case by simp
  next
    case (Cons x xs)
    obtain r s1 where g: "g x s = (r, s1)" by (cases "g x s")
    then have "P s1" using preservesD [OF assms] Cons.prems by blast
    with Cons.IH g show ?case by (cases r) simp_all
  qed
  then show ?thesis by (simp add: preserves_def)
qed

lemma preserves_read [preserving]: "preserves P (readFile p)"
  by (auto simp: preserves_def readFile_def split: option.splits)

lemma preserves_contains [preserving]: "preserves P (fileContains p x)"
  unfolding fileContains_def by (intro preserving)

lemma preserves_create [preserving]: "preserves (holds x p) (writeFileIfNotExists q c)"
  by (auto simp: preserves_def writeFileIfNotExists_def writeFile_def holds_def bind_act_def ret_def jm_has_iff)

text \<open>An edit that reads a file and writes what it makes of the content.\<close>

lemma preserves_edit:
  assumes "\<And>s s'. f s = Some s' \<Longrightarrow> sublist x s \<Longrightarrow> sublist x s'"
    and "\<And>fs. snd (m fs) = (case jm_get fs q of None \<Rightarrow> fs | Some s \<Rightarrow> (case f s of None \<Rightarrow> fs | Some s' \<Rightarrow> jm_set q s' fs))"
  shows "preserves (holds x p) m"
  unfolding preserves_def
proof (intro allI impI)
  fix fs
  assume h: "holds x p fs"
  show "holds x p (snd (m fs))"
  proof (cases "jm_get fs q")
    case None
    with h assms(2) [of fs] show ?thesis by simp
  next
    case (Some s)
    note s = this
    show ?thesis
    proof (cases "f s")
      case None
      with s h assms(2) [of fs] show ?thesis by simp
    next
      case (Some s')
      with s have m: "snd (m fs) = jm_set q s' fs" using assms(2) [of fs] by simp
      show ?thesis
      proof (cases "p = q")
        case True
        with h s have "sublist x s" by (simp add: holds_def)
        from assms(1) [OF Some this] True m show ?thesis by (simp add: holds_def)
      next
        case False
        with h m show ?thesis by (simp add: holds_def)
      qed
    qed
  qed
qed

lemma preserves_before [preserving]:
  assumes "solid x"
  shows "preserves (holds x p) (insertBeforeMarker q mk c False)"
proof (rule preserves_edit [where f = "\<lambda>s. map_option fst (before_marker mk c False s)" and q = q])
  show "sublist x s'" if "map_option fst (before_marker mk c False s) = Some s'" "sublist x s" for s s'
  proof -
    from that(1) obtain b where "before_marker mk c False s = Some (s', b)" by auto
    from before_marker_keeps [OF this that(2)] assms show ?thesis by (simp add: solid_def)
  qed
  show "snd (insertBeforeMarker q mk c False fs) =
      (case jm_get fs q of None \<Rightarrow> fs | Some s \<Rightarrow>
         (case map_option fst (before_marker mk c False s) of None \<Rightarrow> fs | Some s' \<Rightarrow> jm_set q s' fs))" for fs
    by (simp add: insertBeforeMarker_def readFile_def writeFile_def bind_act_def ret_def split: option.splits prod.splits)
qed

lemma preserves_after [preserving]:
  assumes "solid x"
  shows "preserves (holds x p) (insertAfterLastMatch q mk c)"
proof (rule preserves_edit [where f = "after_last_match mk c" and q = q])
  show "sublist x s'" if "after_last_match mk c s = Some s'" "sublist x s" for s s'
    using after_last_match_keeps [OF that] assms by (simp add: solid_def)
  show "snd (insertAfterLastMatch q mk c fs) =
      (case jm_get fs q of None \<Rightarrow> fs | Some s \<Rightarrow>
         (case after_last_match mk c s of None \<Rightarrow> fs | Some s' \<Rightarrow> jm_set q s' fs))" for fs
    by (simp add: insertAfterLastMatch_def readFile_def writeFile_def bind_act_def ret_def split: option.splits)
qed

lemma preserves_imports [preserving]:
  assumes "solid x"
  shows "preserves (holds x p) (insertImports q c)"
proof (rule preserves_edit [where f = "\<lambda>s. Some (with_imports c s)" and q = q])
  show "sublist x s'" if "Some (with_imports c s) = Some s'" "sublist x s" for s s'
    using that(1) with_imports_keeps [OF that(2)] assms by (auto simp: solid_def)
  show "snd (insertImports q c fs) =
      (case jm_get fs q of None \<Rightarrow> fs | Some s \<Rightarrow> (case Some (with_imports c s) of None \<Rightarrow> fs | Some s' \<Rightarrow> jm_set q s' fs))" for fs
    by (simp add: insertImports_def readFile_def writeFile_def bind_act_def split: option.splits)
qed

lemma trimEnd_keeps:
  assumes "sublist x s" and "solid x"
  shows "sublist x (trimEnd s)"
proof -
  obtain a b where s: "s = a @ x @ b" using assms(1) by (auto simp: sublist_def)
  have x: "rev x = last x # rev (butlast x)" using assms(2) unfolding solid_def
    by (metis append_butlast_last_id rev.simps(2) rev_append rev_swap rev_eq_Cons_iff)
  have "dropWhile js_space (rev b @ rev x @ rev a) = dropWhile js_space (rev b) @ rev x @ rev a"
  proof (cases "\<forall>c \<in> set (rev b). js_space c")
    case True
    then have none: "dropWhile js_space (rev b) = []" by simp
    have "dropWhile js_space (rev b @ rev x @ rev a) = dropWhile js_space (rev x @ rev a)"
      using True by (intro dropWhile_append2) auto
    also have "\<dots> = rev x @ rev a" using assms(2) by (simp add: x solid_def)
    finally show ?thesis using none by simp
  next
    case False
    then obtain c where "c \<in> set (rev b)" "\<not> js_space c" by blast
    then show ?thesis by (rule dropWhile_append1)
  qed
  then have "trimEnd s = a @ x @ rev (dropWhile js_space (rev b))" by (simp add: trimEnd_def s)
  then show ?thesis by simp
qed

lemma preserves_barrel [preserving]:
  assumes "solid x"
  shows "preserves (holds x p) (appendToBarrel q c)"
proof (rule preserves_edit [where f = "\<lambda>s. Some (with_export c s)" and q = q])
  show "sublist x s'" if "Some (with_export c s) = Some s'" "sublist x s" for s s'
    using that trimEnd_keeps [OF that(2) assms] by (auto simp: with_export_def sublist_append)
  show "snd (appendToBarrel q c fs) =
      (case jm_get fs q of None \<Rightarrow> fs | Some s \<Rightarrow> (case Some (with_export c s) of None \<Rightarrow> fs | Some s' \<Rightarrow> jm_set q s' fs))" for fs
    by (simp add: appendToBarrel_def readFile_def writeFile_def bind_act_def split: option.splits)
qed

lemma preserves_create_files [preserving]: "preserves (holds x p) (create_files d fs)"
proof -
  have "preserves (holds x p) (case e of (r, c) \<Rightarrow> bind_act (writeFileIfNotExists (path_join d r) c) (\<lambda>_. ret ()))" for e
    by (cases e) (simp, intro preserving)
  then show ?thesis unfolding create_files_def by (rule preserves_for_each)
qed

section \<open>Adding a command twice\<close>

lemma upper_char_space: "js_space (upper_char c) \<longleftrightarrow> js_space c"
proof (cases "97 \<le> (of_char c :: nat) \<and> (of_char c :: nat) \<le> 122")
  case True
  then have "(of_char c - 32 :: nat) < 256" by linarith
  then have "(of_char c - 32 :: nat) mod 256 = of_char c - 32" by (rule mod_less)
  with True have "(of_char (upper_char c) :: nat) = of_char c - 32" by (simp add: upper_char_def Let_def)
  moreover from this True have "65 \<le> (of_char (upper_char c) :: nat) \<and> (of_char (upper_char c) :: nat) \<le> 90" by linarith
  ultimately show ?thesis using True by (simp add: js_space_def Let_def)
next
  case False
  then have "upper_char c = c" by (auto simp: upper_char_def Let_def)
  then show ?thesis by simp
qed

lemma pascal_chars: "c \<in> set (toPascalCase s) \<Longrightarrow> \<not> js_space c"
  using word_chars(2) [of _ s]
  by (fastforce simp: toPascalCase_def capitalised_def upper_char_space upper_lower_classes split: list.splits)

lemma newline_space: "js_space newline" and colon_visible: "\<not> js_space (CHR '':'')" and space_space: "js_space (CHR '' '')"
  by code_simp+

lemma solid_entry:
  assumes "toPascalCase n \<noteq> []"
  shows "solid (toPascalCase n @ '':'')"
  using pascal_chars [of newline n] newline_space colon_visible by (auto simp: solid_def newline_def)

text \<open>The line that \<^verbatim>\<open>insertBeforeMarker\<close> adds for a command contains its name and a colon.\<close>

lemma command_line_inserted:
  assumes "toPascalCase n \<noteq> []" and "holds ''// TODO: add more commands'' p fs"
    and "insertBeforeMarker p (TextMarker ''// TODO: add more commands'')
      (''  '' @ toPascalCase n @ '': '' @ toPascalCase n @ ''Payload;'') False fs = (r, fs')"
  shows "holds (toPascalCase n @ '':'') p fs'"
proof -
  let ?name = "toPascalCase n" and ?mk = "''// TODO: add more commands''"
  let ?c = "''  '' @ ?name @ '': '' @ ?name @ ''Payload;''"
  obtain s where s: "jm_get fs p = Some s" "sublist ?mk s" using assms(2) by (auto simp: holds_def)
  have "newline \<notin> set ?mk" by code_simp
  with sublist_lines [of ?mk "lines_of s"] s(2)
  have "\<exists>l \<in> set (lines_of s). matches_line (TextMarker ?mk) l" by (auto simp: str_includes_sublist)
  then obtain s' b where s': "before_marker (TextMarker ?mk) ?c False s = Some (s', b)"
    using find_index_None [of "matches_line (TextMarker ?mk)" "lines_of s"]
    by (cases "find_index (matches_line (TextMarker ?mk)) (lines_of s)") (auto simp: before_marker_def Let_def)
  obtain l where l: "sublist (indented l ?c) s'" using indented_in_before_marker [OF s'] by blast
  obtain c cs where name: "?name = c # cs" using assms(1) by (cases ?name) auto
  have visible: "\<not> js_space c" using pascal_chars [of c n] name by simp
  have payload: "newline \<notin> set '': ''" "newline \<notin> set ''Payload;''" "newline \<notin> set ''  ''" by code_simp+
  have "newline \<notin> set ?name" using pascal_chars [of newline n] newline_space by blast
  with payload have one: "newline \<notin> set ?c" unfolding set_append by blast
  have "trimStart ?c = ?name @ '': '' @ ?name @ ''Payload;''"
    using visible space_space by (simp add: trimStart_def name)
  moreover have "sublist (?name @ '':'') (?name @ '': '' @ ?name @ ''Payload;'')"
    using sublist_append_rightI [of "?name @ '':''" "'' '' @ ?name @ ''Payload;''"] by simp
  ultimately have "sublist (?name @ '':'') (trimStart ?c)" by (simp only:)
  moreover have "\<exists>x \<in> set (?name @ '':''). \<not> js_space x" using visible name by simp
  ultimately have "sublist (?name @ '':'') (indented l ?c)"
    using one by (intro indented_line) simp_all
  with l have "sublist (?name @ '':'') s'" by (rule sublist_order.order.trans [rotated])
  moreover have "fs' = jm_set p s' fs"
    using assms(3) s(1) s'
    by (simp add: insertBeforeMarker_def readFile_def writeFile_def bind_act_def ret_def)
  ultimately show ?thesis by (simp add: holds_def)
qed

lemma then_act_Inr_cases:
  assumes "then_act m k s = (Inr x, s')"
  obtains u s1 where "m s = (Inr u, s1)" and "k s1 = (Inr x, s')"
  using assms by (cases "m s") (auto simp: then_act_def bind_act_def split: sum.splits)

lemma ignore_result_cases:
  assumes "ignore_result m s = (r, s')"
  obtains r1 where "m s = (r1, s')"
  using assms by (cases "m s") (auto simp: ignore_result_def bind_act_def ret_def split: sum.splits)

lemma wire_command_adds:
  assumes "tc_name (ac_command ctx) = toPascalCase n" and "toPascalCase n \<noteq> []"
    and "holds ''// TODO: add more commands'' p fs" and "wire_command p ctx fs = (Inr u, fs')"
  shows "holds (toPascalCase n @ '':'') p fs'"
proof -
  have marker: "solid ''// TODO: add more commands''" by code_simp
  note name = solid_entry [OF assms(2)]
  let ?insert = "insertBeforeMarker p (TextMarker ''// TODO: add more commands'')
    (''  '' @ toPascalCase n @ '': '' @ toPascalCase n @ ''Payload;'') False"
  let ?rest = "then_act (ignore_result (insertBeforeMarker p (TextMarker ''// TODO: add more events'')
        (''  '' @ ac_eventName ctx @ '': { id: string };'') False))
      (then_act (ignore_result (insertAfterLastMatch p (Pattern (entry_line ''decide''))
        (''    '' @ toPascalCase n @ '': decide'' @ toPascalCase n @ '','')))
      (ignore_result (insertAfterLastMatch p (Pattern (entry_line ''evolve''))
        (''    '' @ ac_eventName ctx @ '': evolve'' @ ac_eventName ctx @ '',''))))"
  from assms(4) obtain fs1 u1 where imps: "insertImports p (command_imports ctx) fs = (Inr u1, fs1)"
    and rest: "then_act (ignore_result ?insert) ?rest fs1 = (Inr u, fs')"
    unfolding wire_command_def Let_def assms(1) by (rule then_act_Inr_cases)
  have marked: "holds ''// TODO: add more commands'' p fs1"
    by (rule preservesD [OF preserves_imports [OF marker] assms(3) imps])
  from rest obtain fs2 u2 where ins: "ignore_result ?insert fs1 = (Inr u2, fs2)" and rest2: "?rest fs2 = (Inr u, fs')"
    by (rule then_act_Inr_cases)
  from ins obtain r1 where "?insert fs1 = (r1, fs2)" by (rule ignore_result_cases)
  from command_line_inserted [OF assms(2) marked this] have held: "holds (toPascalCase n @ '':'') p fs2" .
  have "preserves (holds (toPascalCase n @ '':'') p) ?rest" by (intro preserving name)
  from preservesD [OF this held rest2] show ?thesis .
qed

text \<open>C36: Adding a command twice changes nothing the second time. If the definition file of the
  aggregate has the marker for commands and the generator succeeds, then running it again with the
  same arguments succeeds and leaves every file as it is: no import, barrel export or handler entry
  is written twice.\<close>
theorem add_command_idempotent:
  assumes "addCommandToAggregate commandName aggregateDir eventName fs = (Inr (), fs')"
    and "holds ''// TODO: add more commands'' (aggregate_file aggregateDir) fs"
  shows "addCommandToAggregate commandName aggregateDir eventName fs' = (Inr (), fs')"
proof -
  let ?p = "aggregate_file aggregateDir" and ?name = "toPascalCase commandName"
  let ?ctx = "\<lparr>ac_aggregate = buildContext (basename aggregateDir), ac_command = buildContext commandName,
      ac_eventName = eventName, ac_eventKebabName = toKebabCase eventName\<rparr>"
  let ?make = "then_act (create_files aggregateDir (command_files ?ctx))
      (then_act (command_barrels aggregateDir ?ctx) (wire_command ?p ?ctx))"
  have tc: "tc_name (buildContext commandName) = ?name" by (simp add: buildContext_def)
  have valid: "validateName commandName = Inr ()" "validateName eventName = Inr ()"
    using assms(1) unfolding addCommandToAggregate_def
    by (auto elim!: then_act_Inr_cases simp: lift_result_def)
  have run: "addCommandToAggregate commandName aggregateDir eventName s =
      bind_act (fileContains ?p (?name @ '':'')) (\<lambda>present. if present then ret () else ?make) s" for s
    by (simp add: addCommandToAggregate_def valid then_act_def act tc Let_def)
  have present: "bind_act (fileContains ?p (?name @ '':'')) (\<lambda>present. if present then ret () else ?make) s = (Inr (), s)"
    if "holds (?name @ '':'') ?p s" for s
    using that by (auto simp: holds_def fileContains_def readFile_def bind_act_def ret_def str_includes_sublist)
  obtain s where s: "jm_get fs ?p = Some s" using assms(2) by (auto simp: holds_def)
  show ?thesis
  proof (cases "holds (?name @ '':'') ?p fs")
    case True
    then have "fs' = fs" using assms(1) present by (simp add: run)
    with True show ?thesis by (simp add: run present)
  next
    case False
    then have "fileContains ?p (?name @ '':'') fs = (Inr False, fs)"
      using s by (simp add: fileContains_def readFile_def bind_act_def ret_def holds_def str_includes_sublist)
    then have "?make fs = (Inr (), fs')" using assms(1) by (simp add: run bind_act_def)
    then obtain u1 fs1 where c: "create_files aggregateDir (command_files ?ctx) fs = (Inr u1, fs1)"
      and r: "then_act (command_barrels aggregateDir ?ctx) (wire_command ?p ?ctx) fs1 = (Inr (), fs')"
      by (rule then_act_Inr_cases)
    from r obtain u2 fs2 where b: "command_barrels aggregateDir ?ctx fs1 = (Inr u2, fs2)"
      and w: "wire_command ?p ?ctx fs2 = (Inr (), fs')" by (rule then_act_Inr_cases)
    have marker: "solid ''// TODO: add more commands''" by code_simp
    have marked: "holds ''// TODO: add more commands'' ?p fs1"
      by (rule preservesD [OF preserves_create_files assms(2) c])
    have "preserves (holds ''// TODO: add more commands'' ?p) (command_barrels aggregateDir ?ctx)"
      unfolding command_barrels_def Let_def by (intro preserving marker)
    from preservesD [OF this marked b] have "holds ''// TODO: add more commands'' ?p fs2" .
    from wire_command_adds [OF _ validated_name_nonempty [OF valid(1)] this w] tc
    have "holds (?name @ '':'') ?p fs'" by simp
    then show ?thesis by (simp add: run present)
  qed
qed

definition sample_files :: files where
  "sample_files =
     [(''auction/auction.ts'', ''// TODO: add more commands''), (''auction/commands/index.ts'', ''''),
      (''auction/deciders/index.ts'', ''''), (''auction/evolvers/index.ts'', '''')]"

theorem add_command_idempotent_witness:
  "\<exists>fs'. addCommandToAggregate ''Bid'' ''auction'' ''Bad'' sample_files = (Inr (), fs') \<and> length fs' = 7 \<and>
     addCommandToAggregate ''Bid'' ''auction'' ''Bad'' fs' = (Inr (), fs')"
proof -
  obtain r fs' where run: "addCommandToAggregate ''Bid'' ''auction'' ''Bad'' sample_files = (r, fs')"
    by (cases "addCommandToAggregate ''Bid'' ''auction'' ''Bad'' sample_files")
  have "fst (addCommandToAggregate ''Bid'' ''auction'' ''Bad'' sample_files) = Inr () \<and>
      length (snd (addCommandToAggregate ''Bid'' ''auction'' ''Bad'' sample_files)) = 7"
    by code_simp
  with run have ok: "addCommandToAggregate ''Bid'' ''auction'' ''Bad'' sample_files = (Inr (), fs')" "length fs' = 7"
    by simp_all
  have "aggregate_file ''auction'' = ''auction/auction.ts''" by code_simp
  then have "holds ''// TODO: add more commands'' (aggregate_file ''auction'') sample_files"
    by (simp add: holds_def sample_files_def jm_get_def)
  from add_command_idempotent [OF ok(1) this] ok show ?thesis by blast
qed

text \<open>The check looks for the name anywhere in the file: a command whose name ends the name of an
  existing one is taken for present, and nothing is generated.\<close>

lemma suffix_command_skipped:
  "addCommandToAggregate ''Bid'' ''auction'' ''BidMade'' [(''auction/auction.ts'', ''  PlaceBid: PlaceBidPayload;'')] =
     (Inr (), [(''auction/auction.ts'', ''  PlaceBid: PlaceBidPayload;'')])"
  by code_simp

text \<open>Without the marker and without a handler entry, the second run repeats the exports.\<close>

lemma unmarked_command_repeats:
  "let fs = [(''a/a.ts'', ''''), (''a/commands/index.ts'', ''''), (''a/deciders/index.ts'', ''''), (''a/evolvers/index.ts'', '''')];
       fs1 = snd (addCommandToAggregate ''B'' ''a'' ''C'' fs);
       fs2 = snd (addCommandToAggregate ''B'' ''a'' ''C'' fs1)
   in length (lines_of (the (jm_get fs1 ''a/deciders/index.ts''))) = 3 \<and>
      length (lines_of (the (jm_get fs2 ''a/deciders/index.ts''))) = 4"
  by code_simp

text \<open>So with event handlers, for a name that begins the name of an existing handler.\<close>

lemma prefix_event_handler_skipped:
  "addEventHandlerToProjection ''Bid'' ''p'' [(''p/p.ts'', ''      reduce: onBidPlaced,'')] =
     (Inr (), [(''p/p.ts'', ''      reduce: onBidPlaced,'')])"
  by code_simp

end
