(* ===== verification/Diagram.thy ===== *)
theory Diagram
  imports Cli_Files "HOL-Library.Multiset"
begin

text \<open>
  The flow diagrams of \<^verbatim>\<open>packages/cli/src/diagram\<close>: \<^verbatim>\<open>introspect.ts\<close> turns a domain
  definition into a graph, \<^verbatim>\<open>build-graph.ts\<close> adds the commands that sagas dispatch and filters,
  \<^verbatim>\<open>emit-mermaid.ts\<close> and \<^verbatim>\<open>emit-dot.ts\<close> print it. Of a definition only the keys matter.
  The static analysis of saga commands runs the TypeScript compiler and is a parameter.
\<close>

section \<open>Graphs\<close>

datatype graph_node_kind = CommandNode | EventNode | QueryNode | AggregateNode | ProjectionNode | SagaNode

datatype graph_node_model = WriteModel | ReadModel | ProcessModel | ExternalModel

record graph_node =
  gn_id :: string
  gn_label :: string
  gn_kind :: graph_node_kind
  gn_model :: graph_node_model

datatype graph_edge_source = RuntimeEdge | StaticEdge

record graph_edge =
  ge_from :: string
  ge_to :: string
  ge_source :: graph_edge_source

record domain_graph =
  dg_nodes :: "graph_node list"
  dg_edges :: "graph_edge list"
  dg_warnings :: "string list"

definition kind_name :: "graph_node_kind \<Rightarrow> string" where
  "kind_name k =
     (case k of CommandNode \<Rightarrow> ''command'' | EventNode \<Rightarrow> ''event'' | QueryNode \<Rightarrow> ''query''
      | AggregateNode \<Rightarrow> ''aggregate'' | ProjectionNode \<Rightarrow> ''projection'' | SagaNode \<Rightarrow> ''saga'')"

definition nodeId :: "graph_node_kind \<Rightarrow> string \<Rightarrow> string" where
  "nodeId kind name = kind_name kind @ '':'' @ name"

definition node_of :: "graph_node_kind \<Rightarrow> string \<Rightarrow> graph_node_model \<Rightarrow> graph_node" where
  "node_of kind name model = \<lparr>gn_id = nodeId kind name, gn_label = name, gn_kind = kind, gn_model = model\<rparr>"

lemma nodeId_inject [simp]: "nodeId k n = nodeId k' n' \<longleftrightarrow> k = k' \<and> n = n'"
  by (cases k; cases k'; simp add: nodeId_def kind_name_def)

lemma gn_id_node_of [simp]: "gn_id (node_of k n m) = nodeId k n"
  by (simp add: node_of_def)

section \<open>Introspection\<close>

text \<open>The keys of the handler objects; an entry may be \<^verbatim>\<open>undefined\<close>.\<close>

record aggregate_shape =
  sh_decide :: "string list"
  sh_evolve :: "string list"

record projection_shape =
  sh_on :: "string list"
  sh_queryHandlers :: "string list"

record saga_shape =
  sh_startedBy :: "string list"
  sh_sagaOn :: "string list"

record domain_shape =
  sh_aggregates :: "(string \<times> aggregate_shape option) list"
  sh_projections :: "(string \<times> projection_shape option) list"
  sh_sagas :: "(string \<times> saga_shape option) list"

record introspection =
  in_nodes :: "(string, graph_node) jmap"
  in_edges :: "graph_edge list"

definition ensureNode :: "graph_node \<Rightarrow> introspection \<Rightarrow> introspection" where
  "ensureNode n st =
     (case jm_get (in_nodes st) (gn_id n) of
        Some _ \<Rightarrow> st
      | None \<Rightarrow> st\<lparr>in_nodes := jm_set (gn_id n) n (in_nodes st)\<rparr>)"

definition runtime_edge :: "string \<Rightarrow> string \<Rightarrow> graph_edge" where
  "runtime_edge a b = \<lparr>ge_from = a, ge_to = b, ge_source = RuntimeEdge\<rparr>"

text \<open>One turn of an inner loop: the node, then the edge.\<close>

definition link :: "graph_node \<Rightarrow> string \<Rightarrow> string \<Rightarrow> introspection \<Rightarrow> introspection" where
  "link n a b st = (let st1 = ensureNode n st in st1\<lparr>in_edges := in_edges st1 @ [runtime_edge a b]\<rparr>)"

definition introspect_aggregate :: "string \<times> aggregate_shape option \<Rightarrow> introspection \<Rightarrow> introspection" where
  "introspect_aggregate entry st =
     (case entry of
        (aggregateName, None) \<Rightarrow> st
      | (aggregateName, Some aggregate) \<Rightarrow>
          let aggId = nodeId AggregateNode aggregateName;
              st1 = ensureNode (node_of AggregateNode aggregateName WriteModel) st;
              st2 = fold (\<lambda>c. link (node_of CommandNode c WriteModel) (nodeId CommandNode c) aggId)
                      (sh_decide aggregate) st1
          in fold (\<lambda>e. link (node_of EventNode e WriteModel) aggId (nodeId EventNode e)) (sh_evolve aggregate) st2)"

definition introspect_projection :: "string \<times> projection_shape option \<Rightarrow> introspection \<Rightarrow> introspection" where
  "introspect_projection entry st =
     (case entry of
        (projectionName, None) \<Rightarrow> st
      | (projectionName, Some projection) \<Rightarrow>
          let projId = nodeId ProjectionNode projectionName;
              st1 = ensureNode (node_of ProjectionNode projectionName ReadModel) st;
              st2 = fold (\<lambda>e. link (node_of EventNode e WriteModel) (nodeId EventNode e) projId)
                      (sh_on projection) st1
          in fold (\<lambda>q. link (node_of QueryNode q ReadModel) (nodeId QueryNode q) projId)
               (sh_queryHandlers projection) st2)"

text \<open>A \<^verbatim>\<open>Set\<close> built from a list iterates over first occurrences.\<close>

definition set_of_list :: "string list \<Rightarrow> string list" where
  "set_of_list xs = fold (\<lambda>x acc. if x \<in> set acc then acc else acc @ [x]) xs []"

definition introspect_saga :: "string \<times> saga_shape option \<Rightarrow> introspection \<Rightarrow> introspection" where
  "introspect_saga entry st =
     (case entry of
        (sagaName, None) \<Rightarrow> st
      | (sagaName, Some sg) \<Rightarrow>
          let sagaIdValue = nodeId SagaNode sagaName;
              st1 = ensureNode (node_of SagaNode sagaName ProcessModel) st;
              triggerEvents = set_of_list (sh_startedBy sg @ sh_sagaOn sg)
          in fold (\<lambda>e. link (node_of EventNode e WriteModel) (nodeId EventNode e) sagaIdValue) triggerEvents st1)"

definition introspectDomain :: "domain_shape \<Rightarrow> introspection" where
  "introspectDomain d =
     fold introspect_saga (sh_sagas d)
       (fold introspect_projection (sh_projections d)
         (fold introspect_aggregate (sh_aggregates d) \<lparr>in_nodes = [], in_edges = []\<rparr>))"

subsection \<open>What the edges are\<close>

definition aggregate_edges :: "string \<times> aggregate_shape option \<Rightarrow> graph_edge list" where
  "aggregate_edges entry =
     (case entry of
        (n, None) \<Rightarrow> []
      | (n, Some a) \<Rightarrow> map (\<lambda>c. runtime_edge (nodeId CommandNode c) (nodeId AggregateNode n)) (sh_decide a) @
          map (\<lambda>e. runtime_edge (nodeId AggregateNode n) (nodeId EventNode e)) (sh_evolve a))"

definition projection_edges :: "string \<times> projection_shape option \<Rightarrow> graph_edge list" where
  "projection_edges entry =
     (case entry of
        (n, None) \<Rightarrow> []
      | (n, Some p) \<Rightarrow> map (\<lambda>e. runtime_edge (nodeId EventNode e) (nodeId ProjectionNode n)) (sh_on p) @
          map (\<lambda>q. runtime_edge (nodeId QueryNode q) (nodeId ProjectionNode n)) (sh_queryHandlers p))"

definition saga_edges :: "string \<times> saga_shape option \<Rightarrow> graph_edge list" where
  "saga_edges entry =
     (case entry of
        (n, None) \<Rightarrow> []
      | (n, Some s) \<Rightarrow> map (\<lambda>e. runtime_edge (nodeId EventNode e) (nodeId SagaNode n))
          (set_of_list (sh_startedBy s @ sh_sagaOn s)))"

lemma in_edges_ensure [simp]: "in_edges (ensureNode n st) = in_edges st"
  by (simp add: ensureNode_def split: option.splits)

lemma in_edges_link [simp]: "in_edges (link n a b st) = in_edges st @ [runtime_edge a b]"
  by (simp add: link_def Let_def)

lemma in_nodes_link [simp]: "in_nodes (link n a b st) = in_nodes (ensureNode n st)"
  by (simp add: link_def Let_def)

lemma in_edges_links: "in_edges (fold (\<lambda>x. link (n x) (a x) (b x)) xs st) = in_edges st @ map (\<lambda>x. runtime_edge (a x) (b x)) xs"
  by (induction xs arbitrary: st) simp_all

lemma fold_edges:
  assumes "\<And>x st. in_edges (f x st) = in_edges st @ g x"
  shows "in_edges (fold f xs st) = in_edges st @ concat (map g xs)"
  by (induction xs arbitrary: st) (simp_all add: assms)

text \<open>The graph has one edge per handler key and no other, in the order of the definition.\<close>

lemma introspect_edges:
  "in_edges (introspectDomain d) =
     concat (map aggregate_edges (sh_aggregates d)) @ concat (map projection_edges (sh_projections d)) @
     concat (map saga_edges (sh_sagas d))"
proof -
  have "in_edges (introspect_aggregate x st) = in_edges st @ aggregate_edges x" for x st
    by (simp add: introspect_aggregate_def aggregate_edges_def in_edges_links Let_def split: prod.splits option.splits)
  moreover have "in_edges (introspect_projection x st) = in_edges st @ projection_edges x" for x st
    by (simp add: introspect_projection_def projection_edges_def in_edges_links Let_def split: prod.splits option.splits)
  moreover have "in_edges (introspect_saga x st) = in_edges st @ saga_edges x" for x st
    by (simp add: introspect_saga_def saga_edges_def in_edges_links Let_def split: prod.splits option.splits)
  ultimately show ?thesis
    by (simp add: introspectDomain_def fold_edges [where g = aggregate_edges] fold_edges [where g = projection_edges]
        fold_edges [where g = saga_edges])
qed

lemma set_of_list_eq: "set (set_of_list xs) = set xs"
proof -
  have "set (fold (\<lambda>x acc. if x \<in> set acc then acc else acc @ [x]) xs acc) = set acc \<union> set xs" for acc
    by (induction xs arbitrary: acc) (auto simp: insert_absorb)
  then show ?thesis by (simp add: set_of_list_def)
qed

lemma set_of_list_distinct: "distinct (set_of_list xs)"
proof -
  have "distinct acc \<Longrightarrow> distinct (fold (\<lambda>x acc. if x \<in> set acc then acc else acc @ [x]) xs acc)" for acc
    by (induction xs arbitrary: acc) simp_all
  then show ?thesis by (simp add: set_of_list_def)
qed

subsection \<open>Well-formed introspections\<close>

text \<open>Node identifiers are unique and canonical, and every edge joins nodes of the graph.\<close>

abbreviation ids :: "introspection \<Rightarrow> string set" where
  "ids st \<equiv> fst ` set (in_nodes st)"

definition canonical :: "graph_node \<Rightarrow> bool" where
  "canonical n \<longleftrightarrow> gn_id n = nodeId (gn_kind n) (gn_label n)"

definition intro_ok :: "introspection \<Rightarrow> bool" where
  "intro_ok st \<longleftrightarrow> jm_ok (in_nodes st) \<and> (\<forall>(i, n) \<in> set (in_nodes st). i = gn_id n \<and> canonical n) \<and>
     (\<forall>e \<in> set (in_edges st). ge_from e \<in> ids st \<and> ge_to e \<in> ids st)"

lemma canonical_node_of [simp]: "canonical (node_of k n m)"
  by (simp add: canonical_def node_of_def)

lemma ensure_nodes:
  "in_nodes (ensureNode n st) = (if gn_id n \<in> ids st then in_nodes st else in_nodes st @ [(gn_id n, n)])"
proof (cases "jm_get (in_nodes st) (gn_id n)")
  case None
  then have "gn_id n \<notin> ids st" by (simp add: jm_get_def map_of_eq_None_iff)
  with None show ?thesis by (simp add: ensureNode_def jm_set_new)
next
  case (Some m)
  then have "gn_id n \<in> ids st" unfolding jm_get_def by (metis domI dom_map_of_conv_image_fst)
  with Some show ?thesis by (simp add: ensureNode_def)
qed

lemma ids_ensure [simp]: "ids (ensureNode n st) = insert (gn_id n) (ids st)"
  by (auto simp: ensure_nodes)

lemma ids_link [simp]: "ids (link n a b st) = insert (gn_id n) (ids st)"
  unfolding in_nodes_link by (rule ids_ensure)

lemma ids_links: "ids (fold (\<lambda>x. link (n x) (a x) (b x)) xs st) = ids st \<union> (\<lambda>x. gn_id (n x)) ` set xs"
  by (induction xs arbitrary: st) (auto simp del: in_nodes_link)

lemma intro_ok_ensure: "intro_ok st \<Longrightarrow> canonical n \<Longrightarrow> intro_ok (ensureNode n st)"
  by (auto simp: intro_ok_def ensure_nodes jm_ok_def)

lemma intro_ok_link:
  assumes "intro_ok st" and "canonical n" and "a \<in> insert (gn_id n) (ids st)" and "b \<in> insert (gn_id n) (ids st)"
  shows "intro_ok (link n a b st)"
proof -
  have ok: "intro_ok (ensureNode n st)" by (rule intro_ok_ensure [OF assms(1,2)])
  have "a \<in> ids (ensureNode n st)" "b \<in> ids (ensureNode n st)"
    using assms(3,4) unfolding ids_ensure by simp_all
  with ok show ?thesis unfolding intro_ok_def in_nodes_link in_edges_link
    by (auto simp: runtime_edge_def)
qed

lemma intro_ok_links:
  assumes "intro_ok st" and "\<And>x. canonical (n x)"
    and "\<And>x. a x \<in> insert (gn_id (n x)) (ids st)" and "\<And>x. b x \<in> insert (gn_id (n x)) (ids st)"
  shows "intro_ok (fold (\<lambda>x. link (n x) (a x) (b x)) xs st)"
  using assms(1,3,4)
proof (induction xs arbitrary: st)
  case Nil
  then show ?case by simp
next
  case (Cons x xs)
  have "intro_ok (link (n x) (a x) (b x) st)"
    by (rule intro_ok_link [OF Cons.prems(1) assms(2) Cons.prems(2,3)])
  moreover have "a y \<in> insert (gn_id (n y)) (ids (link (n x) (a x) (b x) st))" for y
    using Cons.prems(2) [of y] unfolding ids_link by blast
  moreover have "b y \<in> insert (gn_id (n y)) (ids (link (n x) (a x) (b x) st))" for y
    using Cons.prems(3) [of y] unfolding ids_link by blast
  ultimately show ?case using Cons.IH by simp
qed

lemma fold_intro_ok:
  assumes "\<And>x st. intro_ok st \<Longrightarrow> intro_ok (f x st)" and "intro_ok st"
  shows "intro_ok (fold f xs st)"
  using assms(2) by (induction xs arbitrary: st) (simp_all add: assms(1))

lemma intro_ok_parts:
  assumes "intro_ok st"
  shows "intro_ok (introspect_aggregate a st)" "intro_ok (introspect_projection p st)" "intro_ok (introspect_saga s st)"
proof -
  have start: "intro_ok (ensureNode (node_of k n m) st)" for k n m by (rule intro_ok_ensure [OF assms]) simp
  show "intro_ok (introspect_aggregate a st)"
    using assms by (auto simp: introspect_aggregate_def Let_def ids_links intro!: intro_ok_links start
        simp del: in_nodes_link split: prod.splits option.splits)
  show "intro_ok (introspect_projection p st)"
    using assms by (auto simp: introspect_projection_def Let_def ids_links intro!: intro_ok_links start
        simp del: in_nodes_link split: prod.splits option.splits)
  show "intro_ok (introspect_saga s st)"
    using assms by (auto simp: introspect_saga_def Let_def intro!: intro_ok_links start
        simp del: in_nodes_link split: prod.splits option.splits)
qed

lemma introspect_ok: "intro_ok (introspectDomain d)"
proof -
  have "intro_ok \<lparr>in_nodes = [], in_edges = []\<rparr>" by (simp add: intro_ok_def)
  then show ?thesis unfolding introspectDomain_def by (intro fold_intro_ok intro_ok_parts)
qed

lemma saga_node_ids:
  "nodeId SagaNode s \<in> ids (introspectDomain d) \<longleftrightarrow> (\<exists>sg. (s, Some sg) \<in> set (sh_sagas d))"
proof -
  have agg: "nodeId SagaNode s \<in> ids (fold introspect_aggregate xs st) \<longleftrightarrow> nodeId SagaNode s \<in> ids st" for xs st
    by (induction xs arbitrary: st)
      (auto simp: introspect_aggregate_def Let_def ids_links simp del: in_nodes_link split: prod.splits option.splits)
  have proj: "nodeId SagaNode s \<in> ids (fold introspect_projection xs st) \<longleftrightarrow> nodeId SagaNode s \<in> ids st" for xs st
    by (induction xs arbitrary: st)
      (auto simp: introspect_projection_def Let_def ids_links simp del: in_nodes_link split: prod.splits option.splits)
  have saga: "nodeId SagaNode s \<in> ids (introspect_saga x st) \<longleftrightarrow>
      nodeId SagaNode s \<in> ids st \<or> (\<exists>sg. x = (s, Some sg))" for x st
    by (auto simp: introspect_saga_def Let_def ids_links simp del: in_nodes_link split: prod.splits option.splits)
  have "nodeId SagaNode s \<in> ids (fold introspect_saga xs st) \<longleftrightarrow>
      nodeId SagaNode s \<in> ids st \<or> (\<exists>sg. (s, Some sg) \<in> set xs)" for xs st
    by (induction xs arbitrary: st) (auto simp: saga)
  then show ?thesis by (simp add: introspectDomain_def agg proj)
qed

section \<open>Saga commands and filters\<close>

datatype diagram_scope = WriteScope | ReadScope | ProcessScope | AllScope

record diagram_options =
  do_scope :: "diagram_scope option"
  do_hideIsolated :: "bool option"

record building =
  bd_index :: "(string, graph_node) jmap"
  bd_nodes :: "graph_node list"
  bd_edges :: "graph_edge list"
  bd_warnings :: "string list"

definition add_saga_command :: "string \<Rightarrow> string \<Rightarrow> building \<Rightarrow> building" where
  "add_saga_command sagaKey commandName st =
     (let cmdId = nodeId CommandNode commandName;
          externalNode = node_of CommandNode commandName ExternalModel;
          st1 = (if jm_has (bd_index st) cmdId then st
                 else st\<lparr>bd_index := jm_set cmdId externalNode (bd_index st),
                         bd_nodes := bd_nodes st @ [externalNode],
                         bd_warnings := bd_warnings st @ [''Saga '' @ sagaKey @ '' dispatches command '' @ commandName @
                           '', but no aggregate handles it. Marked as external.'']\<rparr>)
      in st1\<lparr>bd_edges := bd_edges st1 @
           [\<lparr>ge_from = nodeId SagaNode sagaKey, ge_to = cmdId, ge_source = StaticEdge\<rparr>]\<rparr>)"

definition add_saga :: "string \<times> string list \<Rightarrow> building \<Rightarrow> building" where
  "add_saga entry st =
     (case entry of (sagaKey, commandNames) \<Rightarrow>
        if \<not> jm_has (bd_index st) (nodeId SagaNode sagaKey) then st
        else fold (add_saga_command sagaKey) commandNames st)"

definition scopeAllowedModels :: "diagram_scope \<Rightarrow> graph_node_model list" where
  "scopeAllowedModels scope =
     (case scope of
        WriteScope \<Rightarrow> [WriteModel]
      | ReadScope \<Rightarrow> [ReadModel, WriteModel]
      | ProcessScope \<Rightarrow> [ProcessModel, WriteModel]
      | AllScope \<Rightarrow> [WriteModel, ReadModel, ProcessModel])"

definition scopeAllowedKinds :: "diagram_scope \<Rightarrow> graph_node_kind list" where
  "scopeAllowedKinds scope =
     (case scope of
        WriteScope \<Rightarrow> [CommandNode, AggregateNode, EventNode]
      | ReadScope \<Rightarrow> [EventNode, ProjectionNode, QueryNode]
      | ProcessScope \<Rightarrow> [EventNode, SagaNode, CommandNode]
      | AllScope \<Rightarrow> [CommandNode, EventNode, QueryNode, AggregateNode, ProjectionNode, SagaNode])"

definition keep_edges :: "graph_node list \<Rightarrow> graph_edge list \<Rightarrow> graph_edge list" where
  "keep_edges nodes edges =
     (let keptIds = map gn_id nodes in filter (\<lambda>e. ge_from e \<in> set keptIds \<and> ge_to e \<in> set keptIds) edges)"

definition scope_filter :: "diagram_scope \<Rightarrow> graph_node list \<times> graph_edge list \<Rightarrow> graph_node list \<times> graph_edge list" where
  "scope_filter scope g =
     (if scope = AllScope then g
      else let filteredNodes = filter (\<lambda>n. (gn_model n \<in> set (scopeAllowedModels scope) \<or> gn_model n = ExternalModel) \<and>
                 gn_kind n \<in> set (scopeAllowedKinds scope)) (fst g)
           in (filteredNodes, keep_edges filteredNodes (snd g)))"

definition count_edge :: "string \<Rightarrow> (string, nat) jmap \<Rightarrow> (string, nat) jmap" where
  "count_edge i degree = jm_set i ((case jm_get degree i of None \<Rightarrow> 0 | Some k \<Rightarrow> k) + 1) degree"

definition degrees :: "graph_edge list \<Rightarrow> (string, nat) jmap" where
  "degrees edges = fold (\<lambda>e degree. count_edge (ge_to e) (count_edge (ge_from e) degree)) edges []"

definition isolated_filter :: "graph_node list \<times> graph_edge list \<Rightarrow> graph_node list \<times> graph_edge list" where
  "isolated_filter g =
     (let degree = degrees (snd g);
          filteredNodes = filter (\<lambda>n. (case jm_get degree (gn_id n) of None \<Rightarrow> 0 | Some k \<Rightarrow> k) > 0) (fst g)
      in (filteredNodes, keep_edges filteredNodes (snd g)))"

text \<open>\<open>analyze\<close> is \<^verbatim>\<open>analyzeSagaCommands\<close> of the entry file: the commands of each saga and its
  warnings.\<close>

definition saga_commands ::
  "(string list \<Rightarrow> (string \<times> string list) list \<times> string list) \<Rightarrow> (string \<times> string list) list option \<Rightarrow>
     string list \<Rightarrow> (string \<times> string list) list \<times> string list" where
  "saga_commands analyze injectedSagaCommands sagaKeys =
     (case injectedSagaCommands of
        Some commands \<Rightarrow> (commands, [])
      | None \<Rightarrow> if length sagaKeys = 0 then ([], []) else analyze sagaKeys)"

definition buildDomainGraph ::
  "(string list \<Rightarrow> (string \<times> string list) list \<times> string list) \<Rightarrow> domain_shape \<Rightarrow> diagram_options \<Rightarrow>
     (string \<times> string list) list option \<Rightarrow> domain_graph" where
  "buildDomainGraph analyze d options injectedSagaCommands =
     (let scope = (case do_scope options of None \<Rightarrow> AllScope | Some sc \<Rightarrow> sc);
          hideIsolated = (case do_hideIsolated options of None \<Rightarrow> False | Some b \<Rightarrow> b);
          st = introspectDomain d;
          (commands, warnings) = saga_commands analyze injectedSagaCommands (map fst (sh_sagas d));
          built = fold add_saga commands
            \<lparr>bd_index = in_nodes st, bd_nodes = map snd (in_nodes st), bd_edges = in_edges st, bd_warnings = warnings\<rparr>;
          scoped = scope_filter scope (bd_nodes built, bd_edges built);
          filtered = (if hideIsolated then isolated_filter scoped else scoped)
      in \<lparr>dg_nodes = fst filtered, dg_edges = snd filtered,
          dg_warnings = bd_warnings built @
            (if length (sh_aggregates d) = 0
             then [''Domain has no aggregates; the diagram will be missing the write model.''] else [])\<rparr>)"

subsection \<open>Closed graphs\<close>

definition closed_graph :: "graph_node list \<times> graph_edge list \<Rightarrow> bool" where
  "closed_graph g \<longleftrightarrow> distinct (map gn_id (fst g)) \<and> list_all canonical (fst g) \<and>
     (\<forall>e \<in> set (snd g). ge_from e \<in> gn_id ` set (fst g) \<and> ge_to e \<in> gn_id ` set (fst g))"

definition building_ok :: "building \<Rightarrow> bool" where
  "building_ok st \<longleftrightarrow> map fst (bd_index st) = map gn_id (bd_nodes st) \<and> closed_graph (bd_nodes st, bd_edges st)"

lemma jm_has_ids: "jm_has m i \<longleftrightarrow> i \<in> set (map fst m)"
  by (metis jm_has_def map_of_eq_None_iff set_map)

lemma add_saga_command_ok:
  assumes "building_ok st" and "jm_has (bd_index st) (nodeId SagaNode s)"
  shows "building_ok (add_saga_command s c st)" and "jm_has (bd_index (add_saga_command s c st)) (nodeId SagaNode s)"
proof -
  have ids: "set (map fst (bd_index st)) = gn_id ` set (bd_nodes st)"
    using assms(1) [unfolded building_ok_def, THEN conjunct1, THEN arg_cong [of _ _ set]] by (rule trans) (rule set_map)
  have saga: "nodeId SagaNode s \<in> gn_id ` set (bd_nodes st)" using assms(2) unfolding jm_has_ids ids .
  show "building_ok (add_saga_command s c st)"
  proof (cases "jm_has (bd_index st) (nodeId CommandNode c)")
    case True
    then have "nodeId CommandNode c \<in> gn_id ` set (bd_nodes st)" unfolding jm_has_ids ids .
    with True assms(1) saga show ?thesis
      by (auto simp: add_saga_command_def Let_def building_ok_def closed_graph_def)
  next
    case False
    then have new: "nodeId CommandNode c \<notin> gn_id ` set (bd_nodes st)" unfolding jm_has_ids ids .
    have "jm_get (bd_index st) (nodeId CommandNode c) = None" using False by (simp add: jm_has_iff)
    with False new assms(1) saga show ?thesis
      by (auto simp: add_saga_command_def Let_def building_ok_def closed_graph_def jm_set_new)
  qed
  show "jm_has (bd_index (add_saga_command s c st)) (nodeId SagaNode s)"
    using assms(2) by (simp add: add_saga_command_def Let_def jm_has_iff)
qed

lemma add_saga_ok: "building_ok st \<Longrightarrow> building_ok (add_saga entry st)"
proof -
  have "building_ok st \<Longrightarrow> jm_has (bd_index st) (nodeId SagaNode s) \<Longrightarrow> building_ok (fold (add_saga_command s) cs st)" for s cs st
    by (induction cs arbitrary: st) (auto intro: add_saga_command_ok)
  then show "building_ok st \<Longrightarrow> building_ok (add_saga entry st)"
    by (simp add: add_saga_def split: prod.splits)
qed

lemma fold_building_ok: "building_ok st \<Longrightarrow> building_ok (fold add_saga commands st)"
  by (induction commands arbitrary: st) (simp_all add: add_saga_ok)

lemma closed_filter:
  assumes "closed_graph g"
  shows "closed_graph (filter P (fst g), keep_edges (filter P (fst g)) (snd g))"
  using assms by (auto simp: closed_graph_def keep_edges_def Let_def distinct_map_filter list_all_iff)

lemma closed_scope: "closed_graph g \<Longrightarrow> closed_graph (scope_filter scope g)"
  using closed_filter by (simp add: scope_filter_def Let_def)

lemma closed_isolated: "closed_graph g \<Longrightarrow> closed_graph (isolated_filter g)"
  using closed_filter by (simp add: isolated_filter_def Let_def)

lemma degrees_pos:
  "(case jm_get (degrees edges) i of None \<Rightarrow> 0 | Some k \<Rightarrow> k) > 0 \<longleftrightarrow> (\<exists>e \<in> set edges. ge_from e = i \<or> ge_to e = i)"
proof -
  let ?deg = "\<lambda>m. (case jm_get m i of None \<Rightarrow> 0 | Some k \<Rightarrow> (k :: nat))"
  have count: "?deg (count_edge j m) = (if j = i then Suc (?deg m) else ?deg m)" for j m
    by (simp add: count_edge_def)
  have "0 < ?deg (fold (\<lambda>e m. count_edge (ge_to e) (count_edge (ge_from e) m)) edges m) \<longleftrightarrow>
      0 < ?deg m \<or> (\<exists>e \<in> set edges. ge_from e = i \<or> ge_to e = i)" for m
    by (induction edges arbitrary: m) (auto simp: count)
  then show ?thesis by (simp add: degrees_def)
qed

text \<open>Hiding isolated nodes loses no edge and leaves no node without one.\<close>

lemma isolated_filter_exact:
  assumes "closed_graph g"
  shows "snd (isolated_filter g) = snd g"
    and "n \<in> set (fst (isolated_filter g)) \<longleftrightarrow>
      n \<in> set (fst g) \<and> (\<exists>e \<in> set (snd g). ge_from e = gn_id n \<or> ge_to e = gn_id n)"
proof -
  show "n \<in> set (fst (isolated_filter g)) \<longleftrightarrow>
      n \<in> set (fst g) \<and> (\<exists>e \<in> set (snd g). ge_from e = gn_id n \<or> ge_to e = gn_id n)" for n
    by (simp add: isolated_filter_def Let_def degrees_pos)
  then have kept: "n \<in> set (fst (isolated_filter g))" if "n \<in> set (fst g)" "e \<in> set (snd g)" "ge_from e = gn_id n \<or> ge_to e = gn_id n" for n e
    using that by blast
  have "ge_from e \<in> gn_id ` set (fst (isolated_filter g)) \<and> ge_to e \<in> gn_id ` set (fst (isolated_filter g))"
    if "e \<in> set (snd g)" for e
  proof -
    from that assms obtain a b where "a \<in> set (fst g)" "ge_from e = gn_id a" "b \<in> set (fst g)" "ge_to e = gn_id b"
      unfolding closed_graph_def by blast
    with kept [of a e] kept [of b e] that show ?thesis by auto
  qed
  moreover have "snd (isolated_filter g) = keep_edges (fst (isolated_filter g)) (snd g)"
    by (simp add: isolated_filter_def Let_def)
  ultimately show "snd (isolated_filter g) = snd g"
    by (simp add: keep_edges_def Let_def)
qed

lemma built_ok:
  "building_ok (fold add_saga commands
     \<lparr>bd_index = in_nodes (introspectDomain d), bd_nodes = map snd (in_nodes (introspectDomain d)),
      bd_edges = in_edges (introspectDomain d), bd_warnings = warnings\<rparr>)"
proof -
  let ?st = "introspectDomain d"
  have keys: "map gn_id (map snd (in_nodes ?st)) = map fst (in_nodes ?st)"
    using introspect_ok [of d] by (auto simp: intro_ok_def)
  then have ends: "gn_id ` set (map snd (in_nodes ?st)) = ids ?st" by (metis set_map)
  have "list_all canonical (map snd (in_nodes ?st))"
    using introspect_ok [of d] by (auto simp: intro_ok_def list_all_iff)
  moreover have "distinct (map fst (in_nodes ?st))" using introspect_ok [of d] by (simp add: intro_ok_def jm_ok_def)
  moreover have "\<forall>e \<in> set (in_edges ?st). ge_from e \<in> ids ?st \<and> ge_to e \<in> ids ?st"
    using introspect_ok [of d] by (simp add: intro_ok_def)
  ultimately have "building_ok \<lparr>bd_index = in_nodes ?st, bd_nodes = map snd (in_nodes ?st),
      bd_edges = in_edges ?st, bd_warnings = warnings\<rparr>"
    by (simp only: building_ok_def closed_graph_def building.select_convs fst_conv snd_conv keys ends simp_thms)
  then show ?thesis using fold_building_ok by blast
qed

text \<open>C37: Every diagram is a well-formed graph. For any domain, scope and result of the static analysis,
  the nodes of the diagram have distinct, canonical identifiers, every edge joins two nodes of the
  diagram, and with hideIsolated set no node is left without an edge.\<close>
theorem diagram_closed:
  "let g = buildDomainGraph analyze d options injected in
     distinct (map gn_id (dg_nodes g)) \<and>
     list_all canonical (dg_nodes g) \<and>
     list_all (\<lambda>e. ge_from e \<in> gn_id ` set (dg_nodes g) \<and> ge_to e \<in> gn_id ` set (dg_nodes g)) (dg_edges g) \<and>
     (do_hideIsolated options = Some True \<longrightarrow>
        list_all (\<lambda>n. list_ex (\<lambda>e. ge_from e = gn_id n \<or> ge_to e = gn_id n) (dg_edges g)) (dg_nodes g))"
proof -
  obtain commands warnings where c: "saga_commands analyze injected (map fst (sh_sagas d)) = (commands, warnings)"
    by (cases "saga_commands analyze injected (map fst (sh_sagas d))")
  let ?built = "fold add_saga commands
    \<lparr>bd_index = in_nodes (introspectDomain d), bd_nodes = map snd (in_nodes (introspectDomain d)),
     bd_edges = in_edges (introspectDomain d), bd_warnings = warnings\<rparr>"
  define scoped where "scoped = scope_filter (case do_scope options of None \<Rightarrow> AllScope | Some sc \<Rightarrow> sc)
    (bd_nodes ?built, bd_edges ?built)"
  define filtered where "filtered = (if do_hideIsolated options = Some True then isolated_filter scoped else scoped)"
  have scoped: "closed_graph scoped"
    using built_ok [of commands d warnings] closed_scope unfolding building_ok_def scoped_def by blast
  then have closed: "closed_graph filtered" by (simp add: filtered_def closed_isolated)
  have isolated: "do_hideIsolated options = Some True \<Longrightarrow> n \<in> set (fst filtered) \<Longrightarrow>
      \<exists>e \<in> set (snd filtered). ge_from e = gn_id n \<or> ge_to e = gn_id n" for n
    using isolated_filter_exact [OF scoped] by (simp add: filtered_def)
  have "(case do_hideIsolated options of None \<Rightarrow> False | Some b \<Rightarrow> b) \<longleftrightarrow> do_hideIsolated options = Some True"
    by (simp split: option.splits)
  then have "dg_nodes (buildDomainGraph analyze d options injected) = fst filtered"
    "dg_edges (buildDomainGraph analyze d options injected) = snd filtered"
    by (simp_all add: buildDomainGraph_def c Let_def filtered_def scoped_def)
  with closed isolated show ?thesis
    by (simp add: Let_def closed_graph_def list_all_iff list_ex_iff)
qed

definition sample_shape :: domain_shape where
  "sample_shape =
     \<lparr>sh_aggregates = [(''Auction'', Some \<lparr>sh_decide = [''PlaceBid''], sh_evolve = [''BidPlaced'']\<rparr>), (''Idle'', Some \<lparr>sh_decide = [], sh_evolve = []\<rparr>)],
      sh_projections = [], sh_sagas = [(''Settle'', Some \<lparr>sh_startedBy = [''BidPlaced''], sh_sagaOn = [''BidPlaced'']\<rparr>)]\<rparr>"

theorem diagram_closed_witness:
  "let g = buildDomainGraph (\<lambda>_. ([], [])) sample_shape \<lparr>do_scope = None, do_hideIsolated = Some True\<rparr> (Some [(''Settle'', [''Pay''])])
   in map gn_label (dg_nodes g) = [''Auction'', ''PlaceBid'', ''BidPlaced'', ''Settle'', ''Pay''] \<and> length (dg_edges g) = 4 \<and>
      list_all (\<lambda>n. list_ex (\<lambda>e. ge_from e = gn_id n \<or> ge_to e = gn_id n) (dg_edges g)) (dg_nodes g)"
proof -
  let ?o = "\<lparr>do_scope = None, do_hideIsolated = Some True\<rparr>"
  let ?g = "buildDomainGraph (\<lambda>_. ([], [])) sample_shape ?o (Some [(''Settle'', [''Pay''])])"
  have "map gn_label (dg_nodes ?g) = [''Auction'', ''PlaceBid'', ''BidPlaced'', ''Settle'', ''Pay''] \<and> length (dg_edges ?g) = 4"
    by code_simp
  then show ?thesis
    using diagram_closed [of "\<lambda>_. ([], [])" sample_shape ?o "Some [(''Settle'', [''Pay''])]"] by (simp add: Let_def)
qed

text \<open>Without filters the edges are those of the definition, then one per command of each saga that the
  definition has.\<close>

definition static_edges :: "domain_shape \<Rightarrow> string \<times> string list \<Rightarrow> graph_edge list" where
  "static_edges d entry =
     (case entry of (s, cs) \<Rightarrow>
        if list_ex (\<lambda>e. fst e = s \<and> snd e \<noteq> None) (sh_sagas d)
        then map (\<lambda>c. \<lparr>ge_from = nodeId SagaNode s, ge_to = nodeId CommandNode c, ge_source = StaticEdge\<rparr>) cs else [])"

lemma add_saga_command_facts:
  "bd_edges (add_saga_command s c st) = bd_edges st @ [\<lparr>ge_from = nodeId SagaNode s, ge_to = nodeId CommandNode c, ge_source = StaticEdge\<rparr>]"
  "jm_has (bd_index (add_saga_command s c st)) (nodeId SagaNode t) \<longleftrightarrow> jm_has (bd_index st) (nodeId SagaNode t)"
  by (auto simp: add_saga_command_def Let_def jm_has_iff)

lemma add_saga_facts:
  "jm_has (bd_index (add_saga entry st)) (nodeId SagaNode t) \<longleftrightarrow> jm_has (bd_index st) (nodeId SagaNode t)"
  "bd_edges (add_saga (s, cs) st) = bd_edges st @
     (if jm_has (bd_index st) (nodeId SagaNode s)
      then map (\<lambda>c. \<lparr>ge_from = nodeId SagaNode s, ge_to = nodeId CommandNode c, ge_source = StaticEdge\<rparr>) cs else [])"
proof -
  have *: "jm_has (bd_index (fold (add_saga_command u) ks st)) (nodeId SagaNode t) \<longleftrightarrow> jm_has (bd_index st) (nodeId SagaNode t)" for u ks st
    by (induction ks arbitrary: st) (simp_all add: add_saga_command_facts)
  show "jm_has (bd_index (add_saga entry st)) (nodeId SagaNode t) \<longleftrightarrow> jm_has (bd_index st) (nodeId SagaNode t)"
    by (simp add: add_saga_def * split: prod.splits)
  have "bd_edges (fold (add_saga_command s) ks st) = bd_edges st @
      map (\<lambda>c. \<lparr>ge_from = nodeId SagaNode s, ge_to = nodeId CommandNode c, ge_source = StaticEdge\<rparr>) ks" for ks st
    by (induction ks arbitrary: st) (simp_all add: add_saga_command_facts)
  then show "bd_edges (add_saga (s, cs) st) = bd_edges st @
     (if jm_has (bd_index st) (nodeId SagaNode s)
      then map (\<lambda>c. \<lparr>ge_from = nodeId SagaNode s, ge_to = nodeId CommandNode c, ge_source = StaticEdge\<rparr>) cs else [])"
    by (simp add: add_saga_def)
qed

lemma full_diagram_edges:
  "dg_edges (buildDomainGraph analyze d \<lparr>do_scope = None, do_hideIsolated = None\<rparr> (Some commands)) =
     concat (map aggregate_edges (sh_aggregates d)) @ concat (map projection_edges (sh_projections d)) @
     concat (map saga_edges (sh_sagas d)) @ concat (map (static_edges d) commands)"
proof -
  have known: "jm_has (in_nodes (introspectDomain d)) (nodeId SagaNode s) \<longleftrightarrow>
      list_ex (\<lambda>e. fst e = s \<and> snd e \<noteq> None) (sh_sagas d)" for s
  proof -
    have "list_ex (\<lambda>e. fst e = s \<and> snd e \<noteq> None) (sh_sagas d) \<longleftrightarrow> (\<exists>sg. (s, Some sg) \<in> set (sh_sagas d))"
      by (force simp: list_ex_iff)
    then show ?thesis using saga_node_ids [of s d] unfolding jm_has_ids by simp
  qed
  have "bd_edges (fold add_saga cs st) = bd_edges st @ concat (map (static_edges d) cs)"
    if "\<And>s. jm_has (bd_index st) (nodeId SagaNode s) \<longleftrightarrow> list_ex (\<lambda>e. fst e = s \<and> snd e \<noteq> None) (sh_sagas d)" for cs st
    using that
  proof (induction cs arbitrary: st)
    case Nil
    then show ?case by simp
  next
    case (Cons c cs)
    obtain s ks where c: "c = (s, ks)" by (cases c)
    show ?case using Cons.IH [of "add_saga c st"] Cons.prems
      by (simp add: c add_saga_facts static_edges_def)
  qed
  then show ?thesis
    by (simp add: buildDomainGraph_def saga_commands_def scope_filter_def Let_def known introspect_edges)
qed

section \<open>Printing\<close>

definition model_name :: "graph_node_model \<Rightarrow> string" where
  "model_name m = (case m of WriteModel \<Rightarrow> ''write'' | ReadModel \<Rightarrow> ''read'' | ProcessModel \<Rightarrow> ''process'' | ExternalModel \<Rightarrow> ''external'')"

definition model_order :: "(graph_node_model \<times> string) list" where
  "model_order = [(WriteModel, ''Write Model''), (ReadModel, ''Read Model''), (ProcessModel, ''Process Model''), (ExternalModel, ''External'')]"

definition mermaidId :: "string \<Rightarrow> string" where
  "mermaidId canonicalId = map (\<lambda>c. if c = CHR '':'' then CHR ''_'' else c) canonicalId"

definition boxed_kind :: "graph_node_kind \<Rightarrow> bool" where
  "boxed_kind k \<longleftrightarrow> k \<in> set [AggregateNode, ProjectionNode, SagaNode]"

definition renderNode :: "graph_node \<Rightarrow> string" where
  "renderNode n =
     (if boxed_kind (gn_kind n) then mermaidId (gn_id n) @ ''[['' @ dquoted (gn_label n) @ '']]''
      else mermaidId (gn_id n) @ ''(['' @ dquoted (gn_label n) @ ''])'')"

definition classFor :: "graph_node_kind \<Rightarrow> graph_node_model \<Rightarrow> string" where
  "classFor kind model = (if model = ExternalModel then ''externalCmd'' else kind_name kind)"

definition renderClassDefs :: "string list" where
  "renderClassDefs =
     [''  classDef command fill:#dbeafe,stroke:#1e40af,color:#1e3a8a;'',
      ''  classDef event fill:#fef3c7,stroke:#a16207,color:#713f12;'',
      ''  classDef query fill:#dcfce7,stroke:#166534,color:#14532d;'',
      ''  classDef aggregate fill:#e0e7ff,stroke:#3730a3,color:#312e81,stroke-width:2px;'',
      ''  classDef projection fill:#ccfbf1,stroke:#115e59,color:#134e4a,stroke-width:2px;'',
      ''  classDef saga fill:#fce7f3,stroke:#9d174d,color:#831843,stroke-width:2px;'',
      ''  classDef externalCmd fill:#fee2e2,stroke:#b91c1c,color:#7f1d1d,stroke-dasharray:4 4;'']"

definition mermaid_group :: "graph_node list \<Rightarrow> graph_node_model \<times> string \<Rightarrow> string list" where
  "mermaid_group nodes entry =
     (case entry of (model, title) \<Rightarrow>
        let ns = filter (\<lambda>n. gn_model n = model) nodes
        in if length ns = 0 then []
           else (''  subgraph model_'' @ model_name model @ ''['' @ dquoted title @ '']'') #
             map (\<lambda>n. ''    '' @ renderNode n) ns @ [''  end''])"

definition emitMermaid :: "domain_graph \<Rightarrow> string" where
  "emitMermaid graph =
     unlines ([''flowchart LR''] @ renderClassDefs @ concat (map (mermaid_group (dg_nodes graph)) model_order) @
       map (\<lambda>e. ''  '' @ mermaidId (ge_from e) @ '' '' @ (if ge_source e = StaticEdge then ''-.->'' else ''-->'') @ '' '' @
         mermaidId (ge_to e)) (dg_edges graph) @
       map (\<lambda>n. ''  class '' @ mermaidId (gn_id n) @ '' '' @ classFor (gn_kind n) (gn_model n) @ '';'') (dg_nodes graph))"

definition shapeFor :: "graph_node \<Rightarrow> string" where
  "shapeFor n = (if boxed_kind (gn_kind n) then ''box3d'' else ''ellipse'')"

definition escapeLabel :: "string \<Rightarrow> string" where
  "escapeLabel s = concat (map (\<lambda>c. if c = CHR 0x22 then [CHR 0x5C, c] else [c]) s)"

definition dot_group :: "graph_node list \<Rightarrow> graph_node_model \<times> string \<Rightarrow> string list" where
  "dot_group nodes entry =
     (case entry of (model, title) \<Rightarrow>
        let ns = filter (\<lambda>n. gn_model n = model) nodes
        in if length ns = 0 then []
           else [''  subgraph cluster_'' @ model_name model @ '' {'', ''    label='' @ dquoted title @ '';''] @
             map (\<lambda>n. ''    '' @ dquoted (gn_id n) @ '' [label='' @ dquoted (escapeLabel (gn_label n)) @
               '', shape='' @ shapeFor n @ ''];'') ns @ [''  }''])"

definition emitDot :: "domain_graph \<Rightarrow> string" where
  "emitDot graph =
     unlines ([''digraph G {'', ''  rankdir=LR;'', ''  node [shape=box];''] @
       concat (map (dot_group (dg_nodes graph)) model_order) @
       map (\<lambda>e. ''  '' @ dquoted (ge_from e) @ '' -> '' @ dquoted (ge_to e) @
         (if ge_source e = StaticEdge then '' [style='' @ dquoted ''dashed'' @ '']'' else []) @ '';'') (dg_edges graph) @
       [''}''])"

text \<open>Grouping by model prints every node exactly once.\<close>

lemma groups_partition:
  "mset (concat (map (\<lambda>(model, title). filter (\<lambda>n. gn_model n = model) nodes) model_order)) = mset nodes"
proof (induction nodes)
  case Nil
  then show ?case by (simp add: model_order_def)
next
  case (Cons n ns)
  then show ?case by (cases "gn_model n") (simp_all add: model_order_def)
qed

text \<open>The identifiers of Mermaid can collide: a colon in a name is no different from an underscore, and
  two commands become one node.\<close>

lemma mermaid_ids_collide:
  "mermaidId (nodeId CommandNode ''auction:open'') = mermaidId (nodeId CommandNode ''auction_open'')"
  "nodeId CommandNode ''auction:open'' \<noteq> nodeId CommandNode ''auction_open''"
  by (code_simp, simp)

text \<open>They are distinct for names without colons.\<close>

lemma mermaid_ids_inject:
  assumes "mermaidId (nodeId k n) = mermaidId (nodeId k' n')" and "CHR '':'' \<notin> set n" and "CHR '':'' \<notin> set n'"
  shows "k = k' \<and> n = n'"
proof -
  have same: "map (\<lambda>c. if c = CHR '':'' then CHR ''_'' else c) m = m" if "CHR '':'' \<notin> set m" for m
    using that by (intro map_idI) auto
  from assms(1) have "kind_name k @ CHR ''_'' # n = kind_name k' @ CHR ''_'' # n'"
    using same [OF assms(2)] same [OF assms(3)]
    by (cases k; cases k'; simp add: mermaidId_def nodeId_def kind_name_def)
  then show ?thesis by (cases k; cases k'; simp add: kind_name_def)
qed

end
