(* ===== verification/Spec2Isabelle.thy ===== *)
theory Spec2Isabelle
  imports Domain Hash_Uuid Rabbit_Chains Kafka Nats Sql_Log Sql_Outbox Sql_Locks Sql_Dedicated Sql_Sync Sql_Lockers Sql_Builders Harness Startup Cli_Add Diagram
begin

text \<open>
  A verification development for noddde, a TypeScript framework for domain-driven design with
  command/query separation and event sourcing. Paths are relative to \<^verbatim>\<open>src/packages\<close>;
  \<^verbatim>\<open>engine\<close> and \<^verbatim>\<open>core\<close> stand for \<^verbatim>\<open>engine/src\<close> and \<^verbatim>\<open>core/src\<close>.

  \<^bold>\<open>The program.\<close> A domain consists of aggregates (a state, \<^verbatim>\<open>decide\<close> handlers that turn a
  command into events and \<^verbatim>\<open>evolve\<close> handlers that fold events into the state), projections
  (views reduced from events), sagas (process managers that react to events with commands) and
  standalone handlers. \<^verbatim>\<open>wireDomain\<close> resolves the infrastructure, registers all handlers and
  returns a running \<^verbatim>\<open>Domain\<close>. A dispatched command runs through the lifecycle executor: load
  the aggregate, decide, enrich the events with metadata, enlist the save in a unit of work,
  commit, publish. Commands dispatched inside \<^verbatim>\<open>withUnitOfWork\<close> or by an atomic saga join the
  enclosing unit of work instead. Published events reach projections, sagas and standalone
  handlers over the event bus; an outbox and its relay publish what a crash left unpublished.

  \<^bold>\<open>The model.\<close> An \<^verbatim>\<open>async\<close> method is an action: a function from a state to an error or
  result and the state it leaves (\<^verbatim>\<open>Prelude\<close>); awaiting is sequencing, a throw keeps the
  effects made before it, and \<^verbatim>\<open>try\<close>/\<^verbatim>\<open>catch\<close>/\<^verbatim>\<open>finally\<close> are combinators. A
  \<^verbatim>\<open>Map\<close> is an association list in insertion order. User code (handlers, reducers, upcasters)
  and third-party code (a database transaction, a message bus) are arguments of the definitions.
  Clocks, random bytes and generated identifiers are arguments or parts of the state. Where the
  interleaving of callers matters there is a step relation: \<^verbatim>\<open>lock_step\<close> for the
  in-memory locker, \<^verbatim>\<open>gate_step\<close> for the shutdown gate, \<^verbatim>\<open>mutex_step\<close> for the keyed
  mutex of the advisory lockers, \<^verbatim>\<open>sync_step\<close> for the commits on one SQLite connection and the steps of \<^verbatim>\<open>Rabbit_Chains\<close> for the deliveries of one
  queue; for the stores it is a sequence of requests. What client libraries and databases do is a
  record of operations, and what their documentation promises is a locale over it; every locale is
  interpreted on the model's own definitions or on a concrete list-backed instance that they run on.

  \<^bold>\<open>Theories.\<close>
    \<^item> \<^verbatim>\<open>Prelude\<close>: JavaScript values, identifiers, errors, actions, maps; the collections
      \<^verbatim>\<open>act\<close> and \<^verbatim>\<open>jmap\<close>.
    \<^item> \<^verbatim>\<open>Messages\<close>: \<^verbatim>\<open>core/edd/event.ts\<close>, \<^verbatim>\<open>event-metadata.ts\<close>,
      \<^verbatim>\<open>core/cqrs\<close>: the records that travel.
    \<^item> \<^verbatim>\<open>Upcasting\<close>: \<^verbatim>\<open>core/edd/upcaster.ts\<close>; upcasting composes over schema versions.
    \<^item> \<^verbatim>\<open>Stores\<close>: the in-memory event, state, saga and snapshot stores. Two locales state
      the contracts of an event stream and of a versioned cell (load, save with an expected
      version) and derive the history theorems; a third, weaker one is what optimistic concurrency
      alone gives, and the SQL stores meet it too. No update is lost, a stale writer is refused,
      instances are isolated as long as names contain no colon.
    \<^item> \<^verbatim>\<open>Unit_Of_Work\<close>: \<^verbatim>\<open>in-memory-unit-of-work.ts\<close>, the completion hooks, and the commit
      of the TypeORM adapter over a transaction function specified by a locale: order, atomicity and
      single use.
    \<^item> \<^verbatim>\<open>Idempotency\<close>: both deduplication stores and \<^verbatim>\<open>withIdempotency\<close>.
    \<^item> \<^verbatim>\<open>Outbox\<close>: the outbox store and the relay. \<^verbatim>\<open>drain\<close> is a partial function whose
      undefined value means that the loop does not end. It returns when the event handlers add
      entries only for events of smaller rank than the one they handle, by the multiset order on the
      pending entries; handlers that leave the outbox alone get every entry once and in order.
    \<^item> \<^verbatim>\<open>Locker\<close>: the in-memory lock queue; mutual exclusion, no lost wake-ups and first-in
      first-out order over every interleaving of acquires, releases and timeouts.
    \<^item> \<^verbatim>\<open>Concurrency\<close>: \<^verbatim>\<open>concurrency-strategy.ts\<close>: bounded retries, locks held for the
      attempt or until the unit of work settles.
    \<^item> \<^verbatim>\<open>Buses\<close>: logger levels, the event bus (handlers are isolated from each other), and the
      command and query buses as instances of one registry contract.
    \<^item> \<^verbatim>\<open>Projection\<close>: view stores and their contract as a locale, live projection, and
      \<^verbatim>\<open>projection-rebuild.ts\<close>: a rebuild restores what live delivery builds.
    \<^item> \<^verbatim>\<open>Enricher\<close>: \<^verbatim>\<open>executors/metadata-enricher.ts\<close>.
    \<^item> \<^verbatim>\<open>Command_Executor\<close>: \<^verbatim>\<open>executors/command-lifecycle-executor.ts\<close> and
      \<^verbatim>\<open>aggregate-persistence-resolver.ts\<close>: snapshots are transparent, a command's effect can
      be read back, duplicates are ignored, rejected commands leave no trace, of two interleaved
      commands one is refused.
    \<^item> \<^verbatim>\<open>Saga_Executor\<close>: \<^verbatim>\<open>executors/saga-executor.ts\<close>: the atomic and the best-effort
      mode.
    \<^item> \<^verbatim>\<open>Wiring\<close>: the resolution steps of \<^verbatim>\<open>Domain.init\<close> in \<^verbatim>\<open>domain.ts\<close>, the
      callbacks it composes, and \<^verbatim>\<open>wireDomain\<close>.
    \<^item> \<^verbatim>\<open>Subscriptions\<close>: init steps 8 to 12: which handlers an event or a query reaches.
    \<^item> \<^verbatim>\<open>Domain\<close>: the operation gate and shutdown, \<^verbatim>\<open>withUnitOfWork\<close>, the routing of
      commands and queries, the checks of \<^verbatim>\<open>rebuildProjection\<close>.
    \<^item> \<^verbatim>\<open>Hash_Uuid\<close>: \<^verbatim>\<open>core/persistence/hash.ts\<close> against 64-bit words, and
      \<^verbatim>\<open>engine/uuid.ts\<close>: identifiers sort by time.
    \<^item> \<^verbatim>\<open>Json\<close>: \<^verbatim>\<open>JSON.stringify\<close> and \<^verbatim>\<open>JSON.parse\<close> on the values of the model,
      with their round trip, and the shape of an event on the wire.
    \<^item> \<^verbatim>\<open>Broker\<close>: what the three broker buses share: all handlers run, the first rejection
      wins, capped exponential backoff; and the contract of redelivery, for a broker with a window
      of outstanding messages.
    \<^item> \<^verbatim>\<open>Rabbitmq\<close>, \<^verbatim>\<open>Rabbit_Chains\<close>: \<^verbatim>\<open>adapters/rabbitmq\<close>: connecting with
      retries leaks no connection, a queue is worked off in order when one message is delivered at
      a time, and in general the deliveries of one aggregate never overlap.
    \<^item> \<^verbatim>\<open>Kafka\<close>: \<^verbatim>\<open>adapters/kafka\<close>: what is registered is subscribed, a partition drains
      in order with retries and a dead-letter topic as long as handlers reject with errors that can
      be marked retriable (any other rejection stops the consumer), the warmup round trip.
    \<^item> \<^verbatim>\<open>Nats\<close>: \<^verbatim>\<open>adapters/nats\<close>: subjects and streams, a consumer with one outstanding
      message is worked off in order.
    \<^item> \<^verbatim>\<open>Sql\<close>: driver errors, affected-row counts, tables as records of statements, and the
      locale \<^verbatim>\<open>sql_semantics\<close> of what the adapters rely on; \<^verbatim>\<open>list_table\<close> meets it.
    \<^item> \<^verbatim>\<open>Sql_State\<close>, \<^verbatim>\<open>Sql_Events\<close>: the state, saga, snapshot and event stores of the
      Drizzle, TypeORM and Prisma adapters refine the in-memory ones; where they do not, the
      difference is a theorem.
    \<^item> \<^verbatim>\<open>Sql_Log\<close>: the paged readers of the whole event log end and miss nothing.
    \<^item> \<^verbatim>\<open>Sql_Outbox\<close>: the outbox and event idempotency stores of the adapters.
    \<^item> \<^verbatim>\<open>Sql_Locks\<close>: the keyed mutex and the PostgreSQL and MySQL advisory lockers of
      Drizzle.
    \<^item> \<^verbatim>\<open>Sql_Lockers\<close>: the lockers of TypeORM (with MSSQL) and Prisma, the seven lockers as
      instances of one contract, and the session a locker pins.
    \<^item> \<^verbatim>\<open>Sql_Dedicated\<close>: per-aggregate state tables and the JSON mappers.
    \<^item> \<^verbatim>\<open>Sql_Units\<close>: the commit of the Drizzle unit of work.
    \<^item> \<^verbatim>\<open>Sql_Sync\<close>: the queue that serialises the commits on one synchronous connection.
    \<^item> \<^verbatim>\<open>Sql_Builders\<close>: how the three adapters put their stores together: tables, native
      JSON columns per dialect, dedicated stores, the locker.
    \<^item> \<^verbatim>\<open>Harness\<close>: \<^verbatim>\<open>packages/testing\<close>: what the harnesses report is what the engine
      does, and events the engine enriches pass the metadata assertions.
    \<^item> \<^verbatim>\<open>Startup\<close>: the other steps of \<^verbatim>\<open>Domain.init\<close> (first steps, stores, upcaster
      chains, buses, components) and \<^verbatim>\<open>_performShutdown\<close> with a clock: one deadline for both
      waits, every component closed.
    \<^item> \<^verbatim>\<open>Cli_Names\<close>, \<^verbatim>\<open>Cli_Files\<close>, \<^verbatim>\<open>Cli_Add\<close>: of \<^verbatim>\<open>packages/cli\<close>, the naming
      rules, the edits of source files and the generators that extend an aggregate or a projection:
      directory names determine all names, adding a command twice changes nothing.
    \<^item> \<^verbatim>\<open>Diagram\<close>: \<^verbatim>\<open>packages/cli/src/diagram\<close>: introspection, filters and printers; every
      diagram is a well-formed graph.
    \<^item> This theory: the lemma that spans the subscriptions and the rebuild.

  \<^bold>\<open>Bounds.\<close> Loops are structural recursion, except four. The drain loop, the paged readers and
  the polling of an advisory lock are partial functions whose undefined value means that the loop
  does not end; that they return is a theorem for each. The JSON parser takes twice the length of
  its text plus two as fuel, which the round trip shows to be enough for every text the printer
  writes. A queue of a broker is run for the number of deliveries its retry limit allows, which the
  drain theorems show to be enough. Versions, counts and timestamps are unbounded integers (the
  source computes with safe integers); bit widths are kept in \<^verbatim>\<open>Hash_Uuid\<close>, whose ordering
  lemma is limited to the 48-bit range of the timestamp field. JSON numbers are integers and strings
  are lists of 8-bit code units. A wait that is never resumed is the outcome \<^verbatim>\<open>NeverSettles\<close>.

  \<^bold>\<open>Not modelled.\<close> Tracing spans and log texts only observe. Of the broker buses,
  overlapping calls of \<^verbatim>\<open>connect\<close>, and other work that runs at an \<^verbatim>\<open>await\<close> inside one
  operation. Of the SQL adapters, the declarations of tables and entities, and the driver
  packages that a locker loads when it is built from a URL. The SQL engines and client libraries themselves are parameters, as is the analysis of
  saga commands by the TypeScript compiler. Of the CLI, the command line, the prompts, the directory
  scans and the templates of new projects; the NestJS module, the contract suites and the samples:
  text output, dependency injection, tests, examples.

  \<^bold>\<open>Scope.\<close> A property names its assumptions in the text before it. Those that recur: the
  executors are the in-memory ones with optimistic concurrency, called outside any enclosing unit
  of work, on a command whose id is not claimed; the values stored by the SQL adapters are the ones
  JSON can carry, and with native JSON columns no strings; handlers settle.
\<close>

section \<open>Rebuilding in a running domain\<close>

text \<open>Rebuilding a projection never loses or duplicates a subscription of the running domain. For a
  bus and a registry as init leaves them, whatever projection is rebuilt and however the rebuild
  ends (refused, failed in the middle or completed), afterwards every event name has exactly the
  handlers it had before, so every projection, saga and standalone handler keeps receiving events.\<close>
lemma rebuild_keeps_live_delivery:
  assumes "st = subscribe_all exec projections sagas standalone no_subscriptions"
    and "rb_supportsOff rb" and "rb_subscriptions rb = sb_registry st"
    and "rebuildProjection rb name options (sb_bus st, w) = (r, (bus', w'))"
  shows "mset (ee_handlers bus' n) = mset (ee_handlers (sb_bus st) n)"
proof (cases "rebuild_checks rb name options")
  case (Inl e)
  with assms(4) show ?thesis by (simp add: rebuildProjection_def act)
next
  case (Inr ctx)
  then have run: "rebuildProjectionImpl ctx options (sb_bus st, w) = (r, (bus', w'))"
    using assms(4) by (simp add: rebuildProjection_def act)
  have ctx: "rc_supportsOff ctx" "rc_subscriptions ctx = sb_registry st" "rc_projectionName ctx = name"
    using Inr assms(2,3) by (auto simp: rebuild_checks_def split: if_splits option.splits)
  have inv: "registry_inv st" unfolding assms(1) by (rule registry_inv_all)
  show ?thesis
  proof (cases "jm_get (sb_registry st) name")
    case None
    with run ctx show ?thesis by (auto simp: rebuildProjectionImpl_def on_snd_def split: prod.splits)
  next
    case (Some subs)
    with inv have subs: "jm_ok subs" "\<And>h. jm_get subs n = Some h \<Longrightarrow> h \<in> set (ee_handlers (sb_bus st) n)"
      and ids: "distinct (map hd_id (ee_handlers (sb_bus st) n))"
      unfolding registry_inv_def by blast+
    have "jm_get (rc_subscriptions ctx) (rc_projectionName ctx) = Some subs" using Some ctx by simp
    from rebuild_reattaches [OF ctx(1) this subs(1) run, of n] subs(2) ids show ?thesis by blast
  qed
qed

definition sample_subscriptions :: "(view_map \<times> unit) subscriptions" where
  "sample_subscriptions = subscribe_all (\<lambda>n (sg :: unit saga) ev w. (Inr (), w))
     [(''P'', (sample_projection, Some (mv_getForContext False)))] [] [(''Opened'', \<lambda>ev w. (Inr (), w))] no_subscriptions"

definition sample_rebuild_domain :: "(view_map \<times> unit) rebuild_domain" where
  "sample_rebuild_domain =
     \<lparr>rb_shuttingDown = False, rb_projections = [(''P'', sample_projection)], rb_factories = [(''P'', mv_getForContext)],
      rb_adapterReader = Some (\<lambda>_. ([log_event ''Opened'' 1], Some (UserError ''connection lost''))),
      rb_resolver = PerAggregateResolver [], rb_aggregates = [], rb_supportsOff = True,
      rb_subscriptions = sb_registry sample_subscriptions, rb_startMs = 0, rb_endMs = 5\<rparr>"

lemma rebuild_keeps_live_delivery_sample:
  "mset (map hd_id (ee_handlers (fst (snd (rebuildProjection sample_rebuild_domain ''P''
     \<lparr>po_progressInterval = None, po_onProgress = None\<rparr> (sb_bus sample_subscriptions, ([], ()))))) ''Opened'')) =
   {#0, 2#}"
proof -
  let ?out = "rebuildProjection sample_rebuild_domain ''P'' \<lparr>po_progressInterval = None, po_onProgress = None\<rparr>
     (sb_bus sample_subscriptions, ([], ()))"
  have "?out = (fst ?out, (fst (snd ?out), snd (snd ?out)))" by simp
  note run = this
  have "mset (ee_handlers (fst (snd ?out)) ''Opened'') = mset (ee_handlers (sb_bus sample_subscriptions) ''Opened'')"
    by (rule rebuild_keeps_live_delivery [OF sample_subscriptions_def _ _ run])
      (simp_all add: sample_rebuild_domain_def)
  moreover have "map hd_id (ee_handlers (sb_bus sample_subscriptions) ''Opened'') = [0, 2]" by code_simp
  ultimately show ?thesis by (simp add: mset_map) (simp flip: mset_map)
qed

end
